(* ===== verification/Rust_Base.thy ===== *)
theory Rust_Base
  imports Main "HOL-Library.Word"
begin

text \<open>
  The vocabulary every component shares: the integer and byte types of the Rust code, results
  with panics, the two arithmetic profiles of the compiler, reads of a slice, and the cursor view
  of a byte buffer in which the codec lemmas are stated.

  \<^item> \<open>u8\<close>, \<open>u32\<close>, \<open>i32\<close> and \<open>f32\<close> are words; an \<open>f32\<close> is its bit pattern, since the code only moves
    its four bytes. \<open>usize\<close> is a natural number with the 64-bit limit written out.
  \<^item> A Rust \<open>Result\<close> is \<open>Ok\<close>, \<open>Err\<close>; the third constructor \<open>Panic\<close> is a panic of the thread.
  \<^item> Arithmetic on \<open>usize\<close> whose operands come from the wire can overflow. What happens then
    depends on the build: with overflow checks (\<open>Debug\<close>) the thread panics, without them
    (\<open>Release\<close>) the result wraps. Such operations take the profile as an argument. Adding a
    small constant to an index that has just been read cannot overflow, since no slice is longer
    than \<open>isize::MAX\<close> bytes; those additions are plain.
\<close>

unbundle bit_operations_syntax

type_synonym u8 = "8 word"
type_synonym u32 = "32 word"
type_synonym i32 = "32 word"
type_synonym f32 = "32 word"
type_synonym usize = nat
type_synonym bytes = "u8 list"

named_theorems cursor_intros "facts that read at a cursor position"
named_theorems agree_intros "congruence of the debug and the release build"

section \<open>Results\<close>

datatype ('e, 'a) res = Ok 'a | Err 'e | Panic

primrec bind_res :: "('e, 'a) res \<Rightarrow> ('a \<Rightarrow> ('e, 'b) res) \<Rightarrow> ('e, 'b) res" where
  "bind_res (Ok x) f = f x"
| "bind_res (Err e) f = Err e"
| "bind_res Panic f = Panic"

lemma bind_res_weak_cong [cong]: "m = m' \<Longrightarrow> bind_res m f = bind_res m' f"
  by simp

lemma bind_res_fundef_cong [fundef_cong]:
  "m = m' \<Longrightarrow> (\<And>x. m' = Ok x \<Longrightarrow> f x = g x) \<Longrightarrow> bind_res m f = bind_res m' g"
  by (cases m') auto

lemma bind_res_eq_Ok: "bind_res m f = Ok y \<longleftrightarrow> (\<exists>x. m = Ok x \<and> f x = Ok y)"
  by (cases m) auto

lemma bind_res_eq_Err: "bind_res m f = Err e \<longleftrightarrow> m = Err e \<or> (\<exists>x. m = Ok x \<and> f x = Err e)"
  by (cases m) auto

lemma bind_res_eq_Panic: "bind_res m f = Panic \<longleftrightarrow> m = Panic \<or> (\<exists>x. m = Ok x \<and> f x = Panic)"
  by (cases m) auto

lemmas bind_res_eqs = bind_res_eq_Ok bind_res_eq_Err bind_res_eq_Panic

lemma bind_res_OkE:
  assumes "bind_res m f = Ok y"
  obtains x where "m = Ok x" and "f x = Ok y"
  using assms by (auto simp: bind_res_eq_Ok)

lemma bind_res_not_Panic:
  "m \<noteq> Panic \<Longrightarrow> (\<And>x. m = Ok x \<Longrightarrow> f x \<noteq> Panic) \<Longrightarrow> bind_res m f \<noteq> Panic"
  by (cases m) auto

text \<open>\<open>ok_or\<close>, and a guard that returns early with an error.\<close>

definition ok_or :: "'e \<Rightarrow> 'a option \<Rightarrow> ('e, 'a) res" where
  "ok_or e x = (case x of Some v \<Rightarrow> Ok v | None \<Rightarrow> Err e)"

lemma ok_or_simps [simp]: "ok_or e (Some v) = Ok v" "ok_or e None = Err e"
  by (simp_all add: ok_or_def)

lemma ok_or_eqs:
  "ok_or e x = Ok v \<longleftrightarrow> x = Some v" "ok_or e x = Err e' \<longleftrightarrow> x = None \<and> e' = e"
  "ok_or e x \<noteq> Panic"
  by (cases x; auto)+

definition require :: "bool \<Rightarrow> 'e \<Rightarrow> ('e, unit) res" where
  "require c e = (if c then Ok () else Err e)"

lemma require_simps [simp]: "require True e = Ok ()" "require False e = Err e"
  by (simp_all add: require_def)

lemma require_eqs:
  "require c e = Ok u \<longleftrightarrow> c" "require c e = Err e' \<longleftrightarrow> \<not> c \<and> e' = e" "require c e \<noteq> Panic"
  by (auto simp: require_def)

section \<open>The two arithmetic profiles\<close>

datatype profile = Debug | Release

definition usize_bound :: nat where
  "usize_bound = 2 ^ 64"

definition isize_max :: nat where
  "isize_max = 2 ^ 63 - 1"

lemma isize_max_bound: "n \<le> isize_max \<Longrightarrow> n + n < usize_bound"
  by (simp add: isize_max_def usize_bound_def)

definition uadd :: "profile \<Rightarrow> usize \<Rightarrow> usize \<Rightarrow> ('e, usize) res" where
  "uadd pr a b =
     (if a + b < usize_bound then Ok (a + b)
      else case pr of Debug \<Rightarrow> Panic | Release \<Rightarrow> Ok ((a + b) mod usize_bound))"

definition ushl :: "profile \<Rightarrow> usize \<Rightarrow> nat \<Rightarrow> ('e, usize) res" where
  "ushl pr a s =
     (if s < 64 then Ok (take_bit 64 (push_bit s a))
      else case pr of Debug \<Rightarrow> Panic | Release \<Rightarrow> Ok (take_bit 64 (push_bit (s mod 64) a)))"

definition succ_u32 :: "profile \<Rightarrow> u32 \<Rightarrow> ('e, u32) res" where
  "succ_u32 pr a = (if a = - 1 \<and> pr = Debug then Panic else Ok (a + 1))"

lemma uadd_small [simp]: "a + b < usize_bound \<Longrightarrow> uadd pr a b = Ok (a + b)"
  by (simp add: uadd_def)

lemma uadd_Release: "uadd Release a b = Ok ((a + b) mod usize_bound)"
  by (simp add: uadd_def)

lemma uadd_not_Err [simp]: "uadd pr a b \<noteq> Err e"
  by (cases pr) (auto simp: uadd_def)

lemma uadd_Release_not_Panic [simp]: "uadd Release a b \<noteq> Panic"
  by (simp add: uadd_Release)

lemma uadd_Debug_Ok: "uadd Debug a b = Ok c \<longleftrightarrow> a + b < usize_bound \<and> c = a + b"
  by (auto simp: uadd_def)

lemma uadd_lt_bound: "uadd pr a b = Ok c \<Longrightarrow> c < usize_bound"
  by (cases pr) (auto simp: uadd_def usize_bound_def split: if_splits)

lemma ushl_not_Err [simp]: "ushl pr a s \<noteq> Err e"
  by (cases pr) (auto simp: ushl_def)

lemma ushl_Release_not_Panic [simp]: "ushl Release a s \<noteq> Panic"
  by (simp add: ushl_def)

text \<open>
  The release build does what the debug build does, wherever the debug build does not panic.
\<close>

definition agrees :: "('e, 'a) res \<Rightarrow> ('e, 'a) res \<Rightarrow> bool" where
  "agrees d r \<longleftrightarrow> d = Panic \<or> r = d"

lemma agrees_refl [agree_intros]: "agrees d d"
  by (simp add: agrees_def)

lemma agrees_bind [agree_intros]:
  "agrees d r \<Longrightarrow> (\<And>x. agrees (f x) (g x)) \<Longrightarrow> agrees (bind_res d f) (bind_res r g)"
  by (cases d) (auto simp: agrees_def)

lemma agrees_if [agree_intros]:
  "(c \<Longrightarrow> agrees d r) \<Longrightarrow> (\<not> c \<Longrightarrow> agrees d' r') \<Longrightarrow>
     agrees (if c then d else d') (if c then r else r')"
  by simp

lemma agrees_uadd [agree_intros]: "agrees (uadd Debug a b) (uadd Release a b)"
  by (auto simp: agrees_def uadd_def)

lemma agrees_ushl [agree_intros]: "agrees (ushl Debug a s) (ushl Release a s)"
  by (auto simp: agrees_def ushl_def)

lemma agrees_not_Panic: "agrees d r \<Longrightarrow> d \<noteq> Panic \<Longrightarrow> r = d"
  by (simp add: agrees_def)

section \<open>Slices\<close>

text \<open>\<open>xs.get(i)\<close>, \<open>xs.get(a..b)\<close>, and \<open>&xs[a..b]\<close>, which panics out of range.\<close>

definition get :: "'a list \<Rightarrow> usize \<Rightarrow> 'a option" where
  "get xs i = (if i < length xs then Some (xs ! i) else None)"

definition get_range :: "'a list \<Rightarrow> usize \<Rightarrow> usize \<Rightarrow> 'a list option" where
  "get_range xs a b = (if a \<le> b \<and> b \<le> length xs then Some (take (b - a) (drop a xs)) else None)"

definition slice_at :: "'a list \<Rightarrow> usize \<Rightarrow> usize \<Rightarrow> ('e, 'a list) res" where
  "slice_at xs a b = (case get_range xs a b of Some ys \<Rightarrow> Ok ys | None \<Rightarrow> Panic)"

lemma get_eq_Some: "get xs i = Some x \<longleftrightarrow> i < length xs \<and> xs ! i = x"
  by (auto simp: get_def)

lemma get_Nil [simp]: "get [] i = None"
  by (simp add: get_def)

lemma get_Cons_0 [simp]: "get (x # xs) 0 = Some x"
  by (simp add: get_def)

lemma get_Cons_Suc [simp]: "get (x # xs) (Suc i) = get xs i"
  by (simp add: get_def)

lemma get_Cons_numeral [simp]: "get (x # xs) (numeral k) = get xs (pred_numeral k)"
  by (simp add: get_def)

lemma get_range_SomeD:
  assumes "get_range xs a b = Some ys"
  shows "a \<le> b" and "b \<le> length xs" and "length ys = b - a" and "drop a xs = ys @ drop b xs"
  using assms by (auto simp: get_range_def split: if_splits)
    (metis append_take_drop_id drop_drop le_add_diff_inverse2)

lemma get_range_wrap: "b < a \<Longrightarrow> get_range xs a b = None"
  by (simp add: get_range_def)

lemma slice_at_eq_Ok: "slice_at xs a b = Ok ys \<longleftrightarrow> get_range xs a b = Some ys"
  by (auto simp: slice_at_def split: option.splits)

lemma slice_at_eq_Panic: "slice_at xs a b = Panic \<longleftrightarrow> \<not> (a \<le> b \<and> b \<le> length xs)"
  by (auto simp: slice_at_def get_range_def split: option.splits if_splits)

lemma slice_at_not_Err [simp]: "slice_at xs a b \<noteq> Err e"
  by (auto simp: slice_at_def split: option.splits)

lemma slice_in_range: "a \<le> b \<Longrightarrow> b \<le> length xs \<Longrightarrow> slice_at xs a b = Ok (take (b - a) (drop a xs))"
  by (simp add: slice_at_def get_range_def)

text \<open>Collecting an iterator of results, which stops at the first failure.\<close>

fun collect_res :: "('a \<Rightarrow> ('e, 'b) res) \<Rightarrow> 'a list \<Rightarrow> ('e, 'b list) res" where
  "collect_res f [] = Ok []"
| "collect_res f (x # xs) =
     bind_res (f x) (\<lambda>y. bind_res (collect_res f xs) (\<lambda>ys. Ok (y # ys)))"

lemma collect_res_not_Panic:
  "(\<And>x. x \<in> set xs \<Longrightarrow> f x \<noteq> Panic) \<Longrightarrow> collect_res f xs \<noteq> Panic"
  by (induction xs) (auto simp: bind_res_eq_Panic)

lemma collect_res_length: "collect_res f xs = Ok ys \<Longrightarrow> length ys = length xs"
  by (induction xs arbitrary: ys) (auto simp: bind_res_eq_Ok)

lemma collect_res_cong: "(\<And>x. x \<in> set xs \<Longrightarrow> f x = g x) \<Longrightarrow> collect_res f xs = collect_res g xs"
  by (induction xs) (simp_all cong del: bind_res_weak_cong)

section \<open>Little-endian words\<close>

definition to_le_bytes :: "u32 \<Rightarrow> bytes" where
  "to_le_bytes w =
     [ucast w, ucast (drop_bit 8 w), ucast (drop_bit 16 w), ucast (drop_bit 24 w)]"

definition from_le_bytes :: "u8 \<Rightarrow> u8 \<Rightarrow> u8 \<Rightarrow> u8 \<Rightarrow> u32" where
  "from_le_bytes a b c d =
     ucast a OR push_bit 8 (ucast b) OR push_bit 16 (ucast c) OR push_bit 24 (ucast d)"

lemma length_to_le_bytes [simp]: "length (to_le_bytes w) = 4"
  by (simp add: to_le_bytes_def)

lemma to_le_bytes_not_Nil [simp]: "to_le_bytes w \<noteq> []"
  by (simp add: to_le_bytes_def)

lemma from_to_le_bytes [simp]:
  "from_le_bytes (ucast w) (ucast (drop_bit 8 w)) (ucast (drop_bit 16 w)) (ucast (drop_bit 24 w)) = w"
proof (rule bit_word_eqI)
  fix n assume "n < LENGTH(32)"
  then consider "n < 8" | "8 \<le> n" "n < 16" | "16 \<le> n" "n < 24" | "24 \<le> n" "n < 32"
    by (cases "n < 8"; cases "n < 16"; cases "n < 24") auto
  then show "bit (from_le_bytes (ucast w) (ucast (drop_bit 8 w)) (ucast (drop_bit 16 w))
      (ucast (drop_bit 24 w))) n = bit w n"
    by cases (auto simp: from_le_bytes_def bit_simps)
qed

lemma to_from_le_bytes [simp]: "to_le_bytes (from_le_bytes a b c d) = [a, b, c, d]"
  unfolding to_le_bytes_def from_le_bytes_def
  by (intro list.inject[THEN iffD2] conjI bit_word_eqI)
    (auto simp: bit_simps dest: bit_imp_le_length)

lemma to_le_bytes_inject [simp]: "to_le_bytes v = to_le_bytes w \<longleftrightarrow> v = w"
proof
  assume eq: "to_le_bytes v = to_le_bytes w"
  have "v = from_le_bytes (to_le_bytes v ! 0) (to_le_bytes v ! 1) (to_le_bytes v ! 2) (to_le_bytes v ! 3)" for v
    by (simp add: to_le_bytes_def)
  with eq show "v = w" by metis
qed simp

section \<open>Cursors\<close>

text \<open>
  \<open>cursor_at data off rest\<close>: the buffer is a slice the machine can hold, \<open>off\<close> is inside it or at
  its end, and \<open>rest\<close> is what lies from \<open>off\<close> on. The codec lemmas move a cursor over the
  bytes a message is made of.
\<close>

definition cursor_at :: "'a list \<Rightarrow> usize \<Rightarrow> 'a list \<Rightarrow> bool" where
  "cursor_at data off rest \<longleftrightarrow>
     length data \<le> isize_max \<and> off \<le> length data \<and> drop off data = rest"

lemma cursor_start: "length data \<le> isize_max \<Longrightarrow> cursor_at data 0 data"
  by (simp add: cursor_at_def)

lemma cursor_append: "length (pre @ rest) \<le> isize_max \<Longrightarrow> cursor_at (pre @ rest) (length pre) rest"
  by (simp add: cursor_at_def)

lemma cursor_length: "cursor_at data off rest \<Longrightarrow> length data = off + length rest"
  by (auto simp: cursor_at_def)

lemma cursor_slice: "cursor_at data off rest \<Longrightarrow> length data \<le> isize_max"
  by (simp add: cursor_at_def)

lemma cursor_split: "cursor_at data off rest \<Longrightarrow> data = take off data @ rest"
  by (auto simp: cursor_at_def)

lemma cursor_get [cursor_intros]: "cursor_at data off (b # rest) \<Longrightarrow> get data off = Some b"
  by (auto simp: cursor_at_def get_def nth_via_drop)
    (metis drop_all linorder_not_less list.distinct(1))

lemma cursor_get_end: "cursor_at data off [] \<Longrightarrow> get data off = None"
  by (auto simp: cursor_at_def get_def)

lemma cursor_advance:
  assumes "cursor_at data off (xs @ rest)" and "n = length xs"
  shows "cursor_at data (off + n) rest"
proof -
  have "drop (off + n) data = drop n (drop off data)"
    by (simp add: add.commute)
  with assms cursor_length[OF assms(1)] show ?thesis
    by (simp add: cursor_at_def)
qed

lemma cursor_next: "cursor_at data off (b # rest) \<Longrightarrow> cursor_at data (Suc off) rest"
  using cursor_advance[of data off "[b]" rest 1] by simp

lemma cursor_get_range [cursor_intros]:
  assumes "cursor_at data off (xs @ rest)" and "n = length xs"
  shows "get_range data off (off + n) = Some xs"
  using assms cursor_length[OF assms(1)] by (auto simp: cursor_at_def get_range_def)

lemma cursor_bound:
  assumes "cursor_at data off rest" and "n \<le> length rest"
  shows "off + n < usize_bound"
  using cursor_length[OF assms(1)] cursor_slice[OF assms(1)] assms(2)
  by (simp add: isize_max_def usize_bound_def)

lemma cursor_slice_at [cursor_intros]:
  "cursor_at data off (xs @ rest) \<Longrightarrow> n = length xs \<Longrightarrow> slice_at data off (off + n) = Ok xs"
  by (simp add: slice_at_eq_Ok cursor_get_range)

end
