(* ===== verification/Text.thy ===== *)
theory Text
  imports Rust_Base
begin

text \<open>
  Text as the code uses it. A Rust \<open>&str\<close> is a list of bytes that is valid UTF-8;
  \<open>utf8_valid\<close> is the test of \<open>str::from_utf8\<close> (the table of well-formed sequences, without
  surrogates, overlong forms and code points above U+10FFFF). \<open>ascii\<close> gives the bytes of a
  literal, \<open>show_u32\<close> is the decimal form that \<open>format!\<close> writes, \<open>parse_u32\<close> is
  \<open>str::parse::<u32>\<close>, and \<open>rfind\<close> is \<open>str::rfind\<close> for an ASCII character.
\<close>

type_synonym str = bytes

section \<open>UTF-8\<close>

definition in_range :: "u8 \<Rightarrow> u8 \<Rightarrow> u8 \<Rightarrow> bool" where
  "in_range lo hi b \<longleftrightarrow> lo \<le> b \<and> b \<le> hi"

abbreviation cont_byte :: "u8 \<Rightarrow> bool" where
  "cont_byte \<equiv> in_range 0x80 0xBF"

text \<open>The range the second byte must lie in, for the lead bytes of three and four byte forms.\<close>

definition second_ok :: "u8 \<Rightarrow> u8 \<Rightarrow> bool" where
  "second_ok a b =
     (if a = 0xE0 then in_range 0xA0 0xBF b
      else if a = 0xED then in_range 0x80 0x9F b
      else if a = 0xF0 then in_range 0x90 0xBF b
      else if a = 0xF4 then in_range 0x80 0x8F b
      else cont_byte b)"

fun utf8_valid :: "bytes \<Rightarrow> bool" where
  "utf8_valid [] = True"
| "utf8_valid (a # r) =
     (if a < 0x80 then utf8_valid r
      else if in_range 0xC2 0xDF a then
        (case r of b # r' \<Rightarrow> cont_byte b \<and> utf8_valid r' | _ \<Rightarrow> False)
      else if in_range 0xE0 0xEF a then
        (case r of b # c # r' \<Rightarrow> second_ok a b \<and> cont_byte c \<and> utf8_valid r' | _ \<Rightarrow> False)
      else if in_range 0xF0 0xF4 a then
        (case r of b # c # d # r' \<Rightarrow>
           second_ok a b \<and> cont_byte c \<and> cont_byte d \<and> utf8_valid r' | _ \<Rightarrow> False)
      else False)"

lemma utf8_valid_append: "utf8_valid xs \<Longrightarrow> utf8_valid ys \<Longrightarrow> utf8_valid (xs @ ys)"
  by (induction xs rule: utf8_valid.induct) (auto split: if_splits list.splits)

lemma utf8_valid_ascii: "(\<And>b. b \<in> set xs \<Longrightarrow> b < 0x80) \<Longrightarrow> utf8_valid xs"
  by (induction xs) auto

text \<open>
  \<open>String::from_utf8_lossy\<close>: every maximal part that could begin a character and does not complete one,
  and every byte that cannot begin one, becomes U+FFFD.
\<close>

abbreviation replacement :: bytes where
  "replacement \<equiv> [0xEF, 0xBF, 0xBD]"

fun from_utf8_lossy :: "bytes \<Rightarrow> str" where
  "from_utf8_lossy [] = []"
| "from_utf8_lossy (a # r) =
     (if a < 0x80 then a # from_utf8_lossy r
      else if in_range 0xC2 0xDF a then
        (case r of
           b # r1 \<Rightarrow> if cont_byte b then a # b # from_utf8_lossy r1 else replacement @ from_utf8_lossy r
         | [] \<Rightarrow> replacement)
      else if in_range 0xE0 0xEF a then
        (case r of
           b # r1 \<Rightarrow>
             if \<not> second_ok a b then replacement @ from_utf8_lossy r
             else (case r1 of
                c # r2 \<Rightarrow> if cont_byte c then a # b # c # from_utf8_lossy r2 else replacement @ from_utf8_lossy r1
              | [] \<Rightarrow> replacement)
         | [] \<Rightarrow> replacement)
      else if in_range 0xF0 0xF4 a then
        (case r of
           b # r1 \<Rightarrow>
             if \<not> second_ok a b then replacement @ from_utf8_lossy r
             else (case r1 of
                c # r2 \<Rightarrow>
                  if \<not> cont_byte c then replacement @ from_utf8_lossy r1
                  else (case r2 of
                     d # r3 \<Rightarrow>
                       if cont_byte d then a # b # c # d # from_utf8_lossy r3 else replacement @ from_utf8_lossy r2
                   | [] \<Rightarrow> replacement)
              | [] \<Rightarrow> replacement)
         | [] \<Rightarrow> replacement)
      else replacement @ from_utf8_lossy r)"

lemma from_utf8_lossy_valid: "utf8_valid s \<Longrightarrow> from_utf8_lossy s = s"
proof (induction s rule: utf8_valid.induct)
  case (2 a r)
  note IH = "2.IH" and valid = "2.prems"
  consider (one) "a < 0x80" | (two) "\<not> a < 0x80" "in_range 0xC2 0xDF a"
    | (three) "\<not> a < 0x80" "\<not> in_range 0xC2 0xDF a" "in_range 0xE0 0xEF a"
    | (four) "\<not> a < 0x80" "\<not> in_range 0xC2 0xDF a" "\<not> in_range 0xE0 0xEF a" "in_range 0xF0 0xF4 a"
    using valid by (auto split: if_split_asm)
  then show ?case
  proof cases
    case one
    with valid IH(1)[OF one] show ?thesis by simp
  next
    case two
    with valid obtain b r1 where "r = b # r1" "cont_byte b" "utf8_valid r1" by (auto split: list.split_asm)
    with two IH(2)[OF two] show ?thesis by simp
  next
    case three
    with valid obtain b c r2 where "r = b # c # r2" "second_ok a b" "cont_byte c" "utf8_valid r2"
      by (auto split: list.split_asm)
    with three IH(3)[OF three] show ?thesis by simp
  next
    case four
    with valid obtain b c d r3 where "r = b # c # d # r3" "second_ok a b" "cont_byte c" "cont_byte d" "utf8_valid r3"
      by (auto split: list.split_asm)
    with four IH(4)[OF four] show ?thesis by simp
  qed
qed simp

section \<open>Literals\<close>

definition ascii :: "string \<Rightarrow> str" where
  "ascii s = map of_char s"

lemma ascii_Nil [simp]: "ascii [] = []"
  by (simp add: ascii_def)

lemma ascii_Cons [simp]: "ascii (c # s) = of_char c # ascii s"
  by (simp add: ascii_def)

section \<open>Decimal numbers\<close>

definition digit :: "nat \<Rightarrow> u8" where
  "digit d = of_nat (48 + d)"

function show_nat :: "nat \<Rightarrow> str" where
  "show_nat n = (if n < 10 then [digit n] else show_nat (n div 10) @ [digit (n mod 10)])"
  by pat_completeness auto
termination
  by (relation "measure id") auto

declare show_nat.simps [simp del]

definition show_u32 :: "u32 \<Rightarrow> str" where
  "show_u32 w = show_nat (unat w)"

definition digit_value :: "u8 \<Rightarrow> nat option" where
  "digit_value b = (if 48 \<le> b \<and> b \<le> 57 then Some (unat b - 48) else None)"

fun parse_digits :: "nat \<Rightarrow> str \<Rightarrow> u32 option" where
  "parse_digits acc [] = Some (of_nat acc)"
| "parse_digits acc (b # bs) =
     (case digit_value b of
        None \<Rightarrow> None
      | Some d \<Rightarrow> if acc * 10 + d < 2 ^ 32 then parse_digits (acc * 10 + d) bs else None)"

definition parse_u32 :: "str \<Rightarrow> u32 option" where
  "parse_u32 s =
     (case s of
        [] \<Rightarrow> None
      | b # bs \<Rightarrow> if b = 43 then (if bs = [] then None else parse_digits 0 bs) else parse_digits 0 s)"

lemma digit_value_digit [simp]: "d < 10 \<Longrightarrow> digit_value (digit d) = Some d"
proof -
  assume "d < 10"
  then have "d \<in> set [0, 1, 2, 3, 4, 5, 6, 7, 8, 9]" by auto
  then show ?thesis by (auto simp: digit_value_def digit_def)
qed

lemma digit_bounds: "d < 10 \<Longrightarrow> digit d < 0x80 \<and> digit d \<noteq> 43 \<and> digit d \<noteq> 64"
proof -
  assume "d < 10"
  then have "d \<in> set [0, 1, 2, 3, 4, 5, 6, 7, 8, 9]" by auto
  then show ?thesis by (auto simp: digit_def)
qed

lemma parse_digits_append:
  "parse_digits acc (xs @ ys) =
     (case parse_digits acc xs of None \<Rightarrow> None | Some v \<Rightarrow> parse_digits (unat v) ys)"
  if "acc < 2 ^ 32"
  using that
proof (induction xs arbitrary: acc)
  case Nil
  then show ?case by (simp add: unat_of_nat)
next
  case (Cons b xs)
  then show ?case by (auto split: option.splits)
qed

lemma parse_show_nat: "n < 2 ^ 32 \<Longrightarrow> parse_digits 0 (show_nat n) = Some (of_nat n)"
proof (induction n rule: show_nat.induct)
  case (1 n)
  show ?case
  proof (cases "n < 10")
    case True
    then show ?thesis by (simp add: show_nat.simps[of n])
  next
    case False
    with 1 have "parse_digits 0 (show_nat (n div 10)) = Some (of_nat (n div 10))"
      by simp
    moreover have "unat (of_nat (n div 10) :: u32) = n div 10"
      using "1.prems" by (simp add: unat_of_nat)
    ultimately show ?thesis
      using False "1.prems"
      by (simp add: show_nat.simps[of n] parse_digits_append del: of_nat_div)
  qed
qed

lemma show_nat_digits: "b \<in> set (show_nat n) \<Longrightarrow> b < 0x80 \<and> b \<noteq> 43 \<and> b \<noteq> 64"
proof (induction n rule: show_nat.induct)
  case (1 n)
  then show ?case
    by (auto simp: show_nat.simps[of n] digit_bounds split: if_splits)
qed

lemma show_nat_not_Nil [simp]: "show_nat n \<noteq> []"
  by (simp add: show_nat.simps[of n])

lemma parse_show_u32 [simp]: "parse_u32 (show_u32 w) = Some w"
proof -
  obtain b bs where eq: "show_nat (unat w) = b # bs"
    by (cases "show_nat (unat w)") auto
  with show_nat_digits[of b "unat w"] have "b \<noteq> 43" by simp
  moreover have "unat w < 2 ^ 32" using unsigned_less[of w] by simp
  ultimately show ?thesis
    using eq parse_show_nat[of "unat w"] by (simp add: parse_u32_def show_u32_def)
qed

lemma show_u32_no_at: "64 \<notin> set (show_u32 w)"
  using show_nat_digits by (auto simp: show_u32_def)

lemma utf8_show_u32 [simp]: "utf8_valid (show_u32 w)"
  using show_nat_digits by (auto simp: show_u32_def intro!: utf8_valid_ascii)

lemma length_show_nat: "n < 10 ^ Suc k \<Longrightarrow> length (show_nat n) \<le> Suc k"
proof (induction k arbitrary: n)
  case 0
  then show ?case by (simp add: show_nat.simps[of n])
next
  case (Suc k)
  then have "n div 10 < 10 ^ Suc k" by simp
  with Suc.IH[of "n div 10"] show ?case by (simp add: show_nat.simps[of n])
qed

lemma length_show_u32: "length (show_u32 i) \<le> 10"
proof -
  have "unat i < 2 ^ LENGTH(32)" by (rule unsigned_less)
  then have "unat i < 10 ^ Suc 9" by simp
  from length_show_nat[OF this] show ?thesis by (simp add: show_u32_def)
qed

section \<open>Searching from the right\<close>

fun rfind :: "u8 \<Rightarrow> str \<Rightarrow> usize option" where
  "rfind c [] = None"
| "rfind c (b # bs) =
     (case rfind c bs of
        Some i \<Rightarrow> Some (Suc i)
      | None \<Rightarrow> if b = c then Some 0 else None)"

lemma rfind_None: "rfind c s = None \<longleftrightarrow> c \<notin> set s"
  by (induction s) (auto split: option.splits)

lemma rfind_append: "c \<notin> set ys \<Longrightarrow> rfind c (xs @ c # ys) = Some (length xs)"
  by (induction xs) (auto simp: rfind_None[THEN iffD2])

lemma rfind_Some: "rfind c s = Some i \<Longrightarrow> i < length s \<and> s ! i = c"
  by (induction s arbitrary: i) (auto split: option.splits if_splits)

end
