(* ===== verification/Trace_Switch.thy ===== *)
theory Trace_Switch
  imports Text
begin

text \<open>
  The switch of the trace, \<open>hyprwire/src/helpers.rs\<close>: \<open>is_trace\<close> answers from a cell shared by all threads, which the
  first call fills from the environment. Any thread may call it at any time, so the model is a step relation: a
  state is the cell, the variable \<open>HW_TRACE\<close> and where in \<open>is_trace\<close> each thread is, and a step is one access of one
  thread to the cell or to the environment. All accesses to the cell are to one atomic, so they have one order.
\<close>

section \<open>The code\<close>

text \<open>\<open>env::var\<close> gives an error for a variable that is not set or not UTF-8.\<close>

definition lower_ascii :: "u8 \<Rightarrow> u8" where
  "lower_ascii b = (if 65 \<le> b \<and> b \<le> 90 then b + 32 else b)"

definition eq_ignore_ascii_case :: "str \<Rightarrow> str \<Rightarrow> bool" where
  "eq_ignore_ascii_case s s' \<longleftrightarrow> map lower_ascii s = map lower_ascii s'"

definition read_trace_env :: "bytes option \<Rightarrow> bool" where
  "read_trace_env var = (case var of
     Some v \<Rightarrow> utf8_valid v \<and> (v = ascii ''1'' \<or> eq_ignore_ascii_case v (ascii ''true''))
   | None \<Rightarrow> False)"

text \<open>Where a thread is: outside \<open>is_trace\<close>, before the load, before the environment is read, and before the exchange.\<close>

datatype trace_point = Outside | Looking | Reading | Swapping u8

record trace_switch =
  tw_cell :: u8
  tw_env :: "bytes option"
  tw_at :: "nat \<Rightarrow> trace_point"

definition switch_start :: "bytes option \<Rightarrow> trace_switch" where
  "switch_start var = \<lparr>tw_cell = 0, tw_env = var, tw_at = (\<lambda>_. Outside)\<rparr>"

text \<open>One step of \<open>is_trace\<close> in thread \<open>i\<close>: with the answer if it returns.\<close>

definition is_trace_step :: "nat \<Rightarrow> trace_switch \<Rightarrow> (bool option \<times> trace_switch) option" where
  "is_trace_step i s =
     (case tw_at s i of
        Outside \<Rightarrow> None
      | Looking \<Rightarrow>
          (if tw_cell s = 0 then Some (None, s\<lparr>tw_at := (tw_at s)(i := Reading)\<rparr>)
           else Some (Some (tw_cell s \<noteq> 1), s\<lparr>tw_at := (tw_at s)(i := Outside)\<rparr>))
      | Reading \<Rightarrow>
          Some (None, s\<lparr>tw_at := (tw_at s)(i := Swapping (if read_trace_env (tw_env s) then 2 else 1))\<rparr>)
      | Swapping encoded \<Rightarrow>
          Some (None, s\<lparr>tw_cell := (if tw_cell s = 0 then encoded else tw_cell s), tw_at := (tw_at s)(i := Looking)\<rparr>))"

definition reset_trace_cache :: "trace_switch \<Rightarrow> trace_switch" where
  "reset_trace_cache s = s\<lparr>tw_cell := 0\<rparr>"

datatype trace_event = Call nat | Inside nat | Answer nat bool | Reset | Setenv "bytes option"

inductive switch_step :: "trace_switch \<Rightarrow> trace_event \<Rightarrow> trace_switch \<Rightarrow> bool" where
  call: "tw_at s i = Outside \<Longrightarrow> switch_step s (Call i) (s\<lparr>tw_at := (tw_at s)(i := Looking)\<rparr>)"
| inside: "is_trace_step i s = Some (None, s') \<Longrightarrow> switch_step s (Inside i) s'"
| answer: "is_trace_step i s = Some (Some b, s') \<Longrightarrow> switch_step s (Answer i b) s'"
| reset: "switch_step s Reset (reset_trace_cache s)"
| setenv: "switch_step s (Setenv var) (s\<lparr>tw_env := var\<rparr>)"

inductive_cases switch_stepE: "switch_step s l s'"

text \<open>The events of a run, the first one first.\<close>

inductive switch_run :: "trace_switch \<Rightarrow> trace_event list \<Rightarrow> trace_switch \<Rightarrow> bool" where
  stay: "switch_run s [] s"
| go_on: "switch_run s ls s' \<Longrightarrow> switch_step s' l s'' \<Longrightarrow> switch_run s (ls @ [l]) s''"

section \<open>One answer between two resets\<close>

text \<open>Without a reset a cell that is filled stays as it is, and every answer is what the cell says at the end.\<close>

lemma filled_stays: "switch_step s l s' \<Longrightarrow> l \<noteq> Reset \<Longrightarrow> tw_cell s \<noteq> 0 \<Longrightarrow> tw_cell s' = tw_cell s"
  by (auto elim!: switch_stepE simp: is_trace_step_def split: trace_point.splits if_splits)

lemma answer_is_cell: "switch_step s (Answer i b) s' \<Longrightarrow> tw_cell s \<noteq> 0 \<and> tw_cell s' = tw_cell s \<and> b = (tw_cell s \<noteq> 1)"
  by (auto elim!: switch_stepE simp: is_trace_step_def split: trace_point.splits if_splits)

lemma answers_are_cell:
  "switch_run s ls s' \<Longrightarrow> Reset \<notin> set ls \<Longrightarrow> Answer i b \<in> set ls \<Longrightarrow> tw_cell s' \<noteq> 0 \<and> b = (tw_cell s' \<noteq> 1)"
proof (induction rule: switch_run.induct)
  case (go_on s ls s' l s'')
  then show ?case
    using filled_stays[OF go_on.hyps(2)] answer_is_cell[of s' i b s''] by (cases "Answer i b \<in> set ls") auto
qed simp

text \<open>While the variable keeps its value, only this value is on its way to the cell.\<close>

definition from_env :: "bytes option \<Rightarrow> trace_switch \<Rightarrow> bool" where
  "from_env var s \<longleftrightarrow> (let encoded = (if read_trace_env var then 2 else 1) in
     tw_env s = var \<and> tw_cell s \<in> {0, encoded} \<and> (\<forall>i v. tw_at s i = Swapping v \<longrightarrow> v = encoded))"

lemma from_env_start: "from_env var (switch_start var)"
  by (simp add: from_env_def switch_start_def Let_def)

lemma from_env_step: "switch_step s l s' \<Longrightarrow> (\<And>v. l \<noteq> Setenv v) \<Longrightarrow> from_env var s \<Longrightarrow> from_env var s'"
  by (auto elim!: switch_stepE simp: is_trace_step_def from_env_def Let_def reset_trace_cache_def
      split: trace_point.splits if_splits) metis+

lemma from_env_run: "switch_run s ls s' \<Longrightarrow> \<forall>v. Setenv v \<notin> set ls \<Longrightarrow> from_env var s \<Longrightarrow> from_env var s'"
proof (induction rule: switch_run.induct)
  case (go_on s ls s' l s'')
  then show ?case by (intro from_env_step[OF go_on.hyps(2)]) auto
qed

lemma switch_run_append: "switch_run s' ms s'' \<Longrightarrow> switch_run s ls s' \<Longrightarrow> switch_run s (ls @ ms) s''"
proof (induction rule: switch_run.induct)
  case (go_on s' ms t l u)
  then show ?case using switch_run.go_on[of s "ls @ ms" t l u] by simp
qed simp

text \<open>C37: All threads see the same switch: in every run from the start, whatever the threads do and however their steps
  interleave, all answers of \<open>is_trace\<close> between two resets are the same; and if the variable \<open>HW_TRACE\<close> never
  changes, they say whether it is set to 1 or to true.\<close>
theorem trace_answers_agree:
  assumes before: "switch_run (switch_start var) ks s" and run: "switch_run s ls s'" and no_reset: "Reset \<notin> set ls"
  shows "\<exists>b. (\<forall>i b'. Answer i b' \<in> set ls \<longrightarrow> b' = b) \<and> ((\<forall>v. Setenv v \<notin> set (ks @ ls)) \<longrightarrow> b = read_trace_env var)"
proof (cases "tw_cell s' = 0")
  case True
  then show ?thesis using answers_are_cell[OF run no_reset] by blast
next
  case False
  have "tw_cell s' \<noteq> 1 \<longleftrightarrow> read_trace_env var" if "\<forall>v. Setenv v \<notin> set (ks @ ls)"
    using from_env_run[OF switch_run_append[OF run before] that from_env_start] False
    by (auto simp: from_env_def Let_def split: if_splits)
  then show ?thesis using answers_are_cell[OF run no_reset] by blast
qed

section \<open>A call ends\<close>

text \<open>How many steps a thread can still take before it answers.\<close>

definition steps_left :: "nat \<Rightarrow> trace_switch \<Rightarrow> nat" where
  "steps_left i s = (case tw_at s i of
     Outside \<Rightarrow> 3 | Looking \<Rightarrow> (if tw_cell s = 0 then 3 else 0) | Reading \<Rightarrow> 2 | Swapping v \<Rightarrow> 1)"

definition encodings :: "trace_switch \<Rightarrow> bool" where
  "encodings s \<longleftrightarrow> (\<forall>i. tw_at s i \<noteq> Swapping 0)"

lemma encodings_step: "switch_step s l s' \<Longrightarrow> encodings s \<Longrightarrow> encodings s'"
  by (auto elim!: switch_stepE simp: is_trace_step_def encodings_def reset_trace_cache_def
      split: trace_point.splits if_splits)

lemma encodings_run: "switch_run s ls s' \<Longrightarrow> encodings s \<Longrightarrow> encodings s'"
  by (induction rule: switch_run.induct) (auto intro: encodings_step)

lemma encodings_start: "encodings (switch_start var)"
  by (simp add: encodings_def switch_start_def)

lemma steps_left_step:
  "switch_step s l s' \<Longrightarrow> encodings s \<Longrightarrow> l \<noteq> Reset \<Longrightarrow> \<forall>b. l \<noteq> Answer i b \<Longrightarrow>
     steps_left i s' + (if l = Inside i then 1 else 0) \<le> steps_left i s"
  by (auto elim!: switch_stepE simp: is_trace_step_def steps_left_def encodings_def
      split: trace_point.splits if_splits)

lemma steps_left_run:
  "switch_run s ls s' \<Longrightarrow> encodings s \<Longrightarrow> Reset \<notin> set ls \<Longrightarrow> \<forall>b. Answer i b \<notin> set ls \<Longrightarrow>
     steps_left i s' + length (filter (\<lambda>l. l = Inside i) ls) \<le> steps_left i s"
proof (induction rule: switch_run.induct)
  case (go_on s ls s' l s'')
  then show ?case
    using steps_left_step[OF go_on.hyps(2) encodings_run[OF go_on.hyps(1)], of i] by fastforce
qed simp

lemma is_trace_step_enabled: "tw_at s i \<noteq> Outside \<Longrightarrow> \<exists>r s'. is_trace_step i s = Some (r, s')"
  by (simp add: is_trace_step_def split: trace_point.split)

text \<open>\<open>is_trace\<close> is wait-free: in any run without a reset a thread takes at most three steps inside \<open>is_trace\<close>
  before the step that answers, whatever the other threads do, and a thread that is inside can always take a step.\<close>
theorem trace_wait_free:
  assumes before: "switch_run (switch_start var) ks s" and run: "switch_run s ls s'" and no_reset: "Reset \<notin> set ls"
    and no_answer: "\<forall>b. Answer i b \<notin> set ls"
  shows "length (filter (\<lambda>l. l = Inside i) ls) \<le> 3 \<and>
    (tw_at s' i \<noteq> Outside \<longrightarrow> (\<exists>s''. switch_step s' (Inside i) s'' \<or> (\<exists>b. switch_step s' (Answer i b) s'')))"
proof
  have "steps_left i s \<le> 3" by (simp add: steps_left_def split: trace_point.split)
  with steps_left_run[OF run encodings_run[OF before encodings_start] no_reset no_answer]
  show "length (filter (\<lambda>l. l = Inside i) ls) \<le> 3" by simp
  show "tw_at s' i \<noteq> Outside \<longrightarrow> (\<exists>s''. switch_step s' (Inside i) s'' \<or> (\<exists>b. switch_step s' (Answer i b) s''))"
  proof
    assume "tw_at s' i \<noteq> Outside"
    then obtain r s'' where "is_trace_step i s' = Some (r, s'')"
      using is_trace_step_enabled by blast
    then show "\<exists>s''. switch_step s' (Inside i) s'' \<or> (\<exists>b. switch_step s' (Answer i b) s'')"
      by (cases r) (auto intro: inside answer)
  qed
qed

section \<open>Runs\<close>

text \<open>What a list of events leads to, if it is possible.\<close>

definition after_event :: "trace_event \<Rightarrow> trace_switch \<Rightarrow> trace_switch option" where
  "after_event l s = (case l of
     Call i \<Rightarrow> if tw_at s i = Outside then Some (s\<lparr>tw_at := (tw_at s)(i := Looking)\<rparr>) else None
   | Inside i \<Rightarrow> (case is_trace_step i s of Some (None, s') \<Rightarrow> Some s' | _ \<Rightarrow> None)
   | Answer i b \<Rightarrow> (case is_trace_step i s of Some (Some b', s') \<Rightarrow> if b = b' then Some s' else None | _ \<Rightarrow> None)
   | Reset \<Rightarrow> Some (reset_trace_cache s)
   | Setenv v \<Rightarrow> Some (s\<lparr>tw_env := v\<rparr>))"

fun after_events :: "trace_event list \<Rightarrow> trace_switch \<Rightarrow> trace_switch option" where
  "after_events [] s = Some s"
| "after_events (l # ls) s = (case after_event l s of Some s' \<Rightarrow> after_events ls s' | None \<Rightarrow> None)"

lemma after_event_step: "after_event l s = Some s' \<Longrightarrow> switch_step s l s'"
  by (auto simp: after_event_def intro: switch_step.intros split: trace_event.splits option.splits if_splits)

lemma after_events_run: "after_events ls s = Some s' \<Longrightarrow> switch_run s ls s'"
proof (induction ls arbitrary: s)
  case (Cons l ls)
  then obtain t where t: "after_event l s = Some t" "after_events ls t = Some s'" by (auto split: option.splits)
  then show ?case
    using switch_run_append[OF Cons.IH[OF t(2)] go_on[OF stay after_event_step[OF t(1)]]] by simp
qed (simp add: stay)

text \<open>Two threads that look for the variable at the same time.\<close>

definition example_race :: "trace_event list" where
  "example_race = [Call 0, Call 1, Inside 0, Inside 1, Inside 0, Inside 1, Inside 0, Inside 1, Answer 0 True, Answer 1 True]"

theorem trace_answers_agree_witness:
  "\<exists>s'. after_events example_race (switch_start (Some (ascii ''True''))) = Some s' \<and>
    (\<forall>i b. Answer i b \<in> set example_race \<longrightarrow> b = read_trace_env (Some (ascii ''True'')))"
proof -
  have "after_events example_race (switch_start (Some (ascii ''True''))) \<noteq> None"
    by (simp add: example_race_def switch_start_def after_event_def is_trace_step_def read_trace_env_def
        eq_ignore_ascii_case_def lower_ascii_def)
  then obtain s' where s': "after_events example_race (switch_start (Some (ascii ''True''))) = Some s'" by blast
  have "Reset \<notin> set example_race" and "\<forall>v. Setenv v \<notin> set ([] @ example_race)" by (simp_all add: example_race_def)
  with trace_answers_agree[OF stay after_events_run[OF s']] s' show ?thesis by blast
qed

theorem trace_wait_free_witness:
  "\<exists>s'. after_events [Call 0, Inside 0, Call 1, Inside 0, Inside 1, Inside 0] (switch_start None) = Some s' \<and>
    (\<exists>s''. switch_step s' (Inside 0) s'' \<or> (\<exists>b. switch_step s' (Answer 0 b) s''))"
proof -
  obtain s' where s': "after_events [Call 0, Inside 0, Call 1, Inside 0, Inside 1, Inside 0] (switch_start None) = Some s'"
    and at: "tw_at s' 0 \<noteq> Outside"
    by (simp add: switch_start_def after_event_def is_trace_step_def read_trace_env_def)
  from trace_wait_free[OF stay after_events_run[OF s'], of 0] at s' show ?thesis by simp
qed

text \<open>
  A reset does not make the following call read the environment again: a thread that read the variable before the
  reset fills the cell after it, and a call that starts then gives the old answer.
\<close>

theorem reset_is_overtaken:
  "\<exists>s. switch_run (switch_start (Some (ascii ''1'')))
      [Call 0, Inside 0, Inside 0, Setenv None, Reset, Inside 0, Call 1, Answer 1 True] s \<and>
    \<not> read_trace_env (tw_env s)"
proof -
  obtain s where "after_events [Call 0, Inside 0, Inside 0, Setenv None, Reset, Inside 0, Call 1, Answer 1 True]
      (switch_start (Some (ascii ''1''))) = Some s" and "\<not> read_trace_env (tw_env s)"
    by (simp add: switch_start_def after_event_def is_trace_step_def read_trace_env_def reset_trace_cache_def)
  then show ?thesis using after_events_run by blast
qed

end
