(* ===== verification/Wire_Types.thy ===== *)
theory Wire_Types
  imports Text
begin

text \<open>
  The types of \<open>hyprwire-core\<close>: the errors of \<open>message/error.rs\<close>, the message types of
  \<open>message/mod.rs\<close>, the field tags, call arguments, methods and specs of \<open>types.rs\<close>, and the reads
  \<open>read_u32\<close> and its kin of \<open>message/wire/mod.rs\<close>. The trait objects \<open>ProtocolObjectSpec\<close> and
  \<open>ProtocolSpec\<close> are records of what their methods return.
\<close>

section \<open>Errors\<close>

datatype error =
    UnexpectedEof | InvalidMessageType | InvalidFieldType | InvalidVarInt | MalformedMessage
  | TooManyVersions | TooManyProtocols | ArrayTooLong
  | InvalidVersion | InvalidMessage | VersionNegotiationFailed
  | NoSpec | InvalidMethod | InvalidParameter

section \<open>Message types and field tags\<close>

datatype message_type =
    Sup | HandshakeBegin | HandshakeAck | HandshakeProtocols | BindProtocol | NewObject
  | FatalProtocolError | RoundtripRequest | RoundtripDone | GenericProtocolMessage

primrec message_type_u8 :: "message_type \<Rightarrow> u8" where
  "message_type_u8 Sup = 1"
| "message_type_u8 HandshakeBegin = 2"
| "message_type_u8 HandshakeAck = 3"
| "message_type_u8 HandshakeProtocols = 4"
| "message_type_u8 BindProtocol = 10"
| "message_type_u8 NewObject = 11"
| "message_type_u8 FatalProtocolError = 12"
| "message_type_u8 RoundtripRequest = 13"
| "message_type_u8 RoundtripDone = 14"
| "message_type_u8 GenericProtocolMessage = 100"

definition message_type_try_from :: "u8 \<Rightarrow> (error, message_type) res" where
  "message_type_try_from v =
     (if v = 1 then Ok Sup
      else if v = 2 then Ok HandshakeBegin
      else if v = 3 then Ok HandshakeAck
      else if v = 4 then Ok HandshakeProtocols
      else if v = 10 then Ok BindProtocol
      else if v = 11 then Ok NewObject
      else if v = 12 then Ok FatalProtocolError
      else if v = 13 then Ok RoundtripRequest
      else if v = 14 then Ok RoundtripDone
      else if v = 100 then Ok GenericProtocolMessage
      else Err InvalidMessageType)"

datatype magic =
    End | TypeUint | TypeInt | TypeF32 | TypeSeq | TypeObjectId
  | TypeVarchar | TypeArray | TypeObject | TypeFd

primrec magic_u8 :: "magic \<Rightarrow> u8" where
  "magic_u8 End = 0x00"
| "magic_u8 TypeUint = 0x10"
| "magic_u8 TypeInt = 0x11"
| "magic_u8 TypeF32 = 0x12"
| "magic_u8 TypeSeq = 0x13"
| "magic_u8 TypeObjectId = 0x14"
| "magic_u8 TypeVarchar = 0x20"
| "magic_u8 TypeArray = 0x21"
| "magic_u8 TypeObject = 0x22"
| "magic_u8 TypeFd = 0x40"

definition magic_try_from :: "u8 \<Rightarrow> (error, magic) res" where
  "magic_try_from v =
     (if v = 0x00 then Ok End
      else if v = 0x10 then Ok TypeUint
      else if v = 0x11 then Ok TypeInt
      else if v = 0x12 then Ok TypeF32
      else if v = 0x13 then Ok TypeSeq
      else if v = 0x14 then Ok TypeObjectId
      else if v = 0x20 then Ok TypeVarchar
      else if v = 0x21 then Ok TypeArray
      else if v = 0x22 then Ok TypeObject
      else if v = 0x40 then Ok TypeFd
      else Err MalformedMessage)"

lemma message_type_try_from_u8 [simp]: "message_type_try_from (message_type_u8 t) = Ok t"
  by (cases t) (simp_all add: message_type_try_from_def)

lemma message_type_try_from_OkD: "message_type_try_from v = Ok t \<Longrightarrow> v = message_type_u8 t"
  by (auto simp: message_type_try_from_def split: if_splits)

lemma message_type_try_from_Ok: "message_type_try_from v = Ok t \<longleftrightarrow> v = message_type_u8 t"
  using message_type_try_from_OkD by auto

lemma message_type_try_from_not_Panic [simp]: "message_type_try_from v \<noteq> Panic"
  by (simp add: message_type_try_from_def)

lemma message_type_u8_inject [simp]: "message_type_u8 s = message_type_u8 t \<longleftrightarrow> s = t"
  by (metis message_type_try_from_u8 res.inject(1))

lemma magic_try_from_u8 [simp]: "magic_try_from (magic_u8 m) = Ok m"
  by (cases m) (simp_all add: magic_try_from_def)

lemma magic_try_from_OkD: "magic_try_from v = Ok m \<Longrightarrow> v = magic_u8 m"
  by (auto simp: magic_try_from_def split: if_splits)

lemma magic_try_from_Ok: "magic_try_from v = Ok m \<longleftrightarrow> v = magic_u8 m"
  using magic_try_from_OkD by auto

lemma magic_try_from_not_Panic [simp]: "magic_try_from v \<noteq> Panic"
  by (simp add: magic_try_from_def)

lemma magic_u8_inject [simp]: "magic_u8 s = magic_u8 t \<longleftrightarrow> s = t"
  by (metis magic_try_from_u8 res.inject(1))

section \<open>Arguments, methods and specs\<close>

datatype call_arg =
    ArgUint u32 | ArgInt i32 | ArgF32 f32 | ArgObject u32 | ArgVarchar bytes | ArgFd i32
  | ArgUintArray "u32 list" | ArgIntArray "i32 list" | ArgF32Array "f32 list"
  | ArgObjectArray "u32 list" | ArgFdArray "i32 list" | ArgVarcharArray "bytes list"

record method_spec =
  method_idx :: u32
  method_params :: bytes
  returns_type :: str
  since :: u32
  destructor :: bool

record object_spec =
  object_name :: str
  c2s :: "method_spec list"
  s2c :: "method_spec list"

record protocol_spec =
  spec_name :: str
  spec_ver :: u32
  spec_objects :: "object_spec list"

section \<open>Reads\<close>

text \<open>
  \<open>*data.get(i).ok_or(UnexpectedEof)?\<close>, the test of a byte against an expected tag, and the
  four-byte reads. \<open>read_i32\<close> and \<open>read_f32\<close> read the same four bytes; they differ in the type the
  bits are given.
\<close>

definition byte_at :: "bytes \<Rightarrow> usize \<Rightarrow> (error, u8) res" where
  "byte_at data i = ok_or UnexpectedEof (get data i)"

definition expect_byte :: "bytes \<Rightarrow> usize \<Rightarrow> u8 \<Rightarrow> error \<Rightarrow> (error, unit) res" where
  "expect_byte data i b e = bind_res (byte_at data i) (\<lambda>x. require (x = b) e)"

definition read_u32 :: "bytes \<Rightarrow> usize \<Rightarrow> (error, u32) res" where
  "read_u32 data off =
     bind_res (ok_or UnexpectedEof (get_range data off (off + 4)))
       (\<lambda>bs. Ok (from_le_bytes (bs ! 0) (bs ! 1) (bs ! 2) (bs ! 3)))"

definition read_i32 :: "bytes \<Rightarrow> usize \<Rightarrow> (error, i32) res" where
  "read_i32 data off =
     bind_res (ok_or UnexpectedEof (get_range data off (off + 4)))
       (\<lambda>bs. Ok (from_le_bytes (bs ! 0) (bs ! 1) (bs ! 2) (bs ! 3)))"

definition read_f32 :: "bytes \<Rightarrow> usize \<Rightarrow> (error, f32) res" where
  "read_f32 data off =
     bind_res (ok_or UnexpectedEof (get_range data off (off + 4)))
       (\<lambda>bs. Ok (from_le_bytes (bs ! 0) (bs ! 1) (bs ! 2) (bs ! 3)))"

lemma byte_at_cursor [cursor_intros]: "cursor_at data off (b # rest) \<Longrightarrow> byte_at data off = Ok b"
  by (simp add: byte_at_def cursor_get)

lemma byte_at_end: "cursor_at data off [] \<Longrightarrow> byte_at data off = Err UnexpectedEof"
  by (simp add: byte_at_def cursor_get_end)

lemma byte_at_not_Panic [simp]: "byte_at data i \<noteq> Panic"
  by (simp add: byte_at_def ok_or_eqs)

lemma byte_at_Ok: "byte_at data i = Ok b \<longleftrightarrow> i < length data \<and> data ! i = b"
  by (simp add: byte_at_def ok_or_eqs get_eq_Some)

lemma expect_byte_cursor [cursor_intros]:
  "cursor_at data off (b # rest) \<Longrightarrow> expect_byte data off b e = Ok ()"
  by (simp add: expect_byte_def byte_at_cursor)

lemma expect_byte_Ok: "expect_byte data i b e = Ok u \<longleftrightarrow> i < length data \<and> data ! i = b"
  by (auto simp: expect_byte_def bind_res_eq_Ok byte_at_Ok require_eqs)

lemma expect_byte_not_Panic [simp]: "expect_byte data i b e \<noteq> Panic"
  by (auto simp: expect_byte_def bind_res_eq_Panic require_eqs)

lemma read_u32_cursor [cursor_intros]:
  assumes "cursor_at data off (to_le_bytes w @ rest)"
  shows "read_u32 data off = Ok w"
  using cursor_get_range[OF assms refl] by (simp add: read_u32_def) (simp add: to_le_bytes_def)

lemma read_u32_not_Panic [simp]: "read_u32 data i \<noteq> Panic"
  by (auto simp: read_u32_def bind_res_eq_Panic ok_or_eqs)

lemma list4_nth: "length bs = 4 \<Longrightarrow> [bs ! 0, bs ! Suc 0, bs ! 2, bs ! 3] = bs"
proof -
  assume "length bs = 4"
  then have "length bs = Suc (Suc (Suc (Suc 0)))" by simp
  then obtain a b c d where "bs = [a, b, c, d]" by (auto simp only: length_Suc_conv length_0_conv)
  then show ?thesis by simp
qed

lemma read_u32_Ok:
  assumes "read_u32 data off = Ok w"
  shows "off + 4 \<le> length data" and "drop off data = to_le_bytes w @ drop (off + 4) data"
proof -
  from assms obtain bs where bs: "get_range data off (off + 4) = Some bs"
    and w: "w = from_le_bytes (bs ! 0) (bs ! 1) (bs ! 2) (bs ! 3)"
    by (auto simp: read_u32_def bind_res_eq_Ok ok_or_eqs)
  note parts = get_range_SomeD[OF bs]
  from parts(3) have "to_le_bytes w = bs" by (simp add: w list4_nth)
  with parts show "off + 4 \<le> length data" and "drop off data = to_le_bytes w @ drop (off + 4) data"
    by auto
qed

end
