(* ===== verification/Scanner_Types.thy ===== *)
theory Scanner_Types
  imports Wire_Types
begin

text \<open>
  What the scanner reads and what it makes of it: the protocol descriptions of
  \<open>hyprwire-scanner/src/parse.rs\<close>, and from \<open>hyprwire-scanner/src/generate.rs\<close> the specs the generated
  module \<open>spec\<close> declares (\<open>magic_for_arg\<close>, \<open>write_method_spec\<close>, \<open>generate_spec\<close>), which the runtime's
  calls are checked and marshalled by.
\<close>

section \<open>Protocol descriptions\<close>

datatype arg_type =
    TVarchar | TFd | TUint | TInt | TF32 | TEnum
  | TArrayVarchar | TArrayFd | TArrayUint | TArrayInt | TArrayF32

record arg =
  arg_name :: str
  arg_type :: arg_type
  arg_interface :: "str option"
  arg_summary :: "str option"

record description =
  ds_summary :: "str option"
  ds_body :: "str option"

record method_decl =
  md_name :: str
  md_args :: "arg list"
  md_returns :: "str option"
  md_destructor :: bool
  md_description :: "description option"

record object_decl =
  od_name :: str
  od_version :: u32
  od_c2s :: "method_decl list"
  od_s2c :: "method_decl list"
  od_description :: "description option"

record enum_value =
  nv_name :: str
  nv_idx :: u32
  nv_description :: "str option"

record enum_decl =
  en_name :: str
  en_values :: "enum_value list"

record protocol =
  pt_name :: str
  pt_version :: u32
  pt_objects :: "object_decl list"
  pt_enums :: "enum_decl list"
  pt_copyright :: "str option"

text \<open>\<open>objects.iter().find(|o| o.name == name)\<close>.\<close>

definition find_object_decl :: "protocol \<Rightarrow> str \<Rightarrow> object_decl option" where
  "find_object_decl p name = List.find (\<lambda>obj. od_name obj = name) (pt_objects p)"

section \<open>Specs\<close>

fun magic_for_arg :: "arg_type \<Rightarrow> bytes" where
  "magic_for_arg TVarchar = [magic_u8 TypeVarchar]"
| "magic_for_arg TFd = [magic_u8 TypeFd]"
| "magic_for_arg TUint = [magic_u8 TypeUint]"
| "magic_for_arg TEnum = [magic_u8 TypeUint]"
| "magic_for_arg TInt = [magic_u8 TypeInt]"
| "magic_for_arg TF32 = [magic_u8 TypeF32]"
| "magic_for_arg TArrayVarchar = [magic_u8 TypeArray, magic_u8 TypeVarchar]"
| "magic_for_arg TArrayFd = [magic_u8 TypeArray, magic_u8 TypeFd]"
| "magic_for_arg TArrayUint = [magic_u8 TypeArray, magic_u8 TypeUint]"
| "magic_for_arg TArrayInt = [magic_u8 TypeArray, magic_u8 TypeInt]"
| "magic_for_arg TArrayF32 = [magic_u8 TypeArray, magic_u8 TypeF32]"

text \<open>\<open>idx as u32\<close> truncates. \<open>since\<close> is 0 whatever the description says.\<close>

definition write_method_spec :: "nat \<Rightarrow> method_decl \<Rightarrow> method_spec" where
  "write_method_spec idx m =
     \<lparr>method_idx = of_nat idx, method_params = concat (map (magic_for_arg \<circ> arg_type) (md_args m)),
      returns_type = (case md_returns m of Some r \<Rightarrow> r | None \<Rightarrow> []), since = 0,
      destructor = md_destructor m\<rparr>"

definition method_specs :: "method_decl list \<Rightarrow> method_spec list" where
  "method_specs ms = map2 write_method_spec [0..<length ms] ms"

definition generate_object_spec :: "object_decl \<Rightarrow> object_spec" where
  "generate_object_spec obj =
     \<lparr>object_name = od_name obj, c2s = method_specs (od_c2s obj), s2c = method_specs (od_s2c obj)\<rparr>"

definition generate_spec :: "protocol \<Rightarrow> protocol_spec" where
  "generate_spec p =
     \<lparr>spec_name = pt_name p, spec_ver = pt_version p, spec_objects = map generate_object_spec (pt_objects p)\<rparr>"

lemma length_method_specs [simp]: "length (method_specs ms) = length ms"
  by (simp add: method_specs_def)

lemma method_specs_nth: "i < length ms \<Longrightarrow> method_specs ms ! i = write_method_spec i (ms ! i)"
  by (simp add: method_specs_def)

lemma magic_for_arg_not_Nil [simp]: "magic_for_arg t \<noteq> []"
  by (cases t) simp_all

end
