(* ===== verification/Varint.thy ===== *)
theory Varint
  imports Wire_Types
begin

text \<open>
  Variable-length integers: \<open>encode_var_int\<close>, \<open>parse_var_int\<close> and \<open>parse_var_int_span\<close> of
  \<open>hyprwire-core/src/message/mod.rs\<close>. The encoder writes into a caller's buffer and panics when it is
  too short; \<open>varint\<close> is the abstract encoding it implements. The parser reads as long as the high bit
  is set, without a limit on the number of bytes.
\<close>

section \<open>The code\<close>

text \<open>
  \<open>u8::try_from(n & 0x7F)\<close> always succeeds (\<open>n & 0x7F\<close> is at most 127), so the loop's \<open>continue\<close> is
  dead and the chunk is the converted value.
\<close>

function encode_loop :: "usize \<Rightarrow> bytes \<Rightarrow> usize \<Rightarrow> (error, bytes \<times> usize) res" where
  "encode_loop n buffer i =
     (let chunk = of_nat (n AND 0x7F) :: u8; n' = drop_bit 7 n in
      if i < length buffer then
        (let buffer' = buffer[i := (if n' = 0 then chunk else chunk OR 0x80)] in
         if n' = 0 then Ok (buffer', i + 1) else encode_loop n' buffer' (i + 1))
      else Panic)"
  by pat_completeness auto
termination
  by (relation "measure (\<lambda>(n, buffer, i). length buffer - i)") auto

declare encode_loop.simps [simp del]

definition encode_var_int :: "usize \<Rightarrow> bytes \<Rightarrow> (error, bytes) res" where
  "encode_var_int num buffer =
     bind_res (encode_loop num buffer 0) (\<lambda>(buffer', i). slice_at buffer' 0 i)"

text \<open>The buffer of every caller, \<open>[0u8; 10]\<close>.\<close>

definition var_int_buf :: bytes where
  "var_int_buf = replicate 10 0"

fun parse_span_loop :: "profile \<Rightarrow> bytes \<Rightarrow> usize \<Rightarrow> usize \<Rightarrow> (error, usize \<times> usize) res" where
  "parse_span_loop pr [] rolling i = Ok (rolling, i)"
| "parse_span_loop pr (byte # rest) rolling i =
     bind_res (ushl pr (unat (byte AND 0x7F)) (i * 7)) (\<lambda>shifted.
     bind_res (uadd pr rolling shifted) (\<lambda>rolling'.
       if byte AND 0x80 = 0 then Ok (rolling', i + 1)
       else parse_span_loop pr rest rolling' (i + 1)))"

definition parse_var_int_span :: "profile \<Rightarrow> bytes \<Rightarrow> (error, usize \<times> usize) res" where
  "parse_var_int_span pr data = parse_span_loop pr data 0 0"

definition parse_var_int :: "profile \<Rightarrow> bytes \<Rightarrow> usize \<Rightarrow> (error, usize \<times> usize) res" where
  "parse_var_int pr data offset =
     (if offset \<ge> length data then Ok (0, 0) else parse_var_int_span pr (drop offset data))"

section \<open>The abstract encoding\<close>

function varint :: "nat \<Rightarrow> bytes" where
  "varint n = (if n < 128 then [of_nat n] else of_nat (n mod 128 + 128) # varint (n div 128))"
  by pat_completeness auto
termination
  by (relation "measure id") auto

declare varint.simps [simp del]

lemma and_7F_nat: "n AND 0x7F = (n :: nat) mod 128"
  using take_bit_eq_mask[of 7 n] by (simp add: mask_eq_exp_minus_1 take_bit_eq_mod)

lemma drop_7_nat: "drop_bit 7 n = (n :: nat) div 128"
  by (simp add: drop_bit_eq_div)

lemma unat_and_7F: "unat (b AND 0x7F :: u8) = unat b mod 128"
  by (simp add: unsigned_and_eq and_7F_nat)

lemma high_bit_clear: "b AND 0x80 = (0 :: u8) \<longleftrightarrow> unat b < 128"
proof -
  have "b AND 0x80 = 0 \<longleftrightarrow> \<not> bit b 7"
    using and_exp_eq_0_iff_not_bit[of b 7] by simp
  also have "\<dots> \<longleftrightarrow> \<not> bit (unat b) 7"
    by (simp add: bit_unsigned_iff)
  also have "\<dots> \<longleftrightarrow> even (unat b div 128)"
    by (simp add: bit_iff_odd)
  also have "\<dots> \<longleftrightarrow> unat b < 128"
  proof (cases "unat b < 128")
    case False
    have "unat b < 256" using unsigned_less[of b] by simp
    with False have "unat b div 128 = 1" by (simp add: div_nat_eqI)
    with False show ?thesis by simp
  qed simp
  finally show ?thesis .
qed

lemma or_high_bit: "m < 128 \<Longrightarrow> of_nat m OR 0x80 = (of_nat (m + 128) :: u8)"
proof -
  assume m: "m < 128"
  have "\<not> bit (of_nat m :: u8) n \<or> \<not> bit (0x80 :: u8) n" for n
  proof (cases "n = 7")
    case True
    from m have "\<not> bit m 7" by (simp add: bit_iff_odd)
    with True show ?thesis by (simp add: bit_of_nat_iff)
  next
    case False
    then have "\<not> bit ((2 :: u8) ^ 7) n" by (simp only: bit_exp_iff) simp
    then show ?thesis by simp
  qed
  then have "of_nat m + (0x80 :: u8) = of_nat m OR 0x80"
    by (rule disjunctive_add)
  then show ?thesis by simp
qed

lemma length_varint_pos [simp]: "0 < length (varint n)"
  by (simp add: varint.simps[of n])

lemma varint_not_Nil [simp]: "varint n \<noteq> []"
  by (simp add: varint.simps[of n])

lemma varint_length_le: "n < 128 ^ Suc k \<Longrightarrow> length (varint n) \<le> Suc k"
proof (induction k arbitrary: n)
  case 0
  then show ?case by (simp add: varint.simps[of n])
next
  case (Suc k)
  then have "n div 128 < 128 ^ Suc k" by (simp add: less_mult_imp_div_less mult.commute)
  with Suc.IH[of "n div 128"] show ?case by (simp add: varint.simps[of n])
qed

lemma varint_length_10: "n < usize_bound \<Longrightarrow> length (varint n) \<le> 10"
  using varint_length_le[of n 9] by (simp add: usize_bound_def)

text \<open>The encoder implements \<open>varint\<close>, and panics exactly when the buffer is too short.\<close>

lemma encode_loop_varint:
  "encode_loop n buffer i =
     (if i + length (varint n) \<le> length buffer
      then Ok (take i buffer @ varint n @ drop (i + length (varint n)) buffer, i + length (varint n))
      else Panic)"
proof (induction n buffer i rule: encode_loop.induct)
  case (1 n buffer i)
  show ?case
  proof (cases "i < length buffer \<and> \<not> n < 128")
    case True
    let ?b = "of_nat (n mod 128 + 128) :: u8"
    let ?buf = "buffer[i := ?b]"
    from True have pos: "n div 128 \<noteq> 0" by (simp add: div_eq_0_iff)
    have IH: "encode_loop (n div 128) ?buf (i + 1) =
      (if i + 1 + length (varint (n div 128)) \<le> length buffer
       then Ok (take (i + 1) ?buf @ varint (n div 128) @
          drop (i + 1 + length (varint (n div 128))) ?buf, i + 1 + length (varint (n div 128)))
       else Panic)"
      using 1[OF refl refl, of ?buf] True pos
      by (simp add: and_7F_nat drop_7_nat or_high_bit del: of_nat_add)
    have "take (i + 1) ?buf = take i buffer @ [?b]"
      using True by (simp add: take_Suc_conv_app_nth)
    with True IH pos show ?thesis
      by (simp add: encode_loop.simps[of n] varint.simps[of n] and_7F_nat drop_7_nat or_high_bit
          del: of_nat_add)
  next
    case False
    then show ?thesis
      by (auto simp: encode_loop.simps[of n] varint.simps[of n] and_7F_nat drop_7_nat
          upd_conv_take_nth_drop)
  qed
qed

lemma encode_var_int_varint:
  "encode_var_int n buffer =
     (if length (varint n) \<le> length buffer then Ok (varint n) else Panic)"
  by (simp add: encode_var_int_def encode_loop_varint slice_at_def get_range_def)

lemma encode_var_int_buf [simp]: "n < usize_bound \<Longrightarrow> encode_var_int n var_int_buf = Ok (varint n)"
  using varint_length_10[of n] by (simp add: encode_var_int_varint var_int_buf_def)

section \<open>The parser on encoded numbers\<close>

lemma ushl_varint_chunk:
  assumes "c * 2 ^ s < usize_bound" and "s < 64"
  shows "ushl pr c s = Ok (c * 2 ^ s)"
  using assms by (simp add: ushl_def usize_bound_def push_bit_eq_mult take_bit_nat_eq_self)

lemma unat_chunk: "m < 256 \<Longrightarrow> unat (of_nat m :: u8) = m"
  by (simp add: unat_of_nat)

text \<open>
  Generalised over the bytes already read: with \<open>i\<close> of them consumed, the rest of the number is
  added at weight \<open>2 ^ (7 * i)\<close>.
\<close>

lemma parse_span_loop_varint:
  assumes "r + n * 2 ^ (i * 7) < usize_bound" and "i * 7 < 64"
  shows "parse_span_loop pr (varint n @ rest) r i = Ok (r + n * 2 ^ (i * 7), i + length (varint n))"
  using assms
proof (induction n arbitrary: r i rule: varint.induct)
  case (1 n)
  show ?case
  proof (cases "n < 128")
    case True
    with "1.prems" show ?thesis
      by (simp add: varint.simps[of n] unat_and_7F unat_chunk ushl_varint_chunk high_bit_clear)
  next
    case False
    let ?c = "n mod 128" and ?q = "n div 128"
    have n: "n = ?c + 128 * ?q" by simp
    have weight: "(2::nat) ^ (Suc i * 7) = 128 * 2 ^ (i * 7)"
      by (simp add: power_add)
    have sum: "n * 2 ^ (i * 7) = ?c * 2 ^ (i * 7) + ?q * 2 ^ (Suc i * 7)"
    proof -
      have "(?c + 128 * ?q) * 2 ^ (i * 7) = ?c * 2 ^ (i * 7) + ?q * 2 ^ (Suc i * 7)"
        by (simp only: weight distrib_left distrib_right ac_simps)
      then show ?thesis by (simp only: n[symmetric])
    qed
    have q: "?q \<ge> 1" using False by (simp add: div_greater_zero_iff)
    have "2 ^ (Suc i * 7) \<le> ?q * 2 ^ (Suc i * 7)" using q by simp
    also have "\<dots> < 2 ^ 64" using "1.prems"(1) sum by (simp add: usize_bound_def)
    finally have i': "Suc i * 7 < 64" by (simp only: power_strict_increasing_iff) 
    have chunk: "unat ((of_nat (?c + 128) :: u8) AND 0x7F) = ?c"
      by (simp add: unat_and_7F unat_chunk del: of_nat_add)
    have high: "(of_nat (?c + 128) :: u8) AND 0x80 \<noteq> 0"
      by (simp add: high_bit_clear unat_chunk del: of_nat_add)
    have IH: "parse_span_loop pr (varint ?q @ rest) (r + ?c * 2 ^ (i * 7)) (Suc i) =
        Ok (r + ?c * 2 ^ (i * 7) + ?q * 2 ^ (Suc i * 7), Suc i + length (varint ?q))"
      using "1.IH"[OF False] "1.prems"(1) i' sum by simp
    have bounds: "?c * 2 ^ (i * 7) < usize_bound" "r + ?c * 2 ^ (i * 7) < usize_bound"
      using "1.prems"(1) sum by simp_all
    have "parse_span_loop pr (varint n @ rest) r i =
        parse_span_loop pr (varint ?q @ rest) (r + ?c * 2 ^ (i * 7)) (Suc i)"
      using False high bounds "1.prems"(2)
      by (simp add: varint.simps[of n] chunk ushl_varint_chunk del: of_nat_add)
    with IH sum False show ?thesis
      by (simp add: varint.simps[of n] del: of_nat_add)
  qed
qed

lemma parse_var_int_span_varint:
  "n < usize_bound \<Longrightarrow> parse_var_int_span pr (varint n @ rest) = Ok (n, length (varint n))"
  using parse_span_loop_varint[of 0 n 0 pr rest] by (simp add: parse_var_int_span_def)

lemma parse_var_int_cursor [cursor_intros]:
  assumes "cursor_at data off (varint n @ rest)" and "n < usize_bound"
  shows "parse_var_int pr data off = Ok (n, length (varint n))"
proof -
  from assms(1) have "drop off data = varint n @ rest" and "\<not> length data \<le> off"
    using cursor_length[OF assms(1)] length_varint_pos[of n]
    by (auto simp: cursor_at_def simp del: length_varint_pos)
  with assms(2) show ?thesis by (simp add: parse_var_int_def parse_var_int_span_varint)
qed

section \<open>The parser on arbitrary bytes\<close>

lemma parse_span_loop_bounds:
  assumes "parse_span_loop pr data r i = Ok (v, k)" and "r < usize_bound"
  shows "v < usize_bound \<and> i \<le> k \<and> k \<le> i + length data \<and> (data \<noteq> [] \<longrightarrow> i < k)"
  using assms
proof (induction pr data r i rule: parse_span_loop.induct)
  case (2 pr byte rest rolling i)
  from "2.prems"(1) obtain s r' where r': "ushl pr (unat (byte AND 0x7F)) (i * 7) = (Ok s :: (error, usize) res)"
      "uadd pr rolling s = (Ok r' :: (error, usize) res)"
    and cont: "(if byte AND 0x80 = 0 then Ok (r', i + 1)
      else parse_span_loop pr rest r' (i + 1)) = Ok (v, k)"
    by (auto simp: bind_res_eq_Ok)
  from uadd_lt_bound[OF r'(2)] have "r' < usize_bound" .
  with "2.IH"[OF r'] cont show ?case
    by (fastforce split: if_splits)
qed simp

lemma parse_span_loop_not_Err: "parse_span_loop pr data r i \<noteq> Err e"
  by (induction pr data r i rule: parse_span_loop.induct) (auto simp: bind_res_eq_Err)

lemma parse_span_loop_Release: "parse_span_loop Release data r i \<noteq> Panic"
  by (induction Release data r i rule: parse_span_loop.induct) (auto simp: bind_res_eq_Panic)

lemma parse_var_int_bounds:
  assumes "parse_var_int pr data off = Ok (v, k)"
  shows "v < usize_bound" and "k \<le> length data - off"
proof -
  have "v < usize_bound \<and> k \<le> length data - off"
  proof (cases "off < length data")
    case True
    with assms parse_span_loop_bounds[of pr "drop off data" 0 0 v k] show ?thesis
      by (simp add: parse_var_int_def parse_var_int_span_def usize_bound_def)
  next
    case False
    with assms show ?thesis by (simp add: parse_var_int_def usize_bound_def)
  qed
  then show "v < usize_bound" and "k \<le> length data - off" by auto
qed

lemma parse_var_int_not_Err [simp]: "parse_var_int pr data off \<noteq> Err e"
  by (simp add: parse_var_int_def parse_var_int_span_def parse_span_loop_not_Err)

lemma parse_var_int_Release [simp]: "parse_var_int Release data off \<noteq> Panic"
  by (simp add: parse_var_int_def parse_var_int_span_def parse_span_loop_Release)

lemma agrees_parse_span_loop [agree_intros]:
  "agrees (parse_span_loop Debug data r i) (parse_span_loop Release data r i)"
proof (induction data arbitrary: r i)
  case (Cons byte rest)
  then show ?case by (auto intro!: agree_intros)
qed (simp add: agrees_refl)

lemma agrees_parse_var_int [agree_intros]:
  "agrees (parse_var_int Debug data off) (parse_var_int Release data off)"
  by (auto simp: parse_var_int_def parse_var_int_span_def intro!: agree_intros)

section \<open>When the debug build panics\<close>

text \<open>
  The shift distance \<open>i * 7\<close> leaves the width at the eleventh byte; up to there the chunks occupy
  disjoint bits, so the sum cannot overflow.
\<close>

definition span_limit :: "nat \<Rightarrow> nat" where
  "span_limit i = (if i \<le> 9 then 2 ^ (i * 7) else 2 ^ 64)"

lemma span_step:
  assumes "i \<le> 9" and "r < span_limit i" and "c < 128"
  shows "r + take_bit 64 (push_bit (i * 7) c) < span_limit (Suc i)"
proof (cases "i = 9")
  case True
  have "take_bit 64 (push_bit 63 c) = push_bit 63 (take_bit 1 c)"
    by (simp only: take_bit_push_bit) simp
  also have "\<dots> \<le> 2 ^ 63"
    by (simp add: push_bit_eq_mult take_bit_eq_mod)
  finally show ?thesis using True assms(2) by (simp add: span_limit_def)
next
  case False
  with assms have "i \<le> 8" by simp
  have "take_bit 64 (push_bit (i * 7) c) \<le> push_bit (i * 7) c"
    by (rule take_bit_nat_less_eq_self)
  also have "\<dots> \<le> 127 * 2 ^ (i * 7)"
    using assms(3) by (simp add: push_bit_eq_mult)
  finally have "r + take_bit 64 (push_bit (i * 7) c) < 2 ^ (i * 7) + 127 * 2 ^ (i * 7)"
    using assms(1,2) by (simp add: span_limit_def)
  also have "\<dots> = 2 ^ (Suc i * 7)" by (simp add: power_add)
  finally show ?thesis using \<open>i \<le> 8\<close> by (simp add: span_limit_def)
qed

lemma parse_span_loop_Debug_Panic:
  assumes "i \<le> 10" and "r < span_limit i"
  shows "parse_span_loop Debug data r i = Panic \<longleftrightarrow>
    10 - i < length data \<and> (\<forall>b \<in> set (take (10 - i) data). 128 \<le> unat b)"
  using assms
proof (induction data arbitrary: r i)
  case (Cons byte rest)
  show ?case
  proof (cases "i = 10")
    case True
    then show ?thesis by (simp add: ushl_def)
  next
    case False
    with Cons.prems have i: "i \<le> 9" by simp
    let ?s = "take_bit 64 (push_bit (i * 7) (unat (byte AND 0x7F)))"
    have lim: "r + ?s < span_limit (Suc i)"
      using span_step[OF i Cons.prems(2), of "unat (byte AND 0x7F)"] by (simp add: unat_and_7F)
    also have "\<dots> \<le> usize_bound"
      using power_increasing[of "Suc i * 7" 64 "2 :: nat"] i
      by (simp add: span_limit_def usize_bound_def)
    finally have step: "ushl Debug (unat (byte AND 0x7F)) (i * 7) = (Ok ?s :: (error, usize) res)"
        "uadd Debug r ?s = (Ok (r + ?s) :: (error, usize) res)"
      using i by (simp_all add: ushl_def)
    have "10 - i = Suc (10 - Suc i)" using i by simp
    with Cons.IH[of "Suc i" "r + ?s"] i lim show ?thesis
      by (simp add: step high_bit_clear)
  qed
qed simp

lemma parse_var_int_Debug_Panic:
  "parse_var_int Debug data off = Panic \<longleftrightarrow>
     off + 10 < length data \<and> (\<forall>b \<in> set (take 10 (drop off data)). 128 \<le> unat b)"
  using parse_span_loop_Debug_Panic[of 0 0 "drop off data"]
  by (auto simp: parse_var_int_def parse_var_int_span_def span_limit_def)

section \<open>Self-delimiting representations\<close>

text \<open>
  A peer may send a number in more bytes than necessary (\<open>[0x80, 0x00]\<close> is zero as well).
  \<open>varint_repr pr V n\<close>: the bytes \<open>V\<close> read as \<open>n\<close> whatever follows them.
\<close>

definition varint_repr :: "profile \<Rightarrow> bytes \<Rightarrow> nat \<Rightarrow> bool" where
  "varint_repr pr V n \<longleftrightarrow> V \<noteq> [] \<and> (\<forall>rest. parse_var_int_span pr (V @ rest) = Ok (n, length V))"

lemma varint_repr_varint: "n < usize_bound \<Longrightarrow> varint_repr pr (varint n) n"
  by (simp add: varint_repr_def parse_var_int_span_varint)

lemma varint_repr_cursor:
  assumes "varint_repr pr V n" and "cursor_at data off (V @ rest)"
  shows "parse_var_int pr data off = Ok (n, length V)"
proof -
  from assms have "V \<noteq> []" and "drop off data = V @ rest"
    by (auto simp: varint_repr_def cursor_at_def)
  then have "\<not> length data \<le> off" by auto
  with assms show ?thesis
    by (simp add: parse_var_int_def varint_repr_def \<open>drop off data = V @ rest\<close>)
qed

lemma varint_repr_bound: "varint_repr pr V n \<Longrightarrow> n < usize_bound"
  using parse_span_loop_bounds[of pr "V @ []" 0 0 n "length V"]
  by (simp add: varint_repr_def parse_var_int_span_def usize_bound_def del: append_Nil2)

lemma parse_span_loop_local:
  assumes "parse_span_loop pr data r i = Ok (v, k)" and "k < i + length data"
  shows "parse_span_loop pr (take (k - i) data @ rest) r i = Ok (v, k) \<and> i < k"
  using assms
proof (induction pr data r i rule: parse_span_loop.induct)
  case (2 pr byte bs rolling i)
  from "2.prems"(1) obtain s r' where r': "ushl pr (unat (byte AND 0x7F)) (i * 7) = (Ok s :: (error, usize) res)"
      "uadd pr rolling s = (Ok r' :: (error, usize) res)"
    and cont: "(if byte AND 0x80 = 0 then Ok (r', i + 1)
      else parse_span_loop pr bs r' (i + 1)) = Ok (v, k)"
    by (auto simp: bind_res_eq_Ok)
  show ?case
  proof (cases "byte AND 0x80 = 0")
    case True
    with cont r' show ?thesis by auto
  next
    case False
    with cont have rec: "parse_span_loop pr bs r' (i + 1) = Ok (v, k)" by simp
    with "2.IH"[OF r' False] "2.prems"(2)
    have "parse_span_loop pr (take (k - (i + 1)) bs @ rest) r' (i + 1) = Ok (v, k)" and "i + 1 < k"
      by auto
    moreover from this(2) have "k - i = Suc (k - (i + 1))" by simp
    ultimately show ?thesis using r' False by simp
  qed
qed simp

lemma parse_var_int_split:
  assumes ok: "parse_var_int pr data off = Ok (n, k)" and more: "off + k < length data"
  obtains V where "varint_repr pr V n" and "length V = k" and "drop off data = V @ drop (off + k) data"
proof
  let ?V = "take k (drop off data)"
  from ok more have loop: "parse_span_loop pr (drop off data) 0 0 = Ok (n, k)"
    by (simp add: parse_var_int_def parse_var_int_span_def)
  note here = parse_span_loop_local[OF loop]
  show len: "length ?V = k" using more by simp
  with here more show "varint_repr pr ?V n"
    by (auto simp: varint_repr_def parse_var_int_span_def)
  show "drop off data = ?V @ drop (off + k) data"
    by (metis add.commute append_take_drop_id drop_drop)
qed

section \<open>Properties\<close>

text \<open>A length of the machine always encodes into the ten-byte buffer, and wherever the encoding
  lies in a buffer the parser returns the number and the number of bytes, in both builds.\<close>
theorem var_int_roundtrip:
  assumes "n < usize_bound"
  shows "\<exists>bs. encode_var_int n var_int_buf = Ok bs \<and> bs \<noteq> [] \<and> length bs \<le> 10 \<and>
    (\<forall>pr pre post. length (pre @ bs @ post) \<le> isize_max \<longrightarrow>
       parse_var_int pr (pre @ bs @ post) (length pre) = Ok (n, length bs))"
  using assms varint_length_10[OF assms] parse_var_int_cursor[OF cursor_append] by auto

theorem var_int_roundtrip_witness:
  "encode_var_int 300 var_int_buf = Ok [0xAC, 0x02] \<and>
   (\<exists>bs. encode_var_int 300 var_int_buf = Ok bs \<and> bs \<noteq> [] \<and> length bs \<le> 10 \<and>
    (\<forall>pr pre post. length (pre @ bs @ post) \<le> isize_max \<longrightarrow>
       parse_var_int pr (pre @ bs @ post) (length pre) = Ok (300, length bs)))"
  using var_int_roundtrip[of 300]
  by (simp add: encode_var_int_varint varint.simps var_int_buf_def usize_bound_def)

text \<open>C39: The parser of a build with overflow checks panics exactly when more than ten bytes follow and
  the first ten of them all have the high bit set; the release build never panics and agrees with it
  on all other inputs. It never reports \<open>InvalidVarInt\<close> or any other error.\<close>
theorem var_int_panics:
  "(parse_var_int Debug data off = Panic \<longleftrightarrow>
      off + 10 < length data \<and> (\<forall>b \<in> set (take 10 (drop off data)). 128 \<le> unat b)) \<and>
   parse_var_int Release data off \<noteq> Panic \<and>
   (parse_var_int Debug data off = Panic \<or>
      parse_var_int Release data off = parse_var_int Debug data off) \<and>
   parse_var_int pr data off \<noteq> Err e"
  using agrees_parse_var_int[of data off]
  by (simp_all add: parse_var_int_Debug_Panic agrees_def)

theorem var_int_panics_witness:
  "parse_var_int Debug (replicate 11 0xFF) 0 = Panic \<and>
   parse_var_int Debug (replicate 10 0xFF) 0 \<noteq> Panic"
  by (simp add: var_int_panics)

end
