(* ===== verification/Codec_Interface.thy ===== *)
theory Codec_Interface
  imports Varint
begin

text \<open>
  What the connection code relies on when it walks over a buffer of messages: the interface between
  \<open>Message::data\<close> and \<open>from_bytes\<close>. Every message of a fixed or variable layout provides it; the
  message loops of the client and the server use it.

  \<open>enc\<close> is \<open>data()\<close> of a message, \<open>parse\<close> its \<open>from_bytes\<close>, and \<open>built\<close> holds for what \<open>new\<close> returns.
\<close>

locale wire_codec =
  fixes enc :: "'m \<Rightarrow> bytes"
    and parse :: "profile \<Rightarrow> bytes \<Rightarrow> usize \<Rightarrow> (error, 'm) res"
    and built :: "'m \<Rightarrow> bool"
  assumes parse_built: "built m \<Longrightarrow> cursor_at data off (enc m @ rest) \<Longrightarrow> parse pr data off = Ok m"
    and parse_frame: "length data \<le> isize_max \<Longrightarrow> parse pr data off = Ok m \<Longrightarrow>
      enc m \<noteq> [] \<and> cursor_at data off (enc m @ drop (off + length (enc m)) data)"
    and parse_local: "length data \<le> isize_max \<Longrightarrow> parse pr data off = Ok m \<Longrightarrow>
      cursor_at data' off' (enc m @ rest) \<Longrightarrow> parse pr data' off' = Ok m"
    and parse_agrees: "agrees (parse Debug data off) (parse Release data off)"
    and parse_Release: "parse Release data off \<noteq> Panic"
begin

lemma parse_own: "built m \<Longrightarrow> length (enc m) \<le> isize_max \<Longrightarrow> parse pr (enc m) 0 = Ok m"
  using parse_built[of m "enc m" 0 "[]"] by (simp add: cursor_start)

lemma parse_in_stream:
  "built m \<Longrightarrow> length (pre @ enc m @ post) \<le> isize_max \<Longrightarrow>
     parse pr (pre @ enc m @ post) (length pre) = Ok m"
  using cursor_append[of pre "enc m @ post"] parse_built by blast

text \<open>A parsed message lies inside the buffer and is not empty: the caller's index makes progress.\<close>

lemma parse_progress:
  assumes "length data \<le> isize_max" and "parse pr data off = Ok m"
  shows "0 < length (enc m)" and "off + length (enc m) \<le> length data"
  using parse_frame[OF assms] cursor_length[of data off "enc m @ drop (off + length (enc m)) data"]
  by auto

lemma parse_next_cursor:
  assumes "length data \<le> isize_max" and "parse pr data off = Ok m"
  shows "cursor_at data (off + length (enc m)) (drop (off + length (enc m)) data)"
  using parse_frame[OF assms] cursor_advance[of data off "enc m"] by blast

text \<open>No message is a proper prefix of another, so a stream of messages splits in one way only.\<close>

lemma prefix_free:
  assumes "built m" and "built m'" and eq: "enc m @ rest = enc m' @ rest'"
    and len: "length (enc m @ rest) \<le> isize_max"
  shows "m = m' \<and> rest = rest'"
proof -
  have "parse Debug (enc m @ rest) 0 = Ok m"
    by (rule parse_built[OF assms(1)]) (rule cursor_start[OF len])
  moreover have "parse Debug (enc m @ rest) 0 = Ok m'"
    using cursor_start[OF len] by (intro parse_built[OF assms(2)]) (simp add: eq)
  ultimately have "m = m'" by simp
  with eq show ?thesis by simp
qed

lemma enc_inj:
  "built m \<Longrightarrow> built m' \<Longrightarrow> enc m = enc m' \<Longrightarrow> length (enc m) \<le> isize_max \<Longrightarrow> m = m'"
  using prefix_free[of m m' "[]" "[]"] by simp

text \<open>A message cut short is never taken for a message.\<close>

lemma truncated:
  assumes "built m" and cut: "enc m = p @ q" "q \<noteq> []" and len: "length (enc m) \<le> isize_max"
  shows "parse pr p 0 \<noteq> Ok m'"
proof
  assume ok: "parse pr p 0 = Ok m'"
  have lp: "length p \<le> isize_max" using cut(1) len by simp
  from parse_frame[OF lp ok] have p: "p = enc m' @ drop (length (enc m')) p"
    by (simp add: cursor_at_def)
  then have "enc m = enc m' @ (drop (length (enc m')) p @ q)"
    using cut(1) by (metis append.assoc)
  then have "cursor_at (enc m) 0 (enc m' @ (drop (length (enc m')) p @ q))"
    using cursor_start[OF len] by simp
  from parse_local[OF lp ok this] have "parse pr (enc m) 0 = Ok m'" .
  with parse_own[OF assms(1) len] have "m' = m" by simp
  with p cut show False by (metis append_self_conv append_assoc append_is_Nil_conv)
qed

lemma release_as_debug: "parse Debug data off \<noteq> Panic \<Longrightarrow> parse Release data off = parse Debug data off"
  using parse_agrees by (rule agrees_not_Panic)

lemma release_total: "(\<exists>m. parse Release data off = Ok m) \<or> (\<exists>e. parse Release data off = Err e)"
  using parse_Release[of data off] by (cases "parse Release data off") auto

end

text \<open>
  Messages of a fixed layout: whatever is parsed could have been built, and no length is decoded, so
  the build profile does not matter.
\<close>

locale fixed_codec =
  fixes enc :: "'m \<Rightarrow> bytes"
    and parse :: "bytes \<Rightarrow> usize \<Rightarrow> (error, 'm) res"
    and built :: "'m \<Rightarrow> bool"
  assumes fixed_built: "built m \<Longrightarrow> cursor_at data off (enc m @ rest) \<Longrightarrow> parse data off = Ok m"
    and fixed_parsed: "parse data off = Ok m \<Longrightarrow> built m \<and> enc m \<noteq> [] \<and>
      off + length (enc m) \<le> length data \<and> drop off data = enc m @ drop (off + length (enc m)) data"
    and fixed_no_panic: "parse data off \<noteq> Panic"

sublocale fixed_codec \<subseteq> wire_codec enc "\<lambda>_. parse" built
proof
  show "built m \<Longrightarrow> cursor_at data off (enc m @ rest) \<Longrightarrow> parse data off = Ok m" for m data off rest
    by (rule fixed_built)
  show "enc m \<noteq> [] \<and> cursor_at data off (enc m @ drop (off + length (enc m)) data)"
    if "length data \<le> isize_max" "parse data off = Ok m" for m data off
    using fixed_parsed[OF that(2)] that(1) by (simp add: cursor_at_def)
  show "parse data' off' = Ok m"
    if "parse data off = Ok m" "cursor_at data' off' (enc m @ rest)" for m data off data' off' rest
    using fixed_parsed[OF that(1)] that(2) by (blast intro: fixed_built)
qed (simp_all add: agrees_refl fixed_no_panic)

section \<open>Reading at a distance from the cursor\<close>

lemma cursor_drop: "cursor_at data off xs \<Longrightarrow> n \<le> length xs \<Longrightarrow> cursor_at data (off + n) (drop n xs)"
  using cursor_advance[of data off "take n xs" "drop n xs" n] by simp

lemma expect_byte_off:
  assumes "cursor_at data off xs" and "get xs n = Some b"
  shows "expect_byte data (off + n) b e = Ok ()"
proof -
  from assms(2) have "n < length xs" and "drop n xs = b # drop (Suc n) xs"
    by (auto simp: get_eq_Some Cons_nth_drop_Suc)
  with cursor_drop[OF assms(1), of n] show ?thesis by (simp add: expect_byte_cursor)
qed

lemma read_u32_off:
  assumes "cursor_at data off xs" and "drop n xs = to_le_bytes w @ r"
  shows "read_u32 data (off + n) = Ok w"
proof -
  have "n \<le> length xs" using assms(2) by (metis append_is_Nil_conv drop_all linorder_linear
    to_le_bytes_not_Nil)
  with cursor_drop[OF assms(1), of n] assms(2) show ?thesis by (simp add: read_u32_cursor)
qed

text \<open>What a successful read says about the buffer, one step after the other.\<close>

lemma expect_byte_drop: "expect_byte data i b e = Ok u \<Longrightarrow> drop i data = b # drop (i + 1) data"
  by (auto simp: expect_byte_Ok Cons_nth_drop_Suc)

lemma read_u32_drop: "read_u32 data i = Ok w \<Longrightarrow> drop i data = to_le_bytes w @ drop (i + 4) data"
  by (rule read_u32_Ok)

lemma get_range_drop:
  "get_range data a (a + n) = Some xs \<Longrightarrow> drop a data = xs @ drop (a + n) data \<and> length xs = n"
  by (auto dest: get_range_SomeD)

section \<open>Messages with decoded lengths\<close>

text \<open>
  The obligations of the interface from two facts: \<open>fwd\<close>, bytes of a message (in any representation
  \<open>rep\<close> of its lengths) parse to it; \<open>bwd\<close>, what parses is such a message.
\<close>

lemma wire_codecI:
  assumes fwd: "\<And>pr m data off rest. rep pr m \<Longrightarrow> cursor_at data off (enc m @ rest) \<Longrightarrow>
      parse pr data off = Ok m"
    and bwd: "\<And>pr m data off. length data \<le> isize_max \<Longrightarrow> parse pr data off = Ok m \<Longrightarrow>
      rep pr m \<and> enc m \<noteq> [] \<and> drop off data = enc m @ drop (off + length (enc m)) data"
    and built: "\<And>pr m. built m \<Longrightarrow> rep pr m"
    and agrees: "\<And>data off. agrees (parse Debug data off) (parse Release data off)"
    and np: "\<And>data off. parse Release data off \<noteq> Panic"
  shows "wire_codec enc parse built"
proof
  show "parse pr data off = Ok m" if "built m" "cursor_at data off (enc m @ rest)"
    for m data off rest pr
    using that by (blast intro: fwd built)
  show "enc m \<noteq> [] \<and> cursor_at data off (enc m @ drop (off + length (enc m)) data)"
    if "length data \<le> isize_max" "parse pr data off = Ok m" for m data off pr
  proof -
    from bwd[OF that] have ne: "enc m \<noteq> []"
      and eq: "drop off data = enc m @ drop (off + length (enc m)) data" by auto
    then have "drop off data \<noteq> []" by (metis append_is_Nil_conv)
    then have "off \<le> length data" by simp
    with ne eq that(1) show ?thesis by (simp add: cursor_at_def)
  qed
  show "parse pr data' off' = Ok m"
    if "length data \<le> isize_max" "parse pr data off = Ok m" "cursor_at data' off' (enc m @ rest)"
    for m data off data' off' rest pr
    using bwd[OF that(1,2)] that(3) by (blast intro: fwd)
qed (rule agrees np)+

text \<open>
  \<open>str::from_utf8(data.get(needle..needle + len).ok_or(UnexpectedEof)?).map_err(MalformedMessage)\<close>.
\<close>

definition read_str :: "profile \<Rightarrow> bytes \<Rightarrow> usize \<Rightarrow> usize \<Rightarrow> (error, str) res" where
  "read_str pr data needle len =
     bind_res (uadd pr needle len) (\<lambda>stop.
     bind_res (ok_or UnexpectedEof (get_range data needle stop)) (\<lambda>bs.
     bind_res (require (utf8_valid bs) MalformedMessage) (\<lambda>_. Ok bs)))"

lemma read_str_cursor:
  assumes "cursor_at data off (s @ rest)" and "utf8_valid s" and "n = length s"
  shows "read_str pr data off n = Ok s"
  using cursor_get_range[OF assms(1,3)] cursor_bound[OF assms(1), of n] assms(2,3)
  by (simp add: read_str_def)

lemma read_str_Ok:
  assumes ok: "read_str pr data a n = Ok s" and n: "n < usize_bound"
  shows "utf8_valid s" and "length s = n" and "drop a data = s @ drop (a + n) data"
proof -
  from ok obtain e where e: "uadd pr a n = (Ok e :: (error, usize) res)"
    and r: "get_range data a e = Some s" and u: "utf8_valid s"
    by (auto simp: read_str_def bind_res_eq_Ok ok_or_eqs require_eqs)
  have "e = a + n"
  proof (cases "a + n < usize_bound")
    case True
    with e show ?thesis by simp
  next
    case False
    with e have e': "e = (a + n) mod usize_bound" by (cases pr) (auto simp: uadd_def)
    have "e < a"
    proof (cases "a < usize_bound")
      case True
      with False n e' have "e = a + n - usize_bound" by (simp add: mod_if)
      with True False n show ?thesis by simp
    next
      case False
      then show ?thesis using uadd_lt_bound[OF e] by simp
    qed
    with r show ?thesis by (simp add: get_range_wrap)
  qed
  with r u get_range_drop[of data a n s]
  show "utf8_valid s" and "length s = n" and "drop a data = s @ drop (a + n) data" by auto
qed

lemma read_str_Release [simp]: "read_str Release data a n \<noteq> Panic"
  by (auto simp: read_str_def bind_res_eq_Panic ok_or_eqs require_eqs)

lemma agrees_read_str [agree_intros]: "agrees (read_str Debug data a n) (read_str Release data a n)"
  unfolding read_str_def by (intro agree_intros)

lemma agrees_prod [agree_intros]:
  "(\<And>a b. agrees (f a b) (g a b)) \<Longrightarrow>
     agrees (case p of (a, b) \<Rightarrow> f a b) (case p of (a, b) \<Rightarrow> g a b)"
  by (cases p) simp

end
