(* ===== verification/Fixed_Messages.thy ===== *)
theory Fixed_Messages
  imports Codec_Interface
begin

text \<open>
  The messages of a fixed layout, one file each under \<open>hyprwire-core/src/message/wire/\<close>: \<open>hello\<close>,
  \<open>handshake_ack\<close>, \<open>new_object\<close>, \<open>roundtrip_request\<close>, \<open>roundtrip_done\<close>. A message keeps its
  decoded fields and its bytes, as the structs do. Every one of them is interpreted as a
  \<open>fixed_codec\<close>.
\<close>

section \<open>Hello\<close>

record hello =
  hello_data :: bytes

definition hello_bytes :: bytes where
  "hello_bytes =
     [message_type_u8 Sup, magic_u8 TypeVarchar, 0x03, of_char (CHR ''V''), of_char (CHR ''A''),
      of_char (CHR ''X''), magic_u8 End]"

lemma hello_bytes_lemmas: "length hello_bytes = 7" "hello_bytes \<noteq> []"
  by (simp_all add: hello_bytes_def)

definition hello_new :: hello where
  "hello_new = \<lparr>hello_data = hello_bytes\<rparr>"

definition hello_from_bytes :: "bytes \<Rightarrow> usize \<Rightarrow> (error, hello) res" where
  "hello_from_bytes data offset =
     bind_res (ok_or UnexpectedEof (get_range data offset (offset + 7))) (\<lambda>msg_data.
     bind_res (require (msg_data = hello_bytes) MalformedMessage) (\<lambda>_.
       Ok \<lparr>hello_data = msg_data\<rparr>))"

interpretation hello: fixed_codec hello_data hello_from_bytes "\<lambda>m. m = hello_new"
proof
  show "hello_from_bytes data off = Ok m"
    if "m = hello_new" "cursor_at data off (hello_data m @ rest)" for m data off rest
    using cursor_get_range[OF that(2), of 7] that(1)
    by (simp add: hello_from_bytes_def hello_new_def hello_bytes_def)
  show "m = hello_new \<and> hello_data m \<noteq> [] \<and> off + length (hello_data m) \<le> length data \<and>
      drop off data = hello_data m @ drop (off + length (hello_data m)) data"
    if "hello_from_bytes data off = Ok m" for m data off
    using that get_range_SomeD[of data off "off + 7" hello_bytes]
    by (auto simp: hello_from_bytes_def hello_new_def bind_res_eq_Ok ok_or_eqs require_eqs
      hello_bytes_lemmas)
  show "hello_from_bytes data off \<noteq> Panic" for data off
    by (auto simp: hello_from_bytes_def bind_res_eq_Panic ok_or_eqs require_eqs)
qed

section \<open>One word: HandshakeAck, RoundtripRequest, RoundtripDone\<close>

text \<open>\<open>[tag, TypeUint, v as four bytes, End]\<close>.\<close>

definition word_msg_bytes :: "message_type \<Rightarrow> u32 \<Rightarrow> bytes" where
  "word_msg_bytes t v = message_type_u8 t # magic_u8 TypeUint # to_le_bytes v @ [magic_u8 End]"

lemma length_word_msg_bytes [simp]: "length (word_msg_bytes t v) = 7"
  by (simp add: word_msg_bytes_def)

lemma word_msg_reads:
  assumes "cursor_at data off (word_msg_bytes t v @ rest)"
  shows "expect_byte data off (message_type_u8 t) e0 = Ok ()"
    and "expect_byte data (off + 1) (magic_u8 TypeUint) e1 = Ok ()"
    and "read_u32 data (off + 2) = Ok v"
    and "expect_byte data (off + 6) (magic_u8 End) e2 = Ok ()"
    and "get_range data off (off + 7) = Some (word_msg_bytes t v)"
proof -
  show "expect_byte data off (message_type_u8 t) e0 = Ok ()"
    using expect_byte_off[OF assms, of 0] by (simp add: word_msg_bytes_def)
  show "expect_byte data (off + 1) (magic_u8 TypeUint) e1 = Ok ()"
    by (rule expect_byte_off[OF assms]) (simp add: word_msg_bytes_def)
  show "read_u32 data (off + 2) = Ok v"
    by (rule read_u32_off[OF assms, where r = "magic_u8 End # rest"]) (simp add: word_msg_bytes_def)
  show "expect_byte data (off + 6) (magic_u8 End) e2 = Ok ()"
    by (rule expect_byte_off[OF assms]) (simp add: word_msg_bytes_def to_le_bytes_def)
  show "get_range data off (off + 7) = Some (word_msg_bytes t v)"
    by (rule cursor_get_range[OF assms]) simp
qed

lemma word_msg_parsed:
  assumes "expect_byte data off (message_type_u8 t) e0 = Ok u0"
    and "expect_byte data (off + 1) (magic_u8 TypeUint) e1 = Ok u1"
    and "read_u32 data (off + 2) = Ok v"
    and "expect_byte data (off + 6) (magic_u8 End) e2 = Ok u2"
  shows "off + 7 \<le> length data"
    and "drop off data = word_msg_bytes t v @ drop (off + 7) data"
    and "get_range data off (off + 7) = Some (word_msg_bytes t v)"
proof -
  show len: "off + 7 \<le> length data" using assms(4) by (simp add: expect_byte_Ok)
  show eq: "drop off data = word_msg_bytes t v @ drop (off + 7) data"
    using expect_byte_drop[OF assms(1)] expect_byte_drop[OF assms(2)]
      read_u32_drop[OF assms(3)] expect_byte_drop[OF assms(4)]
    by (simp add: word_msg_bytes_def algebra_simps)
  show "get_range data off (off + 7) = Some (word_msg_bytes t v)"
    using len by (simp add: get_range_def eq)
qed

text \<open>The obligations of the interface, for any of the three messages.\<close>

lemma word_codecI:
  fixes new :: "u32 \<Rightarrow> 'm"
  assumes enc: "\<And>v. enc (new v) = word_msg_bytes t v"
    and fwd: "\<And>data off v.
      expect_byte data off (message_type_u8 t) InvalidMessageType = Ok () \<Longrightarrow>
      expect_byte data (off + 1) (magic_u8 TypeUint) InvalidFieldType = Ok () \<Longrightarrow>
      read_u32 data (off + 2) = Ok v \<Longrightarrow>
      expect_byte data (off + 6) (magic_u8 End) MalformedMessage = Ok () \<Longrightarrow>
      get_range data off (off + 7) = Some (word_msg_bytes t v) \<Longrightarrow> parse data off = Ok (new v)"
    and bwd: "\<And>data off m. parse data off = Ok m \<Longrightarrow>
      expect_byte data off (message_type_u8 t) InvalidMessageType = Ok () \<and>
      expect_byte data (off + 1) (magic_u8 TypeUint) InvalidFieldType = Ok () \<and>
      expect_byte data (off + 6) (magic_u8 End) MalformedMessage = Ok () \<and>
      (\<exists>v. read_u32 data (off + 2) = Ok v \<and>
         (get_range data off (off + 7) = Some (word_msg_bytes t v) \<longrightarrow> m = new v))"
    and np: "\<And>data off. parse data off \<noteq> Panic"
  shows "fixed_codec enc parse (\<lambda>m. \<exists>v. m = new v)"
proof
  show "parse data off = Ok m"
    if "\<exists>v. m = new v" "cursor_at data off (enc m @ rest)" for m data off rest
    using that word_msg_reads fwd by (auto simp: enc)
  show "(\<exists>v. m = new v) \<and> enc m \<noteq> [] \<and> off + length (enc m) \<le> length data \<and>
      drop off data = enc m @ drop (off + length (enc m)) data"
    if "parse data off = Ok m" for m data off
  proof -
    from bwd[OF that] obtain v where
      reads: "expect_byte data off (message_type_u8 t) InvalidMessageType = Ok ()"
        "expect_byte data (off + 1) (magic_u8 TypeUint) InvalidFieldType = Ok ()"
        "read_u32 data (off + 2) = Ok v"
        "expect_byte data (off + 6) (magic_u8 End) MalformedMessage = Ok ()"
      and m: "get_range data off (off + 7) = Some (word_msg_bytes t v) \<longrightarrow> m = new v"
      by blast
    note parsed = word_msg_parsed[OF reads]
    with m have "m = new v" by simp
    with parsed show ?thesis by (auto simp: enc) (simp add: word_msg_bytes_def)
  qed
qed (rule np)

record handshake_ack =
  ack_version :: u32
  ack_data :: bytes

definition handshake_ack_new :: "u32 \<Rightarrow> handshake_ack" where
  "handshake_ack_new version =
     \<lparr>ack_version = version,
      ack_data = message_type_u8 HandshakeAck # magic_u8 TypeUint # to_le_bytes version @
        [magic_u8 End]\<rparr>"

definition handshake_ack_from_bytes :: "bytes \<Rightarrow> usize \<Rightarrow> (error, handshake_ack) res" where
  "handshake_ack_from_bytes data offset =
     bind_res (expect_byte data offset (message_type_u8 HandshakeAck) InvalidMessageType) (\<lambda>_.
     bind_res (expect_byte data (offset + 1) (magic_u8 TypeUint) InvalidFieldType) (\<lambda>_.
     bind_res (expect_byte data (offset + 6) (magic_u8 End) MalformedMessage) (\<lambda>_.
     bind_res (read_u32 data (offset + 2)) (\<lambda>version.
     bind_res (ok_or UnexpectedEof (get_range data offset (offset + 7))) (\<lambda>bytes.
       Ok \<lparr>ack_version = version, ack_data = bytes\<rparr>)))))"

record roundtrip_request =
  req_seq :: u32
  req_data :: bytes

definition roundtrip_request_new :: "u32 \<Rightarrow> roundtrip_request" where
  "roundtrip_request_new seq =
     \<lparr>req_seq = seq,
      req_data = message_type_u8 RoundtripRequest # magic_u8 TypeUint # to_le_bytes seq @
        [magic_u8 End]\<rparr>"

definition roundtrip_request_from_bytes :: "bytes \<Rightarrow> usize \<Rightarrow> (error, roundtrip_request) res" where
  "roundtrip_request_from_bytes data offset =
     bind_res (expect_byte data offset (message_type_u8 RoundtripRequest) InvalidMessageType) (\<lambda>_.
     bind_res (expect_byte data (offset + 1) (magic_u8 TypeUint) InvalidFieldType) (\<lambda>_.
     bind_res (read_u32 data (offset + 2)) (\<lambda>seq.
     bind_res (expect_byte data (offset + 6) (magic_u8 End) MalformedMessage) (\<lambda>_.
     bind_res (ok_or UnexpectedEof (get_range data offset (offset + 7))) (\<lambda>bytes.
       Ok \<lparr>req_seq = seq, req_data = bytes\<rparr>)))))"

record roundtrip_done =
  done_seq :: u32
  done_data :: bytes

definition roundtrip_done_new :: "u32 \<Rightarrow> roundtrip_done" where
  "roundtrip_done_new seq =
     \<lparr>done_seq = seq,
      done_data = message_type_u8 RoundtripDone # magic_u8 TypeUint # to_le_bytes seq @
        [magic_u8 End]\<rparr>"

definition roundtrip_done_from_bytes :: "bytes \<Rightarrow> usize \<Rightarrow> (error, roundtrip_done) res" where
  "roundtrip_done_from_bytes data offset =
     bind_res (expect_byte data offset (message_type_u8 RoundtripDone) InvalidMessageType) (\<lambda>_.
     bind_res (expect_byte data (offset + 1) (magic_u8 TypeUint) InvalidFieldType) (\<lambda>_.
     bind_res (read_u32 data (offset + 2)) (\<lambda>seq.
     bind_res (expect_byte data (offset + 6) (magic_u8 End) MalformedMessage) (\<lambda>_.
     bind_res (ok_or UnexpectedEof (get_range data offset (offset + 7))) (\<lambda>bytes.
       Ok \<lparr>done_seq = seq, done_data = bytes\<rparr>)))))"

lemma word_msg_data [simp]:
  "ack_data (handshake_ack_new v) = word_msg_bytes HandshakeAck v"
  "req_data (roundtrip_request_new v) = word_msg_bytes RoundtripRequest v"
  "done_data (roundtrip_done_new v) = word_msg_bytes RoundtripDone v"
  by (simp_all add: handshake_ack_new_def roundtrip_request_new_def roundtrip_done_new_def
      word_msg_bytes_def)

interpretation ack: fixed_codec ack_data handshake_ack_from_bytes "\<lambda>m. \<exists>v. m = handshake_ack_new v"
  by (rule word_codecI[where t = HandshakeAck])
    (auto simp: handshake_ack_from_bytes_def bind_res_eq_Panic ok_or_eqs
      handshake_ack_new_def word_msg_bytes_def bind_res_eq_Ok)

interpretation rtreq: fixed_codec req_data roundtrip_request_from_bytes
    "\<lambda>m. \<exists>v. m = roundtrip_request_new v"
  by (rule word_codecI[where t = RoundtripRequest])
    (auto simp: roundtrip_request_from_bytes_def bind_res_eq_Panic ok_or_eqs
      roundtrip_request_new_def word_msg_bytes_def bind_res_eq_Ok)

interpretation rtdone: fixed_codec done_data roundtrip_done_from_bytes
    "\<lambda>m. \<exists>v. m = roundtrip_done_new v"
  by (rule word_codecI[where t = RoundtripDone])
    (auto simp: roundtrip_done_from_bytes_def bind_res_eq_Panic ok_or_eqs
      roundtrip_done_new_def word_msg_bytes_def bind_res_eq_Ok)

section \<open>Two words: NewObject\<close>

text \<open>The id comes first on the wire and second in the arguments of \<open>new\<close>.\<close>

record new_object =
  new_id :: u32
  new_seq :: u32
  new_data :: bytes

definition new_object_new :: "u32 \<Rightarrow> u32 \<Rightarrow> new_object" where
  "new_object_new seq oid =
     \<lparr>new_id = oid, new_seq = seq,
      new_data = message_type_u8 NewObject # magic_u8 TypeUint # to_le_bytes oid @
        magic_u8 TypeUint # to_le_bytes seq @ [magic_u8 End]\<rparr>"

definition new_object_from_bytes :: "bytes \<Rightarrow> usize \<Rightarrow> (error, new_object) res" where
  "new_object_from_bytes data offset =
     bind_res (expect_byte data offset (message_type_u8 NewObject) InvalidMessageType) (\<lambda>_.
     bind_res (expect_byte data (offset + 1) (magic_u8 TypeUint) InvalidFieldType) (\<lambda>_.
     bind_res (read_u32 data (offset + 2)) (\<lambda>oid.
     bind_res (expect_byte data (offset + 6) (magic_u8 TypeUint) InvalidFieldType) (\<lambda>_.
     bind_res (read_u32 data (offset + 7)) (\<lambda>seq.
     bind_res (expect_byte data (offset + 11) (magic_u8 End) MalformedMessage) (\<lambda>_.
     bind_res (ok_or UnexpectedEof (get_range data offset (offset + 12))) (\<lambda>bytes.
       Ok \<lparr>new_id = oid, new_seq = seq, new_data = bytes\<rparr>)))))))"

lemma length_new_object_data [simp]: "length (new_data (new_object_new s i)) = 12"
  by (simp add: new_object_new_def)

lemma new_object_reads:
  assumes "cursor_at data off (new_data (new_object_new s i) @ rest)"
  shows "new_object_from_bytes data off = Ok (new_object_new s i)"
proof -
  have "expect_byte data off (message_type_u8 NewObject) InvalidMessageType = Ok ()"
    using expect_byte_off[OF assms, of 0] by (simp add: new_object_new_def)
  moreover have "expect_byte data (off + 1) (magic_u8 TypeUint) InvalidFieldType = Ok ()"
    by (rule expect_byte_off[OF assms]) (simp add: new_object_new_def)
  moreover have "read_u32 data (off + 2) = Ok i"
    by (rule read_u32_off[OF assms]) (simp add: new_object_new_def)
  moreover have "expect_byte data (off + 6) (magic_u8 TypeUint) InvalidFieldType = Ok ()"
    by (rule expect_byte_off[OF assms]) (simp add: new_object_new_def to_le_bytes_def)
  moreover have "read_u32 data (off + 7) = Ok s"
    by (rule read_u32_off[OF assms, where r = "magic_u8 End # rest"])
      (simp add: new_object_new_def to_le_bytes_def)
  moreover have "expect_byte data (off + 11) (magic_u8 End) MalformedMessage = Ok ()"
    by (rule expect_byte_off[OF assms]) (simp add: new_object_new_def to_le_bytes_def)
  moreover have "get_range data off (off + 12) = Some (new_data (new_object_new s i))"
    by (rule cursor_get_range[OF assms]) simp
  ultimately show ?thesis
    by (simp only: new_object_from_bytes_def bind_res.simps ok_or_simps) (simp add: new_object_new_def)
qed

interpretation newobj: fixed_codec new_data new_object_from_bytes "\<lambda>m. \<exists>s i. m = new_object_new s i"
proof
  show "new_object_from_bytes data off = Ok m"
    if "\<exists>s i. m = new_object_new s i" "cursor_at data off (new_data m @ rest)" for m data off rest
    using that new_object_reads by blast
  show "(\<exists>s i. m = new_object_new s i) \<and> new_data m \<noteq> [] \<and> off + length (new_data m) \<le> length data \<and>
      drop off data = new_data m @ drop (off + length (new_data m)) data"
    if ok: "new_object_from_bytes data off = Ok m" for m data off
  proof -
    from ok obtain i s where
      reads: "expect_byte data off (message_type_u8 NewObject) InvalidMessageType = Ok ()"
        "expect_byte data (off + 1) (magic_u8 TypeUint) InvalidFieldType = Ok ()"
        "read_u32 data (off + 2) = Ok i"
        "expect_byte data (off + 6) (magic_u8 TypeUint) InvalidFieldType = Ok ()"
        "read_u32 data (off + 7) = Ok s"
        "expect_byte data (off + 11) (magic_u8 End) MalformedMessage = Ok ()"
      and m: "get_range data off (off + 12) = Some (new_data m)" "new_id m = i" "new_seq m = s"
      by (auto simp: new_object_from_bytes_def bind_res_eq_Ok ok_or_eqs)
    have drop: "drop off data = new_data (new_object_new s i) @ drop (off + 12) data"
      using expect_byte_drop[OF reads(1)] expect_byte_drop[OF reads(2)] read_u32_drop[OF reads(3)]
        expect_byte_drop[OF reads(4)] read_u32_drop[OF reads(5)] expect_byte_drop[OF reads(6)]
      by (simp add: new_object_new_def algebra_simps)
    have len: "off + 12 \<le> length data" using reads(6) by (simp add: expect_byte_Ok)
    have "m = new_object_new s i"
      using m len by (simp add: get_range_def drop) (simp add: new_object_new_def)
    with drop len show ?thesis by (auto simp: new_object_new_def)
  qed
  show "new_object_from_bytes data off \<noteq> Panic" for data off
    by (auto simp: new_object_from_bytes_def bind_res_eq_Panic ok_or_eqs)
qed

end
