(* ===== verification/Var_Messages.thy ===== *)
theory Var_Messages
  imports Codec_Interface
begin

text \<open>
  The messages that carry decoded lengths, from \<open>hyprwire-core/src/message/wire/\<close>:
  \<open>bind_protocol\<close>, \<open>fatal_protocol_error\<close>, \<open>handshake_begin\<close>, \<open>handshake_protocols\<close>. For each there is
  a layout \<open>*_bytes\<close> over the representations of its lengths; parsing succeeds exactly on these
  layouts, and every message is interpreted as a \<open>wire_codec\<close>.
\<close>

section \<open>BindProtocol\<close>

record bind_protocol =
  bind_seq :: u32
  bind_version :: u32
  bind_name :: str
  bind_data :: bytes

definition bind_bytes :: "bytes \<Rightarrow> u32 \<Rightarrow> str \<Rightarrow> u32 \<Rightarrow> bytes" where
  "bind_bytes V seq protocol version =
     message_type_u8 BindProtocol # magic_u8 TypeUint # to_le_bytes seq @
     magic_u8 TypeVarchar # V @ protocol @
     magic_u8 TypeUint # to_le_bytes version @ [magic_u8 End]"

definition bind_protocol_new :: "str \<Rightarrow> u32 \<Rightarrow> u32 \<Rightarrow> (error, bind_protocol) res" where
  "bind_protocol_new protocol seq version =
     bind_res (encode_var_int (length protocol) var_int_buf) (\<lambda>proto_len_int.
       Ok \<lparr>bind_seq = seq, bind_version = version, bind_name = protocol,
           bind_data = bind_bytes proto_len_int seq protocol version\<rparr>)"

definition bind_protocol_from_bytes :: "profile \<Rightarrow> bytes \<Rightarrow> usize \<Rightarrow> (error, bind_protocol) res" where
  "bind_protocol_from_bytes pr data offset =
     bind_res (expect_byte data offset (message_type_u8 BindProtocol) InvalidMessageType) (\<lambda>_.
     bind_res (expect_byte data (offset + 1) (magic_u8 TypeUint) InvalidFieldType) (\<lambda>_.
     bind_res (read_u32 data (offset + 2)) (\<lambda>seq.
     bind_res (expect_byte data (offset + 6) (magic_u8 TypeVarchar) InvalidFieldType) (\<lambda>_.
     bind_res (parse_var_int pr data (offset + 7)) (\<lambda>(protocol_len, var_int_len).
     bind_res (read_str pr data (offset + 7 + var_int_len) protocol_len) (\<lambda>protocol.
     let needle = offset + 7 + var_int_len + protocol_len in
     bind_res (expect_byte data needle (magic_u8 TypeUint) InvalidFieldType) (\<lambda>_.
     bind_res (read_u32 data (needle + 1)) (\<lambda>version.
     bind_res (require (version \<noteq> 0) InvalidVersion) (\<lambda>_.
     bind_res (expect_byte data (needle + 5) (magic_u8 End) MalformedMessage) (\<lambda>_.
     bind_res (slice_at data offset (needle + 6)) (\<lambda>bytes.
       Ok \<lparr>bind_seq = seq, bind_version = version, bind_name = protocol, bind_data = bytes\<rparr>)))))))))))"

definition bind_rep :: "profile \<Rightarrow> bind_protocol \<Rightarrow> bool" where
  "bind_rep pr m \<longleftrightarrow> utf8_valid (bind_name m) \<and> bind_version m \<noteq> 0 \<and>
     (\<exists>V. varint_repr pr V (length (bind_name m)) \<and>
        bind_data m = bind_bytes V (bind_seq m) (bind_name m) (bind_version m))"

lemma bind_cursor:
  assumes utf: "utf8_valid (bind_name m)" and V: "varint_repr pr V (length (bind_name m))"
    and data: "bind_data m = bind_bytes V (bind_seq m) (bind_name m) (bind_version m)"
    and c: "cursor_at data off (bind_data m @ rest)"
  shows "bind_protocol_from_bytes pr data off =
    (if bind_version m = 0 then Err InvalidVersion else Ok m)"
proof -
  let ?tail = "magic_u8 TypeUint # to_le_bytes (bind_version m) @ magic_u8 End # rest"
  have c1: "cursor_at data (off + 7) (V @ bind_name m @ ?tail)"
    using cursor_drop[OF c, of 7] by (simp add: data bind_bytes_def to_le_bytes_def)
  have c2: "cursor_at data (off + 7 + length V) (bind_name m @ ?tail)"
    using cursor_advance[OF c1] by simp
  have c3: "cursor_at data (off + 7 + length V + length (bind_name m)) ?tail"
    using cursor_advance[OF c2] by simp
  have "expect_byte data off (message_type_u8 BindProtocol) InvalidMessageType = Ok ()"
    using expect_byte_off[OF c, of 0] by (simp add: data bind_bytes_def)
  moreover have "expect_byte data (off + 1) (magic_u8 TypeUint) InvalidFieldType = Ok ()"
    by (rule expect_byte_off[OF c]) (simp add: data bind_bytes_def)
  moreover have "read_u32 data (off + 2) = Ok (bind_seq m)"
    by (rule read_u32_off[OF c]) (simp add: data bind_bytes_def)
  moreover have "expect_byte data (off + 6) (magic_u8 TypeVarchar) InvalidFieldType = Ok ()"
    by (rule expect_byte_off[OF c]) (simp add: data bind_bytes_def to_le_bytes_def)
  moreover note varint_repr_cursor[OF V c1]
  moreover have "read_str pr data (off + 7 + length V) (length (bind_name m)) = Ok (bind_name m)"
    by (rule read_str_cursor[OF c2 utf refl])
  moreover have "expect_byte data (off + 7 + length V + length (bind_name m)) (magic_u8 TypeUint)
      InvalidFieldType = Ok ()"
    by (rule expect_byte_cursor[OF c3])
  moreover have "read_u32 data (off + 7 + length V + length (bind_name m) + 1) = Ok (bind_version m)"
    by (rule read_u32_off[OF c3]) simp
  moreover have "expect_byte data (off + 7 + length V + length (bind_name m) + 5) (magic_u8 End)
      MalformedMessage = Ok ()"
    by (rule expect_byte_off[OF c3]) (simp add: to_le_bytes_def)
  moreover have "slice_at data off (off + 7 + length V + length (bind_name m) + 6) =
      (Ok (bind_data m) :: (error, bytes) res)"
    using cursor_slice_at[OF c refl] by (simp add: data bind_bytes_def algebra_simps)
  ultimately show ?thesis
    by (simp only: bind_protocol_from_bytes_def Let_def bind_res.simps prod.case) simp
qed

lemma bind_fwd:
  "bind_rep pr m \<Longrightarrow> cursor_at data off (bind_data m @ rest) \<Longrightarrow>
     bind_protocol_from_bytes pr data off = Ok m"
  using bind_cursor by (fastforce simp: bind_rep_def)

lemma bind_bwd:
  assumes ok: "bind_protocol_from_bytes pr data off = Ok m"
  shows "bind_rep pr m \<and> bind_data m \<noteq> [] \<and>
    drop off data = bind_data m @ drop (off + length (bind_data m)) data"
proof -
  from ok obtain n k where
    reads: "expect_byte data off (message_type_u8 BindProtocol) InvalidMessageType = Ok ()"
      "expect_byte data (off + 1) (magic_u8 TypeUint) InvalidFieldType = Ok ()"
      "read_u32 data (off + 2) = Ok (bind_seq m)"
      "expect_byte data (off + 6) (magic_u8 TypeVarchar) InvalidFieldType = Ok ()"
    and len: "parse_var_int pr data (off + 7) = Ok (n, k)"
    and name: "read_str pr data (off + 7 + k) n = Ok (bind_name m)"
    and reads2: "expect_byte data (off + 7 + k + n) (magic_u8 TypeUint) InvalidFieldType = Ok ()"
      "read_u32 data (off + 7 + k + n + 1) = Ok (bind_version m)"
      "expect_byte data (off + 7 + k + n + 5) (magic_u8 End) MalformedMessage = Ok ()"
    and ver: "bind_version m \<noteq> 0"
    and data: "slice_at data off (off + 7 + k + n + 6) = (Ok (bind_data m) :: (error, bytes) res)"
    unfolding bind_protocol_from_bytes_def
    by (auto simp: bind_res_eq_Ok Let_def require_eqs)
  note str = read_str_Ok[OF name parse_var_int_bounds(1)[OF len]]
  from reads2(1) have "off + 7 + k < length data" by (simp add: expect_byte_Ok)
  from parse_var_int_split[OF len this] obtain V where V: "varint_repr pr V n" "length V = k"
    and drop: "drop (off + 7) data = V @ drop (off + 7 + k) data" by blast
  let ?b = "bind_bytes V (bind_seq m) (bind_name m) (bind_version m)"
  have eq: "drop off data = ?b @ drop (off + 7 + k + n + 6) data"
    using expect_byte_drop[OF reads(1)] expect_byte_drop[OF reads(2)] read_u32_drop[OF reads(3)]
      expect_byte_drop[OF reads(4)] drop str(3) expect_byte_drop[OF reads2(1)]
      read_u32_drop[OF reads2(2)] expect_byte_drop[OF reads2(3)]
    by (simp add: bind_bytes_def algebra_simps)
  have "length ?b = 7 + k + n + 6" using V str(2) by (simp add: bind_bytes_def)
  moreover from data this have "bind_data m = ?b"
    using get_range_SomeD[of data off "off + 7 + k + n + 6" "bind_data m"] eq
    by (simp add: slice_at_eq_Ok)
  ultimately show ?thesis
    using eq V str(1,2) ver
    by (auto simp: bind_rep_def algebra_simps bind_bytes_def)
qed

definition bind_built :: "bind_protocol \<Rightarrow> bool" where
  "bind_built m \<longleftrightarrow> utf8_valid (bind_name m) \<and> length (bind_name m) \<le> isize_max \<and>
     bind_version m \<noteq> 0 \<and> bind_protocol_new (bind_name m) (bind_seq m) (bind_version m) = Ok m"

lemma usize_le_isize: "n \<le> isize_max \<Longrightarrow> n < usize_bound"
  by (simp add: isize_max_def usize_bound_def)

interpretation bindp: wire_codec bind_data bind_protocol_from_bytes bind_built
proof (rule wire_codecI[where rep = bind_rep])
  show "bind_rep pr m" if "bind_built m" for pr m
    using that varint_repr_varint[of "length (bind_name m)" pr] usize_le_isize
    by (auto simp: bind_built_def bind_rep_def bind_protocol_new_def)
      (metis bind_protocol.select_convs(4))
  show "agrees (bind_protocol_from_bytes Debug data off) (bind_protocol_from_bytes Release data off)"
    for data off
    unfolding bind_protocol_from_bytes_def Let_def by (intro agree_intros)
  show "bind_protocol_from_bytes Release data off \<noteq> Panic" for data off
    by (auto simp: bind_protocol_from_bytes_def Let_def bind_res_eq_Panic require_eqs
      slice_at_eq_Panic expect_byte_Ok)
qed (auto intro: bind_fwd dest: bind_bwd)

section \<open>FatalProtocolError\<close>

record fatal_protocol_error =
  fatal_object_id :: u32
  fatal_error_id :: u32
  fatal_error_msg :: str
  fatal_data :: bytes

definition fatal_bytes :: "bytes \<Rightarrow> u32 \<Rightarrow> u32 \<Rightarrow> str \<Rightarrow> bytes" where
  "fatal_bytes V object_id error_id error_msg =
     message_type_u8 FatalProtocolError # magic_u8 TypeUint # to_le_bytes object_id @
     magic_u8 TypeUint # to_le_bytes error_id @
     magic_u8 TypeVarchar # V @ error_msg @ [magic_u8 End]"

definition fatal_protocol_error_new :: "u32 \<Rightarrow> u32 \<Rightarrow> str \<Rightarrow> (error, fatal_protocol_error) res" where
  "fatal_protocol_error_new object_id error_id error_msg =
     bind_res (encode_var_int (length error_msg) var_int_buf) (\<lambda>msg_len.
       Ok \<lparr>fatal_object_id = object_id, fatal_error_id = error_id, fatal_error_msg = error_msg,
           fatal_data = fatal_bytes msg_len object_id error_id error_msg\<rparr>)"

definition fatal_protocol_error_from_bytes ::
    "profile \<Rightarrow> bytes \<Rightarrow> usize \<Rightarrow> (error, fatal_protocol_error) res" where
  "fatal_protocol_error_from_bytes pr data offset =
     bind_res (expect_byte data offset (message_type_u8 FatalProtocolError) InvalidMessageType) (\<lambda>_.
     bind_res (expect_byte data (offset + 1) (magic_u8 TypeUint) InvalidFieldType) (\<lambda>_.
     bind_res (read_u32 data (offset + 2)) (\<lambda>object_id.
     bind_res (expect_byte data (offset + 6) (magic_u8 TypeUint) InvalidFieldType) (\<lambda>_.
     bind_res (read_u32 data (offset + 7)) (\<lambda>error_id.
     bind_res (expect_byte data (offset + 11) (magic_u8 TypeVarchar) InvalidFieldType) (\<lambda>_.
     bind_res (parse_var_int pr data (offset + 12)) (\<lambda>(str_len, var_int_len).
     bind_res (read_str pr data (offset + 12 + var_int_len) str_len) (\<lambda>error_msg.
     let needle = offset + 12 + var_int_len + str_len in
     bind_res (expect_byte data needle (magic_u8 End) MalformedMessage) (\<lambda>_.
     bind_res (slice_at data offset (needle + 1)) (\<lambda>bytes.
       Ok \<lparr>fatal_object_id = object_id, fatal_error_id = error_id, fatal_error_msg = error_msg,
           fatal_data = bytes\<rparr>))))))))))"

definition fatal_rep :: "profile \<Rightarrow> fatal_protocol_error \<Rightarrow> bool" where
  "fatal_rep pr m \<longleftrightarrow> utf8_valid (fatal_error_msg m) \<and>
     (\<exists>V. varint_repr pr V (length (fatal_error_msg m)) \<and>
        fatal_data m = fatal_bytes V (fatal_object_id m) (fatal_error_id m) (fatal_error_msg m))"

lemma fatal_fwd:
  assumes rep: "fatal_rep pr m" and c: "cursor_at data off (fatal_data m @ rest)"
  shows "fatal_protocol_error_from_bytes pr data off = Ok m"
proof -
  let ?msg = "fatal_error_msg m"
  from rep obtain V where utf: "utf8_valid ?msg" and V: "varint_repr pr V (length ?msg)"
    and data: "fatal_data m = fatal_bytes V (fatal_object_id m) (fatal_error_id m) ?msg"
    by (auto simp: fatal_rep_def)
  have c1: "cursor_at data (off + 12) (V @ ?msg @ magic_u8 End # rest)"
    using cursor_drop[OF c, of 12] by (simp add: data fatal_bytes_def to_le_bytes_def)
  have c2: "cursor_at data (off + 12 + length V) (?msg @ magic_u8 End # rest)"
    using cursor_advance[OF c1] by simp
  have c3: "cursor_at data (off + 12 + length V + length ?msg) (magic_u8 End # rest)"
    using cursor_advance[OF c2] by simp
  have "expect_byte data off (message_type_u8 FatalProtocolError) InvalidMessageType = Ok ()"
    using expect_byte_off[OF c, of 0] by (simp add: data fatal_bytes_def)
  moreover have "expect_byte data (off + 1) (magic_u8 TypeUint) InvalidFieldType = Ok ()"
    by (rule expect_byte_off[OF c]) (simp add: data fatal_bytes_def)
  moreover have "read_u32 data (off + 2) = Ok (fatal_object_id m)"
    by (rule read_u32_off[OF c]) (simp add: data fatal_bytes_def)
  moreover have "expect_byte data (off + 6) (magic_u8 TypeUint) InvalidFieldType = Ok ()"
    by (rule expect_byte_off[OF c]) (simp add: data fatal_bytes_def to_le_bytes_def)
  moreover have "read_u32 data (off + 7) = Ok (fatal_error_id m)"
    by (rule read_u32_off[OF c, where r = "magic_u8 TypeVarchar # V @ ?msg @ magic_u8 End # rest"])
      (simp add: data fatal_bytes_def to_le_bytes_def)
  moreover have "expect_byte data (off + 11) (magic_u8 TypeVarchar) InvalidFieldType = Ok ()"
    by (rule expect_byte_off[OF c]) (simp add: data fatal_bytes_def to_le_bytes_def)
  moreover note varint_repr_cursor[OF V c1]
  moreover have "read_str pr data (off + 12 + length V) (length ?msg) = Ok ?msg"
    by (rule read_str_cursor[OF c2 utf refl])
  moreover have "expect_byte data (off + 12 + length V + length ?msg) (magic_u8 End)
      MalformedMessage = Ok ()"
    by (rule expect_byte_cursor[OF c3])
  moreover have "slice_at data off (off + 12 + length V + length ?msg + 1) =
      (Ok (fatal_data m) :: (error, bytes) res)"
    using cursor_slice_at[OF c refl] by (simp add: data fatal_bytes_def algebra_simps)
  ultimately show ?thesis
    by (simp only: fatal_protocol_error_from_bytes_def Let_def bind_res.simps prod.case) simp
qed

lemma fatal_bwd:
  assumes ok: "fatal_protocol_error_from_bytes pr data off = Ok m"
  shows "fatal_rep pr m \<and> fatal_data m \<noteq> [] \<and>
    drop off data = fatal_data m @ drop (off + length (fatal_data m)) data"
proof -
  from ok obtain n k where
    reads: "expect_byte data off (message_type_u8 FatalProtocolError) InvalidMessageType = Ok ()"
      "expect_byte data (off + 1) (magic_u8 TypeUint) InvalidFieldType = Ok ()"
      "read_u32 data (off + 2) = Ok (fatal_object_id m)"
      "expect_byte data (off + 6) (magic_u8 TypeUint) InvalidFieldType = Ok ()"
      "read_u32 data (off + 7) = Ok (fatal_error_id m)"
      "expect_byte data (off + 11) (magic_u8 TypeVarchar) InvalidFieldType = Ok ()"
    and len: "parse_var_int pr data (off + 12) = Ok (n, k)"
    and msg: "read_str pr data (off + 12 + k) n = Ok (fatal_error_msg m)"
    and last: "expect_byte data (off + 12 + k + n) (magic_u8 End) MalformedMessage = Ok ()"
    and data: "slice_at data off (off + 12 + k + n + 1) = (Ok (fatal_data m) :: (error, bytes) res)"
    unfolding fatal_protocol_error_from_bytes_def
    by (auto simp: bind_res_eq_Ok Let_def require_eqs)
  note str = read_str_Ok[OF msg parse_var_int_bounds(1)[OF len]]
  from last have "off + 12 + k < length data" by (simp add: expect_byte_Ok)
  from parse_var_int_split[OF len this] obtain V where V: "varint_repr pr V n" "length V = k"
    and drop: "drop (off + 12) data = V @ drop (off + 12 + k) data" by blast
  let ?b = "fatal_bytes V (fatal_object_id m) (fatal_error_id m) (fatal_error_msg m)"
  have eq: "drop off data = ?b @ drop (off + 12 + k + n + 1) data"
    using expect_byte_drop[OF reads(1)] expect_byte_drop[OF reads(2)] read_u32_drop[OF reads(3)]
      expect_byte_drop[OF reads(4)] read_u32_drop[OF reads(5)] expect_byte_drop[OF reads(6)]
      drop str(3) expect_byte_drop[OF last]
    by (simp add: fatal_bytes_def algebra_simps)
  have "length ?b = 12 + k + n + 1" using V str(2) by (simp add: fatal_bytes_def)
  moreover from data this have "fatal_data m = ?b"
    using get_range_SomeD[of data off "off + 12 + k + n + 1" "fatal_data m"] eq
    by (simp add: slice_at_eq_Ok)
  ultimately show ?thesis
    using eq V str(1,2) by (auto simp: fatal_rep_def algebra_simps fatal_bytes_def)
qed

definition fatal_built :: "fatal_protocol_error \<Rightarrow> bool" where
  "fatal_built m \<longleftrightarrow> utf8_valid (fatal_error_msg m) \<and> length (fatal_error_msg m) \<le> isize_max \<and>
     fatal_protocol_error_new (fatal_object_id m) (fatal_error_id m) (fatal_error_msg m) = Ok m"

interpretation fatalp: wire_codec fatal_data fatal_protocol_error_from_bytes fatal_built
proof (rule wire_codecI[where rep = fatal_rep])
  show "fatal_rep pr m" if "fatal_built m" for pr m
    using that varint_repr_varint[of "length (fatal_error_msg m)" pr] usize_le_isize
    by (auto simp: fatal_built_def fatal_rep_def fatal_protocol_error_new_def)
      (metis fatal_protocol_error.select_convs(4))
  show "agrees (fatal_protocol_error_from_bytes Debug data off)
      (fatal_protocol_error_from_bytes Release data off)" for data off
    unfolding fatal_protocol_error_from_bytes_def Let_def by (intro agree_intros)
  show "fatal_protocol_error_from_bytes Release data off \<noteq> Panic" for data off
    by (auto simp: fatal_protocol_error_from_bytes_def Let_def bind_res_eq_Panic require_eqs
      slice_at_eq_Panic expect_byte_Ok)
qed (auto intro: fatal_fwd dest: fatal_bwd)

section \<open>HandshakeBegin\<close>

record handshake_begin =
  hsb_versions :: "u32 list"
  hsb_data :: bytes

definition handshake_begin_bytes :: "bytes \<Rightarrow> u32 list \<Rightarrow> bytes" where
  "handshake_begin_bytes V versions =
     message_type_u8 HandshakeBegin # magic_u8 TypeArray # magic_u8 TypeUint # V @
     concat (map to_le_bytes versions) @ [magic_u8 End]"

definition handshake_begin_new :: "u32 list \<Rightarrow> (error, handshake_begin) res" where
  "handshake_begin_new versions =
     bind_res (encode_var_int (length versions) var_int_buf) (\<lambda>var_int.
       Ok \<lparr>hsb_versions = versions, hsb_data = handshake_begin_bytes var_int versions\<rparr>)"

definition handshake_begin_from_bytes :: "profile \<Rightarrow> bytes \<Rightarrow> usize \<Rightarrow> (error, handshake_begin) res" where
  "handshake_begin_from_bytes pr data offset =
     bind_res (expect_byte data offset (message_type_u8 HandshakeBegin) InvalidMessageType) (\<lambda>_.
     bind_res (expect_byte data (offset + 1) (magic_u8 TypeArray) InvalidFieldType) (\<lambda>_.
     bind_res (expect_byte data (offset + 2) (magic_u8 TypeUint) InvalidFieldType) (\<lambda>_.
     bind_res (parse_var_int pr data (offset + 3)) (\<lambda>(n_vars, var_int_len).
     let needle = offset + 3 + var_int_len in
     bind_res (require (\<not> 256 \<le> n_vars) TooManyVersions) (\<lambda>_.
     bind_res (collect_res (\<lambda>i. read_u32 data (needle + i * 4)) [0..<n_vars]) (\<lambda>versions.
     let needle = needle + n_vars * 4 in
     bind_res (expect_byte data needle (magic_u8 End) MalformedMessage) (\<lambda>_.
     bind_res (slice_at data offset (needle + 1)) (\<lambda>bytes.
       Ok \<lparr>hsb_versions = versions, hsb_data = bytes\<rparr>))))))))"

definition handshake_begin_rep :: "profile \<Rightarrow> handshake_begin \<Rightarrow> bool" where
  "handshake_begin_rep pr m \<longleftrightarrow> length (hsb_versions m) < 256 \<and>
     (\<exists>V. varint_repr pr V (length (hsb_versions m)) \<and>
        hsb_data m = handshake_begin_bytes V (hsb_versions m))"

text \<open>A run of 32-bit words, read by index.\<close>

lemma length_words [simp]: "length (concat (map to_le_bytes ws)) = 4 * length ws"
  by (induction ws) auto

lemma word_step: "Suc s \<le> i \<Longrightarrow> off + (i - s) * 4 = off + 4 + (i - Suc s) * (4 :: nat)"
  by simp

lemma collect_words_cursor:
  assumes "cursor_at data off (concat (map to_le_bytes ws) @ rest)"
  shows "collect_res (\<lambda>i. read_u32 data (off + (i - s) * 4)) [s..<s + length ws] = Ok ws"
  using assms
proof (induction ws arbitrary: off s)
  case (Cons w ws)
  let ?f = "\<lambda>i. read_u32 data (off + (i - s) * 4)"
  have tl: "cursor_at data (off + 4) (concat (map to_le_bytes ws) @ rest)"
    using cursor_advance[OF Cons.prems[simplified], of 4] by simp
  have "read_u32 data off = Ok w"
    using read_u32_off[OF Cons.prems, of 0 w] by simp
  moreover have "collect_res ?f [Suc s..<Suc s + length ws] =
      collect_res (\<lambda>i. read_u32 data (off + 4 + (i - Suc s) * 4)) [Suc s..<Suc s + length ws]"
    by (intro collect_res_cong) (metis word_step atLeastLessThan_iff set_upt)
  moreover have "[s..<s + length (w # ws)] = s # [Suc s..<Suc s + length ws]"
    by (simp add: upt_conv_Cons del: upt_Suc)
  ultimately show ?case using Cons.IH[OF tl, of "Suc s"] by simp
qed simp

lemma collect_words_drop:
  assumes "collect_res (\<lambda>i. read_u32 data (off + (i - s) * 4)) [s..<s + n] = Ok ws"
  shows "length ws = n \<and> drop off data = concat (map to_le_bytes ws) @ drop (off + 4 * n) data"
  using assms
proof (induction n arbitrary: off s ws)
  case (Suc n)
  have up: "[s..<s + Suc n] = s # [Suc s..<Suc s + n]"
    by (simp add: upt_conv_Cons del: upt_Suc)
  have "collect_res (\<lambda>i. read_u32 data (off + (i - s) * 4)) [Suc s..<Suc s + n] =
      collect_res (\<lambda>i. read_u32 data (off + 4 + (i - Suc s) * 4)) [Suc s..<Suc s + n]"
    by (intro collect_res_cong) (metis word_step atLeastLessThan_iff set_upt)
  with Suc.prems obtain w ws' where w: "read_u32 data off = Ok w" and ws: "ws = w # ws'"
    and rest: "collect_res (\<lambda>i. read_u32 data (off + 4 + (i - Suc s) * 4)) [Suc s..<Suc s + n] = Ok ws'"
    unfolding up by (auto simp: bind_res_eq_Ok)
  from Suc.IH[OF rest] read_u32_drop[OF w] ws show ?case by (simp add: algebra_simps)
qed simp

lemma handshake_begin_cursor:
  assumes V: "varint_repr pr V (length (hsb_versions m))"
    and data: "hsb_data m = handshake_begin_bytes V (hsb_versions m)"
    and c: "cursor_at data off (hsb_data m @ rest)"
  shows "handshake_begin_from_bytes pr data off =
    (if length (hsb_versions m) < 256 then Ok m else Err TooManyVersions)"
proof -
  let ?vs = "hsb_versions m"
  let ?words = "concat (map to_le_bytes ?vs)"
  have c1: "cursor_at data (off + 3) (V @ ?words @ magic_u8 End # rest)"
    using cursor_drop[OF c, of 3] by (simp add: data handshake_begin_bytes_def)
  have c2: "cursor_at data (off + 3 + length V) (?words @ magic_u8 End # rest)"
    using cursor_advance[OF c1] by simp
  have c3: "cursor_at data (off + 3 + length V + length ?vs * 4) (magic_u8 End # rest)"
    using cursor_advance[OF c2, of "length ?vs * 4"] by simp
  have "expect_byte data off (message_type_u8 HandshakeBegin) InvalidMessageType = Ok ()"
    using expect_byte_off[OF c, of 0] by (simp add: data handshake_begin_bytes_def)
  moreover have "expect_byte data (off + 1) (magic_u8 TypeArray) InvalidFieldType = Ok ()"
    by (rule expect_byte_off[OF c]) (simp add: data handshake_begin_bytes_def)
  moreover have "expect_byte data (off + 2) (magic_u8 TypeUint) InvalidFieldType = Ok ()"
    by (rule expect_byte_off[OF c]) (simp add: data handshake_begin_bytes_def)
  moreover note varint_repr_cursor[OF V c1]
  moreover have "collect_res (\<lambda>i. read_u32 data (off + 3 + length V + i * 4)) [0..<length ?vs] = Ok ?vs"
    using collect_words_cursor[OF c2, of 0] by simp
  moreover have "expect_byte data (off + 3 + length V + length ?vs * 4) (magic_u8 End)
      MalformedMessage = Ok ()"
    by (rule expect_byte_cursor[OF c3])
  moreover have "slice_at data off (off + 3 + length V + length ?vs * 4 + 1) =
      (Ok (hsb_data m) :: (error, bytes) res)"
    using cursor_slice_at[OF c refl]
    by (simp add: data handshake_begin_bytes_def ac_simps numeral_eq_Suc)
  ultimately show ?thesis
    by (simp only: handshake_begin_from_bytes_def Let_def bind_res.simps prod.case)
      (simp add: not_le[symmetric])
qed

lemma handshake_begin_fwd:
  "handshake_begin_rep pr m \<Longrightarrow> cursor_at data off (hsb_data m @ rest) \<Longrightarrow>
     handshake_begin_from_bytes pr data off = Ok m"
  using handshake_begin_cursor by (fastforce simp: handshake_begin_rep_def)

lemma handshake_begin_bwd:
  assumes ok: "handshake_begin_from_bytes pr data off = Ok m"
  shows "handshake_begin_rep pr m \<and> hsb_data m \<noteq> [] \<and>
    drop off data = hsb_data m @ drop (off + length (hsb_data m)) data"
proof -
  from ok obtain n k where
    reads: "expect_byte data off (message_type_u8 HandshakeBegin) InvalidMessageType = Ok ()"
      "expect_byte data (off + 1) (magic_u8 TypeArray) InvalidFieldType = Ok ()"
      "expect_byte data (off + 2) (magic_u8 TypeUint) InvalidFieldType = Ok ()"
    and len: "parse_var_int pr data (off + 3) = Ok (n, k)" and few: "n < 256"
    and words: "collect_res (\<lambda>i. read_u32 data (off + 3 + k + i * 4)) [0..<n] = Ok (hsb_versions m)"
    and last: "expect_byte data (off + 3 + k + n * 4) (magic_u8 End) MalformedMessage = Ok ()"
    and data: "slice_at data off (off + 3 + k + n * 4 + 1) = (Ok (hsb_data m) :: (error, bytes) res)"
    unfolding handshake_begin_from_bytes_def
    by (auto simp: bind_res_eq_Ok Let_def require_eqs not_le)
  from words have ws: "length (hsb_versions m) = n"
    "drop (off + 3 + k) data =
       concat (map to_le_bytes (hsb_versions m)) @ drop (off + 3 + k + 4 * n) data"
    using collect_words_drop[of data "off + 3 + k" 0 n] by auto
  from last have "off + 3 + k < length data" by (simp add: expect_byte_Ok)
  from parse_var_int_split[OF len this] obtain V where V: "varint_repr pr V n" "length V = k"
    and drop: "drop (off + 3) data = V @ drop (off + 3 + k) data" by blast
  let ?b = "handshake_begin_bytes V (hsb_versions m)"
  have eq: "drop off data = ?b @ drop (off + 3 + k + n * 4 + 1) data"
    using expect_byte_drop[OF reads(1)] expect_byte_drop[OF reads(2)] expect_byte_drop[OF reads(3)]
      drop ws(2) expect_byte_drop[OF last]
    by (simp add: handshake_begin_bytes_def algebra_simps numeral_3_eq_3)
  have "length ?b = 3 + k + n * 4 + 1" using V ws(1) by (simp add: handshake_begin_bytes_def)
  moreover from data this have b: "hsb_data m = ?b"
    using get_range_SomeD[of data off "off + 3 + k + n * 4 + 1" "hsb_data m"] eq
    by (simp add: slice_at_eq_Ok)
  ultimately have "drop off data = hsb_data m @ drop (off + length (hsb_data m)) data"
    using eq by (simp add: ac_simps)
  moreover have "hsb_data m \<noteq> []" by (simp add: b handshake_begin_bytes_def)
  ultimately show ?thesis using b V ws(1) few by (auto simp: handshake_begin_rep_def)
qed

definition handshake_begin_built :: "handshake_begin \<Rightarrow> bool" where
  "handshake_begin_built m \<longleftrightarrow> length (hsb_versions m) < 256 \<and>
     handshake_begin_new (hsb_versions m) = Ok m"

interpretation hsbeginp: wire_codec hsb_data handshake_begin_from_bytes handshake_begin_built
proof (rule wire_codecI[where rep = handshake_begin_rep])
  show "handshake_begin_rep pr m" if "handshake_begin_built m" for pr m
  proof -
    have "length (hsb_versions m) < usize_bound"
      using that by (simp add: handshake_begin_built_def usize_bound_def)
    with that varint_repr_varint[OF this, of pr] show ?thesis
      by (auto simp: handshake_begin_built_def handshake_begin_rep_def handshake_begin_new_def)
        (metis handshake_begin.select_convs(2))
  qed
  show "agrees (handshake_begin_from_bytes Debug data off)
      (handshake_begin_from_bytes Release data off)" for data off
    unfolding handshake_begin_from_bytes_def Let_def by (intro agree_intros)
  show "handshake_begin_from_bytes Release data off \<noteq> Panic" for data off
    by (auto simp: handshake_begin_from_bytes_def Let_def bind_res_eq_Panic require_eqs
      slice_at_eq_Panic expect_byte_Ok collect_res_not_Panic)
qed (auto intro: handshake_begin_fwd dest: handshake_begin_bwd)

section \<open>HandshakeProtocols\<close>

record handshake_protocols =
  hsp_protocols :: "str list"
  hsp_data :: bytes

definition handshake_protocols_bytes :: "bytes \<Rightarrow> bytes \<Rightarrow> bytes" where
  "handshake_protocols_bytes V P =
     message_type_u8 HandshakeProtocols # magic_u8 TypeArray # magic_u8 TypeVarchar # V @ P @
     [magic_u8 End]"

definition handshake_protocols_new :: "str list \<Rightarrow> (error, handshake_protocols) res" where
  "handshake_protocols_new protocols =
     bind_res (encode_var_int (length protocols) var_int_buf) (\<lambda>arr_len.
     bind_res (collect_res (\<lambda>protocol.
       bind_res (encode_var_int (length protocol) var_int_buf) (\<lambda>str_len.
         Ok (str_len @ protocol))) protocols) (\<lambda>entries.
       Ok \<lparr>hsp_protocols = protocols,
           hsp_data = handshake_protocols_bytes arr_len (concat entries)\<rparr>))"

fun protocols_loop :: "profile \<Rightarrow> bytes \<Rightarrow> usize \<Rightarrow> nat \<Rightarrow> (error, str list \<times> usize) res" where
  "protocols_loop pr data needle 0 = Ok ([], needle)"
| "protocols_loop pr data needle (Suc els) =
     bind_res (byte_at data needle) (\<lambda>_.
     bind_res (parse_var_int pr data needle) (\<lambda>(str_len, var_int_len).
     bind_res (read_str pr data (needle + var_int_len) str_len) (\<lambda>protocol.
     bind_res (protocols_loop pr data (needle + var_int_len + str_len) els) (\<lambda>(protocols, needle').
       Ok (protocol # protocols, needle')))))"

text \<open>The code counts \<open>needle\<close> from \<open>offset\<close> and adds \<open>offset\<close> at each access.\<close>

definition handshake_protocols_from_bytes ::
    "profile \<Rightarrow> bytes \<Rightarrow> usize \<Rightarrow> (error, handshake_protocols) res" where
  "handshake_protocols_from_bytes pr data offset =
     bind_res (expect_byte data offset (message_type_u8 HandshakeProtocols) InvalidMessageType) (\<lambda>_.
     bind_res (expect_byte data (offset + 1) (magic_u8 TypeArray) InvalidFieldType) (\<lambda>_.
     bind_res (expect_byte data (offset + 2) (magic_u8 TypeVarchar) InvalidFieldType) (\<lambda>_.
     bind_res (parse_var_int pr data (offset + 3)) (\<lambda>(els, var_int_len).
     bind_res (require (\<not> 2048 \<le> els) TooManyProtocols) (\<lambda>_.
     bind_res (protocols_loop pr data (offset + 3 + var_int_len) els) (\<lambda>(protocols, needle).
     bind_res (expect_byte data needle (magic_u8 End) MalformedMessage) (\<lambda>_.
     bind_res (slice_at data offset (needle + 1)) (\<lambda>bytes.
       Ok \<lparr>hsp_protocols = protocols, hsp_data = bytes\<rparr>))))))))"

text \<open>The layout of a list of strings, with the lengths in any representation.\<close>

fun strings_rep :: "profile \<Rightarrow> str list \<Rightarrow> bytes \<Rightarrow> bool" where
  "strings_rep pr [] P \<longleftrightarrow> P = []"
| "strings_rep pr (s # ss) P \<longleftrightarrow> utf8_valid s \<and>
     (\<exists>V P'. varint_repr pr V (length s) \<and> P = V @ s @ P' \<and> strings_rep pr ss P')"

definition handshake_protocols_rep :: "profile \<Rightarrow> handshake_protocols \<Rightarrow> bool" where
  "handshake_protocols_rep pr m \<longleftrightarrow> length (hsp_protocols m) < 2048 \<and>
     (\<exists>V P. varint_repr pr V (length (hsp_protocols m)) \<and> strings_rep pr (hsp_protocols m) P \<and>
        hsp_data m = handshake_protocols_bytes V P)"

lemma varint_repr_not_Nil: "varint_repr pr V n \<Longrightarrow> V \<noteq> []"
  by (simp add: varint_repr_def)

lemma protocols_loop_cursor:
  assumes "strings_rep pr ss P" and "cursor_at data needle (P @ rest)"
  shows "protocols_loop pr data needle (length ss) = Ok (ss, needle + length P)"
  using assms
proof (induction ss arbitrary: needle P)
  case (Cons s ss)
  from Cons.prems(1) obtain V P' where utf: "utf8_valid s" and V: "varint_repr pr V (length s)"
    and P: "P = V @ s @ P'" and rep: "strings_rep pr ss P'" by auto
  have c: "cursor_at data needle (V @ s @ P' @ rest)" using Cons.prems(2) P by simp
  note c1 = cursor_advance[OF c refl]
  note c2 = cursor_advance[OF c1 refl]
  have "\<exists>b. byte_at data needle = Ok b"
    using c varint_repr_not_Nil[OF V] by (cases V) (auto simp: byte_at_cursor)
  with varint_repr_cursor[OF V c] read_str_cursor[OF c1 utf refl] Cons.IH[OF rep c2]
  show ?case by (auto simp: P ac_simps)
qed simp

lemma protocols_loop_drop:
  assumes "protocols_loop pr data needle n = Ok (ss, stop)" and "stop < length data"
  shows "needle \<le> stop \<and> length ss = n \<and>
    (\<exists>P. strings_rep pr ss P \<and> stop = needle + length P \<and> drop needle data = P @ drop stop data)"
  using assms
proof (induction n arbitrary: needle ss)
  case (Suc n)
  from Suc.prems(1) obtain len k s ss' where
    len: "parse_var_int pr data needle = Ok (len, k)"
    and str: "read_str pr data (needle + k) len = Ok s" and ss: "ss = s # ss'"
    and loop: "protocols_loop pr data (needle + k + len) n = Ok (ss', stop)"
    by (auto simp: bind_res_eq_Ok)
  note s = read_str_Ok[OF str parse_var_int_bounds(1)[OF len]]
  from Suc.IH[OF loop Suc.prems(2)] obtain P where le: "needle + k + len \<le> stop" "length ss' = n"
    and P: "strings_rep pr ss' P" "stop = needle + k + len + length P"
      "drop (needle + k + len) data = P @ drop stop data" by auto
  have "needle + k < length data" using le(1) Suc.prems(2) by simp
  from parse_var_int_split[OF len this] obtain V where V: "varint_repr pr V len" "length V = k"
    and drop: "drop needle data = V @ drop (needle + k) data" by blast
  have "strings_rep pr ss (V @ s @ P)" using V s(1,2) P(1) ss by auto
  moreover have "stop = needle + length (V @ s @ P)" using V(2) s(2) P(2) by simp
  moreover have "drop needle data = (V @ s @ P) @ drop stop data" using drop s(3) P(3) by simp
  ultimately show ?case using le ss by (metis le_add1 length_Cons)
qed simp

lemma handshake_protocols_cursor:
  assumes V: "varint_repr pr V (length (hsp_protocols m))" and P: "strings_rep pr (hsp_protocols m) P"
    and data: "hsp_data m = handshake_protocols_bytes V P"
    and c: "cursor_at data off (hsp_data m @ rest)"
  shows "handshake_protocols_from_bytes pr data off =
    (if length (hsp_protocols m) < 2048 then Ok m else Err TooManyProtocols)"
proof -
  let ?ss = "hsp_protocols m"
  have c1: "cursor_at data (off + 3) (V @ P @ magic_u8 End # rest)"
    using cursor_drop[OF c, of 3] by (simp add: data handshake_protocols_bytes_def)
  have c2: "cursor_at data (off + 3 + length V) (P @ magic_u8 End # rest)"
    using cursor_advance[OF c1] by simp
  have c3: "cursor_at data (off + 3 + length V + length P) (magic_u8 End # rest)"
    using cursor_advance[OF c2] by simp
  have "expect_byte data off (message_type_u8 HandshakeProtocols) InvalidMessageType = Ok ()"
    using expect_byte_off[OF c, of 0] by (simp add: data handshake_protocols_bytes_def)
  moreover have "expect_byte data (off + 1) (magic_u8 TypeArray) InvalidFieldType = Ok ()"
    by (rule expect_byte_off[OF c]) (simp add: data handshake_protocols_bytes_def)
  moreover have "expect_byte data (off + 2) (magic_u8 TypeVarchar) InvalidFieldType = Ok ()"
    by (rule expect_byte_off[OF c]) (simp add: data handshake_protocols_bytes_def)
  moreover note varint_repr_cursor[OF V c1]
  moreover note protocols_loop_cursor[OF P c2]
  moreover have "expect_byte data (off + 3 + length V + length P) (magic_u8 End)
      MalformedMessage = Ok ()"
    by (rule expect_byte_cursor[OF c3])
  moreover have "slice_at data off (off + 3 + length V + length P + 1) =
      (Ok (hsp_data m) :: (error, bytes) res)"
    using cursor_slice_at[OF c refl]
    by (simp add: data handshake_protocols_bytes_def ac_simps numeral_eq_Suc)
  ultimately show ?thesis
    by (simp only: handshake_protocols_from_bytes_def Let_def bind_res.simps prod.case)
      (simp add: not_le[symmetric])
qed

lemma handshake_protocols_fwd:
  "handshake_protocols_rep pr m \<Longrightarrow> cursor_at data off (hsp_data m @ rest) \<Longrightarrow>
     handshake_protocols_from_bytes pr data off = Ok m"
  using handshake_protocols_cursor by (fastforce simp: handshake_protocols_rep_def)

lemma handshake_protocols_bwd:
  assumes ok: "handshake_protocols_from_bytes pr data off = Ok m"
  shows "handshake_protocols_rep pr m \<and> hsp_data m \<noteq> [] \<and>
    drop off data = hsp_data m @ drop (off + length (hsp_data m)) data"
proof -
  from ok obtain n k stop where
    reads: "expect_byte data off (message_type_u8 HandshakeProtocols) InvalidMessageType = Ok ()"
      "expect_byte data (off + 1) (magic_u8 TypeArray) InvalidFieldType = Ok ()"
      "expect_byte data (off + 2) (magic_u8 TypeVarchar) InvalidFieldType = Ok ()"
    and len: "parse_var_int pr data (off + 3) = Ok (n, k)" and few: "n < 2048"
    and loop: "protocols_loop pr data (off + 3 + k) n = Ok (hsp_protocols m, stop)"
    and last: "expect_byte data stop (magic_u8 End) MalformedMessage = Ok ()"
    and data: "slice_at data off (stop + 1) = (Ok (hsp_data m) :: (error, bytes) res)"
    unfolding handshake_protocols_from_bytes_def
    by (auto simp: bind_res_eq_Ok Let_def require_eqs not_le)
  from last have "stop < length data" by (simp add: expect_byte_Ok)
  from protocols_loop_drop[OF loop this] obtain P where "off + 3 + k \<le> stop"
    and n: "length (hsp_protocols m) = n" and P: "strings_rep pr (hsp_protocols m) P"
      "stop = off + 3 + k + length P" "drop (off + 3 + k) data = P @ drop stop data" by auto
  with \<open>stop < length data\<close> have "off + 3 + k < length data" by simp
  from parse_var_int_split[OF len this] obtain V where V: "varint_repr pr V n" "length V = k"
    and drop: "drop (off + 3) data = V @ drop (off + 3 + k) data" by blast
  let ?b = "handshake_protocols_bytes V P"
  have eq: "drop off data = ?b @ drop (stop + 1) data"
    using expect_byte_drop[OF reads(1)] expect_byte_drop[OF reads(2)] expect_byte_drop[OF reads(3)]
      drop P(3) expect_byte_drop[OF last]
    by (simp add: handshake_protocols_bytes_def algebra_simps numeral_3_eq_3)
  have stop: "stop + 1 = off + length ?b" using V P(2) by (simp add: handshake_protocols_bytes_def)
  with data eq have b: "hsp_data m = ?b"
    using get_range_SomeD[of data off "stop + 1" "hsp_data m"] by (simp add: slice_at_eq_Ok)
  have "drop off data = hsp_data m @ drop (off + length (hsp_data m)) data"
    using eq by (simp only: b stop)
  moreover have "hsp_data m \<noteq> []" by (simp add: b handshake_protocols_bytes_def)
  ultimately show ?thesis using b V P(1) n few by (auto simp: handshake_protocols_rep_def)
qed

definition handshake_protocols_built :: "handshake_protocols \<Rightarrow> bool" where
  "handshake_protocols_built m \<longleftrightarrow> length (hsp_protocols m) < 2048 \<and>
     (\<forall>s \<in> set (hsp_protocols m). utf8_valid s \<and> length s \<le> isize_max) \<and>
     handshake_protocols_new (hsp_protocols m) = Ok m"

lemma strings_rep_varint:
  "\<forall>s \<in> set ss. utf8_valid s \<and> length s < usize_bound \<Longrightarrow>
     strings_rep pr ss (concat (map (\<lambda>s. varint (length s) @ s) ss))"
  by (induction ss) (auto intro: varint_repr_varint)

lemma collect_res_Ok: "(\<And>x. x \<in> set xs \<Longrightarrow> f x = Ok (g x)) \<Longrightarrow> collect_res f xs = Ok (map g xs)"
  by (induction xs) auto

lemma handshake_protocols_new_eq:
  assumes "length ss < usize_bound" and "\<forall>s \<in> set ss. length s < usize_bound"
  shows "handshake_protocols_new ss =
    Ok \<lparr>hsp_protocols = ss, hsp_data = handshake_protocols_bytes (varint (length ss))
         (concat (map (\<lambda>s. varint (length s) @ s) ss))\<rparr>"
proof -
  have "collect_res (\<lambda>s. bind_res (encode_var_int (length s) var_int_buf) (\<lambda>n. Ok (n @ s))) ss =
      (Ok (map (\<lambda>s. varint (length s) @ s) ss) :: (error, _) res)"
    by (rule collect_res_Ok) (simp add: assms(2))
  with assms(1) show ?thesis by (simp add: handshake_protocols_new_def)
qed

interpretation hsprotop: wire_codec hsp_data handshake_protocols_from_bytes handshake_protocols_built
proof (rule wire_codecI[where rep = handshake_protocols_rep])
  show "handshake_protocols_rep pr m" if "handshake_protocols_built m" for pr m
  proof -
    let ?ss = "hsp_protocols m"
    have len: "length ?ss < usize_bound" and strs: "\<forall>s \<in> set ?ss. utf8_valid s \<and> length s < usize_bound"
      using that usize_le_isize by (auto simp: handshake_protocols_built_def usize_bound_def)
    from strs have "\<forall>s \<in> set ?ss. length s < usize_bound" by blast
    from handshake_protocols_new_eq[OF len this] that
    have "m = \<lparr>hsp_protocols = ?ss, hsp_data = handshake_protocols_bytes (varint (length ?ss))
        (concat (map (\<lambda>s. varint (length s) @ s) ?ss))\<rparr>"
      by (simp add: handshake_protocols_built_def)
    from arg_cong[OF this, of hsp_data]
    have "hsp_data m = handshake_protocols_bytes (varint (length ?ss))
        (concat (map (\<lambda>s. varint (length s) @ s) ?ss))"
      by (simp only: handshake_protocols.select_convs)
    moreover have "length ?ss < 2048" using that by (simp add: handshake_protocols_built_def)
    ultimately show ?thesis
      using strings_rep_varint[OF strs, of pr] varint_repr_varint[OF len, of pr]
      unfolding handshake_protocols_rep_def by blast
  qed
  have loop: "agrees (protocols_loop Debug data needle n) (protocols_loop Release data needle n)"
    for data needle n
    by (induction n arbitrary: needle) (auto intro!: agree_intros)
  show "agrees (handshake_protocols_from_bytes Debug data off)
      (handshake_protocols_from_bytes Release data off)" for data off
    unfolding handshake_protocols_from_bytes_def by (intro agree_intros loop)
  have np: "protocols_loop Release data needle n \<noteq> Panic" for data needle n
    by (induction n arbitrary: needle) (auto simp: bind_res_eq_Panic)
  show "handshake_protocols_from_bytes Release data off \<noteq> Panic" for data off
  proof
    assume "handshake_protocols_from_bytes Release data off = Panic"
    then obtain n k ss stop where "protocols_loop Release data (off + 3 + k) n = Ok (ss, stop)"
      and "stop < length data" and "\<not> off \<le> stop"
      by (auto simp: handshake_protocols_from_bytes_def bind_res_eq_Panic require_eqs
        slice_at_eq_Panic expect_byte_Ok np)
    with protocols_loop_drop[of Release data "off + 3 + k" n ss stop] show False by simp
  qed
qed (auto intro: handshake_protocols_fwd dest: handshake_protocols_bwd)

section \<open>Properties\<close>

text \<open>Binding: the message built for a protocol name, a sequence number and a version other than
  zero is read back unchanged from any place in a stream, in both builds; with version zero the
  receiver answers \<open>InvalidVersion\<close>.\<close>
theorem bind_protocol_roundtrip:
  assumes "utf8_valid name" and "length name \<le> isize_max"
  shows "\<exists>m. bind_protocol_new name seq version = Ok m \<and>
    bind_name m = name \<and> bind_seq m = seq \<and> bind_version m = version \<and>
    (\<forall>pr pre post. length (pre @ bind_data m @ post) \<le> isize_max \<longrightarrow>
       bind_protocol_from_bytes pr (pre @ bind_data m @ post) (length pre) =
         (if version = 0 then Err InvalidVersion else Ok m))"
proof -
  let ?m = "\<lparr>bind_seq = seq, bind_version = version, bind_name = name,
    bind_data = bind_bytes (varint (length name)) seq name version\<rparr>"
  have new: "bind_protocol_new name seq version = Ok ?m"
    using usize_le_isize[OF assms(2)] by (simp add: bind_protocol_new_def)
  have "bind_protocol_from_bytes pr (pre @ bind_data ?m @ post) (length pre) =
      (if version = 0 then Err InvalidVersion else Ok ?m)"
    if "length (pre @ bind_data ?m @ post) \<le> isize_max" for pr pre post
    using bind_cursor[where pr = pr and m = ?m, OF _ _ _ cursor_append[OF that]] assms
      varint_repr_varint[OF usize_le_isize[OF assms(2)], of pr]
    by simp
  with new show ?thesis by auto
qed

theorem bind_protocol_roundtrip_witness:
  "\<exists>m. bind_protocol_new (ascii ''demo'') 1 0 = Ok m \<and>
    bind_name m = ascii ''demo'' \<and> bind_seq m = 1 \<and> bind_version m = 0 \<and>
    (\<forall>pr pre post. length (pre @ bind_data m @ post) \<le> isize_max \<longrightarrow>
       bind_protocol_from_bytes pr (pre @ bind_data m @ post) (length pre) = Err InvalidVersion)"
  using bind_protocol_roundtrip[of "ascii ''demo''" 1 0] by (simp add: isize_max_def)

text \<open>A list of protocol names is read back unchanged if it has fewer than 2048 entries, and
  refused with \<open>TooManyProtocols\<close> from 2048 entries on.\<close>
theorem handshake_protocols_roundtrip:
  assumes "length ss \<le> isize_max" and "\<forall>s \<in> set ss. utf8_valid s \<and> length s \<le> isize_max"
  shows "\<exists>m. handshake_protocols_new ss = Ok m \<and> hsp_protocols m = ss \<and>
    (\<forall>pr pre post. length (pre @ hsp_data m @ post) \<le> isize_max \<longrightarrow>
       handshake_protocols_from_bytes pr (pre @ hsp_data m @ post) (length pre) =
         (if length ss < 2048 then Ok m else Err TooManyProtocols))"
proof -
  let ?P = "concat (map (\<lambda>s. varint (length s) @ s) ss)"
  let ?m = "\<lparr>hsp_protocols = ss, hsp_data = handshake_protocols_bytes (varint (length ss)) ?P\<rparr>"
  have len: "length ss < usize_bound" and strs: "\<forall>s \<in> set ss. utf8_valid s \<and> length s < usize_bound"
    using assms usize_le_isize by auto
  from strs have new: "handshake_protocols_new ss = Ok ?m"
    by (intro handshake_protocols_new_eq[OF len]) blast
  have "handshake_protocols_from_bytes pr (pre @ hsp_data ?m @ post) (length pre) =
      (if length ss < 2048 then Ok ?m else Err TooManyProtocols)"
    if "length (pre @ hsp_data ?m @ post) \<le> isize_max" for pr pre post
    using handshake_protocols_cursor[where pr = pr and m = ?m, OF _ _ _ cursor_append[OF that]]
      varint_repr_varint[OF len, of pr] strings_rep_varint[OF strs, of pr]
    by simp
  with new show ?thesis by auto
qed

theorem handshake_protocols_roundtrip_witness:
  "\<exists>m. handshake_protocols_new [ascii ''a@1'', ascii ''b@2''] = Ok m \<and>
    hsp_protocols m = [ascii ''a@1'', ascii ''b@2''] \<and>
    (\<forall>pr pre post. length (pre @ hsp_data m @ post) \<le> isize_max \<longrightarrow>
       handshake_protocols_from_bytes pr (pre @ hsp_data m @ post) (length pre) = Ok m)"
  using handshake_protocols_roundtrip[of "[ascii ''a@1'', ascii ''b@2'']"]
  by (simp add: isize_max_def)

text \<open>A list of versions is read back unchanged if it has fewer than 256 entries, and refused with
  \<open>TooManyVersions\<close> from 256 entries on.\<close>
theorem handshake_begin_roundtrip:
  assumes "length vs \<le> isize_max"
  shows "\<exists>m. handshake_begin_new vs = Ok m \<and> hsb_versions m = vs \<and>
    (\<forall>pr pre post. length (pre @ hsb_data m @ post) \<le> isize_max \<longrightarrow>
       handshake_begin_from_bytes pr (pre @ hsb_data m @ post) (length pre) =
         (if length vs < 256 then Ok m else Err TooManyVersions))"
proof -
  let ?m = "\<lparr>hsb_versions = vs, hsb_data = handshake_begin_bytes (varint (length vs)) vs\<rparr>"
  note len = usize_le_isize[OF assms]
  have new: "handshake_begin_new vs = Ok ?m"
    using len by (simp add: handshake_begin_new_def)
  have "handshake_begin_from_bytes pr (pre @ hsb_data ?m @ post) (length pre) =
      (if length vs < 256 then Ok ?m else Err TooManyVersions)"
    if "length (pre @ hsb_data ?m @ post) \<le> isize_max" for pr pre post
    using handshake_begin_cursor[where pr = pr and m = ?m, OF _ _ cursor_append[OF that]]
      varint_repr_varint[OF len, of pr]
    by simp
  with new show ?thesis by auto
qed

theorem handshake_begin_roundtrip_witness:
  "\<exists>m. handshake_begin_new (replicate 256 1) = Ok m \<and> hsb_versions m = replicate 256 1 \<and>
    (\<forall>pr pre post. length (pre @ hsb_data m @ post) \<le> isize_max \<longrightarrow>
       handshake_begin_from_bytes pr (pre @ hsb_data m @ post) (length pre) = Err TooManyVersions)"
  using handshake_begin_roundtrip[of "replicate 256 1"] by (simp add: isize_max_def)

end
