(* ===== verification/Generic_Message.thy ===== *)
theory Generic_Message
  imports Var_Messages
begin

text \<open>
  \<open>hyprwire-core/src/message/wire/generic_protocol_message.rs\<close>: the message that carries a method
  call. Its length is not stored; \<open>from_bytes\<close> scans the payload field by field, skipping over the
  contents, until it reads an \<open>End\<close> tag where a field would start. File descriptors travel beside the
  bytes: the scan takes one from the queue for every descriptor field.

  The scan adds lengths from the wire to its index. In a build without overflow checks the index
  wraps, so the loop need not end; it is a \<open>partial_function\<close> whose result is \<open>None\<close> when it runs
  forever.
\<close>

section \<open>The code\<close>

record generic_message =
  gm_depends_on_seq :: u32
  gm_object :: u32
  gm_method :: u32
  gm_fds :: "i32 list"
  gm_data :: bytes
  gm_range :: "usize \<times> usize"

definition generic_message_new :: "bytes \<Rightarrow> i32 list \<Rightarrow> generic_message" where
  "generic_message_new data fds =
     \<lparr>gm_depends_on_seq = 0, gm_object = 0, gm_method = 0, gm_fds = fds, gm_data = data,
      gm_range = (0, length data)\<rparr>"

definition data_span :: "generic_message \<Rightarrow> (error, bytes) res" where
  "data_span m = slice_at (gm_data m) (fst (gm_range m)) (snd (gm_range m))"

definition set_depends_on_seq :: "u32 \<Rightarrow> generic_message \<Rightarrow> generic_message" where
  "set_depends_on_seq seq m = m\<lparr>gm_depends_on_seq := seq\<rparr>"

definition resolve_seq :: "u32 \<Rightarrow> generic_message \<Rightarrow> generic_message" where
  "resolve_seq i m =
     m\<lparr>gm_object := i,
       gm_data := (if length (gm_data m) \<ge> 6
                   then take 2 (gm_data m) @ to_le_bytes i @ drop 6 (gm_data m) else gm_data m)\<rparr>"

text \<open>The tags whose payload is four bytes.\<close>

primrec word_magic :: "magic \<Rightarrow> bool" where
  "word_magic End = False"
| "word_magic TypeUint = True"
| "word_magic TypeInt = True"
| "word_magic TypeF32 = True"
| "word_magic TypeSeq = True"
| "word_magic TypeObjectId = False"
| "word_magic TypeVarchar = False"
| "word_magic TypeArray = False"
| "word_magic TypeObject = True"
| "word_magic TypeFd = False"

text \<open>The state of the scan: \<open>i\<close>, \<open>fds_cursor\<close>, \<open>consumed_fds\<close>.\<close>

type_synonym scan = "usize \<times> usize \<times> i32 list"

fun take_fds :: "i32 list \<Rightarrow> usize \<Rightarrow> i32 list \<Rightarrow> nat \<Rightarrow> (error, usize \<times> i32 list) res" where
  "take_fds fds fds_cursor consumed 0 = Ok (fds_cursor, consumed)"
| "take_fds fds fds_cursor consumed (Suc n) =
     (case get fds fds_cursor of
        Some fd \<Rightarrow> take_fds fds (fds_cursor + 1) (consumed @ [fd]) n
      | None \<Rightarrow> Err MalformedMessage)"

fun varchar_array_loop :: "profile \<Rightarrow> bytes \<Rightarrow> usize \<Rightarrow> usize \<Rightarrow> nat \<Rightarrow> (error, usize) res" where
  "varchar_array_loop pr data p arr_message_len 0 = Ok arr_message_len"
| "varchar_array_loop pr data p arr_message_len (Suc n) =
     bind_res (uadd pr p arr_message_len) (\<lambda>q.
     bind_res (parse_var_int pr data q) (\<lambda>(str_len, str_len_len).
     bind_res (uadd pr str_len str_len_len) (\<lambda>s.
     bind_res (uadd pr arr_message_len s) (\<lambda>arr_message_len'.
       varchar_array_loop pr data p arr_message_len' n))))"

definition scan_array :: "profile \<Rightarrow> bytes \<Rightarrow> i32 list \<Rightarrow> usize \<Rightarrow> usize \<Rightarrow> i32 list \<Rightarrow>
    (error, usize \<times> usize \<times> i32 list) res" where
  "scan_array pr data fds p fds_cursor consumed =
     bind_res (byte_at data (p + 1)) (\<lambda>b.
     bind_res (magic_try_from b) (\<lambda>arr_type.
     bind_res (parse_var_int pr data (p + 2)) (\<lambda>(arr_len, len_len).
     let arr_message_len = 2 + len_len in
     bind_res (require (\<not> 10000 \<le> arr_len) ArrayTooLong) (\<lambda>_.
     if word_magic arr_type then Ok (arr_message_len + 4 * arr_len, fds_cursor, consumed)
     else if arr_type = TypeVarchar then
       bind_res (varchar_array_loop pr data p arr_message_len arr_len) (\<lambda>len.
         Ok (len, fds_cursor, consumed))
     else if arr_type = TypeFd then
       bind_res (take_fds fds fds_cursor consumed arr_len) (\<lambda>(fds_cursor', consumed').
         Ok (arr_message_len, fds_cursor', consumed'))
     else Err MalformedMessage))))"

text \<open>One evaluation of the loop condition and, unless it is false (\<open>None\<close>), of the body.\<close>

definition scan_step :: "profile \<Rightarrow> bytes \<Rightarrow> i32 list \<Rightarrow> usize \<Rightarrow> scan \<Rightarrow> (error, scan option) res" where
  "scan_step pr data fds offset s =
     (case s of (i, fds_cursor, consumed) \<Rightarrow>
      bind_res (uadd pr offset i) (\<lambda>p.
      bind_res (byte_at data p) (\<lambda>b.
      if b = magic_u8 End then Ok None
      else
        bind_res (magic_try_from b) (\<lambda>magic.
        if word_magic magic then
          bind_res (uadd pr i 5) (\<lambda>i'. Ok (Some (i', fds_cursor, consumed)))
        else if magic = TypeVarchar then
          bind_res (parse_var_int pr data (p + 1)) (\<lambda>(str_len, var_int_len).
          bind_res (uadd pr str_len var_int_len) (\<lambda>n.
          bind_res (uadd pr n 1) (\<lambda>n'.
          bind_res (uadd pr i n') (\<lambda>i'. Ok (Some (i', fds_cursor, consumed))))))
        else if magic = TypeArray then
          bind_res (scan_array pr data fds p fds_cursor consumed)
            (\<lambda>(arr_message_len, fds_cursor', consumed').
          bind_res (uadd pr i arr_message_len) (\<lambda>i'. Ok (Some (i', fds_cursor', consumed'))))
        else if magic = TypeFd then
          bind_res (take_fds fds fds_cursor consumed 1) (\<lambda>(fds_cursor', consumed').
          bind_res (uadd pr i 1) (\<lambda>i'. Ok (Some (i', fds_cursor', consumed'))))
        else Err MalformedMessage))))"

partial_function (option) generic_scan ::
    "profile \<Rightarrow> bytes \<Rightarrow> i32 list \<Rightarrow> usize \<Rightarrow> scan \<Rightarrow> (error, scan) res option" where
  "generic_scan pr data fds offset s =
     (case scan_step pr data fds offset s of
        Ok (Some s') \<Rightarrow> generic_scan pr data fds offset s'
      | Ok None \<Rightarrow> Some (Ok s)
      | Err e \<Rightarrow> Some (Err e)
      | Panic \<Rightarrow> Some Panic)"

text \<open>
  \<open>from_bytes\<close> returns the message and what is left of the descriptor queue. \<open>None\<close>: it does not
  return. An error leaves the queue as it was.
\<close>

definition generic_header :: "bytes \<Rightarrow> usize \<Rightarrow> (error, u32 \<times> u32) res" where
  "generic_header data offset =
     bind_res (expect_byte data offset (message_type_u8 GenericProtocolMessage) InvalidMessageType) (\<lambda>_.
     bind_res (expect_byte data (offset + 1) (magic_u8 TypeObject) InvalidFieldType) (\<lambda>_.
     bind_res (read_u32 data (offset + 2)) (\<lambda>object.
     bind_res (expect_byte data (offset + 6) (magic_u8 TypeUint) InvalidFieldType) (\<lambda>_.
     bind_res (read_u32 data (offset + 7)) (\<lambda>method. Ok (object, method))))))"

definition generic_finish ::
    "profile \<Rightarrow> bytes \<Rightarrow> i32 list \<Rightarrow> usize \<Rightarrow> u32 \<times> u32 \<Rightarrow> scan \<Rightarrow>
       (error, generic_message \<times> i32 list) res" where
  "generic_finish pr data fds offset om s =
     (case s of (i, fds_cursor, consumed) \<Rightarrow>
      bind_res (uadd pr i 1) (\<lambda>len.
      bind_res (uadd pr offset len) (\<lambda>stop.
      bind_res (slice_at data offset stop) (\<lambda>bytes.
        Ok (\<lparr>gm_depends_on_seq = 0, gm_object = fst om, gm_method = snd om, gm_fds = consumed,
             gm_data = bytes, gm_range = (11, len)\<rparr>,
            drop fds_cursor fds)))))"

definition generic_from_bytes ::
    "profile \<Rightarrow> bytes \<Rightarrow> i32 list \<Rightarrow> usize \<Rightarrow> (error, generic_message \<times> i32 list) res option" where
  "generic_from_bytes pr data fds offset =
     (case generic_header data offset of
        Ok om \<Rightarrow>
          map_option (\<lambda>r. bind_res r (generic_finish pr data fds offset om))
            (generic_scan pr data fds offset (11, 0, []))
      | Err e \<Rightarrow> Some (Err e)
      | Panic \<Rightarrow> Some Panic)"

section \<open>The layout of a payload\<close>

text \<open>
  The abstract view of what the scan walks over: a list of fields. \<open>field_rep\<close> gives the bytes of a
  field, its lengths in any representation; \<open>field_fds\<close> counts its descriptors.
\<close>

datatype field =
    FWord magic u32 | FStr bytes | FFd | FWords magic "u32 list" | FStrs "bytes list" | FFds nat

fun blobs_rep :: "profile \<Rightarrow> bytes list \<Rightarrow> bytes \<Rightarrow> bool" where
  "blobs_rep pr [] P \<longleftrightarrow> P = []"
| "blobs_rep pr (s # ss) P \<longleftrightarrow>
     (\<exists>V P'. varint_repr pr V (length s) \<and> P = V @ s @ P' \<and> blobs_rep pr ss P')"

fun field_rep :: "profile \<Rightarrow> field \<Rightarrow> bytes \<Rightarrow> bool" where
  "field_rep pr (FWord m w) F \<longleftrightarrow> word_magic m \<and> F = magic_u8 m # to_le_bytes w"
| "field_rep pr (FStr s) F \<longleftrightarrow>
     (\<exists>V. varint_repr pr V (length s) \<and> F = magic_u8 TypeVarchar # V @ s)"
| "field_rep pr FFd F \<longleftrightarrow> F = [magic_u8 TypeFd]"
| "field_rep pr (FWords m ws) F \<longleftrightarrow> word_magic m \<and> length ws < 10000 \<and>
     (\<exists>V. varint_repr pr V (length ws) \<and>
        F = magic_u8 TypeArray # magic_u8 m # V @ concat (map to_le_bytes ws))"
| "field_rep pr (FStrs ss) F \<longleftrightarrow> length ss < 10000 \<and>
     (\<exists>V P. varint_repr pr V (length ss) \<and> blobs_rep pr ss P \<and>
        F = magic_u8 TypeArray # magic_u8 TypeVarchar # V @ P)"
| "field_rep pr (FFds n) F \<longleftrightarrow> n < 10000 \<and>
     (\<exists>V. varint_repr pr V n \<and> F = magic_u8 TypeArray # magic_u8 TypeFd # V)"

fun field_fds :: "field \<Rightarrow> nat" where
  "field_fds FFd = 1"
| "field_fds (FFds n) = n"
| "field_fds _ = 0"

fun fields_rep :: "profile \<Rightarrow> field list \<Rightarrow> bytes \<Rightarrow> bool" where
  "fields_rep pr [] B \<longleftrightarrow> B = []"
| "fields_rep pr (f # fs) B \<longleftrightarrow> (\<exists>F B'. field_rep pr f F \<and> B = F @ B' \<and> fields_rep pr fs B')"

definition fields_fds :: "field list \<Rightarrow> nat" where
  "fields_fds fs = sum_list (map field_fds fs)"

lemma fields_fds_simps [simp]:
  "fields_fds [] = 0" "fields_fds (f # fs) = field_fds f + fields_fds fs"
  by (simp_all add: fields_fds_def)

primrec field_head :: "field \<Rightarrow> magic" where
  "field_head (FWord m w) = m"
| "field_head (FStr s) = TypeVarchar"
| "field_head FFd = TypeFd"
| "field_head (FWords m ws) = TypeArray"
| "field_head (FStrs ss) = TypeArray"
| "field_head (FFds n) = TypeArray"

lemma word_magic_neq: "word_magic m \<Longrightarrow> m \<noteq> End \<and> m \<noteq> TypeVarchar \<and> m \<noteq> TypeArray \<and> m \<noteq> TypeFd"
  by (cases m) auto

lemma field_rep_head:
  assumes "field_rep pr f F"
  obtains F' where "F = magic_u8 (field_head f) # F'" and "field_head f \<noteq> End"
  using assms by (cases f) (auto simp del: magic_u8.simps dest: word_magic_neq)

section \<open>The scan reads a payload\<close>

lemma get_eq_drop: "get xs i = (case drop i xs of [] \<Rightarrow> None | x # _ \<Rightarrow> Some x)"
  by (auto simp: get_def Cons_nth_drop_Suc[symmetric] split: list.splits)

lemma take_fds_Ok:
  "c + n \<le> length fds \<Longrightarrow> take_fds fds c acc n = Ok (c + n, acc @ take n (drop c fds))"
proof (induction n arbitrary: c acc)
  case (Suc n)
  then have "drop c fds = fds ! c # drop (Suc c) fds" by (simp add: Cons_nth_drop_Suc)
  with Suc show ?case by (simp add: get_def)
qed simp

lemma take_fds_Err:
  "length fds < c + n \<Longrightarrow> c \<le> length fds \<Longrightarrow> take_fds fds c acc n = Err MalformedMessage"
proof (induction n arbitrary: c acc)
  case (Suc n)
  then show ?case by (cases "c = length fds") (auto simp: get_def)
qed simp

lemma take_fds_not_Panic [simp]: "take_fds fds c acc n \<noteq> Panic"
  by (induction n arbitrary: c acc) (auto split: option.splits)

lemma blobs_loop_cursor:
  assumes "blobs_rep pr ss P" and "cursor_at data (p + aml) (P @ rest)"
  shows "varchar_array_loop pr data p aml (length ss) = Ok (aml + length P)"
  using assms
proof (induction ss arbitrary: aml P)
  case (Cons s ss)
  from Cons.prems(1) obtain V P' where V: "varint_repr pr V (length s)"
    and P: "P = V @ s @ P'" and rep: "blobs_rep pr ss P'" by auto
  have c: "cursor_at data (p + aml) (V @ s @ P' @ rest)" using Cons.prems(2) P by simp
  have c':  "cursor_at data (p + (aml + (length s + length V))) (P' @ rest)"
    using cursor_advance[OF cursor_advance[OF c refl] refl] by (simp add: ac_simps)
  have "length s + length V < usize_bound" "p + aml < usize_bound"
    "aml + (length s + length V) < usize_bound"
    using cursor_bound[OF c, of "length V + length s"] by auto
  with varint_repr_cursor[OF V c] Cons.IH[OF rep c'] P show ?case by (simp add: ac_simps)
qed simp

lemma bound_500: "n < 10000 \<Longrightarrow> n < usize_bound"
  by (simp add: usize_bound_def)

lemma scan_array_cursor:
  assumes rep: "field_rep pr f F" and arr: "field_head f = TypeArray"
    and c: "cursor_at data p (F @ rest)" and fds: "cur + field_fds f \<le> length fds"
  shows "scan_array pr data fds p cur acc =
    Ok (length F, cur + field_fds f, acc @ take (field_fds f) (drop cur fds))"
proof -
  have body: "byte_at data (p + 1) = Ok (magic_u8 m)"
      "cursor_at data (p + 2 + length V) (B @ rest)"
      "parse_var_int pr data (p + 2) = Ok (n, length V)"
    if F: "F = magic_u8 TypeArray # magic_u8 m # V @ B" and V: "varint_repr pr V n" for m V B n
  proof -
    have c0: "cursor_at data p (magic_u8 TypeArray # magic_u8 m # V @ B @ rest)" using c F by simp
    from cursor_next[OF c0] show "byte_at data (p + 1) = Ok (magic_u8 m)"
      by (simp add: byte_at_cursor)
    have c2: "cursor_at data (p + 2) (V @ B @ rest)" using cursor_drop[OF c0, of 2] by simp
    from varint_repr_cursor[OF V c2] show "parse_var_int pr data (p + 2) = Ok (n, length V)" .
    from cursor_advance[OF c2 refl] show "cursor_at data (p + 2 + length V) (B @ rest)" .
  qed
  show ?thesis
  proof (cases f)
    case (FWords m ws)
    with rep obtain V where m: "word_magic m" and n: "length ws < 10000"
      and V: "varint_repr pr V (length ws)"
      and F: "F = magic_u8 TypeArray # magic_u8 m # V @ concat (map to_le_bytes ws)" by auto
    from body[OF F V] m n FWords F show ?thesis
      by (simp add: scan_array_def not_le del: One_nat_def)
  next
    case (FStrs ss)
    with rep obtain V P where n: "length ss < 10000" and V: "varint_repr pr V (length ss)"
      and P: "blobs_rep pr ss P" and F: "F = magic_u8 TypeArray # magic_u8 TypeVarchar # V @ P" by auto
    from body[OF F V] have "cursor_at data (p + (2 + length V)) (P @ rest)" by (simp add: ac_simps)
    from blobs_loop_cursor[OF P this] body[OF F V] n FStrs F show ?thesis
      by (simp add: scan_array_def not_le magic_try_from_def)
  next
    case (FFds n)
    with rep obtain V where n: "n < 10000" and V: "varint_repr pr V n"
      and F: "F = magic_u8 TypeArray # magic_u8 TypeFd # V @ []" by auto
    from body[OF F V] n FFds F fds show ?thesis
      by (simp add: scan_array_def not_le magic_try_from_def take_fds_Ok)
  qed (use rep arr in auto)
qed

lemma scan_step_end:
  assumes "cursor_at data (offset + i) (magic_u8 End # rest)"
  shows "scan_step pr data fds offset (i, cur, acc) = Ok None"
  using byte_at_cursor[OF assms] cursor_bound[OF assms, of 0] by (simp add: scan_step_def)

lemma scan_step_cursor:
  assumes rep: "field_rep pr f F" and c: "cursor_at data (offset + i) (F @ rest)"
    and fds: "cur + field_fds f \<le> length fds"
  shows "scan_step pr data fds offset (i, cur, acc) =
    Ok (Some (i + length F, cur + field_fds f, acc @ take (field_fds f) (drop cur fds)))"
proof -
  from rep obtain F' where F: "F = magic_u8 (field_head f) # F'" and head: "field_head f \<noteq> End"
    by (rule field_rep_head)
  have b: "byte_at data (offset + i) = Ok (magic_u8 (field_head f))"
    using c F by (simp add: byte_at_cursor)
  have bound: "offset + i < usize_bound" "i + length F < usize_bound" "length F < usize_bound"
    using cursor_bound[OF c, of "length F"] by simp_all
  show ?thesis
  proof (cases f)
    case (FWord m w)
    with rep bound b head show ?thesis
      by (auto simp: scan_step_def simp del: magic_u8.simps)
  next
    case (FStr s)
    with rep obtain V where V: "varint_repr pr V (length s)" and FV: "F = magic_u8 TypeVarchar # V @ s"
      by auto
    have c1: "cursor_at data (offset + i + 1) (V @ s @ rest)"
      using cursor_next[of data "offset + i" _ "V @ s @ rest"] c FV by simp
    have "length F = length s + length V + 1" using FV by simp
    with bound b varint_repr_cursor[OF V c1] FStr show ?thesis
      by (simp add: scan_step_def magic_try_from_def)
  next
    case FFd
    with bound b rep fds take_fds_Ok[of cur 1 fds acc] show ?thesis
      by (simp add: scan_step_def magic_try_from_def)
  qed (use b bound scan_array_cursor[OF rep _ c fds] in
    \<open>simp_all add: scan_step_def magic_try_from_def\<close>)
qed

lemma scan_fields_cursor:
  assumes "fields_rep pr fs B" and "cursor_at data (offset + i) (B @ magic_u8 End # rest)"
    and "cur + fields_fds fs \<le> length fds"
  shows "generic_scan pr data fds offset (i, cur, acc) =
    Some (Ok (i + length B, cur + fields_fds fs, acc @ take (fields_fds fs) (drop cur fds)))"
  using assms
proof (induction fs arbitrary: i cur acc B)
  case Nil
  then show ?case
    using scan_step_end[of data offset i] by (subst generic_scan.simps) simp
next
  case (Cons f fs)
  from Cons.prems(1) obtain F B' where F: "field_rep pr f F" and B: "B = F @ B'"
    and rep: "fields_rep pr fs B'" by auto
  have c: "cursor_at data (offset + i) (F @ B' @ magic_u8 End # rest)"
    using Cons.prems(2) B by simp
  have c': "cursor_at data (offset + (i + length F)) (B' @ magic_u8 End # rest)"
    using cursor_advance[OF c refl] by (simp add: add.assoc)
  have step: "scan_step pr data fds offset (i, cur, acc) =
    Ok (Some (i + length F, cur + field_fds f, acc @ take (field_fds f) (drop cur fds)))"
    using Cons.prems(3) by (intro scan_step_cursor[OF F c]) simp
  have "take (field_fds f) (drop cur fds) @ take (fields_fds fs) (drop (cur + field_fds f) fds) =
      take (field_fds f + fields_fds fs) (drop cur fds)"
    by (simp add: take_add add.commute)
  with Cons.IH[OF rep c', of "cur + field_fds f"] Cons.prems(3) step B show ?case
    by (subst generic_scan.simps) (simp add: add.assoc)
qed

definition generic_bytes :: "u32 \<Rightarrow> u32 \<Rightarrow> bytes \<Rightarrow> bytes" where
  "generic_bytes object method B =
     message_type_u8 GenericProtocolMessage # magic_u8 TypeObject # to_le_bytes object @
     magic_u8 TypeUint # to_le_bytes method @ B @ [magic_u8 End]"

lemma length_generic_bytes [simp]: "length (generic_bytes object method B) = 12 + length B"
  by (simp add: generic_bytes_def)

lemma generic_header_cursor:
  assumes "cursor_at data off (generic_bytes object method B @ rest)"
  shows "generic_header data off = Ok (object, method)"
proof -
  note c = assms
  have "expect_byte data off (message_type_u8 GenericProtocolMessage) InvalidMessageType = Ok ()"
    using expect_byte_off[OF c, of 0] by (simp add: generic_bytes_def)
  moreover have "expect_byte data (off + 1) (magic_u8 TypeObject) InvalidFieldType = Ok ()"
    by (rule expect_byte_off[OF c]) (simp add: generic_bytes_def)
  moreover have "read_u32 data (off + 2) = Ok object"
    by (rule read_u32_off[OF c]) (simp add: generic_bytes_def)
  moreover have "expect_byte data (off + 6) (magic_u8 TypeUint) InvalidFieldType = Ok ()"
    by (rule expect_byte_off[OF c]) (simp add: generic_bytes_def to_le_bytes_def)
  moreover have "read_u32 data (off + 7) = Ok method"
    by (rule read_u32_off[OF c, where r = "B @ magic_u8 End # rest"])
      (simp add: generic_bytes_def to_le_bytes_def)
  ultimately show ?thesis by (simp add: generic_header_def)
qed

text \<open>What \<open>from_bytes\<close> returns for a message with payload \<open>fs\<close>.\<close>

definition generic_parsed :: "u32 \<Rightarrow> u32 \<Rightarrow> field list \<Rightarrow> bytes \<Rightarrow> i32 list \<Rightarrow> generic_message" where
  "generic_parsed object method fs B fds =
     \<lparr>gm_depends_on_seq = 0, gm_object = object, gm_method = method,
      gm_fds = take (fields_fds fs) fds, gm_data = generic_bytes object method B,
      gm_range = (11, 12 + length B)\<rparr>"

lemma generic_from_bytes_fwd:
  assumes rep: "fields_rep pr fs B" and c: "cursor_at data off (generic_bytes object method B @ rest)"
    and fds: "fields_fds fs \<le> length fds"
  shows "generic_from_bytes pr data fds off =
    Some (Ok (generic_parsed object method fs B fds, drop (fields_fds fs) fds))"
proof -
  have c1: "cursor_at data (off + 11) (B @ magic_u8 End # rest)"
    using cursor_drop[OF c, of 11] by (simp add: generic_bytes_def to_le_bytes_def)
  have scan: "generic_scan pr data fds off (11, 0, []) =
      Some (Ok (11 + length B, fields_fds fs, take (fields_fds fs) fds))"
    using scan_fields_cursor[OF rep c1, of 0 fds "[]"] fds by simp
  have "off + (12 + length B) < usize_bound"
    using cursor_bound[OF c, of "12 + length B"] by simp
  then have "uadd pr (11 + length B) 1 = (Ok (12 + length B) :: (error, usize) res)"
    and "uadd pr off (12 + length B) = (Ok (off + (12 + length B)) :: (error, usize) res)"
    by simp_all
  moreover have "slice_at data off (off + (12 + length B)) =
      (Ok (generic_bytes object method B) :: (error, bytes) res)"
    by (rule cursor_slice_at[OF c]) simp
  ultimately show ?thesis
    by (simp add: generic_from_bytes_def generic_header_cursor[OF c] scan generic_finish_def
      generic_parsed_def)
qed

lemma data_span_parsed:
  "data_span (generic_parsed object method fs B fds) = Ok (B @ [magic_u8 End])"
  by (simp add: data_span_def generic_parsed_def slice_in_range) 
    (simp add: generic_bytes_def to_le_bytes_def)

section \<open>What the scan accepts\<close>

text \<open>With overflow checks, every payload the scan walks over is a list of fields.\<close>

lemma word_at:
  assumes "n + 4 \<le> length data"
  obtains w where "drop n data = to_le_bytes w @ drop (n + 4) data"
proof -
  from assms have "\<exists>w. read_u32 data n = Ok w"
    by (simp add: read_u32_def get_range_def)
  with that read_u32_drop show ?thesis by blast
qed

lemma words_at:
  "n + 4 * k \<le> length data \<Longrightarrow>
     \<exists>ws. length ws = k \<and> drop n data = concat (map to_le_bytes ws) @ drop (n + 4 * k) data"
proof (induction k arbitrary: n)
  case (Suc k)
  from Suc.prems have "n + 4 \<le> length data" by simp
  from word_at[OF this] obtain w where w: "drop n data = to_le_bytes w @ drop (n + 4) data" by blast
  from Suc.IH[of "n + 4"] Suc.prems obtain ws where "length ws = k"
    "drop (n + 4) data = concat (map to_le_bytes ws) @ drop (n + 4 + 4 * k) data" by auto
  with w show ?case by (intro exI[of _ "w # ws"]) (simp add: algebra_simps)
qed simp

lemma blob_at:
  assumes len: "parse_var_int pr data q = Ok (n, k)" and "q + k + n < length data"
  obtains V s where "varint_repr pr V (length s)" and "length s = n" and "length V = k"
    and "drop q data = V @ s @ drop (q + k + n) data"
proof -
  from assms(2) have "q + k < length data" by simp
  from parse_var_int_split[OF len this] obtain V where V: "varint_repr pr V n" "length V = k"
    and drop: "drop q data = V @ drop (q + k) data" by blast
  have "drop (q + k) data = take n (drop (q + k) data) @ drop (q + k + n) data"
    by (metis add.commute append_take_drop_id drop_drop)
  with drop have "drop q data = V @ take n (drop (q + k) data) @ drop (q + k + n) data" by simp
  moreover have "length (take n (drop (q + k) data)) = n" using assms(2) by simp
  ultimately show ?thesis using that V by metis
qed

lemma take_fds_OkD:
  "take_fds fds c acc n = Ok (c', acc') \<Longrightarrow> c \<le> length fds \<Longrightarrow>
     c' = c + n \<and> c' \<le> length fds \<and> acc' = acc @ take n (drop c fds)"
  using take_fds_Ok[of c n fds acc] take_fds_Err[of fds c n acc]
  by (cases "c + n \<le> length fds") auto

lemma blobs_loop_drop:
  assumes "varchar_array_loop Debug data p aml n = Ok aml'" and "p + aml' < length data"
  shows "aml \<le> aml' \<and> (\<exists>ss P. blobs_rep Debug ss P \<and> length ss = n \<and> aml' = aml + length P \<and>
    drop (p + aml) data = P @ drop (p + aml') data)"
  using assms
proof (induction n arbitrary: aml)
  case 0
  then show ?case by (auto intro: exI[of _ "[]"])
next
  case (Suc n)
  from Suc.prems(1) obtain len k where len: "parse_var_int Debug data (p + aml) = Ok (len, k)"
    and loop: "varchar_array_loop Debug data p (aml + (len + k)) n = Ok aml'"
    by (auto simp: bind_res_eq_Ok uadd_Debug_Ok)
  from Suc.IH[OF loop Suc.prems(2)] obtain ss P where le: "aml + (len + k) \<le> aml'"
    and P: "blobs_rep Debug ss P" "length ss = n" "aml' = aml + (len + k) + length P"
      "drop (p + (aml + (len + k))) data = P @ drop (p + aml') data" by auto
  have "p + aml + k + len < length data" using le Suc.prems(2) by simp
  from blob_at[OF len this] obtain V s where V: "varint_repr Debug V (length s)" "length s = len"
    "length V = k" "drop (p + aml) data = V @ s @ drop (p + aml + k + len) data" .
  have "blobs_rep Debug (s # ss) (V @ s @ P)" using V(1) P(1) by auto
  moreover have "drop (p + aml) data = (V @ s @ P) @ drop (p + aml') data"
    using V(4) P(4) by (simp add: ac_simps)
  ultimately show ?case
    using le P(2,3) V(2,3) by (intro conjI exI[of _ "s # ss"] exI[of _ "V @ s @ P"]) auto
qed

lemma exI_field:
  "field_rep pr f F \<Longrightarrow> n = length F \<Longrightarrow> xs = F @ ys \<Longrightarrow> cur' = cur + field_fds f \<Longrightarrow>
     cur' \<le> length fds \<Longrightarrow> acc' = acc @ take (field_fds f) (drop cur fds) \<Longrightarrow>
     \<exists>f F. field_rep pr f F \<and> n = length F \<and> xs = F @ ys \<and> cur' = cur + field_fds f \<and>
       cur' \<le> length fds \<and> acc' = acc @ take (field_fds f) (drop cur fds)"
  by blast

lemma scan_array_drop:
  assumes ok: "scan_array Debug data fds p cur acc = Ok (aml, cur', acc')"
    and more: "p + aml < length data" and cur: "cur \<le> length fds"
    and tag: "drop p data = magic_u8 TypeArray # drop (p + 1) data"
  shows "\<exists>f F. field_rep Debug f F \<and> aml = length F \<and> drop p data = F @ drop (p + aml) data \<and>
    cur' = cur + field_fds f \<and> cur' \<le> length fds \<and> acc' = acc @ take (field_fds f) (drop cur fds)"
proof -
  from ok obtain m n k where b: "byte_at data (p + 1) = Ok (magic_u8 m)"
    and len: "parse_var_int Debug data (p + 2) = Ok (n, k)" and few: "n < 10000"
    and body: "(if word_magic m then Ok (2 + k + 4 * n, cur, acc)
      else if m = TypeVarchar then
        bind_res (varchar_array_loop Debug data p (2 + k) n) (\<lambda>len. Ok (len, cur, acc))
      else if m = TypeFd then
        bind_res (take_fds fds cur acc n) (\<lambda>(cur', acc'). Ok (2 + k, cur', acc'))
      else Err MalformedMessage) = Ok (aml, cur', acc')"
    by (auto simp: scan_array_def bind_res_eq_Ok require_eqs magic_try_from_Ok not_le Let_def
      simp del: magic_u8.simps add_2_eq_Suc add_2_eq_Suc')
  from b have "drop (p + 1) data = magic_u8 m # drop (p + 2) data"
    using Cons_nth_drop_Suc[of "p + 1" data] by (simp add: byte_at_Ok)
  with tag have head: "drop p data = magic_u8 TypeArray # magic_u8 m # drop (p + 2) data" by simp
  have V: "\<exists>V. varint_repr Debug V n \<and> length V = k \<and> drop (p + 2) data = V @ drop (p + 2 + k) data"
    if "p + 2 + k < length data"
    using parse_var_int_split[OF len that] by blast
  show ?thesis
  proof (cases "word_magic m")
    case True
    with body have eqs: "aml = 2 + k + 4 * n" "cur' = cur" "acc' = acc" by auto
    with more have in_range: "p + 2 + k < length data" "p + 2 + k + 4 * n \<le> length data" by auto
    from V[OF in_range(1)] obtain V where V: "varint_repr Debug V n" "length V = k"
      "drop (p + 2) data = V @ drop (p + 2 + k) data" by blast
    from words_at[OF in_range(2)] obtain ws where ws: "length ws = n"
      "drop (p + 2 + k) data = concat (map to_le_bytes ws) @ drop (p + 2 + k + 4 * n) data" by blast
    have "field_rep Debug (FWords m ws)
        (magic_u8 TypeArray # magic_u8 m # V @ concat (map to_le_bytes ws))"
      using True few V ws by auto
    from this show ?thesis
      by (rule exI_field) (use eqs head V ws cur in \<open>simp_all add: ac_simps\<close>)
  next
    case False
    with body consider (strs) "m = TypeVarchar" "varchar_array_loop Debug data p (2 + k) n = Ok aml"
        "cur' = cur" "acc' = acc"
      | (fds) "m = TypeFd" "take_fds fds cur acc n = Ok (cur', acc')" "aml = 2 + k"
      by (auto simp: bind_res_eq_Ok split: if_splits)
    then show ?thesis
    proof cases
      case strs
      from blobs_loop_drop[OF strs(2) more] obtain ss P where "2 + k \<le> aml"
        and P: "blobs_rep Debug ss P" "length ss = n" "aml = 2 + k + length P"
          "drop (p + (2 + k)) data = P @ drop (p + aml) data" by auto
      with more have "p + 2 + k < length data" by simp
      from V[OF this] obtain V where V: "varint_repr Debug V n" "length V = k"
        "drop (p + 2) data = V @ drop (p + 2 + k) data" by blast
      have "field_rep Debug (FStrs ss) (magic_u8 TypeArray # magic_u8 TypeVarchar # V @ P)"
        using few V P by auto
      from this show ?thesis
        by (rule exI_field) (use strs head V P cur in \<open>simp_all add: ac_simps\<close>)
    next
      case fds
      with more have "p + 2 + k < length data" by simp
      from V[OF this] obtain V where V: "varint_repr Debug V n" "length V = k"
        "drop (p + 2) data = V @ drop (p + 2 + k) data" by blast
      have "field_rep Debug (FFds n) (magic_u8 TypeArray # magic_u8 TypeFd # V)"
        using few V by auto
      from this show ?thesis
        by (rule exI_field) (use fds head V take_fds_OkD[OF fds(2) cur] in \<open>simp_all add: ac_simps\<close>)
    qed
  qed
qed

lemma scan_step_drop:
  assumes ok: "scan_step Debug data fds offset (i, cur, acc) = Ok (Some (i', cur', acc'))"
    and more: "offset + i' < length data" and cur: "cur \<le> length fds"
  shows "\<exists>f F. field_rep Debug f F \<and> i' = i + length F \<and>
    drop (offset + i) data = F @ drop (offset + i') data \<and>
    cur' = cur + field_fds f \<and> cur' \<le> length fds \<and> acc' = acc @ take (field_fds f) (drop cur fds)"
proof -
  let ?p = "offset + i"
  from ok obtain m where b: "byte_at data ?p = Ok (magic_u8 m)" and "m \<noteq> End"
    and body: "(if word_magic m then bind_res (uadd Debug i 5) (\<lambda>i'. Ok (Some (i', cur, acc)))
      else if m = TypeVarchar then
        bind_res (parse_var_int Debug data (?p + 1)) (\<lambda>(n, k).
        bind_res (uadd Debug n k) (\<lambda>n. bind_res (uadd Debug n 1) (\<lambda>n'.
        bind_res (uadd Debug i n') (\<lambda>i'. Ok (Some (i', cur, acc))))))
      else if m = TypeArray then
        bind_res (scan_array Debug data fds ?p cur acc) (\<lambda>(aml, cur', acc').
        bind_res (uadd Debug i aml) (\<lambda>i'. Ok (Some (i', cur', acc'))))
      else if m = TypeFd then
        bind_res (take_fds fds cur acc 1) (\<lambda>(cur', acc').
        bind_res (uadd Debug i 1) (\<lambda>i'. Ok (Some (i', cur', acc'))))
      else Err MalformedMessage) = Ok (Some (i', cur', acc'))"
    by (auto simp: scan_step_def bind_res_eq_Ok uadd_Debug_Ok magic_try_from_Ok
      simp del: magic_u8.simps take_fds.simps One_nat_def split: if_splits)
  from b have tag: "drop ?p data = magic_u8 m # drop (?p + 1) data"
    using Cons_nth_drop_Suc[of ?p data] by (simp add: byte_at_Ok)
  consider (word) "word_magic m" | (str) "m = TypeVarchar" | (arr) "m = TypeArray" | (fd) "m = TypeFd"
    using body by (auto split: if_splits)
  then show ?thesis
  proof cases
    case word
    with body have eqs: "i' = i + 5" "cur' = cur" "acc' = acc"
      by (auto simp: bind_res_eq_Ok uadd_Debug_Ok)
    with more have "?p + 1 + 4 \<le> length data" by simp
    from word_at[OF this] obtain w where "drop (?p + 1) data = to_le_bytes w @ drop (?p + 1 + 4) data" .
    with eqs tag word cur show ?thesis
      by (intro exI[of _ "FWord m w"] exI[of _ "magic_u8 m # to_le_bytes w"]) (simp add: ac_simps)
  next
    case str
    with body obtain n k where len: "parse_var_int Debug data (?p + 1) = Ok (n, k)"
      and eqs: "i' = i + (n + k + 1)" "cur' = cur" "acc' = acc"
      by (auto simp: bind_res_eq_Ok uadd_Debug_Ok)
    from eqs(1) more have "?p + 1 + k + n < length data" by simp
    from blob_at[OF len this] obtain V s where V: "varint_repr Debug V (length s)" "length s = n"
      "length V = k" "drop (?p + 1) data = V @ s @ drop (?p + 1 + k + n) data" .
    from V(1) have "field_rep Debug (FStr s) (magic_u8 TypeVarchar # V @ s)" by auto
    moreover have "?p + 1 + k + n = offset + i'" using eqs(1) by simp
    ultimately show ?thesis
      using eqs tag str V cur
      by (intro exI[of _ "FStr s"] exI[of _ "magic_u8 TypeVarchar # V @ s"]) (simp add: ac_simps)
  next
    case arr
    with body obtain aml where scan: "scan_array Debug data fds ?p cur acc = Ok (aml, cur', acc')"
      and i': "i' = i + aml"
      by (auto simp: bind_res_eq_Ok uadd_Debug_Ok)
    with more have more': "?p + aml < length data" by simp
    from scan_array_drop[OF scan more' cur] tag arr i' show ?thesis by (simp add: add.assoc)
  next
    case fd
    with body have "take_fds fds cur acc 1 = Ok (cur', acc')" and eqs: "i' = i + 1"
      by (auto simp: bind_res_eq_Ok uadd_Debug_Ok simp del: take_fds.simps One_nat_def)
    from take_fds_OkD[OF this(1) cur] eqs tag fd show ?thesis
      by (intro exI[of _ FFd] exI[of _ "[magic_u8 TypeFd]"]) simp
  qed
qed

text \<open>With overflow checks every iteration moves the index forward inside the buffer.\<close>

lemma varchar_array_loop_grows: "varchar_array_loop Debug data p aml n = Ok aml' \<Longrightarrow> aml \<le> aml'"
  by (induction n arbitrary: aml) (fastforce simp: bind_res_eq_Ok uadd_Debug_Ok)+

lemma scan_array_grows: "scan_array Debug data fds p cur acc = Ok (aml, cur', acc') \<Longrightarrow> 2 \<le> aml"
  by (auto simp: scan_array_def bind_res_eq_Ok Let_def split: if_splits
    dest: varchar_array_loop_grows)

lemma scan_step_grows:
  "scan_step Debug data fds offset (i, cur, acc) = Ok (Some (i', cur', acc')) \<Longrightarrow>
     i < i' \<and> offset + i < length data"
  by (auto simp: scan_step_def bind_res_eq_Ok uadd_Debug_Ok byte_at_Ok
    split: if_splits option.splits dest!: scan_array_grows)

lemma generic_scan_Debug_returns: "\<exists>r. generic_scan Debug data fds offset s = Some r"
proof (induction "length data - (offset + fst s)" arbitrary: s rule: less_induct)
  case less
  obtain i cur acc where s: "s = (i, cur, acc)" by (cases s)
  show ?case
  proof (cases "\<exists>s'. scan_step Debug data fds offset s = Ok (Some s')")
    case True
    then obtain i' cur' acc' where step: "scan_step Debug data fds offset s = Ok (Some (i', cur', acc'))"
      by auto
    with scan_step_grows[of data fds offset i cur acc] s
    have "length data - (offset + fst (i', cur', acc')) < length data - (offset + fst s)" by auto
    from less[OF this] step show ?thesis by (subst generic_scan.simps) simp
  next
    case False
    then show ?thesis
      by (subst generic_scan.simps) (auto split: res.splits option.splits)
  qed
qed

lemma scan_end_drop:
  assumes "scan_step Debug data fds offset (i, cur, acc) = Ok None"
  shows "offset + i < length data" and
    "drop (offset + i) data = magic_u8 End # drop (offset + i + 1) data"
  using assms Cons_nth_drop_Suc[of "offset + i" data]
  by (auto simp: scan_step_def bind_res_eq_Ok uadd_Debug_Ok byte_at_Ok split: if_splits)

lemma generic_scan_cases:
  assumes "generic_scan pr data fds offset s = Some (Ok s')"
  obtains (stop) "scan_step pr data fds offset s = Ok None" and "s' = s"
    | (go) s1 where "scan_step pr data fds offset s = Ok (Some s1)"
        and "generic_scan pr data fds offset s1 = Some (Ok s')"
  using assms by (subst (asm) generic_scan.simps) (auto split: res.splits option.splits)

lemma generic_scan_inside:
  assumes "generic_scan Debug data fds offset (i, cur, acc) = Some (Ok s')"
  shows "offset + i < length data"
  using assms
proof (cases rule: generic_scan_cases)
  case stop
  then show ?thesis using scan_end_drop(1) by blast
next
  case (go s1)
  then show ?thesis using scan_step_grows by (cases s1) blast
qed

lemma generic_scan_drop:
  assumes "generic_scan Debug data fds offset (i, cur, acc) = Some (Ok (i', cur', acc'))"
    and "cur \<le> length fds"
  shows "\<exists>fs B. fields_rep Debug fs B \<and> i' = i + length B \<and>
    drop (offset + i) data = B @ magic_u8 End # drop (offset + i' + 1) data \<and>
    cur' = cur + fields_fds fs \<and> cur' \<le> length fds \<and> acc' = acc @ take (fields_fds fs) (drop cur fds)"
  using assms
proof (induction "length data - (offset + i)" arbitrary: i cur acc rule: less_induct)
  case less
  from less.prems(1) show ?case
  proof (cases rule: generic_scan_cases)
    case stop
    with scan_end_drop[OF stop(1)] less.prems(2) show ?thesis
      by (intro exI[of _ "[]"]) simp
  next
    case (go s1)
    obtain i1 cur1 acc1 where s1: "s1 = (i1, cur1, acc1)" by (cases s1)
    note step = go(1)[unfolded s1] and rest = go(2)[unfolded s1]
    from scan_step_drop[OF step generic_scan_inside[OF rest] less.prems(2)] obtain f F where
      f: "field_rep Debug f F" "i1 = i + length F" "drop (offset + i) data = F @ drop (offset + i1) data"
      and cur1: "cur1 = cur + field_fds f" "cur1 \<le> length fds"
        "acc1 = acc @ take (field_fds f) (drop cur fds)" by blast
    have "length data - (offset + i1) < length data - (offset + i)"
      using scan_step_grows[OF step] by auto
    from less.hyps[OF this rest cur1(2)] obtain fs B where
      fs: "fields_rep Debug fs B" "i' = i1 + length B"
        "drop (offset + i1) data = B @ magic_u8 End # drop (offset + i' + 1) data"
      and cur': "cur' = cur1 + fields_fds fs" "cur' \<le> length fds"
        "acc' = acc1 @ take (fields_fds fs) (drop cur1 fds)" by blast
    have "fields_rep Debug (f # fs) (F @ B)" using f(1) fs(1) by auto
    moreover have "i' = i + length (F @ B)" using f(2) fs(2) by simp
    moreover have "drop (offset + i) data = (F @ B) @ magic_u8 End # drop (offset + i' + 1) data"
      using f(3) fs(3) by simp
    moreover have "acc' = acc @ take (fields_fds (f # fs)) (drop cur fds)"
      using cur1 cur' by (simp add: take_add add.commute)
    moreover have "cur' = cur + fields_fds (f # fs)" using cur1(1) cur'(1) by simp
    ultimately show ?thesis using cur'(2) by blast
  qed
qed

lemma generic_from_bytes_bwd:
  assumes ok: "generic_from_bytes Debug data fds off = Some (Ok (m, fds'))"
  shows "\<exists>object method fs B. fields_rep Debug fs B \<and> fields_fds fs \<le> length fds \<and>
    m = generic_parsed object method fs B fds \<and> fds' = drop (fields_fds fs) fds \<and>
    drop off data = generic_bytes object method B @ drop (off + length (gm_data m)) data"
proof -
  from ok obtain object meth i cur acc where hd: "generic_header data off = Ok (object, meth)"
    and scan: "generic_scan Debug data fds off (11, 0, []) = Some (Ok (i, cur, acc))"
    and fin: "generic_finish Debug data fds off (object, meth) (i, cur, acc) = Ok (m, fds')"
    by (auto simp: generic_from_bytes_def bind_res_eq_Ok split: res.splits)
  from generic_scan_drop[OF scan] obtain fs B where fs: "fields_rep Debug fs B" "i = 11 + length B"
    "drop (off + 11) data = B @ magic_u8 End # drop (off + i + 1) data"
    "cur = fields_fds fs" "cur \<le> length fds" "acc = take (fields_fds fs) fds" by auto
  from hd have reads: "expect_byte data off (message_type_u8 GenericProtocolMessage) InvalidMessageType = Ok ()"
      "expect_byte data (off + 1) (magic_u8 TypeObject) InvalidFieldType = Ok ()"
      "read_u32 data (off + 2) = Ok object"
      "expect_byte data (off + 6) (magic_u8 TypeUint) InvalidFieldType = Ok ()"
      "read_u32 data (off + 7) = Ok meth"
    by (auto simp: generic_header_def bind_res_eq_Ok)
  have eq: "drop off data = generic_bytes object meth B @ drop (off + i + 1) data"
    using expect_byte_drop[OF reads(1)] expect_byte_drop[OF reads(2)] read_u32_drop[OF reads(3)]
      expect_byte_drop[OF reads(4)] read_u32_drop[OF reads(5)] fs(3)
    by (simp add: generic_bytes_def algebra_simps)
  from fin obtain bytes where bytes: "get_range data off (off + (i + 1)) = Some bytes"
    and m: "m = \<lparr>gm_depends_on_seq = 0, gm_object = object, gm_method = meth, gm_fds = acc,
        gm_data = bytes, gm_range = (11, i + 1)\<rparr>" and fds': "fds' = drop cur fds"
    by (auto simp: generic_finish_def bind_res_eq_Ok uadd_Debug_Ok slice_at_eq_Ok)
  have "length bytes = length (generic_bytes object meth B)"
    using get_range_drop[OF bytes] fs(2) by simp
  moreover have "bytes @ drop (off + (i + 1)) data = generic_bytes object meth B @ drop (off + (i + 1)) data"
    using get_range_drop[OF bytes] eq by (simp add: add.assoc)
  ultimately have "bytes = generic_bytes object meth B" by simp
  then show ?thesis
    using fs m fds' eq by (intro exI conjI) (auto simp: generic_parsed_def ac_simps)
qed

section \<open>The two builds\<close>

lemma agrees_varchar_array_loop [agree_intros]:
  "agrees (varchar_array_loop Debug data p aml n) (varchar_array_loop Release data p aml n)"
  by (induction n arbitrary: aml) (auto intro!: agree_intros)

lemma agrees_scan_array [agree_intros]:
  "agrees (scan_array Debug data fds p cur acc) (scan_array Release data fds p cur acc)"
  unfolding scan_array_def Let_def by (intro agree_intros)

lemma agrees_scan_step: "agrees (scan_step Debug data fds offset s) (scan_step Release data fds offset s)"
  unfolding scan_step_def by (intro agree_intros)

lemma generic_scan_Release:
  assumes "generic_scan Debug data fds offset s = Some r" and "r \<noteq> Panic"
  shows "generic_scan Release data fds offset s = Some r"
  using assms
proof (induction "length data - (offset + fst s)" arbitrary: s rule: less_induct)
  case less
  have "scan_step Debug data fds offset s \<noteq> Panic"
    using less.prems by (subst (asm) generic_scan.simps) auto
  with agrees_scan_step have same: "scan_step Release data fds offset s = scan_step Debug data fds offset s"
    by (rule agrees_not_Panic)
  show ?case
  proof (cases "\<exists>s'. scan_step Debug data fds offset s = Ok (Some s')")
    case True
    then obtain s' where step: "scan_step Debug data fds offset s = Ok (Some s')" by blast
    then have "length data - (offset + fst s') < length data - (offset + fst s)"
      using scan_step_grows by (cases s; cases s') fastforce
    from less.hyps[OF this _ less.prems(2)] less.prems(1) step same show ?thesis
      by (subst (asm) generic_scan.simps, subst generic_scan.simps) simp
  next
    case False
    with less.prems same show ?thesis
      by (subst (asm) generic_scan.simps, subst generic_scan.simps) (auto split: res.splits option.splits)
  qed
qed

lemma agrees_generic_finish:
  "agrees (generic_finish Debug data fds off om s) (generic_finish Release data fds off om s)"
  unfolding generic_finish_def by (intro agree_intros)

lemma generic_from_bytes_Release:
  assumes ok: "generic_from_bytes Debug data fds off = Some r" and np: "r \<noteq> Panic"
  shows "generic_from_bytes Release data fds off = Some r"
proof (cases "generic_header data off")
  case (Ok om)
  with ok obtain r' where scan: "generic_scan Debug data fds off (11, 0, []) = Some r'"
    and r: "r = bind_res r' (generic_finish Debug data fds off om)"
    by (auto simp: generic_from_bytes_def)
  from r np have "r' \<noteq> Panic" by auto
  with generic_scan_Release[OF scan] have "generic_scan Release data fds off (11, 0, []) = Some r'" .
  moreover from r np have "bind_res r' (generic_finish Release data fds off om) = r"
    using agrees_not_Panic[OF agrees_generic_finish, of data fds off om] by (cases r') auto
  ultimately show ?thesis using Ok by (simp add: generic_from_bytes_def)
qed (use ok in \<open>simp_all add: generic_from_bytes_def\<close>)

section \<open>The loop that does not end\<close>

lemma generic_scan_loops:
  assumes "scan_step pr data fds offset s = Ok (Some s)"
  shows "generic_scan pr data fds offset s = None"
proof -
  have "scan_step pr data fds offset s \<noteq> Ok (Some s)"
    if "generic_scan pr data fds offset s = Some r" for r
  proof (rule generic_scan.raw_induct
      [where P = "\<lambda>pr data fds offset s r. scan_step pr data fds offset s \<noteq> Ok (Some s)", OF _ that])
    show "scan_step pr data fds offset s \<noteq> Ok (Some s)"
      if "\<And>pr data fds offset s r. scan pr data fds offset s = Some r \<Longrightarrow>
            scan_step pr data fds offset s \<noteq> Ok (Some s)"
        and "(case scan_step pr data fds offset s of
            Ok (Some s') \<Rightarrow> scan pr data fds offset s'
          | Ok None \<Rightarrow> Some (Ok s) | Err e \<Rightarrow> Some (Err e) | Panic \<Rightarrow> Some Panic) = Some r"
      for scan :: "profile \<Rightarrow> bytes \<Rightarrow> i32 list \<Rightarrow> usize \<Rightarrow> scan \<Rightarrow> (error, scan) res option"
        and pr data fds offset s r
      using that by (auto split: res.splits option.splits)
  qed
  with assms show ?thesis by (cases "generic_scan pr data fds offset s") auto
qed

text \<open>
  A varchar field whose length, written in ten bytes, is \<open>2 ^ 64 - 11\<close>: with the tag and the bytes
  of the length it adds \<open>2 ^ 64\<close> to the index, nothing without overflow checks.
\<close>

definition looping_message :: bytes where
  "looping_message = generic_bytes 1 1
     (magic_u8 TypeVarchar # [0xF5, 0xFF, 0xFF, 0xFF, 0xFF, 0xFF, 0xFF, 0xFF, 0xFF, 0x01])"

lemma looping_message_bytes:
  "looping_message = [100, 0x22, 1, 0, 0, 0, 0x10, 1, 0, 0, 0, 0x20,
     0xF5, 0xFF, 0xFF, 0xFF, 0xFF, 0xFF, 0xFF, 0xFF, 0xFF, 0x01, 0]"
  by (simp add: looping_message_def generic_bytes_def to_le_bytes_def)

lemma looping_varint: "parse_var_int Release looping_message 12 = Ok (2 ^ 64 - 11, 10)"
proof -
  have "drop 12 looping_message = varint (2 ^ 64 - 11) @ [0]"
    by (simp add: looping_message_bytes varint.simps)
  moreover have "length (varint (2 ^ 64 - 11)) = 10"
    by (simp add: varint.simps)
  moreover have "\<not> length looping_message \<le> 12"
    by (simp add: looping_message_bytes)
  ultimately show ?thesis
    using parse_var_int_span_varint[of "2 ^ 64 - 11" Release "[0]"]
    by (simp add: parse_var_int_def usize_bound_def)
qed

lemma looping_step: "scan_step Release looping_message [] 0 (11, 0, []) = Ok (Some (11, 0, []))"
proof -
  have "byte_at looping_message 11 = Ok 0x20"
    by (simp add: looping_message_bytes byte_at_def)
  moreover have "(12 :: nat) = 11 + 1" by simp
  ultimately show ?thesis
    using looping_varint by (simp add: scan_step_def uadd_def usize_bound_def magic_try_from_def)
qed

lemma looping_header: "generic_header looping_message 0 = Ok (1, 1)"
  by (rule generic_header_cursor[where B = "magic_u8 TypeVarchar # _" and rest = "[]"])
    (simp add: looping_message_def cursor_at_def isize_max_def)

lemma generic_from_bytes_Debug_returns: "\<exists>r. generic_from_bytes Debug data fds off = Some r"
  using generic_scan_Debug_returns[of data fds off "(11, 0, [])"]
  by (auto simp: generic_from_bytes_def split: res.splits)

section \<open>Properties\<close>

text \<open>C1: The scanner accepts exactly the method calls: with overflow checks, \<open>from_bytes\<close> succeeds
  at an offset if and only if a message lies there whose payload is a list of fields, and the
  descriptor queue is long enough; the message it returns holds those bytes and takes the
  descriptors from the front of the queue, in order.\<close>
theorem generic_accepts:
  assumes "length data \<le> isize_max"
  shows "generic_from_bytes Debug data fds off = Some (Ok (m, fds')) \<longleftrightarrow>
    (\<exists>object method fs B rest. off \<le> length data \<and>
       drop off data = generic_bytes object method B @ rest \<and> fields_rep Debug fs B \<and>
       fields_fds fs \<le> length fds \<and>
       m = generic_parsed object method fs B fds \<and> fds' = drop (fields_fds fs) fds)"
    (is "?l \<longleftrightarrow> ?r")
proof
  assume ?l
  from generic_from_bytes_bwd[OF this] obtain object meth fs B where
    found: "fields_rep Debug fs B" "fields_fds fs \<le> length fds"
      "m = generic_parsed object meth fs B fds" "fds' = drop (fields_fds fs) fds"
      "drop off data = generic_bytes object meth B @ drop (off + length (gm_data m)) data" by blast
  moreover have "off \<le> length data"
  proof (rule ccontr)
    assume "\<not> off \<le> length data"
    then have "drop off data = []" by simp
    with found(5) show False by (simp add: generic_bytes_def)
  qed
  ultimately show ?r by blast
next
  assume ?r
  then show ?l using assms generic_from_bytes_fwd by (auto simp: cursor_at_def)
qed

theorem generic_accepts_witness:
  "generic_from_bytes Debug (generic_bytes 7 2 [0x40, 0x10, 5, 0, 0, 0]) [9, 8] 0 =
     Some (Ok (generic_parsed 7 2 [FFd, FWord TypeUint 5] [0x40, 0x10, 5, 0, 0, 0] [9, 8], [8]))"
proof -
  have len: "length (generic_bytes 7 2 [0x40, 0x10, 5, 0, 0, 0]) \<le> isize_max"
    by (simp add: isize_max_def)
  show ?thesis
    unfolding generic_accepts[OF len]
    by (intro exI[of _ "7 :: u32"] exI[of _ "2 :: u32"] exI[of _ "[FFd, FWord TypeUint 5]"]
          exI[of _ "[0x40, 0x10, 5, 0, 0, 0] :: bytes"] exI[of _ "[] :: bytes"])
      (simp add: to_le_bytes_def)
qed

text \<open>C24: With overflow checks the scan always ends, whatever the peer sends; and wherever it does not
  panic, the build without overflow checks returns the same.\<close>
theorem generic_returns:
  "\<exists>r. generic_from_bytes Debug data fds off = Some r \<and>
     (r \<noteq> Panic \<longrightarrow> generic_from_bytes Release data fds off = Some r)"
  using generic_from_bytes_Debug_returns generic_from_bytes_Release by blast

theorem generic_returns_witness:
  "generic_from_bytes Release [100, 0x22, 1, 0] [] 0 = Some (Err UnexpectedEof)"
proof -
  have "generic_from_bytes Debug [100, 0x22, 1, 0] [] 0 = Some (Err UnexpectedEof)"
    by (simp add: generic_from_bytes_def generic_header_def expect_byte_def byte_at_def read_u32_def
      get_range_def)
  then show ?thesis using generic_returns[of "[100, 0x22, 1, 0]" "[]" 0] by auto
qed

text \<open>C27: Without overflow checks 23 bytes from a peer keep the scan in its loop forever: a string
  length of \<open>2 ^ 64 - 11\<close> moves the index by zero. The checked build panics on them.\<close>
theorem generic_diverges:
  "generic_from_bytes Release looping_message [] 0 = None \<and>
   generic_from_bytes Debug looping_message [] 0 = Some Panic"
proof -
  have loops: "generic_from_bytes Release looping_message [] 0 = None"
    by (simp add: generic_from_bytes_def looping_header generic_scan_loops[OF looping_step])
  moreover obtain r where "generic_from_bytes Debug looping_message [] 0 = Some r"
    using generic_from_bytes_Debug_returns by blast
  ultimately show ?thesis
    using generic_from_bytes_Release[of looping_message "[]" 0 r] by (cases "r = Panic") auto
qed

end
