(* ===== verification/Connection.thy ===== *)
theory Connection
  imports Fixed_Messages Generic_Message
begin

text \<open>
  One end of a connection: the messages as one type, with what \<open>trait Message\<close> gives of each
  (\<open>hyprwire-core/src/message/wire/mod.rs\<close>), \<open>ConnectionState::send_message\<close> of
  \<open>hyprwire/src/lib.rs\<close>, and \<open>SocketRawParsedMessage::read_from_socket\<close> of
  \<open>hyprwire/src/socket/socket_helpers.rs\<close>. What the kernel answers to a system call is an argument: a
  list of answers, read in order.

  It ends with effects on a state, which the models of the server and of the client are written in.
\<close>

section \<open>Messages\<close>

datatype message =
    MSup hello
  | MHandshakeBegin handshake_begin
  | MHandshakeAck handshake_ack
  | MHandshakeProtocols handshake_protocols
  | MBindProtocol bind_protocol
  | MNewObject new_object
  | MFatal fatal_protocol_error
  | MRoundtripRequest roundtrip_request
  | MRoundtripDone roundtrip_done
  | MGeneric generic_message

primrec message_data :: "message \<Rightarrow> bytes" where
  "message_data (MSup m) = hello_data m"
| "message_data (MHandshakeBegin m) = hsb_data m"
| "message_data (MHandshakeAck m) = ack_data m"
| "message_data (MHandshakeProtocols m) = hsp_data m"
| "message_data (MBindProtocol m) = bind_data m"
| "message_data (MNewObject m) = new_data m"
| "message_data (MFatal m) = fatal_data m"
| "message_data (MRoundtripRequest m) = req_data m"
| "message_data (MRoundtripDone m) = done_data m"
| "message_data (MGeneric m) = gm_data m"

primrec message_type_of :: "message \<Rightarrow> message_type" where
  "message_type_of (MSup m) = Sup"
| "message_type_of (MHandshakeBegin m) = HandshakeBegin"
| "message_type_of (MHandshakeAck m) = HandshakeAck"
| "message_type_of (MHandshakeProtocols m) = HandshakeProtocols"
| "message_type_of (MBindProtocol m) = BindProtocol"
| "message_type_of (MNewObject m) = NewObject"
| "message_type_of (MFatal m) = FatalProtocolError"
| "message_type_of (MRoundtripRequest m) = RoundtripRequest"
| "message_type_of (MRoundtripDone m) = RoundtripDone"
| "message_type_of (MGeneric m) = GenericProtocolMessage"

fun message_fds :: "message \<Rightarrow> i32 list" where
  "message_fds (MGeneric m) = gm_fds m"
| "message_fds _ = []"

section \<open>Sending\<close>

text \<open>
  The answers to \<open>sendmsg\<close>: \<open>EAGAIN\<close> (with whether the \<open>poll\<close> that follows succeeds), another
  error, or the number of bytes the kernel took. The loop ends at the first answer that is not a
  \<open>EAGAIN\<close> with a successful \<open>poll\<close>; the answer itself is dropped. \<open>None\<close>: still waiting when the
  answers end. The result is what has reached the peer.
\<close>

datatype send_answer = SendAgain bool | SendError | Sent nat

fun send_loop :: "send_answer list \<Rightarrow> bytes \<Rightarrow> i32 list \<Rightarrow> (bytes \<times> i32 list) option" where
  "send_loop [] buf fds = None"
| "send_loop (SendAgain poll_ok # as) buf fds =
     (if poll_ok then send_loop as buf fds else Some ([], []))"
| "send_loop (SendError # as) buf fds = Some ([], [])"
| "send_loop (Sent n # as) buf fds = Some (take n buf, fds)"

text \<open>
  The state the rest of the runtime sees of a connection: the error flag, whether the stream has been
  shut down, and the messages given to \<open>send_message\<close>, oldest first.
\<close>

record conn =
  c_error :: bool
  c_shut :: bool
  c_out :: "message list"

definition conn_new :: conn where
  "conn_new = \<lparr>c_error = False, c_shut = False, c_out = []\<rparr>"

definition send_message :: "message \<Rightarrow> conn \<Rightarrow> conn" where
  "send_message m c = c\<lparr>c_out := c_out c @ [m]\<rparr>"

definition set_error :: "conn \<Rightarrow> conn" where
  "set_error c = c\<lparr>c_error := True\<rparr>"

definition shutdown_conn :: "conn \<Rightarrow> conn" where
  "shutdown_conn c = c\<lparr>c_shut := True\<rparr>"

text \<open>What a connection never takes back: an error, and what it has sent.\<close>

definition conn_le :: "conn \<Rightarrow> conn \<Rightarrow> bool" where
  "conn_le c c' \<longleftrightarrow> (c_error c \<longrightarrow> c_error c') \<and> (c_shut c \<longrightarrow> c_shut c') \<and>
     (\<exists>ms. c_out c' = c_out c @ ms)"

lemma conn_le_refl [simp, intro]: "conn_le c c"
  by (auto simp: conn_le_def)

lemma conn_le_trans [trans]: "conn_le a b \<Longrightarrow> conn_le b c \<Longrightarrow> conn_le a c"
  by (auto simp: conn_le_def)

lemma conn_le_send [simp, intro]: "conn_le c (send_message m c)"
  by (auto simp: conn_le_def send_message_def)

lemma conn_le_error [simp, intro]: "conn_le c (set_error c)"
  by (auto simp: conn_le_def set_error_def)

lemma conn_le_shutdown [simp, intro]: "conn_le c (shutdown_conn c)"
  by (auto simp: conn_le_def shutdown_conn_def)

lemma conn_simps [simp]:
  "c_error (send_message m c) = c_error c" "c_shut (send_message m c) = c_shut c"
  "c_out (send_message m c) = c_out c @ [m]"
  "c_error (set_error c)" "c_shut (set_error c) = c_shut c" "c_out (set_error c) = c_out c"
  "c_error (shutdown_conn c) = c_error c" "c_shut (shutdown_conn c)"
  "c_out (shutdown_conn c) = c_out c"
  by (simp_all add: send_message_def set_error_def shutdown_conn_def)

text \<open>
  The objects a list of messages announces, with the sequence number of the request and the id. A connection
  on which nothing is announced in between says nothing about objects.
\<close>

fun announcements :: "message list \<Rightarrow> (u32 \<times> u32) list" where
  "announcements [] = []"
| "announcements (MNewObject m # ms) = (new_seq m, new_id m) # announcements ms"
| "announcements (_ # ms) = announcements ms"

lemma announcements_append [simp]: "announcements (ms @ ms') = announcements ms @ announcements ms'"
  by (induction ms rule: announcements.induct) simp_all

lemma announcements_fold:
  "announcements (m # ms) = announcements [m] @ announcements ms"
  using announcements_append[of "[m]" ms] by simp

definition talks :: "conn \<Rightarrow> conn \<Rightarrow> bool" where
  "talks c c' \<longleftrightarrow> conn_le c c' \<and> announcements (c_out c') = announcements (c_out c)"

lemma talks_refl [simp, intro]: "talks c c"
  by (simp add: talks_def)

lemma talks_trans [trans]: "talks a b \<Longrightarrow> talks b c \<Longrightarrow> talks a c"
  by (auto simp: talks_def intro: conn_le_trans)

lemma talks_steps [simp, intro]:
  "announcements [m] = [] \<Longrightarrow> talks c (send_message m c)" "talks c (set_error c)" "talks c (shutdown_conn c)"
  by (simp_all add: talks_def)

lemma talks_fatal: "talks c ((set_error \<circ> send_message (MFatal m)) c)"
  using talks_trans[of c "send_message (MFatal m) c" "set_error (send_message (MFatal m) c)"] by simp

lemma talks_close: "talks c ((shutdown_conn \<circ> set_error) c)"
  using talks_trans[of c "set_error c" "shutdown_conn (set_error c)"] by simp

section \<open>Receiving\<close>

record raw_message =
  raw_data :: bytes
  raw_fds :: "i32 list"

text \<open>
  The answers to \<open>recvmsg\<close>: an error (on a stream with nothing pending, \<open>EAGAIN\<close>), or bytes with the
  descriptors that came along; no bytes is the end of the stream. When the answers are used up the
  next one is \<open>EAGAIN\<close>: the stream is not blocking.
\<close>

datatype recv_answer = RecvError | Received bytes "i32 list"

definition buffer_size :: nat where
  "buffer_size = 8192"

fun read_loop :: "recv_answer list \<Rightarrow> bytes \<Rightarrow> i32 list \<Rightarrow> raw_message option" where
  "read_loop [] data fds = None"
| "read_loop (RecvError # as) data fds = None"
| "read_loop (Received bs received_fds # as) data fds =
     (if bs = [] then Some \<lparr>raw_data = data, raw_fds = fds\<rparr>
      else if length bs < buffer_size
        then Some \<lparr>raw_data = data @ bs, raw_fds = fds @ received_fds\<rparr>
      else read_loop as (data @ bs) (fds @ received_fds))"

definition read_from_socket :: "recv_answer list \<Rightarrow> raw_message option" where
  "read_from_socket as = read_loop as [] []"

text \<open>The answers of a read that succeeds: full buffers, and then one that is not full.\<close>

definition chunks :: "(bytes \<times> i32 list) list \<Rightarrow> recv_answer list" where
  "chunks full = map (\<lambda>(bs, fds). Received bs fds) full"

lemma read_loop_chunks:
  assumes "\<forall>bs fds. Received bs fds \<in> set as \<longrightarrow> length bs \<le> buffer_size"
  shows "read_loop as data fds = Some raw \<longleftrightarrow> (\<exists>full bs bs_fds rest. as = chunks full @ Received bs bs_fds # rest \<and>
    (\<forall>c \<in> set full. length (fst c) = buffer_size) \<and> length bs < buffer_size \<and>
    raw = \<lparr>raw_data = data @ concat (map fst full) @ bs,
           raw_fds = fds @ concat (map snd full) @ (if bs = [] then [] else bs_fds)\<rparr>)"
    (is "_ \<longleftrightarrow> ?chunked as data fds")
  using assms
proof (induction as arbitrary: data fds)
  case (Cons a as)
  have first: "?chunked (a # as) data fds \<longleftrightarrow> (\<exists>bs bs_fds. a = Received bs bs_fds \<and>
      (if length bs < buffer_size then raw = \<lparr>raw_data = data @ bs, raw_fds = fds @ (if bs = [] then [] else bs_fds)\<rparr>
       else length bs = buffer_size \<and> ?chunked as (data @ bs) (fds @ bs_fds)))" (is "_ \<longleftrightarrow> ?step")
  proof
    assume "?chunked (a # as) data fds"
    then obtain full bs bs_fds rest where *: "a # as = chunks full @ Received bs bs_fds # rest"
      "\<forall>c \<in> set full. length (fst c) = buffer_size" "length bs < buffer_size"
      "raw = \<lparr>raw_data = data @ concat (map fst full) @ bs,
         raw_fds = fds @ concat (map snd full) @ (if bs = [] then [] else bs_fds)\<rparr>" by blast
    then show ?step
    proof (cases full)
      case (Cons c cs)
      with * show ?thesis
        by (cases c) (auto simp: chunks_def intro!: exI[of _ cs])
    qed (simp add: chunks_def)
  next
    assume ?step
    then obtain bs bs_fds where a: "a = Received bs bs_fds" and step: "if length bs < buffer_size
        then raw = \<lparr>raw_data = data @ bs, raw_fds = fds @ (if bs = [] then [] else bs_fds)\<rparr>
        else length bs = buffer_size \<and> ?chunked as (data @ bs) (fds @ bs_fds)" by blast
    show "?chunked (a # as) data fds"
    proof (cases "length bs < buffer_size")
      case True
      with a step show ?thesis
        by - (rule exI[of _ "[]"], rule exI[of _ bs], rule exI[of _ bs_fds], rule exI[of _ as], simp add: chunks_def)
    next
      case False
      with step obtain full bs' bs_fds' rest where *: "length bs = buffer_size" "as = chunks full @ Received bs' bs_fds' # rest"
        "\<forall>c \<in> set full. length (fst c) = buffer_size" "length bs' < buffer_size"
        "raw = \<lparr>raw_data = (data @ bs) @ concat (map fst full) @ bs',
           raw_fds = (fds @ bs_fds) @ concat (map snd full) @ (if bs' = [] then [] else bs_fds')\<rparr>" by auto
      with a show ?thesis by (intro exI[of _ "(bs, bs_fds) # full"]) (simp add: chunks_def)
    qed
  qed
  show ?case
  proof (cases a)
    case RecvError
    then show ?thesis unfolding first by simp
  next
    case (Received bs bs_fds)
    with Cons.prems have len: "length bs \<le> buffer_size"
      and prems: "\<forall>bs fds. Received bs fds \<in> set as \<longrightarrow> length bs \<le> buffer_size" by auto
    have pos: "0 < buffer_size" by (simp add: buffer_size_def)
    show ?thesis
      unfolding first using len pos by (auto simp: Received Cons.IH[OF prems] simp del: ex_simps)
  qed
qed (simp add: chunks_def)

section \<open>Effects\<close>

text \<open>
  A step of the runtime takes the state and returns a result with the new state, or \<open>None\<close> when it
  does not return. The state is kept on an error; after a panic it is of no use.
\<close>

type_synonym ('e, 'a, 'w) eff = "(('e, 'a) res \<times> 'w) option"

definition bind_eff :: "('e, 'a, 'w) eff \<Rightarrow> ('a \<Rightarrow> 'w \<Rightarrow> ('e, 'b, 'w) eff) \<Rightarrow> ('e, 'b, 'w) eff" where
  "bind_eff m f = Option.bind m (\<lambda>(r, w).
     case r of Ok x \<Rightarrow> f x w | Err e \<Rightarrow> Some (Err e, w) | Panic \<Rightarrow> Some (Panic, w))"

lemma bind_eff_simps [simp]:
  "bind_eff None f = None" "bind_eff (Some (Ok x, w)) f = f x w"
  "bind_eff (Some (Err e, w)) f = Some (Err e, w)" "bind_eff (Some (Panic, w)) f = Some (Panic, w)"
  by (simp_all add: bind_eff_def)

lemma bind_eff_Some:
  "bind_eff m f = Some (r, w) \<longleftrightarrow>
     (\<exists>x w'. m = Some (Ok x, w') \<and> f x w' = Some (r, w)) \<or>
     (\<exists>e. m = Some (Err e, w) \<and> r = Err e) \<or> (m = Some (Panic, w) \<and> r = Panic)"
  by (cases m) (auto simp: bind_eff_def split: res.splits)

lemma bind_eff_mono [partial_function_mono]:
  assumes "mono_option B" and "\<And>x w. mono_option (\<lambda>f. C x w f)"
  shows "mono_option (\<lambda>f. bind_eff (B f) (\<lambda>x w. C x w f))"
proof -
  have "mono_option (\<lambda>f. case r of Ok x \<Rightarrow> C x w f | Err e \<Rightarrow> Some (Err e, w)
      | Panic \<Rightarrow> Some (Panic, w))" for r w
    using assms(2) by (cases r) (simp_all add: option.const_mono)
  then show ?thesis
    unfolding bind_eff_def by (intro bind_mono assms(1)) (auto split: prod.splits)
qed

definition lift_res :: "('e, 'a) res \<Rightarrow> 'w \<Rightarrow> ('e, 'a, 'w) eff" where
  "lift_res r w = Some (r, w)"

lemma lift_res_simps [simp]: "lift_res r w = Some (r', w') \<longleftrightarrow> r = r' \<and> w = w'"
  by (auto simp: lift_res_def)

text \<open>A step that returns, with a result, an error or a panic.\<close>

definition returns :: "('e, 'a, 'w) eff \<Rightarrow> bool" where
  "returns m \<longleftrightarrow> m \<noteq> None"

lemma returns_simps [simp]: "returns (Some x)" "returns (lift_res r w)" "\<not> returns None"
  by (simp_all add: returns_def lift_res_def)

lemma returns_bind:
  "returns m \<Longrightarrow> (\<And>x w. m = Some (Ok x, w) \<Longrightarrow> returns (f x w)) \<Longrightarrow> returns (bind_eff m f)"
  by (cases m) (auto simp: bind_eff_def split: res.splits)

text \<open>A property of the states before and after every step, kept by sequencing.\<close>

definition keeps :: "('w \<Rightarrow> 'w \<Rightarrow> bool) \<Rightarrow> 'w \<Rightarrow> ('e, 'a, 'w) eff \<Rightarrow> bool" where
  "keeps R w m \<longleftrightarrow> (\<forall>r w'. m = Some (r, w') \<longrightarrow> r \<noteq> Panic \<longrightarrow> R w w')"

lemma keepsD: "keeps R w m \<Longrightarrow> m = Some (r, w') \<Longrightarrow> r \<noteq> Panic \<Longrightarrow> R w w'"
  by (simp add: keeps_def)

lemma keeps_lift: "R w w \<Longrightarrow> keeps R w (lift_res r w)"
  by (simp add: keeps_def)

lemma keeps_Some: "(r \<noteq> Panic \<Longrightarrow> R w w') \<Longrightarrow> keeps R w (Some (r, w'))"
  by (simp add: keeps_def)

lemma keeps_None [simp]: "keeps R w None"
  by (simp add: keeps_def)

lemma keeps_bind:
  assumes trans: "\<And>a b c. R a b \<Longrightarrow> R b c \<Longrightarrow> R a c" and m: "keeps R w m"
    and f: "\<And>x w'. m = Some (Ok x, w') \<Longrightarrow> R w w' \<Longrightarrow> keeps R w' (f x w')"
  shows "keeps R w (bind_eff m f)"
  unfolding keeps_def
proof (intro allI impI)
  fix r w2 assume eq: "bind_eff m f = Some (r, w2)" and np: "r \<noteq> Panic"
  from eq consider x w' where "m = Some (Ok x, w')" "f x w' = Some (r, w2)"
    | e where "m = Some (Err e, w2)"
    using np by (auto simp: bind_eff_Some)
  then show "R w w2"
  proof cases
    case 1
    then have "R w w'" using m by (auto dest: keepsD)
    moreover from 1 this f np have "R w' w2" by (auto dest: keepsD)
    ultimately show ?thesis by (rule trans)
  qed (use m in \<open>auto dest: keepsD\<close>)
qed

text \<open>The contract such a relation has, and what follows for steps.\<close>

locale step_relation =
  fixes R :: "'w \<Rightarrow> 'w \<Rightarrow> bool"
  assumes R_refl: "R w w"
    and R_trans: "R w1 w2 \<Longrightarrow> R w2 w3 \<Longrightarrow> R w1 w3"
begin

lemma keeps_trans:
  "keeps R w m \<Longrightarrow> (\<And>x w'. m = Some (Ok x, w') \<Longrightarrow> R w w' \<Longrightarrow> keeps R w' (f x w')) \<Longrightarrow>
     keeps R w (bind_eff m f)"
  by (rule keeps_bind) (blast intro: R_trans)+

lemma keeps_after: "R w w1 \<Longrightarrow> keeps R w1 m \<Longrightarrow> keeps R w m"
  by (auto simp: keeps_def intro: R_trans)

lemma keeps_Some_R: "R w w' \<Longrightarrow> keeps R w (Some (r, w'))"
  by (simp add: keeps_def)

lemma keeps_Panic: "keeps R w (Some (Panic, w'))"
  by (simp add: keeps_def)

lemma keeps_lift_R: "keeps R w (lift_res r w)"
  by (rule keeps_lift) (rule R_refl)

end

text \<open>A connection never goes back under any of its operations.\<close>

interpretation conn_history: step_relation conn_le
  by unfold_locales (auto intro: conn_le_trans)

section \<open>Errors of the runtime\<close>

text \<open>\<open>hyprwire::Error\<close>, with the errors of the operating system in one constructor.\<close>

datatype hw_error =
    ConnectionClosed | HandshakeTimeout | VersionNegotiation | ProtocolNotFound
  | VersionOutOfRange u32 u32 | ProtocolViolation error | Io

definition hw_error_from :: "error \<Rightarrow> hw_error" where
  "hw_error_from e =
     (if e = VersionNegotiationFailed then VersionNegotiation else ProtocolViolation e)"

text \<open>A step of the runtime inside an operation with another error type: such a step has no errors.\<close>

definition no_error :: "(error, unit, 'w) eff \<Rightarrow> (hw_error, unit, 'w) eff" where
  "no_error m = map_option (\<lambda>(r, w).
     (case r of Ok x \<Rightarrow> Ok x | Err e \<Rightarrow> Err (hw_error_from e) | Panic \<Rightarrow> Panic, w)) m"

lemma keeps_no_error: "keeps R w m \<Longrightarrow> keeps R w (no_error m)"
  by (cases m) (auto simp: keeps_def no_error_def split: res.splits)

section \<open>Properties\<close>

text \<open>C40: What a read returns, whatever the system answers: it succeeds exactly when the answers are some full buffers and
  then one that is not full, and returns the bytes of all of them in order, with the descriptors that came with
  them. What is left of the answers is left for the next read; the descriptors of an answer without bytes are dropped. So a
  full buffer that is followed by an error, as \<open>EAGAIN\<close> is when the peer has sent no more for now, fails the
  call, and what had been read is lost; followed by the end of the stream it is returned.\<close>
theorem read_from_socket_outcome:
  assumes "\<forall>bs fds. Received bs fds \<in> set answers \<longrightarrow> length bs \<le> 8192"
  shows "read_from_socket answers = Some raw \<longleftrightarrow> (\<exists>full bs fds rest. answers = chunks full @ Received bs fds # rest \<and>
    (\<forall>c \<in> set full. length (fst c) = 8192) \<and> length bs < 8192 \<and>
    raw = \<lparr>raw_data = concat (map fst full) @ bs, raw_fds = concat (map snd full) @ (if bs = [] then [] else fds)\<rparr>)"
  using read_loop_chunks[of answers "[]" "[]" raw] assms by (simp add: read_from_socket_def buffer_size_def)

text \<open>A full buffer, then \<open>EAGAIN\<close>, the end of the stream, or more bytes.\<close>

theorem read_from_socket_outcome_witness:
  "read_from_socket [Received (replicate 8192 1) [3], RecvError] = None \<and>
   read_from_socket [Received (replicate 8192 1) [3], Received [] [4]] = Some \<lparr>raw_data = replicate 8192 1, raw_fds = [3]\<rparr> \<and>
   read_from_socket [Received (replicate 8192 1) [3], Received [7] [4]] = Some \<lparr>raw_data = replicate 8192 1 @ [7], raw_fds = [3, 4]\<rparr>"
proof (intro conjI)
  let ?full = "[Received (replicate 8192 1) [3], RecvError]"
  have "read_from_socket ?full \<noteq> Some raw" for raw
  proof
    assume "read_from_socket ?full = Some raw"
    then have "\<exists>full bs fds rest. ?full = chunks full @ Received bs fds # rest \<and> length bs < 8192"
      by (subst (asm) read_from_socket_outcome) (simp, blast)
    then obtain full bs fds rest where *: "?full = chunks full @ Received bs fds # rest" "length bs < 8192" by blast
    then show False by (cases full; cases "tl full") (auto simp: chunks_def)
  qed
  then show "read_from_socket ?full = None" by (cases "read_from_socket ?full") auto
  have short: "read_from_socket [Received (replicate 8192 1) [3], Received bs [4]] =
      Some \<lparr>raw_data = replicate 8192 1 @ bs, raw_fds = [3] @ (if bs = [] then [] else [4])\<rparr>" if "length bs < 8192" for bs
  proof (rule iffD2[OF read_from_socket_outcome], use that in fastforce, intro exI conjI)
    show "[Received (replicate 8192 1) [3], Received bs [4]] = chunks [(replicate 8192 1, [3])] @ Received bs [4] # []"
      by (simp add: chunks_def)
  qed (use that in simp_all)
  show "read_from_socket [Received (replicate 8192 1) [3], Received [] [4]] = Some \<lparr>raw_data = replicate 8192 1, raw_fds = [3]\<rparr>"
    "read_from_socket [Received (replicate 8192 1) [3], Received [7] [4]] = Some \<lparr>raw_data = replicate 8192 1 @ [7], raw_fds = [3, 4]\<rparr>"
    using short[of "[]"] short[of "[7]"] by simp_all
qed

text \<open>What of a message reaches the peer: after any number of \<open>EAGAIN\<close> rounds, the prefix the
  kernel took in its first successful answer. A short write is not continued.\<close>
theorem send_loop_prefix:
  "send_loop (replicate k (SendAgain True) @ Sent n # as) buf fds = Some (take n buf, fds) \<and>
   (send_loop (replicate k (SendAgain True) @ Sent n # as) buf fds = Some (buf, fds) \<longleftrightarrow>
      length buf \<le> n)"
proof -
  have "send_loop (replicate k (SendAgain True) @ Sent n # as) buf fds = Some (take n buf, fds)"
    by (induction k) auto
  then show ?thesis using take_all_iff[of n buf] by (metis Pair_inject option.inject)
qed

end
