(* ===== verification/Wire_Object.thy ===== *)
theory Wire_Object
  imports Connection
begin

text \<open>
  \<open>WireObject::call\<close> of \<open>hyprwire/src/implementation/wire_object.rs\<close>: the checks on a method call, and
  the marshalling of its arguments into a \<open>GenericProtocolMessage\<close>. What the call does to the object,
  to the connection and to the client's event queue depends on the implementor of the trait; here the
  outcome is a value, \<open>call_outcome\<close>, which the models of the two implementors act on.

  The layout of a method's payload (\<open>arg_fields\<close>) is the abstract side: what the marshaller writes for
  arguments that fit the signature is what the scanner of the peer accepts.
\<close>

section \<open>Marshalling\<close>

text \<open>
  Bytes and descriptors written so far are a prefix of the result. \<open>Ok None\<close> is the early return of
  an array argument that has no array type.
\<close>

type_synonym marshalled = "(error, (bytes \<times> i32 list) option) res"

definition emit :: "bytes \<Rightarrow> i32 list \<Rightarrow> marshalled \<Rightarrow> marshalled" where
  "emit bs fds r = bind_res r (\<lambda>m. Ok (map_option (\<lambda>(d, f). (bs @ d, fds @ f)) m))"

lemma emit_simps [simp]:
  "emit bs fds (Ok (Some (d, f))) = Ok (Some (bs @ d, fds @ f))" "emit bs fds (Ok None) = Ok None"
  by (simp_all add: emit_def)

text \<open>
  The array arm. The code reuses one buffer for the lengths of a list of strings; what
  \<open>encode_var_int\<close> returns does not depend on what the buffer held.
\<close>

definition words_bytes :: "u32 list \<Rightarrow> marshalled" where
  "words_bytes arr =
     bind_res (encode_var_int (length arr) var_int_buf) (\<lambda>n.
       Ok (Some (n @ concat (map to_le_bytes arr), [])))"

fun array_bytes :: "call_arg \<Rightarrow> marshalled" where
  "array_bytes (ArgUintArray arr) = words_bytes arr"
| "array_bytes (ArgObjectArray arr) = words_bytes arr"
| "array_bytes (ArgIntArray arr) = words_bytes arr"
| "array_bytes (ArgF32Array arr) = words_bytes arr"
| "array_bytes (ArgFdArray arr) =
     bind_res (encode_var_int (length arr) var_int_buf) (\<lambda>n. Ok (Some (n, arr)))"
| "array_bytes (ArgVarcharArray arr) =
     bind_res (encode_var_int (length arr) var_int_buf) (\<lambda>n.
     bind_res (collect_res (\<lambda>s. bind_res (encode_var_int (length s) var_int_buf) (\<lambda>l. Ok (l @ s))) arr)
       (\<lambda>ss. Ok (Some (n @ concat ss, []))))"
| "array_bytes _ = Ok None"

text \<open>
  The loop over \<open>method.params\<close>. An argument that is missing or of another kind than the parameter
  leaves its tag without a value; an unknown parameter ends the loop; \<open>params[i]\<close> after a trailing
  \<open>TypeArray\<close> is out of range.
\<close>

fun marshal_args :: "bytes \<Rightarrow> call_arg list \<Rightarrow> marshalled" where
  "marshal_args [] args = Ok (Some ([], []))"
| "marshal_args (p # ps) args =
     (case magic_try_from p of
        Ok TypeUint \<Rightarrow>
          emit (magic_u8 TypeUint # (case args of ArgUint v # _ \<Rightarrow> to_le_bytes v | _ \<Rightarrow> [])) []
            (marshal_args ps (tl args))
      | Ok TypeInt \<Rightarrow>
          emit (magic_u8 TypeInt # (case args of ArgInt v # _ \<Rightarrow> to_le_bytes v | _ \<Rightarrow> [])) []
            (marshal_args ps (tl args))
      | Ok TypeObject \<Rightarrow>
          emit (magic_u8 TypeObject # (case args of ArgObject v # _ \<Rightarrow> to_le_bytes v | _ \<Rightarrow> [])) []
            (marshal_args ps (tl args))
      | Ok TypeF32 \<Rightarrow>
          emit (magic_u8 TypeF32 # (case args of ArgF32 v # _ \<Rightarrow> to_le_bytes v | _ \<Rightarrow> [])) []
            (marshal_args ps (tl args))
      | Ok TypeVarchar \<Rightarrow>
          bind_res (case args of
              ArgVarchar s # _ \<Rightarrow>
                bind_res (encode_var_int (length s) var_int_buf) (\<lambda>encoded. Ok (encoded @ s))
            | _ \<Rightarrow> Ok [])
            (\<lambda>bs. emit (magic_u8 TypeVarchar # bs) [] (marshal_args ps (tl args)))
      | Ok TypeFd \<Rightarrow>
          emit [magic_u8 TypeFd] (case args of ArgFd fd # _ \<Rightarrow> [fd] | _ \<Rightarrow> [])
            (marshal_args ps (tl args))
      | Ok TypeArray \<Rightarrow>
          (case ps of
             [] \<Rightarrow> Panic
           | t # ps' \<Rightarrow>
               (case magic_try_from t of
                  Ok arr_type \<Rightarrow>
                    bind_res (case args of a # _ \<Rightarrow> array_bytes a | [] \<Rightarrow> Ok None) (\<lambda>arr.
                    case arr of
                      None \<Rightarrow> Ok None
                    | Some (bs, fds) \<Rightarrow>
                        emit (magic_u8 TypeArray # magic_u8 arr_type # bs) fds
                          (marshal_args ps' (tl args)))
                | _ \<Rightarrow> Ok (Some ([], []))))
      | _ \<Rightarrow> Ok (Some ([], [])))"

section \<open>The call\<close>

text \<open>
  The outcome of a call: \<open>self.error(self.id(), msg)\<close>; or, after \<open>mark_destroyed\<close> for a destructor and
  the next sequence number for a method with a return type, \<open>self.errd()\<close>, or a message to send.
\<close>

datatype call_outcome =
    CallRefused str
  | CallUnmarshalled bool u32
  | CallMessage bool u32 bytes "i32 list"

text \<open>\<open>next_seq\<close> is the number \<open>client_sock().seq.fetch_add(1) + 1\<close> gives, if there is a client.\<close>

definition wire_call ::
    "bool \<Rightarrow> method_spec list \<Rightarrow> u32 \<Rightarrow> u32 \<Rightarrow> u32 option \<Rightarrow> u32 \<Rightarrow> call_arg list \<Rightarrow>
       (error, call_outcome) res" where
  "wire_call server methods oid version next_seq i args =
     (if length methods \<le> unat i then
        Ok (CallRefused (ascii ''invalid method '' @ show_u32 i @ ascii '' for object '' @ show_u32 oid))
      else
        let method = methods ! unat i in
        if since method > version then
          Ok (CallRefused (ascii ''method '' @ show_u32 i @ ascii '' since '' @ show_u32 (since method) @
            ascii '' but has '' @ show_u32 version))
        else if returns_type method \<noteq> [] \<and> server then
          Ok (CallRefused (ascii ''invalid method spec '' @ show_u32 i @ ascii '' for object '' @
            show_u32 oid @ ascii '' -> server cannot call returnsType methods''))
        else
          let return_seq =
            (if returns_type method \<noteq> [] then (case next_seq of Some s \<Rightarrow> s | None \<Rightarrow> 0) else 0);
            head = message_type_u8 GenericProtocolMessage # magic_u8 TypeObject # to_le_bytes oid @
              magic_u8 TypeUint # to_le_bytes i @
              (if returns_type method \<noteq> [] then magic_u8 TypeSeq # to_le_bytes return_seq else [])
          in bind_res (marshal_args (method_params method) args) (\<lambda>r.
             Ok (case r of
                   None \<Rightarrow> CallUnmarshalled (destructor method) return_seq
                 | Some (bs, fds) \<Rightarrow>
                     CallMessage (destructor method) return_seq (head @ bs @ [magic_u8 End]) fds)))"

text \<open>What an accepted call depends on.\<close>

definition call_seq :: "method_spec \<Rightarrow> u32 option \<Rightarrow> u32" where
  "call_seq method next_seq =
     (if returns_type method \<noteq> [] then (case next_seq of Some s \<Rightarrow> s | None \<Rightarrow> 0) else 0)"

lemma wire_call_accepted:
  assumes "wire_call server methods oid version next_seq i args = Ok outcome"
  shows "outcome = CallMessage d s data fds \<Longrightarrow> unat i < length methods \<and>
      d = destructor (methods ! unat i) \<and> s = call_seq (methods ! unat i) next_seq"
    and "outcome = CallUnmarshalled d s \<Longrightarrow> unat i < length methods \<and>
      d = destructor (methods ! unat i) \<and> s = call_seq (methods ! unat i) next_seq"
  using assms
  by (auto simp: wire_call_def Let_def bind_res_eq_Ok call_seq_def split: if_splits option.splits)

section \<open>Arguments that fit a signature\<close>

text \<open>The fields of the arguments, if they fit the parameters and the limits of the receiver.\<close>

fun array_field :: "magic \<Rightarrow> call_arg \<Rightarrow> field option" where
  "array_field m (ArgUintArray ws) =
     (if m = TypeUint \<and> length ws < 10000 then Some (FWords m ws) else None)"
| "array_field m (ArgObjectArray ws) =
     (if m = TypeObject \<and> length ws < 10000 then Some (FWords m ws) else None)"
| "array_field m (ArgIntArray ws) =
     (if m = TypeInt \<and> length ws < 10000 then Some (FWords m ws) else None)"
| "array_field m (ArgF32Array ws) =
     (if m = TypeF32 \<and> length ws < 10000 then Some (FWords m ws) else None)"
| "array_field m (ArgFdArray fds) =
     (if m = TypeFd \<and> length fds < 10000 then Some (FFds (length fds)) else None)"
| "array_field m (ArgVarcharArray ss) =
     (if m = TypeVarchar \<and> length ss < 10000 \<and> (\<forall>s \<in> set ss. length s \<le> isize_max)
      then Some (FStrs ss) else None)"
| "array_field m _ = None"

fun arg_field :: "magic \<Rightarrow> call_arg \<Rightarrow> field option" where
  "arg_field m (ArgUint v) = (if m = TypeUint then Some (FWord m v) else None)"
| "arg_field m (ArgInt v) = (if m = TypeInt then Some (FWord m v) else None)"
| "arg_field m (ArgF32 v) = (if m = TypeF32 then Some (FWord m v) else None)"
| "arg_field m (ArgObject v) = (if m = TypeObject then Some (FWord m v) else None)"
| "arg_field m (ArgVarchar s) =
     (if m = TypeVarchar \<and> length s \<le> isize_max then Some (FStr s) else None)"
| "arg_field m (ArgFd fd) = (if m = TypeFd then Some FFd else None)"
| "arg_field m _ = None"

fun arg_fields :: "bytes \<Rightarrow> call_arg list \<Rightarrow> field list option" where
  "arg_fields [] [] = Some []"
| "arg_fields (p # ps) (a # as) =
     (if p = magic_u8 TypeArray then
        (case ps of
           [] \<Rightarrow> None
         | t # ps' \<Rightarrow>
             (case magic_try_from t of
                Ok m \<Rightarrow> (case (array_field m a, arg_fields ps' as) of
                  (Some f, Some fs) \<Rightarrow> Some (f # fs) | _ \<Rightarrow> None)
              | _ \<Rightarrow> None))
      else
        (case magic_try_from p of
           Ok m \<Rightarrow> (case (arg_field m a, arg_fields ps as) of
             (Some f, Some fs) \<Rightarrow> Some (f # fs) | _ \<Rightarrow> None)
         | _ \<Rightarrow> None))"
| "arg_fields _ _ = None"

fun arg_fds :: "call_arg \<Rightarrow> i32 list" where
  "arg_fds (ArgFd fd) = [fd]"
| "arg_fds (ArgFdArray fds) = fds"
| "arg_fds _ = []"

lemma bound_10000: "n < 10000 \<Longrightarrow> n < usize_bound"
  by (simp add: usize_bound_def)

lemma blobs_rep_varint:
  "\<forall>s \<in> set ss. length s \<le> isize_max \<Longrightarrow>
     blobs_rep pr ss (concat (map (\<lambda>s. varint (length s) @ s) ss))"
  by (induction ss) (auto intro: varint_repr_varint usize_le_isize)

lemma array_bytes_field:
  assumes "array_field m a = Some f"
  shows "\<exists>bs. array_bytes a = Ok (Some (bs, arg_fds a)) \<and>
    field_rep pr f (magic_u8 TypeArray # magic_u8 m # bs) \<and> field_fds f = length (arg_fds a)"
proof -
  have words: "words_bytes ws = Ok (Some (varint (length ws) @ concat (map to_le_bytes ws), []))"
    and repr: "varint_repr pr (varint (length ws)) (length ws)"
    if "length ws < 10000" for ws
    using bound_10000[OF that] by (simp_all add: words_bytes_def varint_repr_varint)
  have strs: "array_bytes (ArgVarcharArray ss) =
      Ok (Some (varint (length ss) @ concat (map (\<lambda>s. varint (length s) @ s) ss), []))"
    if "length ss < 10000" "\<forall>s \<in> set ss. length s \<le> isize_max" for ss
  proof -
    have "collect_res (\<lambda>s. bind_res (encode_var_int (length s) var_int_buf) (\<lambda>l. Ok (l @ s))) ss =
        (Ok (map (\<lambda>s. varint (length s) @ s) ss) :: (error, _) res)"
      by (rule collect_res_Ok) (use that in \<open>simp add: usize_le_isize\<close>)
    then show ?thesis using bound_10000[OF that(1)] by simp
  qed
  have strs': "\<exists>V. varint_repr pr V (length ss) \<and> (\<exists>P. blobs_rep pr ss P \<and>
      varint (length ss) @ concat (map (\<lambda>s. varint (length s) @ s) ss) = V @ P)"
    if "length ss < 10000" "\<forall>s \<in> set ss. length s \<le> isize_max" for ss
    using repr[of "replicate (length ss) 0"] blobs_rep_varint[OF that(2), of pr] that(1)
    by (intro exI[of _ "varint (length ss)"]) auto
  show ?thesis
    using assms
    by (cases a)
      (auto simp: words strs strs' repr bound_10000 varint_repr_varint
        simp del: array_bytes.simps(6) split: if_splits)
qed

lemma arg_bytes_field:
  assumes "arg_field m a = Some f" and "magic_try_from p = Ok m"
  shows "\<exists>F. field_rep pr f F \<and> field_fds f = length (arg_fds a) \<and>
    (\<forall>ps as. marshal_args (p # ps) (a # as) = emit F (arg_fds a) (marshal_args ps as))"
proof (cases "\<exists>s. a = ArgVarchar s")
  case True
  then obtain s where a: "a = ArgVarchar s" by blast
  with assms have eqs: "m = TypeVarchar" "length s \<le> isize_max" "f = FStr s"
    by (simp_all split: if_splits)
  have "field_rep pr f (magic_u8 TypeVarchar # varint (length s) @ s)"
    using eqs(2,3) by (auto intro: varint_repr_varint usize_le_isize)
  with a eqs assms(2) show ?thesis
    by (intro exI[of _ "magic_u8 TypeVarchar # varint (length s) @ s"])
      (simp add: usize_le_isize del: field_rep.simps)
qed (use assms in \<open>cases a; auto split: if_splits\<close>)

lemma fields_rep_Cons_append:
  "field_rep pr f F \<Longrightarrow> fields_rep pr fs B \<Longrightarrow> fields_rep pr (f # fs) (F @ B)"
  by auto

lemma marshal_args_fields:
  assumes "arg_fields ps as = Some fs"
  shows "\<exists>B. marshal_args ps as = Ok (Some (B, concat (map arg_fds as))) \<and> fields_rep pr fs B \<and>
    fields_fds fs = length (concat (map arg_fds as))"
  using assms
proof (induction ps as arbitrary: fs rule: arg_fields.induct)
  case (2 p ps a as)
  show ?case
  proof (cases "p = magic_u8 TypeArray")
    case True
    with "2.prems" obtain t ps' m f fs' where ps: "ps = t # ps'" and m: "magic_try_from t = Ok m"
      and f: "array_field m a = Some f" and fs': "arg_fields ps' as = Some fs'" and fs: "fs = f # fs'"
      by (auto split: list.splits res.splits option.splits)
    from "2.IH"(1)[OF True ps m fs'] obtain B where IH:
      "marshal_args ps' as = Ok (Some (B, concat (map arg_fds as)))" "fields_rep pr fs' B"
      "fields_fds fs' = length (concat (map arg_fds as))" by blast
    have "magic_try_from p = Ok TypeArray"
      unfolding True by (rule magic_try_from_u8)
    moreover from array_bytes_field[OF f, of pr] obtain bs where "array_bytes a = Ok (Some (bs, arg_fds a))"
      and F: "field_rep pr f (magic_u8 TypeArray # magic_u8 m # bs)" "field_fds f = length (arg_fds a)"
      by blast
    ultimately show ?thesis
      using fields_rep_Cons_append[OF F(1), of fs' B] IH
      by (simp add: ps m fs F(2) del: magic_u8.simps fields_rep.simps)
  next
    case False
    with "2.prems" obtain m f fs' where m: "magic_try_from p = Ok m"
      and f: "arg_field m a = Some f" and fs': "arg_fields ps as = Some fs'" and fs: "fs = f # fs'"
      by (auto split: res.splits option.splits)
    from "2.IH"(2)[OF False m fs'] obtain B where IH:
      "marshal_args ps as = Ok (Some (B, concat (map arg_fds as)))" "fields_rep pr fs' B"
      "fields_fds fs' = length (concat (map arg_fds as))" by blast
    from arg_bytes_field[OF f m, of pr] obtain F where F: "field_rep pr f F"
      "field_fds f = length (arg_fds a)"
      "marshal_args (p # ps) (a # as) = emit F (arg_fds a) (marshal_args ps as)" by blast
    from fields_rep_Cons_append[OF F(1) IH(2)] show ?thesis
      by (simp add: F(2,3) IH fs del: marshal_args.simps fields_rep.simps)
  qed
qed auto

section \<open>A call that fits is a message\<close>

definition call_fields :: "method_spec \<Rightarrow> u32 option \<Rightarrow> field list \<Rightarrow> field list" where
  "call_fields method next_seq fs =
     (if returns_type method \<noteq> [] then [FWord TypeSeq (call_seq method next_seq)] else []) @ fs"

lemma wire_call_message:
  assumes "unat i < length methods" and "method = methods ! unat i" and "since method \<le> version"
    and "\<not> (returns_type method \<noteq> [] \<and> server)" and "arg_fields (method_params method) args = Some fs"
  shows "\<exists>B. wire_call server methods oid version next_seq i args =
      Ok (CallMessage (destructor method) (call_seq method next_seq) (generic_bytes oid i B)
        (concat (map arg_fds args))) \<and>
    fields_rep pr (call_fields method next_seq fs) B \<and>
    fields_fds (call_fields method next_seq fs) = length (concat (map arg_fds args))"
proof -
  from marshal_args_fields[OF assms(5), of pr] obtain bs where
    bs: "marshal_args (method_params method) args = Ok (Some (bs, concat (map arg_fds args)))"
      "fields_rep pr fs bs" "fields_fds fs = length (concat (map arg_fds args))" by blast
  let ?seq = "if returns_type method \<noteq> []
    then magic_u8 TypeSeq # to_le_bytes (call_seq method next_seq) else []"
  have "fields_rep pr (call_fields method next_seq fs) (?seq @ bs)"
    using bs(2) by (auto simp: call_fields_def)
  moreover have "wire_call server methods oid version next_seq i args =
      Ok (CallMessage (destructor method) (call_seq method next_seq)
        (generic_bytes oid i (?seq @ bs)) (concat (map arg_fds args)))"
    using assms bs(1)
    by (simp add: wire_call_def call_seq_def generic_bytes_def not_le not_less Let_def)
  moreover have "fields_fds (call_fields method next_seq fs) = length (concat (map arg_fds args))"
    using bs(3) by (simp add: call_fields_def)
  ultimately show ?thesis by blast
qed

section \<open>Properties\<close>

text \<open>C4: A method call whose arguments fit the method's signature is received as it was made: wherever
  the marshalled message lies in the stream, \<open>from_bytes\<close> returns the same object and method, the
  same bytes, and takes exactly the descriptors of the call from the front of the queue.\<close>
theorem call_roundtrip:
  assumes "unat i < length methods" and "since (methods ! unat i) \<le> version"
    and "\<not> (returns_type (methods ! unat i) \<noteq> [] \<and> server)"
    and "arg_fields (method_params (methods ! unat i)) args = Some fs"
  shows "\<exists>data. wire_call server methods oid version next_seq i args =
      Ok (CallMessage (destructor (methods ! unat i)) (call_seq (methods ! unat i) next_seq) data
        (concat (map arg_fds args))) \<and>
    (\<forall>pr pre post more. length (pre @ data @ post) \<le> isize_max \<longrightarrow>
       (\<exists>m. generic_from_bytes pr (pre @ data @ post) (concat (map arg_fds args) @ more) (length pre) =
            Some (Ok (m, more)) \<and>
          gm_object m = oid \<and> gm_method m = i \<and> gm_fds m = concat (map arg_fds args) \<and>
          gm_data m = data))"
proof -
  let ?fds = "concat (map arg_fds args)"
  let ?fs = "call_fields (methods ! unat i) next_seq fs"
  from marshal_args_fields[OF assms(4)] obtain data where call:
    "wire_call server methods oid version next_seq i args =
      Ok (CallMessage (destructor (methods ! unat i)) (call_seq (methods ! unat i) next_seq) data ?fds)"
    using wire_call_message[OF assms(1) refl assms(2-4)] by blast
  have "\<exists>m. generic_from_bytes pr (pre @ data @ post) (?fds @ more) (length pre) = Some (Ok (m, more)) \<and>
      gm_object m = oid \<and> gm_method m = i \<and> gm_fds m = ?fds \<and> gm_data m = data"
    if len: "length (pre @ data @ post) \<le> isize_max" for pr pre post more
  proof -
    from wire_call_message[OF assms(1) refl assms(2-4), of oid next_seq pr] call obtain B where
      B: "data = generic_bytes oid i B" "fields_rep pr ?fs B" "fields_fds ?fs = length ?fds" by auto
    from generic_from_bytes_fwd[OF B(2), of "pre @ data @ post" "length pre" oid i post "?fds @ more"]
      cursor_append[OF len] B(1,3)
    show ?thesis by (simp add: generic_parsed_def)
  qed
  with call show ?thesis by blast
qed

theorem call_roundtrip_witness:
  "\<exists>data. wire_call False
      [\<lparr>method_idx = 0, method_params = [0x10, 0x40], returns_type = [], since = 1, destructor = False\<rparr>]
      5 1 None 0 [ArgUint 7, ArgFd 3] = Ok (CallMessage False 0 data [3]) \<and>
    (\<forall>pr pre post more. length (pre @ data @ post) \<le> isize_max \<longrightarrow>
       (\<exists>m. generic_from_bytes pr (pre @ data @ post) ([3] @ more) (length pre) = Some (Ok (m, more)) \<and>
          gm_object m = 5 \<and> gm_method m = 0 \<and> gm_fds m = [3] \<and> gm_data m = data))"
  using call_roundtrip[of 0 "[\<lparr>method_idx = 0, method_params = [0x10, 0x40], returns_type = [],
      since = 1, destructor = False\<rparr>]" 1 False "[ArgUint 7, ArgFd 3]" "[FWord TypeUint 7, FFd]" 5 None]
  by (simp add: magic_try_from_def call_seq_def)

text \<open>The call is refused with an error message, and nothing is marshalled, exactly when the method
  index is not one of the object's methods, the method is newer than the object, or a server calls a
  method that returns an object.\<close>
theorem call_refused:
  "(\<exists>msg. wire_call server methods oid version next_seq i args = Ok (CallRefused msg)) \<longleftrightarrow>
     length methods \<le> unat i \<or> version < since (methods ! unat i) \<or>
     (server \<and> returns_type (methods ! unat i) \<noteq> [])"
  by (auto simp: wire_call_def Let_def bind_res_eq_Ok split: option.splits)

end
