(* ===== verification/Server_State.thy ===== *)
theory Server_State
  imports Wire_Object
begin

text \<open>
  The objects and clients of the server: \<open>hyprwire/src/server/server_object.rs\<close> and
  \<open>hyprwire/src/server/server_client.rs\<close>.

  \<^item> The server's memory is a record with two heaps, of objects and of client states. A reference
    (\<open>Arc<ServerObject>\<close>, \<open>Arc<ServerClientState>\<close>) is an index into its heap; a client state holds the
    connection it shares with its objects, and \<open>sc_alive\<close> tells whether a \<open>Weak\<close> to it can be upgraded.
  \<^item> The application's callbacks (\<open>on_bind\<close> of an object implementation and \<open>ObjectData::dispatch\<close>) are
    arguments of the model. What a callback does is a \<open>prog\<close>, a tree of the operations \<open>trait Object\<close>
    and the handles of clients offer it and of the accesses to the application's state, each continuing with what the
    operation returned. An \<open>ObjectData\<close> is a value of type \<open>'h\<close>,
    the application's state one of type \<open>'d\<close>.
  \<^item> Creating an object runs a callback, which may create objects: running a \<open>prog\<close> need not end, and
    its result is then \<open>None\<close>. So is that of a callback that deadlocks on the lock of the object that
    is being dispatched.
\<close>

section \<open>State\<close>

record ucred =
  cred_pid :: i32
  cred_uid :: u32
  cred_gid :: u32

text \<open>
  \<open>ServerClient\<close>, the handle the application gets: the client's id and a share of the cell that holds its
  credentials, here the index of the client state whose cell it is.
\<close>

record client_handle =
  ch_id :: u32
  ch_creds :: nat

datatype ('h, 'd) prog =
    Finish
  | Crash
  | GetApp "'d \<Rightarrow> ('h, 'd) prog"
  | SetApp 'd "('h, 'd) prog"
  | Call nat u32 "call_arg list" "u32 \<Rightarrow> ('h, 'd) prog"
  | RaiseError nat u32 str "('h, 'd) prog"
  | CreateObject nat str u32 "nat option \<Rightarrow> ('h, 'd) prog"
  | SetData nat 'h "('h, 'd) prog"
  | GetClient nat "client_handle option \<Rightarrow> ('h, 'd) prog"
  | ReadCreds nat "ucred \<Rightarrow> ('h, 'd) prog"

record ('h, 'd) server_impl =
  im_spec :: protocol_spec
  im_objects :: "(str \<times> (nat \<Rightarrow> ('h, 'd) prog)) list"

record 'h server_object =
  so_client :: nat
  so_spec :: "object_spec option"
  so_destroyed :: bool
  so_data :: "'h option"
  so_reading :: bool
  so_id :: u32
  so_version :: u32
  so_seq :: u32
  so_protocol_name :: str

text \<open>\<open>sc_peer\<close> is what \<open>getsockopt(SO_PEERCRED)\<close> answers for the stream.\<close>

record server_client =
  sc_id :: u32
  sc_creds :: "ucred option"
  sc_first_poll_done :: bool
  sc_version :: u32
  sc_max_id :: u32
  sc_scheduled_roundtrip_seq :: u32
  sc_objects :: "nat list"
  sc_conn :: conn
  sc_peer :: "ucred option"
  sc_alive :: bool

record ('h, 'd) server =
  sv_impls :: "('h, 'd) server_impl list"
  sv_objects :: "'h server_object list"
  sv_client_heap :: "server_client list"
  sv_clients :: "nat list"
  sv_listener :: bool
  sv_next_client_id :: u32
  sv_app :: 'd

definition server_client_new :: "u32 \<Rightarrow> ucred option \<Rightarrow> server_client" where
  "server_client_new i peer =
     \<lparr>sc_id = i, sc_creds = None, sc_first_poll_done = False, sc_version = 0, sc_max_id = 1,
      sc_scheduled_roundtrip_seq = 0, sc_objects = [], sc_conn = conn_new, sc_peer = peer,
      sc_alive = True\<rparr>"

definition upd_object ::
    "nat \<Rightarrow> ('h server_object \<Rightarrow> 'h server_object) \<Rightarrow> ('h, 'd) server \<Rightarrow> ('h, 'd) server" where
  "upd_object r f w = w\<lparr>sv_objects := (sv_objects w)[r := f (sv_objects w ! r)]\<rparr>"

definition upd_client ::
    "nat \<Rightarrow> (server_client \<Rightarrow> server_client) \<Rightarrow> ('h, 'd) server \<Rightarrow> ('h, 'd) server" where
  "upd_client k f w = w\<lparr>sv_client_heap := (sv_client_heap w)[k := f (sv_client_heap w ! k)]\<rparr>"

definition upd_conn :: "nat \<Rightarrow> (conn \<Rightarrow> conn) \<Rightarrow> ('h, 'd) server \<Rightarrow> ('h, 'd) server" where
  "upd_conn k f = upd_client k (\<lambda>c. c\<lparr>sc_conn := f (sc_conn c)\<rparr>)"

section \<open>Objects\<close>

definition server_methods_out :: "'h server_object \<Rightarrow> method_spec list" where
  "server_methods_out obj = (case so_spec obj of Some spec \<Rightarrow> s2c spec | None \<Rightarrow> [])"

text \<open>\<open>ServerObject::error\<close>.\<close>

definition server_error :: "nat \<Rightarrow> u32 \<Rightarrow> str \<Rightarrow> ('h, 'd) server \<Rightarrow> (error, ('h, 'd) server) res" where
  "server_error r error_id error_msg w =
     (let obj = sv_objects w ! r in
      if so_destroyed obj then Ok w
      else bind_res (fatal_protocol_error_new (so_id obj) error_id error_msg) (\<lambda>msg.
        Ok (upd_conn (so_client obj) (set_error \<circ> send_message (MFatal msg)) w)))"

definition mark_destroyed :: "nat \<Rightarrow> ('h, 'd) server \<Rightarrow> ('h, 'd) server" where
  "mark_destroyed r = upd_object r (\<lambda>obj. obj\<lparr>so_destroyed := True\<rparr>)"

text \<open>
  \<open>ServerObject::call\<close>. A server has no \<open>client_sock\<close>, so a call sends its message and returns 0.
\<close>

definition server_call ::
    "nat \<Rightarrow> u32 \<Rightarrow> call_arg list \<Rightarrow> ('h, 'd) server \<Rightarrow> (error, u32 \<times> ('h, 'd) server) res" where
  "server_call r i args w =
     (let obj = sv_objects w ! r in
      if so_destroyed obj then Ok (0, w)
      else
        bind_res (wire_call True (server_methods_out obj) (so_id obj) (so_version obj) None i args)
          (\<lambda>outcome. case outcome of
             CallRefused msg \<Rightarrow> bind_res (server_error r (so_id obj) msg w) (\<lambda>w'. Ok (0, w'))
           | CallUnmarshalled dtor _ \<Rightarrow>
               Ok (0, upd_conn (so_client obj) set_error (if dtor then mark_destroyed r w else w))
           | CallMessage dtor _ data fds \<Rightarrow>
               Ok (0, upd_conn (so_client obj) (send_message (MGeneric (generic_message_new data fds)))
                 (if dtor then mark_destroyed r w else w))))"

definition set_object_data :: "nat \<Rightarrow> 'h \<Rightarrow> ('h, 'd) server \<Rightarrow> ('h, 'd) server" where
  "set_object_data r h = upd_object r (\<lambda>obj. obj\<lparr>so_data := Some h\<rparr>)"

section \<open>Creating objects\<close>

definition find_impl :: "('h, 'd) server_impl list \<Rightarrow> str \<Rightarrow> ('h, 'd) server_impl option" where
  "find_impl impls protocol = List.find (\<lambda>im. spec_name (im_spec im) = protocol) impls"

definition find_spec :: "('h, 'd) server_impl list \<Rightarrow> str \<Rightarrow> str \<Rightarrow> object_spec option" where
  "find_spec impls protocol name =
     (case find_impl impls protocol of
        None \<Rightarrow> None
      | Some im \<Rightarrow> List.find (\<lambda>s. name = [] \<or> object_name s = name) (spec_objects (im_spec im)))"

text \<open>
  \<open>ServerClientState::create_object\<close> up to the call of \<open>on_bind\<close>; it returns the new reference.
  \<open>fetch_add\<close> wraps in every build.
\<close>

definition client_create_object ::
    "nat \<Rightarrow> str \<Rightarrow> str \<Rightarrow> u32 \<Rightarrow> u32 \<Rightarrow> ('h, 'd) server \<Rightarrow> nat \<times> ('h, 'd) server" where
  "client_create_object k protocol name version seq w =
     (let oid = sc_max_id (sv_client_heap w ! k);
          r = length (sv_objects w);
          obj = \<lparr>so_client = k, so_spec = find_spec (sv_impls w) protocol name, so_destroyed = False,
            so_data = None, so_reading = False, so_id = oid, so_version = version, so_seq = seq,
            so_protocol_name = protocol\<rparr>
      in (r, upd_client k (\<lambda>c. c\<lparr>sc_max_id := oid + 1,
            sc_conn := send_message (MNewObject (new_object_new seq oid)) (sc_conn c),
            sc_objects := sc_objects c @ [r]\<rparr>) (w\<lparr>sv_objects := sv_objects w @ [obj]\<rparr>)))"

definition on_bind :: "nat \<Rightarrow> ('h, 'd) server \<Rightarrow> ('h, 'd) prog" where
  "on_bind r w =
     (let obj = sv_objects w ! r;
          name = (case so_spec obj of Some spec \<Rightarrow> object_name spec | None \<Rightarrow> [])
      in case find_impl (sv_impls w) (so_protocol_name obj) of
           None \<Rightarrow> Finish
         | Some im \<Rightarrow>
             (case List.find (\<lambda>(n, _). n = name) (im_objects im) of
                None \<Rightarrow> Finish | Some (_, callback) \<Rightarrow> callback r))"

text \<open>\<open>ServerObject::create_object\<close>, up to \<open>on_bind\<close>.\<close>

definition object_create_object ::
    "nat \<Rightarrow> str \<Rightarrow> u32 \<Rightarrow> ('h, 'd) server \<Rightarrow> (nat \<times> ('h, 'd) server) option" where
  "object_create_object r name seq w =
     (let obj = sv_objects w ! r in
      if so_destroyed obj \<or> \<not> sc_alive (sv_client_heap w ! so_client obj) then None
      else Some (client_create_object (so_client obj) (so_protocol_name obj) name (so_version obj) seq w))"

text \<open>\<open>ServerObject::server_client\<close> with \<open>ServerClientState::handle\<close>.\<close>

definition object_client :: "nat \<Rightarrow> ('h, 'd) server \<Rightarrow> client_handle option" where
  "object_client r w =
     (let k = so_client (sv_objects w ! r); c = sv_client_heap w ! k in
      if sc_alive c then Some \<lparr>ch_id = sc_id c, ch_creds = k\<rparr> else None)"

text \<open>\<open>ServerClient::creds\<close>: \<open>unwrap\<close> of what the first dispatch may have set.\<close>

definition creds :: "server_client \<Rightarrow> (error, ucred) res" where
  "creds c = (case sc_creds c of Some cred \<Rightarrow> Ok cred | None \<Rightarrow> Panic)"

section \<open>Running callbacks\<close>

text \<open>A callback can only use references it has been given; any other index is ruled out by a panic.\<close>

partial_function (option) run ::
    "('h, 'd) prog \<Rightarrow> ('h, 'd) server \<Rightarrow> (error, unit, ('h, 'd) server) eff" where
  "run p w =
     (case p of
        Finish \<Rightarrow> Some (Ok (), w)
      | Crash \<Rightarrow> Some (Panic, w)
      | GetApp k \<Rightarrow> run (k (sv_app w)) w
      | SetApp d k \<Rightarrow> run k (w\<lparr>sv_app := d\<rparr>)
      | Call r i args k \<Rightarrow>
          (if r < length (sv_objects w) then
             (case server_call r i args w of Ok (v, w') \<Rightarrow> run (k v) w' | _ \<Rightarrow> Some (Panic, w))
           else Some (Panic, w))
      | RaiseError r i msg k \<Rightarrow>
          (if r < length (sv_objects w) then
             (case server_error r i msg w of Ok w' \<Rightarrow> run k w' | _ \<Rightarrow> Some (Panic, w))
           else Some (Panic, w))
      | CreateObject r name seq k \<Rightarrow>
          (if r < length (sv_objects w) then
             (case object_create_object r name seq w of
                None \<Rightarrow> run (k None) w
              | Some (new, w') \<Rightarrow>
                  bind_eff (run (on_bind new w') w') (\<lambda>_ w''. run (k (Some new)) w''))
           else Some (Panic, w))
      | SetData r h k \<Rightarrow>
          (if r < length (sv_objects w) then
             (if so_reading (sv_objects w ! r) then None else run k (set_object_data r h w))
           else Some (Panic, w))
      | GetClient r k \<Rightarrow>
          (if r < length (sv_objects w) then run (k (object_client r w)) w else Some (Panic, w))
      | ReadCreds c k \<Rightarrow>
          (if c < length (sv_client_heap w) then
             (case creds (sv_client_heap w ! c) of Ok cred \<Rightarrow> run (k cred) w | _ \<Rightarrow> Some (Panic, w))
           else Some (Panic, w)))"

text \<open>
  \<open>ServerObject::dispatch\<close>: the lock on the object's data is held while the callback runs. The
  argument \<open>disp\<close> is \<open>ObjectData::dispatch\<close> of the application.
\<close>

type_synonym ('h, 'd) dispatcher = "'h \<Rightarrow> u32 \<Rightarrow> bytes \<Rightarrow> i32 list \<Rightarrow> 'd \<Rightarrow> ('h, 'd) prog"

definition object_dispatch ::
    "('h, 'd) dispatcher \<Rightarrow> nat \<Rightarrow> u32 \<Rightarrow> bytes \<Rightarrow> i32 list \<Rightarrow> ('h, 'd) server \<Rightarrow>
       (error, unit, ('h, 'd) server) eff" where
  "object_dispatch disp r i data fds w =
     (case so_data (sv_objects w ! r) of
        None \<Rightarrow> Some (Ok (), w)
      | Some h \<Rightarrow>
          bind_eff (run (disp h i data fds (sv_app w)) (upd_object r (\<lambda>obj. obj\<lparr>so_reading := True\<rparr>) w))
            (\<lambda>_ w'. Some (Ok (), upd_object r (\<lambda>obj. obj\<lparr>so_reading := False\<rparr>) w')))"

section \<open>Clients\<close>

definition dispatch_first_poll :: "nat \<Rightarrow> ('h, 'd) server \<Rightarrow> ('h, 'd) server" where
  "dispatch_first_poll k =
     upd_client k (\<lambda>c. if sc_first_poll_done c then c
       else c\<lparr>sc_first_poll_done := True,
         sc_creds := (case sc_peer c of Some cred \<Rightarrow> Some cred | None \<Rightarrow> sc_creds c)\<rparr>)"

definition destroy_object :: "nat \<Rightarrow> u32 \<Rightarrow> ('h, 'd) server \<Rightarrow> ('h, 'd) server" where
  "destroy_object k i w =
     upd_client k (\<lambda>c. c\<lparr>sc_objects := filter (\<lambda>r. so_id (sv_objects w ! r) \<noteq> i) (sc_objects c)\<rparr>) w"

definition find_object :: "nat \<Rightarrow> u32 \<Rightarrow> ('h, 'd) server \<Rightarrow> nat option" where
  "find_object k i w =
     List.find (\<lambda>r. so_id (sv_objects w ! r) = i) (sc_objects (sv_client_heap w ! k))"

definition unknown_object_msg :: "u32 \<Rightarrow> str" where
  "unknown_object_msg i = ascii ''generic message references unknown object '' @ show_u32 i"

definition is_destructor :: "method_spec list \<Rightarrow> u32 \<Rightarrow> bool" where
  "is_destructor methods i =
     (case get methods (unat i) of Some m \<Rightarrow> destructor m | None \<Rightarrow> False)"

definition on_generic ::
    "('h, 'd) dispatcher \<Rightarrow> nat \<Rightarrow> generic_message \<Rightarrow> ('h, 'd) server \<Rightarrow>
       (error, unit, ('h, 'd) server) eff" where
  "on_generic disp k msg w =
     (case find_object k (gm_object msg) w of
        Some r \<Rightarrow>
          bind_eff (lift_res (data_span msg) w) (\<lambda>span w.
          bind_eff (object_dispatch disp r (gm_method msg) span (gm_fds msg) w) (\<lambda>_ w.
            let obj = sv_objects w ! r in
            Some (Ok (),
              if is_destructor (case so_spec obj of Some spec \<Rightarrow> c2s spec | None \<Rightarrow> []) (gm_method msg)
              then
                (let w' = mark_destroyed r w in
                 if so_id obj \<noteq> 0 \<and> sc_alive (sv_client_heap w' ! so_client obj)
                 then destroy_object (so_client obj) (so_id obj) w' else w')
              else w)))
      | None \<Rightarrow>
          bind_eff (lift_res
              (fatal_protocol_error_new (gm_object msg) (- 1) (unknown_object_msg (gm_object msg))) w)
            (\<lambda>fatal w. Some (Ok (), upd_conn k (set_error \<circ> send_message (MFatal fatal)) w)))"

definition disconnect_method :: "'h server_object \<Rightarrow> method_spec option" where
  "disconnect_method obj =
     (case so_spec obj of
        None \<Rightarrow> None
      | Some spec \<Rightarrow>
          List.find (\<lambda>m. destructor m \<and> method_params m = [] \<and> returns_type m = []) (c2s spec))"

definition destroy_for_disconnect ::
    "('h, 'd) dispatcher \<Rightarrow> nat \<Rightarrow> ('h, 'd) server \<Rightarrow> (error, unit, ('h, 'd) server) eff" where
  "destroy_for_disconnect disp r w =
     (let obj = sv_objects w ! r in
      if so_destroyed obj then Some (Ok (), w)
      else case disconnect_method obj of
        None \<Rightarrow> Some (Ok (), w)
      | Some m \<Rightarrow>
          bind_eff (object_dispatch disp r (method_idx m) [] [] w) (\<lambda>_ w.
            Some (Ok (), mark_destroyed r w)))"

fun disconnect_loop ::
    "('h, 'd) dispatcher \<Rightarrow> nat list \<Rightarrow> ('h, 'd) server \<Rightarrow> (error, unit, ('h, 'd) server) eff" where
  "disconnect_loop disp [] w = Some (Ok (), w)"
| "disconnect_loop disp (r # rs) w =
     bind_eff (destroy_for_disconnect disp r w) (\<lambda>_ w. disconnect_loop disp rs w)"

definition destroy_objects_for_disconnect ::
    "('h, 'd) dispatcher \<Rightarrow> nat \<Rightarrow> ('h, 'd) server \<Rightarrow> (error, unit, ('h, 'd) server) eff" where
  "destroy_objects_for_disconnect disp k w =
     bind_eff (disconnect_loop disp (rev (sc_objects (sv_client_heap w ! k))) w) (\<lambda>_ w.
       Some (Ok (), upd_client k (\<lambda>c. c\<lparr>sc_objects := []\<rparr>) w))"

end
