(* ===== verification/Client_State.thy ===== *)
theory Client_State
  imports Wire_Object
begin

text \<open>
  The client's objects and its socket: \<open>hyprwire/src/client/client_object.rs\<close>,
  \<open>hyprwire/src/client/client_socket.rs\<close> and \<open>hyprwire/src/client/server_spec.rs\<close>.

  \<^item> The client's memory is a record with a heap of objects and one of event queues; a reference is an
    index. \<open>cl_objects\<close> is the table \<open>ClientSocket::objects\<close>; \<open>co_refs\<close> counts the strong references to
    an object outside the table, so \<open>Arc::strong_count(obj) <= 1\<close> for an object of the table is
    \<open>co_refs obj = 0\<close>, and an object is dropped when it has neither.
  \<^item> The lock of the table while \<open>retain\<close> runs (\<open>cl_locked\<close>), the mutex of an event queue (\<open>eq_locked\<close>) and
    the lock of an object's data during a dispatch (\<open>co_reading\<close>) are flags; an operation of the same
    thread that needs one of them does not return, and its result is \<open>None\<close>.
  \<^item> What a callback does is a \<open>cprog\<close>, a tree of the operations a client's callback has: those of
    \<open>trait Object\<close>, the lookups of \<open>Client\<close>, and cloning and dropping references.
\<close>

section \<open>State\<close>

datatype ('h, 'd) cprog =
    CFinish
  | CCrash
  | CSetApp 'd "('h, 'd) cprog"
  | CCall nat u32 "call_arg list" "u32 \<Rightarrow> ('h, 'd) cprog"
  | CSetData nat 'h "('h, 'd) cprog"
  | CObjectForSeq u32 "nat option \<Rightarrow> ('h, 'd) cprog"
  | CObjectForId u32 "nat option \<Rightarrow> ('h, 'd) cprog"
  | CHold nat "('h, 'd) cprog"
  | CRelease nat "('h, 'd) cprog"

record advertised_spec =
  adv_name :: str
  adv_version :: u32

record 'h client_object =
  co_spec :: "object_spec option"
  co_id :: u32
  co_version :: u32
  co_seq :: u32
  co_protocol_name :: str
  co_data :: "'h option"
  co_reading :: bool
  co_destroyed :: bool
  co_queue :: nat
  co_refs :: nat

record event_queue =
  eq_queue :: "generic_message list"
  eq_sent :: u32
  eq_ackd :: u32
  eq_locked :: bool
  eq_alive :: bool

record ('h, 'd) client =
  cl_impls :: "protocol_spec list"
  cl_specs :: "advertised_spec list"
  cl_objects :: "nat list"
  cl_heap :: "'h client_object list"
  cl_handshake_done :: bool
  cl_seq :: u32
  cl_conn :: conn
  cl_queues :: "event_queue list"
  cl_locked :: bool
  cl_alive :: bool
  cl_app :: 'd

text \<open>\<open>ClientSocket::new\<close>: the first message is \<open>Hello\<close>. \<open>EventQueue::new\<close>.\<close>

definition client_new :: "'d \<Rightarrow> ('h, 'd) client" where
  "client_new app =
     \<lparr>cl_impls = [], cl_specs = [], cl_objects = [], cl_heap = [], cl_handshake_done = False,
      cl_seq = 0, cl_conn = send_message (MSup hello_new) conn_new, cl_queues = [], cl_locked = False,
      cl_alive = True, cl_app = app\<rparr>"

text \<open>
  \<open>ClientSocket::connect\<close>: whether the stream connects, whether it can be made non-blocking, and whether the poller is
  made and takes it. \<open>ClientSocket::from_fd\<close> begins with a stream.
\<close>

definition client_from_fd :: "bool \<Rightarrow> bool \<Rightarrow> 'd \<Rightarrow> (hw_error, ('h, 'd) client) res" where
  "client_from_fd nonblocking polled app =
     (if \<not> nonblocking then Err Io else if \<not> polled then Err Io else Ok (client_new app))"

definition client_connect :: "bool \<Rightarrow> bool \<Rightarrow> bool \<Rightarrow> 'd \<Rightarrow> (hw_error, ('h, 'd) client) res" where
  "client_connect connected nonblocking polled app =
     (if \<not> connected then Err Io else client_from_fd nonblocking polled app)"

definition event_queue_new :: event_queue where
  "event_queue_new = \<lparr>eq_queue = [], eq_sent = 0, eq_ackd = 0, eq_locked = False, eq_alive = True\<rparr>"

definition new_event_queue :: "('h, 'd) client \<Rightarrow> nat \<times> ('h, 'd) client" where
  "new_event_queue w =
     (length (cl_queues w), w\<lparr>cl_queues := cl_queues w @ [event_queue_new]\<rparr>)"

definition client_add_implementation :: "protocol_spec \<Rightarrow> ('h, 'd) client \<Rightarrow> ('h, 'd) client" where
  "client_add_implementation im w = w\<lparr>cl_impls := cl_impls w @ [im]\<rparr>"

definition upd_cobj ::
    "nat \<Rightarrow> ('h client_object \<Rightarrow> 'h client_object) \<Rightarrow> ('h, 'd) client \<Rightarrow> ('h, 'd) client" where
  "upd_cobj r f w = w\<lparr>cl_heap := (cl_heap w)[r := f (cl_heap w ! r)]\<rparr>"

definition upd_queue ::
    "nat \<Rightarrow> (event_queue \<Rightarrow> event_queue) \<Rightarrow> ('h, 'd) client \<Rightarrow> ('h, 'd) client" where
  "upd_queue q f w = w\<lparr>cl_queues := (cl_queues w)[q := f (cl_queues w ! q)]\<rparr>"

definition upd_cconn :: "(conn \<Rightarrow> conn) \<Rightarrow> ('h, 'd) client \<Rightarrow> ('h, 'd) client" where
  "upd_cconn f w = w\<lparr>cl_conn := f (cl_conn w)\<rparr>"

text \<open>\<open>disconnect_on_error\<close>.\<close>

definition disconnect_on_error :: "('h, 'd) client \<Rightarrow> ('h, 'd) client" where
  "disconnect_on_error = upd_cconn (shutdown_conn \<circ> set_error)"

section \<open>Looking up\<close>

definition object_for_id :: "u32 \<Rightarrow> ('h, 'd) client \<Rightarrow> nat option" where
  "object_for_id i w = List.find (\<lambda>r. co_id (cl_heap w ! r) = i) (cl_objects w)"

definition object_for_seq :: "u32 \<Rightarrow> ('h, 'd) client \<Rightarrow> nat option" where
  "object_for_seq s w = List.find (\<lambda>r. co_seq (cl_heap w ! r) = s) (cl_objects w)"

definition get_spec :: "str \<Rightarrow> ('h, 'd) client \<Rightarrow> advertised_spec option" where
  "get_spec name w = List.find (\<lambda>s. adv_name s = name) (cl_specs w)"

text \<open>
  \<open>server_specs\<close>: each name is cut at its last at sign and the version parsed; a name that has none, or
  no version after it, is skipped.
\<close>

definition parse_spec :: "str \<Rightarrow> advertised_spec option" where
  "parse_spec spec =
     (case rfind 64 spec of
        None \<Rightarrow> None
      | Some at_pos \<Rightarrow>
          (case parse_u32 (drop (at_pos + 1) spec) of
             None \<Rightarrow> None
           | Some version \<Rightarrow> Some \<lparr>adv_name = take at_pos spec, adv_version = version\<rparr>))"

definition server_specs :: "str list \<Rightarrow> ('h, 'd) client \<Rightarrow> ('h, 'd) client" where
  "server_specs specs w = w\<lparr>cl_specs := cl_specs w @ List.map_filter parse_spec specs\<rparr>"

definition on_seq :: "u32 \<Rightarrow> u32 \<Rightarrow> ('h, 'd) client \<Rightarrow> ('h, 'd) client" where
  "on_seq s i w =
     (case object_for_seq s w of
        Some r \<Rightarrow> upd_cobj r (\<lambda>obj. obj\<lparr>co_id := i\<rparr>) w
      | None \<Rightarrow> w)"

section \<open>Making objects\<close>

text \<open>
  \<open>seq.fetch_add(1) + 1\<close>: the counter wraps in every build, the addition after it panics when the
  build has overflow checks.
\<close>

definition seq_left :: "profile \<Rightarrow> ('h, 'd) client \<Rightarrow> bool" where
  "seq_left pr w \<longleftrightarrow> \<not> (cl_seq w = - 1 \<and> pr = Debug)"

definition next_seq :: "profile \<Rightarrow> ('h, 'd) client \<Rightarrow> ('e, u32) res" where
  "next_seq pr w = succ_u32 pr (cl_seq w)"

lemma next_seq_Ok: "next_seq pr w = Ok s \<longleftrightarrow> seq_left pr w \<and> s = cl_seq w + 1"
  by (auto simp: next_seq_def succ_u32_def seq_left_def)

definition take_seq :: "('h, 'd) client \<Rightarrow> ('h, 'd) client" where
  "take_seq w = w\<lparr>cl_seq := cl_seq w + 1\<rparr>"

definition push_object :: "'h client_object \<Rightarrow> ('h, 'd) client \<Rightarrow> ('h, 'd) client" where
  "push_object obj w =
     w\<lparr>cl_heap := cl_heap w @ [obj], cl_objects := cl_objects w @ [length (cl_heap w)]\<rparr>"

definition fresh_object :: "object_spec \<Rightarrow> str \<Rightarrow> u32 \<Rightarrow> u32 \<Rightarrow> nat \<Rightarrow> nat \<Rightarrow> 'h client_object" where
  "fresh_object spec protocol version s q refs =
     \<lparr>co_spec = Some spec, co_id = 0, co_version = version, co_seq = s, co_protocol_name = protocol,
      co_data = None, co_reading = False, co_destroyed = False, co_queue = q, co_refs = refs\<rparr>"

definition client_find_spec :: "protocol_spec list \<Rightarrow> str \<Rightarrow> str \<Rightarrow> object_spec option" where
  "client_find_spec impls protocol name =
     (case List.find (\<lambda>im. spec_name im = protocol) impls of
        None \<Rightarrow> None
      | Some im \<Rightarrow> List.find (\<lambda>s. object_name s = name) (spec_objects im))"

text \<open>\<open>make_object\<close>; its callers drop the reference it returns.\<close>

definition make_object ::
    "str \<Rightarrow> str \<Rightarrow> u32 \<Rightarrow> nat \<Rightarrow> ('h, 'd) client \<Rightarrow> (error, nat, ('h, 'd) client) eff" where
  "make_object protocol name s q w =
     (case client_find_spec (cl_impls w) protocol name of
        None \<Rightarrow> Some (Err NoSpec, w)
      | Some spec \<Rightarrow>
          if cl_locked w then None
          else Some (Ok (length (cl_heap w)), push_object (fresh_object spec protocol 0 s q 0) w))"

section \<open>Calls\<close>

definition client_methods_out :: "'h client_object \<Rightarrow> method_spec list" where
  "client_methods_out obj = (case co_spec obj of Some spec \<Rightarrow> c2s spec | None \<Rightarrow> [])"

definition client_mark_destroyed :: "nat \<Rightarrow> ('h, 'd) client \<Rightarrow> ('h, 'd) client" where
  "client_mark_destroyed r = upd_cobj r (\<lambda>obj. obj\<lparr>co_destroyed := True\<rparr>)"

text \<open>
  The end of \<open>WireObject::call\<close> on a client: a message of an object without an id waits in the object's
  event queue, any other is sent; a method with a return type then makes the object it returns.
  \<open>ClientObject::call\<close> logs an error and returns 0.
\<close>

definition client_deliver ::
    "nat \<Rightarrow> generic_message \<Rightarrow> u32 \<Rightarrow> str \<Rightarrow> ('h, 'd) client \<Rightarrow> (error, u32, ('h, 'd) client) eff" where
  "client_deliver r msg return_seq rtype w =
     (let obj = cl_heap w ! r; q = co_queue obj; eq = cl_queues w ! q in
      if co_id obj = 0 then
        if \<not> eq_alive eq then Some (Err MalformedMessage, w)
        else if eq_locked eq then None
        else
          let w = upd_queue q (\<lambda>eq. eq\<lparr>eq_queue := eq_queue eq @ [set_depends_on_seq (co_seq obj) msg]\<rparr>) w in
          if return_seq \<noteq> 0 then
            if cl_alive w then
              bind_eff (make_object (co_protocol_name obj) rtype return_seq q w) (\<lambda>_ w.
                Some (Ok return_seq, w))
            else Some (Ok return_seq, w)
          else Some (Ok 0, w)
      else
        let w = upd_cconn (send_message (MGeneric msg)) w in
        if return_seq \<noteq> 0 \<and> cl_alive w then
          if \<not> eq_alive eq then Some (Err MalformedMessage, w)
          else
            bind_eff (make_object (co_protocol_name obj) rtype return_seq q w) (\<lambda>_ w.
              Some (Ok return_seq, w))
        else Some (Ok 0, w))"

definition logged :: "(error, u32, 'w) eff \<Rightarrow> (error, u32, 'w) eff" where
  "logged m = map_option (\<lambda>(r, w). (case r of Err _ \<Rightarrow> Ok 0 | _ \<Rightarrow> r, w)) m"

definition call_effects :: "nat \<Rightarrow> bool \<Rightarrow> bool \<Rightarrow> ('h, 'd) client \<Rightarrow> ('h, 'd) client" where
  "call_effects r dtor takes_seq w =
     (let w = (if dtor then client_mark_destroyed r w else w)
      in if takes_seq then take_seq w else w)"

definition client_call ::
    "profile \<Rightarrow> nat \<Rightarrow> u32 \<Rightarrow> call_arg list \<Rightarrow> ('h, 'd) client \<Rightarrow> (error, u32, ('h, 'd) client) eff" where
  "client_call pr r i args w =
     (let obj = cl_heap w ! r;
          methods = client_methods_out obj;
          rtype = returns_type (methods ! unat i);
          takes_seq = (rtype \<noteq> [] \<and> cl_alive w);
          seq = (if cl_alive w then Some (cl_seq w + 1) else None)
      in logged (bind_eff (lift_res (wire_call False methods (co_id obj) (co_version obj) seq i args) w)
        (\<lambda>outcome w. case outcome of
           CallRefused msg \<Rightarrow> Some (Ok 0, w)
         | CallUnmarshalled dtor _ \<Rightarrow>
             bind_eff (lift_res (if takes_seq then next_seq pr w else Ok 0) w) (\<lambda>_ w.
               Some (Ok 0, upd_cconn set_error (call_effects r dtor takes_seq w)))
         | CallMessage dtor return_seq data fds \<Rightarrow>
             bind_eff (lift_res (if takes_seq then next_seq pr w else Ok 0) w) (\<lambda>_ w.
               client_deliver r (generic_message_new data fds) return_seq rtype
                 (call_effects r dtor takes_seq w)))))"

section \<open>Dropping objects\<close>

text \<open>\<open>ClientObject::drop\<close>: the protocol's destructor is called if the object has one that can be.\<close>

definition drop_method :: "'h client_object \<Rightarrow> method_spec option" where
  "drop_method obj =
     (case List.find (\<lambda>m. destructor m \<and> since m \<le> co_version obj) (client_methods_out obj) of
        None \<Rightarrow> None
      | Some m \<Rightarrow> if returns_type m \<noteq> [] then None else if method_params m \<noteq> [] then None else Some m)"

definition drop_object :: "profile \<Rightarrow> nat \<Rightarrow> ('h, 'd) client \<Rightarrow> (error, unit, ('h, 'd) client) eff" where
  "drop_object pr r w =
     (let obj = cl_heap w ! r in
      if \<not> co_destroyed obj \<and> co_id obj \<noteq> 0 \<and> co_spec obj \<noteq> None \<and> cl_alive w then
        (case drop_method obj of
           None \<Rightarrow> Some (Ok (), w)
         | Some m \<Rightarrow> bind_eff (client_call pr r (method_idx m) [] w) (\<lambda>_ w. Some (Ok (), w)))
      else Some (Ok (), w))"

fun drop_all :: "profile \<Rightarrow> nat list \<Rightarrow> ('h, 'd) client \<Rightarrow> (error, unit, ('h, 'd) client) eff" where
  "drop_all pr [] w = Some (Ok (), w)"
| "drop_all pr (r # rs) w = bind_eff (drop_object pr r w) (\<lambda>_ w. drop_all pr rs w)"

text \<open>
  \<open>objects.write().retain(keep)\<close>: the objects that leave the table and have no other reference are
  dropped while the table is locked.
\<close>

definition retain ::
    "profile \<Rightarrow> ('h client_object \<Rightarrow> bool) \<Rightarrow> ('h, 'd) client \<Rightarrow> (error, unit, ('h, 'd) client) eff" where
  "retain pr keep w =
     (let gone = filter (\<lambda>r. \<not> keep (cl_heap w ! r)) (cl_objects w);
          left = filter (\<lambda>r. keep (cl_heap w ! r)) (cl_objects w);
          dropped = filter (\<lambda>r. co_refs (cl_heap w ! r) = 0) gone
      in bind_eff (drop_all pr dropped (w\<lparr>cl_objects := left, cl_locked := True\<rparr>)) (\<lambda>_ w.
           Some (Ok (), w\<lparr>cl_locked := False\<rparr>)))"

definition client_destroy_object ::
    "profile \<Rightarrow> u32 \<Rightarrow> ('h, 'd) client \<Rightarrow> (error, unit, ('h, 'd) client) eff" where
  "client_destroy_object pr i = retain pr (\<lambda>obj. co_id obj \<noteq> i)"

definition collect_orphaned_objects ::
    "profile \<Rightarrow> ('h, 'd) client \<Rightarrow> (error, unit, ('h, 'd) client) eff" where
  "collect_orphaned_objects pr = retain pr (\<lambda>obj. co_id obj = 0 \<or> co_refs obj \<noteq> 0)"

text \<open>Cloning a reference, and dropping one that is not the table's.\<close>

definition hold_object :: "nat \<Rightarrow> ('h, 'd) client \<Rightarrow> ('h, 'd) client" where
  "hold_object r = upd_cobj r (\<lambda>obj. obj\<lparr>co_refs := co_refs obj + 1\<rparr>)"

definition release_object :: "profile \<Rightarrow> nat \<Rightarrow> ('h, 'd) client \<Rightarrow> (error, unit, ('h, 'd) client) eff" where
  "release_object pr r w =
     (let w = upd_cobj r (\<lambda>obj. obj\<lparr>co_refs := co_refs obj - 1\<rparr>) w in
      if co_refs (cl_heap w ! r) = 0 \<and> r \<notin> set (cl_objects w) then drop_object pr r w
      else Some (Ok (), w))"

section \<open>Running callbacks\<close>

text \<open>A callback can only use references it has been given; any other index is ruled out by a panic.\<close>

definition client_set_data :: "nat \<Rightarrow> 'h \<Rightarrow> ('h, 'd) client \<Rightarrow> ('h, 'd) client" where
  "client_set_data r h = upd_cobj r (\<lambda>obj. obj\<lparr>co_data := Some h\<rparr>)"

definition hold_found :: "nat option \<Rightarrow> ('h, 'd) client \<Rightarrow> ('h, 'd) client" where
  "hold_found x w = (case x of Some r \<Rightarrow> hold_object r w | None \<Rightarrow> w)"

primrec run_client ::
    "profile \<Rightarrow> ('h, 'd) cprog \<Rightarrow> ('h, 'd) client \<Rightarrow> (error, unit, ('h, 'd) client) eff" where
  "run_client pr CFinish w = Some (Ok (), w)"
| "run_client pr CCrash w = Some (Panic, w)"
| "run_client pr (CSetApp d k) w = run_client pr k (w\<lparr>cl_app := d\<rparr>)"
| "run_client pr (CCall r i args k) w =
     (if r < length (cl_heap w) then
        bind_eff (client_call pr r i args w) (\<lambda>v w. run_client pr (k v) w)
      else Some (Panic, w))"
| "run_client pr (CSetData r h k) w =
     (if r < length (cl_heap w) then
        (if co_reading (cl_heap w ! r) then None else run_client pr k (client_set_data r h w))
      else Some (Panic, w))"
| "run_client pr (CObjectForSeq s k) w =
     run_client pr (k (object_for_seq s w)) (hold_found (object_for_seq s w) w)"
| "run_client pr (CObjectForId i k) w =
     run_client pr (k (object_for_id i w)) (hold_found (object_for_id i w) w)"
| "run_client pr (CHold r k) w =
     (if r < length (cl_heap w) then run_client pr k (hold_object r w) else Some (Panic, w))"
| "run_client pr (CRelease r k) w =
     (if r < length (cl_heap w) \<and> 0 < co_refs (cl_heap w ! r) then
        bind_eff (release_object pr r w) (\<lambda>_ w. run_client pr k w)
      else Some (Panic, w))"

type_synonym ('h, 'd) client_dispatcher = "'h \<Rightarrow> u32 \<Rightarrow> bytes \<Rightarrow> i32 list \<Rightarrow> 'd \<Rightarrow> ('h, 'd) cprog"

definition client_object_dispatch ::
    "profile \<Rightarrow> ('h, 'd) client_dispatcher \<Rightarrow> nat \<Rightarrow> u32 \<Rightarrow> bytes \<Rightarrow> i32 list \<Rightarrow> ('h, 'd) client \<Rightarrow>
       (error, unit, ('h, 'd) client) eff" where
  "client_object_dispatch pr disp r i data fds w =
     (case co_data (cl_heap w ! r) of
        None \<Rightarrow> Some (Ok (), w)
      | Some h \<Rightarrow>
          bind_eff (run_client pr (disp h i data fds (cl_app w))
              (upd_cobj r (\<lambda>obj. obj\<lparr>co_reading := True\<rparr>) w))
            (\<lambda>_ w. Some (Ok (), upd_cobj r (\<lambda>obj. obj\<lparr>co_reading := False\<rparr>) w)))"

text \<open>\<open>ClientSocket::on_generic\<close>; it holds a reference to the object it dispatches to.\<close>

definition client_is_destructor :: "'h client_object \<Rightarrow> u32 \<Rightarrow> bool" where
  "client_is_destructor obj i =
     (case co_spec obj of
        None \<Rightarrow> False
      | Some spec \<Rightarrow> (case get (s2c spec) (unat i) of Some m \<Rightarrow> destructor m | None \<Rightarrow> False))"

definition client_on_generic ::
    "profile \<Rightarrow> ('h, 'd) client_dispatcher \<Rightarrow> generic_message \<Rightarrow> ('h, 'd) client \<Rightarrow>
       (error, unit, ('h, 'd) client) eff" where
  "client_on_generic pr disp msg w =
     (case object_for_id (gm_object msg) w of
        Some r \<Rightarrow>
          let w = hold_object r w in
          bind_eff (lift_res (data_span msg) w) (\<lambda>span w.
          bind_eff (client_object_dispatch pr disp r (gm_method msg) span (gm_fds msg) w) (\<lambda>_ w.
          bind_eff
            (if client_is_destructor (cl_heap w ! r) (gm_method msg) then
               let w = client_mark_destroyed r w; i = co_id (cl_heap w ! r) in
               if i \<noteq> 0 then client_destroy_object pr i w else Some (Ok (), w)
             else Some (Ok (), w))
            (\<lambda>_ w. release_object pr r w)))
      | None \<Rightarrow> Some (Ok (), disconnect_on_error w))"

section \<open>Binding\<close>

text \<open>
  \<open>bind_protocol\<close>, with the name, the objects and the version of the spec. The caller holds the new
  object.
\<close>

definition bind_protocol_message :: "str \<Rightarrow> u32 \<Rightarrow> u32 \<Rightarrow> (hw_error, bind_protocol) res" where
  "bind_protocol_message name seq version =
     (case bind_protocol_new name seq version of
        Ok msg \<Rightarrow> Ok msg | Err e \<Rightarrow> Err (hw_error_from e) | Panic \<Rightarrow> Panic)"

definition client_bind_protocol ::
    "profile \<Rightarrow> nat \<Rightarrow> protocol_spec \<Rightarrow> u32 \<Rightarrow> ('h, 'd) client \<Rightarrow>
       (hw_error, nat, ('h, 'd) client) eff" where
  "client_bind_protocol pr q spec version w =
     (if version > spec_ver spec then Some (Err (VersionOutOfRange version (spec_ver spec)), w)
      else case spec_objects spec of
        [] \<Rightarrow> Some (Err (ProtocolViolation NoSpec), w)
      | ospec # _ \<Rightarrow>
          bind_eff (lift_res (next_seq pr w) w) (\<lambda>seq w.
          if cl_locked w then None else
          let w' = push_object (fresh_object ospec (spec_name spec) version seq q 1) (take_seq w) in
          bind_eff (lift_res (bind_protocol_message (spec_name spec) seq version) w') (\<lambda>msg w'.
            Some (Ok (length (cl_heap w)), upd_cconn (send_message (MBindProtocol msg)) w'))))"

end
