(* ===== verification/Generated_Code.thy ===== *)
theory Generated_Code
  imports Scanner_Types Server_State Client_State
begin

text \<open>
  What the code does that \<open>hyprwire-scanner/src/generate.rs\<close> generates. The scanner writes, for every
  method of a protocol, a \<open>send_\<close> function that turns typed arguments into \<open>CallArg\<close>s
  (\<open>call_arg_expr\<close>, \<open>build_call_body\<close>), and an arm of \<open>ObjectData::dispatch\<close> that reads the arguments of an
  incoming call out of its bytes (\<open>write_parse_arg\<close>, \<open>write_object_data_impl\<close>). The definitions below are the
  meaning of the quoted code: they run it on values instead of printing it.

  \<^item> A slice out of range, an \<open>unwrap\<close> of nothing, an overflow in a checked build and a \<open>with_capacity\<close>
    beyond \<open>isize::MAX\<close> bytes are \<open>Panic\<close>. A smaller allocation is taken to succeed.
  \<^item> A descriptor stands for itself on both ends. The numbers of \<open>f32\<close> are their bits.
  \<^item> An argument of an enum type is the number of one of its values; the generated \<open>transmute\<close> of any other
    number has no defined result, and the model keeps the number.
\<close>

section \<open>Values\<close>

datatype gen_value =
    VString str | VFd i32 | VUint u32 | VInt i32 | VF32 f32 | VEnum u32
  | VStrings "str list" | VFds "i32 list" | VUints "u32 list" | VInts "i32 list" | VF32s "f32 list"

text \<open>The types of the fields and parameters: \<open>event_field_type\<close> and \<open>send_param_type\<close>. A string is UTF-8.\<close>

primrec value_has_type :: "arg_type \<Rightarrow> gen_value \<Rightarrow> bool" where
  "value_has_type TVarchar v = (case v of VString s \<Rightarrow> utf8_valid s | _ \<Rightarrow> False)"
| "value_has_type TFd v = (case v of VFd fd \<Rightarrow> (fd \<noteq> - 1) | _ \<Rightarrow> False)"
| "value_has_type TUint v = (case v of VUint w \<Rightarrow> True | _ \<Rightarrow> False)"
| "value_has_type TInt v = (case v of VInt w \<Rightarrow> True | _ \<Rightarrow> False)"
| "value_has_type TF32 v = (case v of VF32 w \<Rightarrow> True | _ \<Rightarrow> False)"
| "value_has_type TEnum v = (case v of VEnum w \<Rightarrow> True | _ \<Rightarrow> False)"
| "value_has_type TArrayVarchar v = (case v of VStrings ss \<Rightarrow> (\<forall>s \<in> set ss. utf8_valid s) | _ \<Rightarrow> False)"
| "value_has_type TArrayFd v = (case v of VFds fds \<Rightarrow> (- 1 \<notin> set fds) | _ \<Rightarrow> False)"
| "value_has_type TArrayUint v = (case v of VUints ws \<Rightarrow> True | _ \<Rightarrow> False)"
| "value_has_type TArrayInt v = (case v of VInts ws \<Rightarrow> True | _ \<Rightarrow> False)"
| "value_has_type TArrayF32 v = (case v of VF32s ws \<Rightarrow> True | _ \<Rightarrow> False)"

section \<open>Sending\<close>

text \<open>Of a value of another type there is no expression: such code does not compile.\<close>

primrec call_arg_expr :: "arg_type \<Rightarrow> gen_value \<Rightarrow> call_arg option" where
  "call_arg_expr TVarchar v = (case v of VString s \<Rightarrow> Some (ArgVarchar s) | _ \<Rightarrow> None)"
| "call_arg_expr TFd v = (case v of VFd fd \<Rightarrow> Some (ArgFd fd) | _ \<Rightarrow> None)"
| "call_arg_expr TUint v = (case v of VUint w \<Rightarrow> Some (ArgUint w) | _ \<Rightarrow> None)"
| "call_arg_expr TInt v = (case v of VInt w \<Rightarrow> Some (ArgInt w) | _ \<Rightarrow> None)"
| "call_arg_expr TF32 v = (case v of VF32 w \<Rightarrow> Some (ArgF32 w) | _ \<Rightarrow> None)"
| "call_arg_expr TEnum v = (case v of VEnum w \<Rightarrow> Some (ArgUint w) | _ \<Rightarrow> None)"
| "call_arg_expr TArrayVarchar v = (case v of VStrings ss \<Rightarrow> Some (ArgVarcharArray ss) | _ \<Rightarrow> None)"
| "call_arg_expr TArrayFd v = (case v of VFds fds \<Rightarrow> Some (ArgFdArray fds) | _ \<Rightarrow> None)"
| "call_arg_expr TArrayUint v = (case v of VUints ws \<Rightarrow> Some (ArgUintArray ws) | _ \<Rightarrow> None)"
| "call_arg_expr TArrayInt v = (case v of VInts ws \<Rightarrow> Some (ArgIntArray ws) | _ \<Rightarrow> None)"
| "call_arg_expr TArrayF32 v = (case v of VF32s ws \<Rightarrow> Some (ArgF32Array ws) | _ \<Rightarrow> None)"

definition build_call_args :: "arg list \<Rightarrow> gen_value list \<Rightarrow> call_arg list" where
  "build_call_args as vs = map2 (\<lambda>a v. the (call_arg_expr (arg_type a) v)) as vs"

section \<open>Reading arguments\<close>

text \<open>\<open>u32::from_le_bytes(__data[__needle..__needle + 4].try_into().unwrap()); __needle += 4;\<close>\<close>

definition gen_word :: "profile \<Rightarrow> bytes \<Rightarrow> usize \<Rightarrow> (error, u32 \<times> usize) res" where
  "gen_word pr data needle =
     bind_res (uadd pr needle 4) (\<lambda>stop.
     bind_res (slice_at data needle stop) (\<lambda>bs.
       Ok (from_le_bytes (bs ! 0) (bs ! 1) (bs ! 2) (bs ! 3), stop)))"

text \<open>A length, and a string after its length.\<close>

definition gen_len :: "profile \<Rightarrow> bytes \<Rightarrow> usize \<Rightarrow> (error, usize \<times> usize) res" where
  "gen_len pr data needle =
     bind_res (parse_var_int pr data needle) (\<lambda>(len, vl).
     bind_res (uadd pr needle vl) (\<lambda>needle. Ok (len, needle)))"

definition gen_string :: "profile \<Rightarrow> bytes \<Rightarrow> usize \<Rightarrow> (error, str \<times> usize) res" where
  "gen_string pr data needle =
     bind_res (gen_len pr data needle) (\<lambda>(len, needle).
     bind_res (uadd pr needle len) (\<lambda>stop.
     bind_res (slice_at data needle stop) (\<lambda>bs. Ok (from_utf8_lossy bs, stop))))"

text \<open>\<open>Vec::with_capacity\<close> of a number of elements of a size.\<close>

definition with_capacity :: "nat \<Rightarrow> usize \<Rightarrow> (error, unit) res" where
  "with_capacity elem count = (if count * elem \<le> isize_max then Ok () else Panic)"

text \<open>The loop \<open>for _ in 0..__count\<close>, and the start of an array.\<close>

fun gen_loop :: "(usize \<Rightarrow> (error, 'a \<times> usize) res) \<Rightarrow> nat \<Rightarrow> usize \<Rightarrow> (error, 'a list \<times> usize) res" where
  "gen_loop item 0 needle = Ok ([], needle)"
| "gen_loop item (Suc n) needle =
     bind_res (item needle) (\<lambda>(x, needle).
     bind_res (gen_loop item n needle) (\<lambda>(xs, needle). Ok (x # xs, needle)))"

definition gen_count :: "profile \<Rightarrow> nat \<Rightarrow> bytes \<Rightarrow> usize \<Rightarrow> (error, usize \<times> usize) res" where
  "gen_count pr elem data needle =
     bind_res (uadd pr needle 2) (\<lambda>needle.
     bind_res (gen_len pr data needle) (\<lambda>(count, needle).
     bind_res (with_capacity elem count) (\<lambda>_. Ok (count, needle))))"

definition gen_array ::
    "profile \<Rightarrow> nat \<Rightarrow> (usize \<Rightarrow> (error, 'a \<times> usize) res) \<Rightarrow> bytes \<Rightarrow> usize \<Rightarrow> (error, 'a list \<times> usize) res" where
  "gen_array pr elem item data needle =
     bind_res (gen_count pr elem data needle) (\<lambda>(count, needle). gen_loop item count needle)"

definition gen_scalar :: "profile \<Rightarrow> bytes \<Rightarrow> usize \<Rightarrow> (error, u32 \<times> usize) res" where
  "gen_scalar pr data needle = bind_res (uadd pr needle 1) (\<lambda>needle. gen_word pr data needle)"

text \<open>
  \<open>write_parse_arg\<close>: the state is the needle and what is left of the descriptors' iterator.
  \<open>OwnedFd::from_raw_fd\<close> panics on -1. An \<open>OwnedFd\<close> and the numbers have four bytes, a \<open>String\<close> has 24.
\<close>

type_synonym gen_state = "usize \<times> i32 list"

definition gen_returns :: "('a \<Rightarrow> gen_value) \<Rightarrow> i32 list \<Rightarrow> ('a \<times> usize) \<Rightarrow> gen_value \<times> gen_state" where
  "gen_returns mk fds x = (mk (fst x), snd x, fds)"

fun write_parse_arg ::
    "profile \<Rightarrow> bytes \<Rightarrow> arg_type \<Rightarrow> gen_state \<Rightarrow> (error, gen_value \<times> gen_state) res" where
  "write_parse_arg pr data TVarchar (needle, fds) =
     bind_res (uadd pr needle 1) (\<lambda>needle.
     bind_res (gen_string pr data needle) (Ok \<circ> gen_returns VString fds))"
| "write_parse_arg pr data TUint (needle, fds) =
     bind_res (gen_scalar pr data needle) (Ok \<circ> gen_returns VUint fds)"
| "write_parse_arg pr data TInt (needle, fds) =
     bind_res (gen_scalar pr data needle) (Ok \<circ> gen_returns VInt fds)"
| "write_parse_arg pr data TF32 (needle, fds) =
     bind_res (gen_scalar pr data needle) (Ok \<circ> gen_returns VF32 fds)"
| "write_parse_arg pr data TEnum (needle, fds) =
     bind_res (gen_scalar pr data needle) (Ok \<circ> gen_returns VEnum fds)"
| "write_parse_arg pr data TFd (needle, fds) =
     bind_res (uadd pr needle 1) (\<lambda>needle.
       case fds of
         [] \<Rightarrow> Panic
       | fd # fds' \<Rightarrow> if fd = - 1 then Panic else Ok (VFd fd, needle, fds'))"
| "write_parse_arg pr data TArrayVarchar (needle, fds) =
     bind_res (gen_array pr 24 (gen_string pr data) data needle) (Ok \<circ> gen_returns VStrings fds)"
| "write_parse_arg pr data TArrayFd (needle, fds) =
     bind_res (gen_count pr 4 data needle) (\<lambda>(count, needle).
       if - 1 \<in> set (take count fds) then Panic
       else Ok (VFds (take count fds), needle, drop count fds))"
| "write_parse_arg pr data TArrayUint (needle, fds) =
     bind_res (gen_array pr 4 (gen_word pr data) data needle) (Ok \<circ> gen_returns VUints fds)"
| "write_parse_arg pr data TArrayInt (needle, fds) =
     bind_res (gen_array pr 4 (gen_word pr data) data needle) (Ok \<circ> gen_returns VInts fds)"
| "write_parse_arg pr data TArrayF32 (needle, fds) =
     bind_res (gen_array pr 4 (gen_word pr data) data needle) (Ok \<circ> gen_returns VF32s fds)"

fun parse_args ::
    "profile \<Rightarrow> bytes \<Rightarrow> arg list \<Rightarrow> gen_state \<Rightarrow> (error, gen_value list) res" where
  "parse_args pr data [] s = Ok []"
| "parse_args pr data (a # as) s =
     bind_res (write_parse_arg pr data (arg_type a) s) (\<lambda>(v, s).
     bind_res (parse_args pr data as s) (\<lambda>vs. Ok (v # vs)))"

section \<open>Dispatching\<close>

text \<open>
  \<open>write_object_data_impl\<close>. An \<open>ObjectData\<close> is the object it belongs to and the type that was generated for
  it. The event carries the proxy, the method, the object that was created or the sequence number of a
  returning method, and the arguments. \<open>handler\<close> is the application's \<open>Dispatch::event\<close>.
\<close>

record gen_data =
  gd_object :: nat
  gd_name :: str

record gen_event =
  ge_object :: nat
  ge_method :: u32
  ge_returned :: "nat option"
  ge_seq :: "u32 option"
  ge_args :: "gen_value list"

text \<open>\<open>write_new_fn\<close>: \<open>new\<close> installs the data of the object's type on the object. Its use on the server.\<close>

definition write_new_fn :: "str \<Rightarrow> nat \<Rightarrow> (gen_data, 'd) prog \<Rightarrow> (gen_data, 'd) prog" where
  "write_new_fn name r k = SetData r \<lparr>gd_object = r, gd_name = name\<rparr> k"

text \<open>On the server a returning method creates its object first; without one the arm returns.\<close>

definition server_dispatch_arm ::
    "profile \<Rightarrow> (gen_event \<Rightarrow> 'd \<Rightarrow> (gen_data, 'd) prog) \<Rightarrow> nat \<Rightarrow> u32 \<Rightarrow> method_decl \<Rightarrow> bytes \<Rightarrow> i32 list \<Rightarrow> 'd \<Rightarrow>
       (gen_data, 'd) prog" where
  "server_dispatch_arm pr handler r i m data fds app =
     (let finish = (\<lambda>created s. case parse_args pr data (md_args m) s of
            Ok vs \<Rightarrow> handler \<lparr>ge_object = r, ge_method = i, ge_returned = created, ge_seq = None, ge_args = vs\<rparr> app
          | _ \<Rightarrow> Crash)
      in case md_returns m of
           None \<Rightarrow> finish None (0, fds)
         | Some returned \<Rightarrow>
             (case gen_scalar pr data 0 of
                Ok (seq, needle) \<Rightarrow>
                  CreateObject r returned seq (\<lambda>new. case new of
                    None \<Rightarrow> Finish
                  | Some n \<Rightarrow> write_new_fn returned n (finish (Some n) (needle, fds)))
              | _ \<Rightarrow> Crash))"

definition server_dispatch ::
    "profile \<Rightarrow> protocol \<Rightarrow> (gen_event \<Rightarrow> 'd \<Rightarrow> (gen_data, 'd) prog) \<Rightarrow> (gen_data, 'd) dispatcher" where
  "server_dispatch pr p handler h i data fds app =
     (case find_object_decl p (gd_name h) of
        None \<Rightarrow> Finish
      | Some obj \<Rightarrow>
          (case get (od_c2s obj) (unat i) of
             None \<Rightarrow> Finish
           | Some m \<Rightarrow> server_dispatch_arm pr handler (gd_object h) i m data fds app))"

text \<open>On the client the event carries the sequence number instead.\<close>

definition client_dispatch_arm ::
    "profile \<Rightarrow> (gen_event \<Rightarrow> 'd \<Rightarrow> (gen_data, 'd) cprog) \<Rightarrow> nat \<Rightarrow> u32 \<Rightarrow> method_decl \<Rightarrow> bytes \<Rightarrow> i32 list \<Rightarrow> 'd \<Rightarrow>
       (gen_data, 'd) cprog" where
  "client_dispatch_arm pr handler r i m data fds app =
     (let finish = (\<lambda>seq s. case parse_args pr data (md_args m) s of
            Ok vs \<Rightarrow> handler \<lparr>ge_object = r, ge_method = i, ge_returned = None, ge_seq = seq, ge_args = vs\<rparr> app
          | _ \<Rightarrow> CCrash)
      in case md_returns m of
           None \<Rightarrow> finish None (0, fds)
         | Some _ \<Rightarrow>
             (case gen_scalar pr data 0 of
                Ok (seq, needle) \<Rightarrow> finish (Some seq) (needle, fds)
              | _ \<Rightarrow> CCrash))"

definition client_dispatch ::
    "profile \<Rightarrow> protocol \<Rightarrow> (gen_event \<Rightarrow> 'd \<Rightarrow> (gen_data, 'd) cprog) \<Rightarrow> (gen_data, 'd) client_dispatcher" where
  "client_dispatch pr p handler h i data fds app =
     (case find_object_decl p (gd_name h) of
        None \<Rightarrow> CFinish
      | Some obj \<Rightarrow>
          (case get (od_s2c obj) (unat i) of
             None \<Rightarrow> CFinish
           | Some m \<Rightarrow> client_dispatch_arm pr handler (gd_object h) i m data fds app))"

section \<open>Sending and binding\<close>

text \<open>
  \<open>write_send_method\<close>, on the client, with what the application does with the result as the continuation: the
  call; for a method with a return type the object under the number it returned, with its data
  installed by \<open>from_object\<close>; for any other destructor the proxy is consumed, which drops its reference.
  On the server \<open>client_sock\<close> is absent, so there is never an object to return.
\<close>

definition client_send ::
    "nat \<Rightarrow> u32 \<Rightarrow> method_decl \<Rightarrow> gen_value list \<Rightarrow> (nat option \<Rightarrow> (gen_data, 'd) cprog) \<Rightarrow> (gen_data, 'd) cprog" where
  "client_send r i m vs k =
     CCall r i (build_call_args (md_args m) vs) (\<lambda>seq.
       case md_returns m of
         Some returned \<Rightarrow>
           CObjectForSeq seq (\<lambda>obj. case obj of
             Some n \<Rightarrow> CSetData n \<lparr>gd_object = n, gd_name = returned\<rparr> (k (Some n))
           | None \<Rightarrow> k None)
       | None \<Rightarrow> if md_destructor m then CRelease r (k None) else k None)"

definition server_send ::
    "nat \<Rightarrow> u32 \<Rightarrow> method_decl \<Rightarrow> gen_value list \<Rightarrow> (gen_data, 'd) prog \<Rightarrow> (gen_data, 'd) prog" where
  "server_send r i m vs k = Call r i (build_call_args (md_args m) vs) (\<lambda>_. k)"

text \<open>
  The part of \<open>generate_server\<close> that makes the protocol's implementation: only the first object's \<open>on_bind\<close>
  does something, it calls the handler's \<open>bind\<close>. The generator indexes the first object, and panics for a
  protocol that has none.
\<close>

definition generate_server ::
    "protocol \<Rightarrow> (nat \<Rightarrow> (gen_data, 'd) prog) \<Rightarrow> (error, (gen_data, 'd) server_impl) res" where
  "generate_server p bind =
     (case pt_objects p of
        [] \<Rightarrow> Panic
      | obj # rest \<Rightarrow> Ok \<lparr>im_spec = generate_spec p,
          im_objects = (od_name obj, \<lambda>r. write_new_fn (od_name obj) r (bind r)) #
            map (\<lambda>obj. (od_name obj, \<lambda>_. Finish)) rest\<rparr>)"

end
