(* ===== verification/Server_Invariant.thy ===== *)
theory Server_Invariant
  imports Server_State
begin

text \<open>
  What every operation of the server keeps. The locale \<open>server_relation\<close> is the contract of a relation
  between the states before and after a step; that running callbacks, dispatching and destroying
  objects stay within such a relation is proved once inside it. It is interpreted on
  \<open>server_le\<close> (objects keep their identity, connections never take anything back), the preservation
  of \<open>server_inv\<close> (the ids of a client's objects are 1, 2, 3, ... in the order of creation), and \<open>due_kept\<close> (no callback
  touches the round trip a client waits for).
\<close>

section \<open>The elementary steps\<close>

definition object_le :: "'h server_object \<Rightarrow> 'h server_object \<Rightarrow> bool" where
  "object_le a b \<longleftrightarrow> so_client b = so_client a \<and> so_spec b = so_spec a \<and> so_id b = so_id a \<and>
     so_version b = so_version a \<and> so_seq b = so_seq a \<and>
     so_protocol_name b = so_protocol_name a \<and> (so_destroyed a \<longrightarrow> so_destroyed b)"

definition client_le :: "server_client \<Rightarrow> server_client \<Rightarrow> bool" where
  "client_le a b \<longleftrightarrow> sc_id b = sc_id a \<and> sc_max_id b = sc_max_id a \<and> sc_peer b = sc_peer a \<and>
     (\<exists>P. sc_objects b = filter P (sc_objects a)) \<and> talks (sc_conn a) (sc_conn b) \<and>
     (sc_first_poll_done a \<longrightarrow> sc_first_poll_done b \<and> sc_creds b = sc_creds a) \<and>
     sc_alive b = sc_alive a \<and> sc_scheduled_roundtrip_seq b = sc_scheduled_roundtrip_seq a"

lemma object_le_refl [simp, intro]: "object_le a a"
  by (simp add: object_le_def)

lemma object_le_trans: "object_le a b \<Longrightarrow> object_le b c \<Longrightarrow> object_le a c"
  by (simp add: object_le_def)

lemma filter_True_ex: "\<exists>P. xs = filter P xs"
  by (rule exI[of _ "\<lambda>_. True"]) simp

lemma client_le_refl [simp, intro]: "client_le a a"
  by (simp add: client_le_def filter_True_ex)

lemma object_le_steps [simp]:
  "object_le a (a\<lparr>so_destroyed := True\<rparr>)" "object_le a (a\<lparr>so_data := d\<rparr>)"
  "object_le a (a\<lparr>so_reading := b\<rparr>)"
  by (simp_all add: object_le_def)

lemma client_le_conn: "talks (sc_conn c) (f (sc_conn c)) \<Longrightarrow> client_le c (c\<lparr>sc_conn := f (sc_conn c)\<rparr>)"
  by (simp add: client_le_def filter_True_ex)

lemma client_le_steps [simp]:
  "client_le c (c\<lparr>sc_objects := filter P (sc_objects c)\<rparr>)" "client_le c (c\<lparr>sc_objects := []\<rparr>)"
  "client_le c (c\<lparr>sc_version := v\<rparr>)"
  by (auto simp: client_le_def filter_True_ex intro: exI[of _ "\<lambda>_. False"])

lemma client_le_first_poll [simp]:
  "client_le c (if sc_first_poll_done c then c
     else c\<lparr>sc_first_poll_done := True,
       sc_creds := (case sc_peer c of Some cred \<Rightarrow> Some cred | None \<Rightarrow> sc_creds c)\<rparr>)"
  by (simp add: client_le_def filter_True_ex)

text \<open>Updating one entry changes no column in which the entry stays the same.\<close>

lemma map_same_update:
  assumes "h x = h (xs ! k)"
  shows "map h (xs[k := x]) = map h xs"
proof (cases "k < length xs")
  case True
  then have "map h xs ! k = h x" using assms by simp
  then show ?thesis by (metis list_update_id map_update)
qed (simp add: list_update_beyond)

text \<open>What a call does to the state.\<close>

lemma server_call_cases:
  assumes call: "server_call r i args w = Ok (v, w')"
  obtains "w' = w" | msg where "server_error r (so_id (sv_objects w ! r)) msg w = Ok w'"
  | f d where "w' = upd_conn (so_client (sv_objects w ! r)) f (if d then mark_destroyed r w else w)" "\<And>c. talks c (f c)"
proof (cases "so_destroyed (sv_objects w ! r)")
  case True
  with call that(1) show ?thesis by (simp add: server_call_def)
next
  case False
  with call obtain outcome where
    "(case outcome of
        CallRefused msg \<Rightarrow>
          bind_res (server_error r (so_id (sv_objects w ! r)) msg w) (\<lambda>w'. Ok (0, w'))
      | CallUnmarshalled dtor _ \<Rightarrow>
          Ok (0, upd_conn (so_client (sv_objects w ! r)) set_error
            (if dtor then mark_destroyed r w else w))
      | CallMessage dtor _ data fds \<Rightarrow>
          Ok (0, upd_conn (so_client (sv_objects w ! r))
            (send_message (MGeneric (generic_message_new data fds)))
            (if dtor then mark_destroyed r w else w))) = Ok (v, w')"
    by (auto simp: server_call_def Let_def bind_res_eq_Ok)
  then show ?thesis
    using that(2,3) by (cases outcome) (auto simp: bind_res_eq_Ok simp del: if_split)
qed

section \<open>The contract\<close>

text \<open>
  A callback is a sequence of operations on objects: a relation that each of them keeps is kept by running any
  callback, and those it starts.
\<close>

locale run_relation = step_relation R for R :: "('h, 'd) server \<Rightarrow> ('h, 'd) server \<Rightarrow> bool" +
  assumes R_set_app: "R w (w\<lparr>sv_app := d\<rparr>)"
    and R_call: "server_call r i args w = Ok (v, w') \<Longrightarrow> r < length (sv_objects w) \<Longrightarrow> R w w'"
    and R_error: "server_error r i msg w = Ok w' \<Longrightarrow> r < length (sv_objects w) \<Longrightarrow> R w w'"
    and R_new: "object_create_object r name seq w = Some (new, w') \<Longrightarrow> r < length (sv_objects w) \<Longrightarrow> R w w'"
    and R_data: "r < length (sv_objects w) \<Longrightarrow> \<not> so_reading (sv_objects w ! r) \<Longrightarrow> R w (set_object_data r h w)"
begin

lemma keeps_run: "keeps R w (run p w)"
proof -
  have "fst y \<noteq> Panic \<longrightarrow> R w (snd y)" if "run p w = Some y" for y
  proof (rule run.raw_induct[where P = "\<lambda>p w y. fst y \<noteq> Panic \<longrightarrow> R w (snd y)", OF _ that])
    fix run' :: "('h, 'd) prog \<Rightarrow> ('h, 'd) server \<Rightarrow> (error, unit, ('h, 'd) server) eff"
      and p :: "('h, 'd) prog" and w :: "('h, 'd) server" and y
    assume hyp: "\<And>p w y. run' p w = Some y \<Longrightarrow> fst y \<noteq> Panic \<longrightarrow> R w (snd y)"
    have IH: "keeps R w (run' p w)" for p w using hyp[of p w] by (auto simp: keeps_def)
    let ?body = "case p of
        Finish \<Rightarrow> Some (Ok (), w)
      | Crash \<Rightarrow> Some (Panic, w)
      | GetApp k \<Rightarrow> run' (k (sv_app w)) w
      | SetApp d k \<Rightarrow> run' k (w\<lparr>sv_app := d\<rparr>)
      | Call r i args k \<Rightarrow>
          (if r < length (sv_objects w) then
             (case server_call r i args w of Ok (v, w') \<Rightarrow> run' (k v) w' | _ \<Rightarrow> Some (Panic, w))
           else Some (Panic, w))
      | RaiseError r i msg k \<Rightarrow>
          (if r < length (sv_objects w) then
             (case server_error r i msg w of Ok w' \<Rightarrow> run' k w' | _ \<Rightarrow> Some (Panic, w))
           else Some (Panic, w))
      | CreateObject r name seq k \<Rightarrow>
          (if r < length (sv_objects w) then
             (case object_create_object r name seq w of
                None \<Rightarrow> run' (k None) w
              | Some (new, w') \<Rightarrow>
                  bind_eff (run' (on_bind new w') w') (\<lambda>_ w''. run' (k (Some new)) w''))
           else Some (Panic, w))
      | SetData r h k \<Rightarrow>
          (if r < length (sv_objects w) then
             (if so_reading (sv_objects w ! r) then None else run' k (set_object_data r h w))
           else Some (Panic, w))
      | GetClient r k \<Rightarrow>
          (if r < length (sv_objects w) then run' (k (object_client r w)) w else Some (Panic, w))
      | ReadCreds c k \<Rightarrow>
          (if c < length (sv_client_heap w) then
             (case creds (sv_client_heap w ! c) of Ok cred \<Rightarrow> run' (k cred) w | _ \<Rightarrow> Some (Panic, w))
           else Some (Panic, w))"
    assume "?body = Some y"
    moreover have "keeps R w ?body"
    proof (cases p)
      case (SetApp d k)
      then show ?thesis using keeps_after[OF R_set_app IH] by simp
    next
      case (Call r i args k)
      then show ?thesis
        by (auto simp: keeps_Panic split: res.splits intro: keeps_after[OF R_call IH])
    next
      case (RaiseError r i msg k)
      then show ?thesis
        by (auto simp: keeps_Panic split: res.splits intro: keeps_after[OF R_error IH])
    next
      case (CreateObject r name seq k)
      then show ?thesis
        by (auto simp: keeps_Panic IH split: option.splits
            intro!: keeps_after[OF R_new keeps_trans[OF IH IH]])
    next
      case (SetData r h k)
      then show ?thesis
        by (auto simp: keeps_Panic intro!: keeps_after[OF R_data IH])
    next
      case (ReadCreds c k)
      then show ?thesis by (auto simp: keeps_Panic IH split: res.splits)
    qed (simp_all add: keeps_Panic keeps_Some_R R_refl IH)
    ultimately show "fst y \<noteq> Panic \<longrightarrow> R w (snd y)" by (cases y) (simp add: keeps_def)
  qed
  then show ?thesis by (auto simp: keeps_def)
qed

end

text \<open>A relation that every elementary step of the server keeps.\<close>

locale server_relation = step_relation R for R :: "('h, 'd) server \<Rightarrow> ('h, 'd) server \<Rightarrow> bool" +
  assumes R_app: "R w (w\<lparr>sv_app := d\<rparr>)"
    and R_object: "(\<And>obj. object_le obj (f obj)) \<Longrightarrow> R w (upd_object r f w)"
    and R_client: "(\<And>c. client_le c (g c)) \<Longrightarrow> R w (upd_client k g w)"
    and R_create: "k < length (sv_client_heap w) \<or> (\<exists>r < length (sv_objects w). so_client (sv_objects w ! r) = k) \<Longrightarrow>
      R w (snd (client_create_object k protocol name version seq w))"
    and R_heap: "R w w' \<Longrightarrow> length (sv_client_heap w) \<le> length (sv_client_heap w')"
begin

lemma R_conn: "(\<And>c. talks c (f c)) \<Longrightarrow> R w (upd_conn k f w)"
  unfolding upd_conn_def by (intro R_client client_le_conn)

lemma R_mark_destroyed: "R w (mark_destroyed r w)"
  unfolding mark_destroyed_def by (intro R_object) simp

lemma R_mark_if: "R w (if b then mark_destroyed r w else w)"
  by (simp add: R_mark_destroyed R_refl)

lemma R_server_error: "server_error r i msg w = Ok w' \<Longrightarrow> R w w'"
  by (auto simp: server_error_def Let_def bind_res_eq_Ok R_refl intro!: R_conn talks_fatal
      split: if_splits)

lemma R_server_call: "server_call r i args w = Ok (v, w') \<Longrightarrow> R w w'"
  by (rule server_call_cases) (auto intro: R_refl R_server_error R_trans[OF R_mark_if R_conn] simp del: if_split)

lemma R_object_create:
  "object_create_object r name seq w = Some (new, w') \<Longrightarrow> r < length (sv_objects w) \<Longrightarrow> R w w'"
  using R_create[of "so_client (sv_objects w ! r)" w]
  by (fastforce simp: object_create_object_def Let_def split: if_splits dest: arg_cong[of _ _ snd])

end

sublocale server_relation < run_relation R
  by unfold_locales
    (auto simp: set_object_data_def R_app R_server_call R_server_error R_object_create intro: R_object)

context server_relation
begin

lemma keeps_object_dispatch: "keeps R w (object_dispatch disp r i data fds w)"
  unfolding object_dispatch_def
  by (auto split: option.splits intro!: keeps_Some_R R_refl keeps_trans keeps_after[OF R_object keeps_run]
      R_object)

lemma R_destroy_object: "R w (destroy_object k i w)"
  unfolding destroy_object_def by (intro R_client) simp

lemma R_first_poll: "R w (dispatch_first_poll k w)"
  unfolding dispatch_first_poll_def by (intro R_client client_le_first_poll)

lemma keeps_on_generic: "keeps R w (on_generic disp k msg w)"
  unfolding on_generic_def Let_def
  by (auto split: option.splits simp: R_refl
      intro!: keeps_trans keeps_lift_R keeps_object_dispatch keeps_Some_R R_mark_destroyed R_conn
        talks_fatal intro: R_trans[OF R_mark_destroyed R_destroy_object])

lemma keeps_destroy_for_disconnect: "keeps R w (destroy_for_disconnect disp r w)"
  unfolding destroy_for_disconnect_def Let_def
  by (auto split: option.splits
      intro!: keeps_trans keeps_object_dispatch keeps_Some_R R_mark_destroyed R_refl)

lemma keeps_disconnect_loop: "keeps R w (disconnect_loop disp rs w)"
  by (induction rs arbitrary: w)
    (auto intro!: keeps_trans keeps_destroy_for_disconnect keeps_Some_R R_refl)

lemma keeps_destroy_objects: "keeps R w (destroy_objects_for_disconnect disp k w)"
  unfolding destroy_objects_for_disconnect_def
  by (auto intro!: keeps_trans keeps_disconnect_loop keeps_Some_R R_client)

end

section \<open>Objects keep their identity, connections their history\<close>

text \<open>Creation replaces a client state by one with a higher \<open>max_id\<close> and one more object.\<close>

definition client_evolves :: "server_client \<Rightarrow> server_client \<Rightarrow> bool" where
  "client_evolves a b \<longleftrightarrow> sc_id b = sc_id a \<and> sc_peer b = sc_peer a \<and>
     conn_le (sc_conn a) (sc_conn b) \<and>
     (sc_first_poll_done a \<longrightarrow> sc_first_poll_done b \<and> sc_creds b = sc_creds a) \<and>
     (sc_alive b \<longrightarrow> sc_alive a)"

definition clients_ok :: "('h, 'd) server \<Rightarrow> bool" where
  "clients_ok w \<longleftrightarrow> (\<forall>k \<in> set (sv_clients w). k < length (sv_client_heap w))"

definition server_le :: "('h, 'd) server \<Rightarrow> ('h, 'd) server \<Rightarrow> bool" where
  "server_le w w' \<longleftrightarrow> (\<exists>ims. sv_impls w' = sv_impls w @ ims) \<and> (clients_ok w \<longrightarrow> clients_ok w') \<and>
     length (sv_objects w) \<le> length (sv_objects w') \<and>
     (\<forall>r < length (sv_objects w). object_le (sv_objects w ! r) (sv_objects w' ! r)) \<and>
     length (sv_client_heap w) \<le> length (sv_client_heap w') \<and>
     (\<forall>k < length (sv_client_heap w). client_evolves (sv_client_heap w ! k) (sv_client_heap w' ! k))"

lemma client_evolves_refl [simp, intro]: "client_evolves a a"
  by (simp add: client_evolves_def)

lemma client_evolves_trans: "client_evolves a b \<Longrightarrow> client_evolves b c \<Longrightarrow> client_evolves a c"
  by (auto simp: client_evolves_def intro: conn_le_trans)

lemma client_le_evolves: "client_le a b \<Longrightarrow> client_evolves a b"
  by (simp add: client_le_def client_evolves_def talks_def)

lemma server_le_refl: "server_le w w"
  by (simp add: server_le_def)

lemma server_le_trans: "server_le w1 w2 \<Longrightarrow> server_le w2 w3 \<Longrightarrow> server_le w1 w3"
  unfolding server_le_def by (auto intro: object_le_trans client_evolves_trans)

lemma server_le_object: "(\<And>obj. object_le obj (f obj)) \<Longrightarrow> server_le w (upd_object r f w)"
  by (cases "r < length (sv_objects w)") (auto simp: server_le_def clients_ok_def upd_object_def nth_list_update)

lemma server_le_client: "(\<And>c. client_evolves c (g c)) \<Longrightarrow> server_le w (upd_client k g w)"
  by (cases "k < length (sv_client_heap w)")
    (auto simp: server_le_def clients_ok_def upd_client_def nth_list_update)

lemma server_le_push: "server_le w (w\<lparr>sv_objects := sv_objects w @ [obj]\<rparr>)"
  by (auto simp: server_le_def clients_ok_def nth_append)

lemma server_le_create: "server_le w (snd (client_create_object k protocol name version seq w))"
  unfolding client_create_object_def Let_def snd_conv
  by (rule server_le_trans[OF server_le_push server_le_client]) (simp add: client_evolves_def)

interpretation evolution: server_relation server_le
proof
  show "server_le w (w\<lparr>sv_app := d\<rparr>)" for w :: "('a, 'b) server" and d
    by (simp add: server_le_def clients_ok_def)
  show "server_le w (upd_client k g w)" if "\<And>c. client_le c (g c)"
    for g k and w :: "('a, 'b) server"
    using that by (intro server_le_client client_le_evolves)
  show "length (sv_client_heap w) \<le> length (sv_client_heap w')" if "server_le w w'"
    for w w' :: "('a, 'b) server"
    using that by (simp add: server_le_def)
qed (blast intro: server_le_refl server_le_trans server_le_object server_le_create)+

section \<open>The ids of a client's objects\<close>

text \<open>
  The invariant looks at two columns of the state: the owner and id of every object, and the counter
  and object table of every client.
\<close>

definition objects_view :: "('h, 'd) server \<Rightarrow> (nat \<times> u32) list" where
  "objects_view w = map (\<lambda>obj. (so_client obj, so_id obj)) (sv_objects w)"

definition clients_view :: "('h, 'd) server \<Rightarrow> (u32 \<times> nat list) list" where
  "clients_view w = map (\<lambda>c. (sc_max_id c, sc_objects c)) (sv_client_heap w)"

definition ids_of :: "(nat \<times> u32) list \<Rightarrow> nat \<Rightarrow> u32 list" where
  "ids_of ov k = map snd (filter (\<lambda>x. fst x = k) ov)"

definition count_ids :: "nat \<Rightarrow> u32 list" where
  "count_ids n = map (\<lambda>i. of_nat (Suc i)) [0..<n]"

definition client_ok :: "(nat \<times> u32) list \<Rightarrow> nat \<Rightarrow> u32 \<times> nat list \<Rightarrow> bool" where
  "client_ok ov k c \<longleftrightarrow>
     ids_of ov k = count_ids (length (ids_of ov k)) \<and>
     fst c = of_nat (Suc (length (ids_of ov k))) \<and>
     sorted_wrt (<) (snd c) \<and> (\<forall>r \<in> set (snd c). r < length ov \<and> fst (ov ! r) = k)"

definition views_ok :: "(nat \<times> u32) list \<Rightarrow> (u32 \<times> nat list) list \<Rightarrow> bool" where
  "views_ok ov cv \<longleftrightarrow> (\<forall>x \<in> set ov. fst x < length cv) \<and> (\<forall>k < length cv. client_ok ov k (cv ! k))"

definition server_inv :: "('h, 'd) server \<Rightarrow> bool" where
  "server_inv w \<longleftrightarrow> views_ok (objects_view w) (clients_view w)"

lemma ids_of_append: "ids_of (ov @ [(k, i)]) k' = (if k' = k then ids_of ov k' @ [i] else ids_of ov k')"
  by (simp add: ids_of_def)

lemma count_ids_Suc: "count_ids (Suc n) = count_ids n @ [of_nat (Suc n)]"
  by (simp add: count_ids_def)

lemma length_count_ids [simp]: "length (count_ids n) = n"
  by (simp add: count_ids_def)

lemma client_ok_subset:
  "client_ok ov k c \<Longrightarrow> fst c' = fst c \<Longrightarrow> \<exists>P. snd c' = filter P (snd c) \<Longrightarrow> client_ok ov k c'"
  by (auto simp: client_ok_def sorted_wrt_filter)

lemma client_ok_other:
  assumes "client_ok ov k c" and "k \<noteq> k'"
  shows "client_ok (ov @ [(k', i)]) k c"
  using assms by (auto simp: client_ok_def ids_of_append nth_append)

lemma client_ok_create:
  assumes ok: "client_ok ov k c"
  shows "client_ok (ov @ [(k, fst c)]) k (fst c + 1, snd c @ [length ov])"
proof -
  let ?n = "length (ids_of ov k)"
  from ok have ids: "ids_of ov k = count_ids ?n" and max: "fst c = of_nat (Suc ?n)"
    by (auto simp: client_ok_def)
  have "ids_of (ov @ [(k, fst c)]) k = count_ids (Suc ?n)"
    using ids max by (simp add: ids_of_append count_ids_Suc)
  moreover from this have "length (ids_of (ov @ [(k, fst c)]) k) = Suc ?n" by simp
  moreover have "fst c + 1 = of_nat (Suc (Suc ?n))" using max by simp
  ultimately show ?thesis
    using ok by (auto simp: client_ok_def sorted_wrt_append nth_append)
qed

lemma views_ok_update:
  assumes "views_ok ov cv" and "k < length cv \<Longrightarrow> client_ok ov k c"
  shows "views_ok ov (cv[k := c])"
proof -
  have "client_ok ov j (cv[k := c] ! j)" if "j < length cv" for j
    using assms that by (cases "j = k") (auto simp: views_ok_def)
  with assms(1) show ?thesis by (auto simp: views_ok_def)
qed

lemma views_ok_create:
  assumes ok: "views_ok ov cv" and k: "k < length cv"
  shows "views_ok (ov @ [(k, fst (cv ! k))])
    (cv[k := (fst (cv ! k) + 1, snd (cv ! k) @ [length ov])])"
proof -
  have "client_ok (ov @ [(k, fst (cv ! k))]) j
      (cv[k := (fst (cv ! k) + 1, snd (cv ! k) @ [length ov])] ! j)" if "j < length cv" for j
    using that ok client_ok_create[of ov k "cv ! k"] client_ok_other[of ov j "cv ! j" k]
    by (cases "j = k") (auto simp: views_ok_def)
  with ok k show ?thesis by (auto simp: views_ok_def)
qed

lemma objects_view_upd:
  "(\<And>obj. object_le obj (f obj)) \<Longrightarrow> objects_view (upd_object r f w) = objects_view w"
  by (simp add: objects_view_def upd_object_def object_le_def map_same_update)

lemma clients_view_upd:
  "clients_view (upd_client k g w) =
     (clients_view w)[k := (\<lambda>c. (sc_max_id c, sc_objects c)) (g (sv_client_heap w ! k))]"
  by (simp add: clients_view_def upd_client_def map_update)

lemma views_simps [simp]:
  "objects_view (upd_client k g w) = objects_view w" "clients_view (upd_object r f w) = clients_view w"
  "objects_view (w\<lparr>sv_app := d\<rparr>) = objects_view w" "clients_view (w\<lparr>sv_app := d\<rparr>) = clients_view w"
  by (simp_all add: objects_view_def clients_view_def upd_client_def upd_object_def)

lemma server_inv_client:
  assumes inv: "server_inv w"
    and g: "\<And>c. sc_max_id (g c) = sc_max_id c \<and> (\<exists>P. sc_objects (g c) = filter P (sc_objects c))"
  shows "server_inv (upd_client k g w)"
proof -
  have "client_ok (objects_view w) k (sc_max_id (g c), sc_objects (g c))"
    if "k < length (clients_view w)" and c: "c = sv_client_heap w ! k" for c
  proof (rule client_ok_subset)
    show "client_ok (objects_view w) k (clients_view w ! k)"
      using inv that(1) by (simp add: server_inv_def views_ok_def)
    show "fst (sc_max_id (g c), sc_objects (g c)) = fst (clients_view w ! k)"
      and "\<exists>P. snd (sc_max_id (g c), sc_objects (g c)) = filter P (snd (clients_view w ! k))"
      using g[of c] that by (auto simp: clients_view_def)
  qed
  with inv show ?thesis
    unfolding server_inv_def views_simps clients_view_upd by (intro views_ok_update) auto
qed

lemma server_inv_create:
  assumes inv: "server_inv w" and k: "k < length (sv_client_heap w)"
  shows "server_inv (snd (client_create_object k protocol name version seq w))"
proof -
  let ?w = "snd (client_create_object k protocol name version seq w)"
  have cv: "clients_view w ! k = (sc_max_id (sv_client_heap w ! k), sc_objects (sv_client_heap w ! k))"
    using k by (simp add: clients_view_def)
  have "objects_view ?w = objects_view w @ [(k, fst (clients_view w ! k))]"
    by (simp add: client_create_object_def Let_def cv) (simp add: objects_view_def)
  moreover have "clients_view ?w = (clients_view w)[k := (fst (clients_view w ! k) + 1,
      snd (clients_view w ! k) @ [length (objects_view w)])]"
    by (simp add: client_create_object_def Let_def cv clients_view_upd)
      (simp add: clients_view_def objects_view_def)
  moreover have "k < length (clients_view w)" using k by (simp add: clients_view_def)
  ultimately show ?thesis
    using views_ok_create inv unfolding server_inv_def by metis
qed

definition inv_step :: "('h, 'd) server \<Rightarrow> ('h, 'd) server \<Rightarrow> bool" where
  "inv_step w w' \<longleftrightarrow> server_le w w' \<and> (server_inv w \<longrightarrow> server_inv w')"

interpretation ids: server_relation inv_step
proof
  show "inv_step w w" for w :: "('a, 'b) server"
    by (simp add: inv_step_def server_le_refl)
  show "inv_step w1 w3" if "inv_step w1 w2" "inv_step w2 w3" for w1 w2 w3 :: "('a, 'b) server"
    using that by (auto simp: inv_step_def intro: server_le_trans)
  show "inv_step w (w\<lparr>sv_app := d\<rparr>)" for w :: "('a, 'b) server" and d
    by (simp add: inv_step_def server_inv_def evolution.R_app)
  show "inv_step w (upd_object r f w)" if "\<And>obj. object_le obj (f obj)"
    for f r and w :: "('a, 'b) server"
    using objects_view_upd[OF that, of r w] that
    by (simp add: server_inv_def inv_step_def evolution.R_object)
  show "inv_step w (upd_client k g w)" if "\<And>c. client_le c (g c)" for g k and w :: "('a, 'b) server"
    using that by (simp add: inv_step_def evolution.R_client server_inv_client client_le_def)
  show "inv_step w (snd (client_create_object k protocol name version seq w))"
    if "k < length (sv_client_heap w) \<or> (\<exists>r < length (sv_objects w). so_client (sv_objects w ! r) = k)"
    for k protocol name version seq and w :: "('a, 'b) server"
    unfolding inv_step_def
  proof (intro conjI impI server_le_create)
    assume inv: "server_inv w"
    then have "k < length (sv_client_heap w)"
      using that by (auto simp: server_inv_def views_ok_def objects_view_def clients_view_def)
    with inv show "server_inv (snd (client_create_object k protocol name version seq w))"
      by (rule server_inv_create)
  qed
  show "length (sv_client_heap w) \<le> length (sv_client_heap w')" if "inv_step w w'"
    for w w' :: "('a, 'b) server"
    using that by (simp add: inv_step_def evolution.R_heap)
qed

section \<open>What callbacks cannot change\<close>

text \<open>An answer that is due stays due until the read has been handled.\<close>

definition due_kept :: "nat \<Rightarrow> ('h, 'd) server \<Rightarrow> ('h, 'd) server \<Rightarrow> bool" where
  "due_kept k w w' \<longleftrightarrow> length (sv_client_heap w) \<le> length (sv_client_heap w') \<and> (k < length (sv_client_heap w) \<longrightarrow>
     sc_scheduled_roundtrip_seq (sv_client_heap w' ! k) = sc_scheduled_roundtrip_seq (sv_client_heap w ! k))"

interpretation due: server_relation "due_kept k" for k
proof
  show "due_kept k w (upd_client k' g w)" if "\<And>c. client_le c (g c)" for g k' and w :: "('a, 'b) server"
    using that by (cases "k' = k"; cases "k < length (sv_client_heap w)") (auto simp: due_kept_def upd_client_def client_le_def)
  show "due_kept k w (snd (client_create_object k' protocol name version seq w))"
    for k' protocol name version seq and w :: "('a, 'b) server"
    by (cases "k' = k"; cases "k < length (sv_client_heap w)")
      (auto simp: due_kept_def client_create_object_def Let_def upd_client_def)
qed (auto simp: due_kept_def upd_object_def)

definition frozen :: "('h, 'd) server \<Rightarrow> ('h, 'd) server \<Rightarrow> bool" where
  "frozen w w' \<longleftrightarrow> sv_impls w' = sv_impls w \<and> sv_clients w' = sv_clients w \<and>
     map sc_alive (sv_client_heap w') = map sc_alive (sv_client_heap w)"

interpretation frozen: server_relation frozen
proof
  show "frozen w (upd_client k g w)" if "\<And>c. client_le c (g c)" for g k and w :: "('a, 'b) server"
    using that by (simp add: frozen_def upd_client_def client_le_def map_same_update)
  show "frozen w (snd (client_create_object k protocol name version seq w))"
    for k protocol name version seq and w :: "('a, 'b) server"
    by (simp add: frozen_def client_create_object_def Let_def upd_client_def map_same_update)
  show "length (sv_client_heap w) \<le> length (sv_client_heap w')" if "frozen w w'"
    for w w' :: "('a, 'b) server"
    using that by (auto simp: frozen_def dest: map_eq_imp_length_eq)
qed (simp_all add: frozen_def upd_object_def)

text \<open>What the invariant says of the ids, as long as a client has made fewer than \<open>2 ^ 32\<close> objects.\<close>

lemma distinct_count_ids: "n < 2 ^ 32 \<Longrightarrow> distinct (count_ids n) \<and> 0 \<notin> set (count_ids n)"
proof -
  assume n: "n < 2 ^ 32"
  have "inj_on (\<lambda>i. of_nat (Suc i) :: u32) {0..<n}"
  proof (rule inj_onI)
    fix i j assume "i \<in> {0..<n}" "j \<in> {0..<n}" and eq: "of_nat (Suc i) = (of_nat (Suc j) :: u32)"
    then have "Suc i < 2 ^ 32" "Suc j < 2 ^ 32" using n by auto
    with arg_cong[OF eq, of unat] show "i = j" by (simp add: unat_of_nat del: of_nat_Suc)
  qed
  moreover have "of_nat (Suc i) \<noteq> (0 :: u32)" if "i < n" for i
  proof
    assume eq: "of_nat (Suc i) = (0 :: u32)"
    have "Suc i < 2 ^ 32" using that n by simp
    with arg_cong[OF eq, of unat] show False by (simp add: unat_of_nat del: of_nat_Suc)
  qed
  ultimately show ?thesis by (auto simp: count_ids_def distinct_map)
qed

lemma filter_pos:
  "r < length xs \<Longrightarrow> P (xs ! r) \<Longrightarrow>
     filter P xs = filter P (take r xs) @ xs ! r # filter P (drop (Suc r) xs)"
  by (metis filter.simps(2) filter_append id_take_nth_drop)

lemma ids_nonzero:
  assumes ok: "client_ok ov k c" and few: "length (ids_of ov k) < 2 ^ 32" and r: "r \<in> set (snd c)"
  shows "snd (ov ! r) \<noteq> 0"
proof -
  have "0 \<notin> set (ids_of ov k)" using distinct_count_ids[OF few] ok by (auto simp: client_ok_def)
  moreover have "r < length ov" "fst (ov ! r) = k" using ok r by (auto simp: client_ok_def)
  then have "snd (ov ! r) \<in> set (ids_of ov k)" by (auto simp: ids_of_def)
  ultimately show ?thesis by metis
qed

lemma ids_distinct:
  assumes ok: "client_ok ov k c" and few: "length (ids_of ov k) < 2 ^ 32"
    and r: "r \<in> set (snd c)" and s: "s \<in> set (snd c)" and ne: "r \<noteq> s"
  shows "snd (ov ! r) \<noteq> snd (ov ! s)"
proof -
  have dist: "distinct (ids_of ov k)"
    using distinct_count_ids[OF few] ok by (auto simp: client_ok_def)
  have "snd (ov ! a) \<noteq> snd (ov ! b)" if "a < b" "a \<in> set (snd c)" "b \<in> set (snd c)" for a b
  proof -
    have a: "a < length ov" "fst (ov ! a) = k" and b: "b < length ov" "fst (ov ! b) = k"
      using ok that by (auto simp: client_ok_def)
    have "drop (Suc a) ov ! (b - Suc a) = ov ! b" using \<open>a < b\<close> b(1) by simp
    moreover have "b - Suc a < length (drop (Suc a) ov)" using \<open>a < b\<close> b(1) by auto
    ultimately have "ov ! b \<in> set (drop (Suc a) ov)" by (metis nth_mem)
    with b(2) have "ov ! b \<in> set (filter (\<lambda>x. fst x = k) (drop (Suc a) ov))" by simp
    then show ?thesis
      using dist filter_pos[of a ov "\<lambda>x. fst x = k"] a by (auto simp: ids_of_def)
  qed
  with r s ne show ?thesis by (metis linorder_neqE_nat)
qed

definition live_ids :: "nat \<Rightarrow> ('h, 'd) server \<Rightarrow> u32 list" where
  "live_ids k w = map (\<lambda>r. so_id (sv_objects w ! r)) (sc_objects (sv_client_heap w ! k))"

definition created :: "nat \<Rightarrow> ('h, 'd) server \<Rightarrow> nat" where
  "created k w = length (filter (\<lambda>obj. so_client obj = k) (sv_objects w))"

lemma server_inv_live_ids:
  assumes inv: "server_inv w" and k: "k < length (sv_client_heap w)" and few: "created k w < 2 ^ 32"
  shows "distinct (live_ids k w) \<and> 0 \<notin> set (live_ids k w)"
proof -
  let ?ov = "objects_view w" and ?rs = "sc_objects (sv_client_heap w ! k)"
  have ok: "client_ok ?ov k (clients_view w ! k)"
    using inv k by (simp add: server_inv_def views_ok_def clients_view_def)
  have rs: "snd (clients_view w ! k) = ?rs" using k by (simp add: clients_view_def)
  have few': "length (ids_of ?ov k) < 2 ^ 32"
    using few by (simp add: ids_of_def objects_view_def created_def filter_map comp_def)
  have sorted: "sorted_wrt (<) ?rs" and in_range: "\<forall>r \<in> set ?rs. r < length (sv_objects w)"
    using ok rs by (auto simp: client_ok_def objects_view_def)
  have id: "snd (?ov ! r) = so_id (sv_objects w ! r)" if "r \<in> set ?rs" for r
    using in_range that by (simp add: objects_view_def)
  have "inj_on (\<lambda>r. so_id (sv_objects w ! r)) (set ?rs)"
    using ids_distinct[OF ok few'] id rs by (fastforce intro!: inj_onI)
  moreover have "distinct ?rs" using sorted strict_sorted_iff by blast
  moreover have "so_id (sv_objects w ! r) \<noteq> 0" if "r \<in> set ?rs" for r
    using ids_nonzero[OF ok few', of r] id[OF that] that rs by simp
  ultimately show ?thesis by (auto simp: live_ids_def distinct_map)
qed

end
