(* ===== verification/Server_Loop.thy ===== *)
theory Server_Loop
  imports Server_Invariant
begin

text \<open>
  The server's message loop, \<open>ServerClientState::handle_message\<close> of \<open>hyprwire/src/message.rs\<close>, and the
  socket that owns the clients, \<open>hyprwire/src/server/server_socket.rs\<close>: dispatching a client, polling,
  accepting, adding and removing clients. The poller's events and the kernel's answers are arguments.

  The loop is a \<open>partial_function\<close>: parsing a message may not return (\<open>Generic_Message\<close>), nor may a
  callback.
\<close>

section \<open>One message\<close>

text \<open>The names a server announces: the spec's name, an at sign, and its version.\<close>

definition announced :: "protocol_spec \<Rightarrow> str" where
  "announced spec = spec_name spec @ ascii ''@'' @ show_u32 (spec_ver spec)"

text \<open>
  The body of the loop for the message type \<open>t\<close> at \<open>needle\<close>. It returns the length of the message and
  the descriptors that are left.
\<close>

definition wrong_role ::
    "nat \<Rightarrow> ('h, 'd) server \<Rightarrow> (error, usize \<times> i32 list, ('h, 'd) server) eff" where
  "wrong_role k w = Some (Err InvalidMessage, upd_conn k set_error w)"

definition server_message ::
    "profile \<Rightarrow> ('h, 'd) dispatcher \<Rightarrow> nat \<Rightarrow> message_type \<Rightarrow> bytes \<Rightarrow> i32 list \<Rightarrow> usize \<Rightarrow>
       ('h, 'd) server \<Rightarrow> (error, usize \<times> i32 list, ('h, 'd) server) eff" where
  "server_message pr disp k t data fds needle w =
     (case t of
        Sup \<Rightarrow>
          bind_eff (lift_res (hello_from_bytes data needle) w) (\<lambda>msg w.
          let w = dispatch_first_poll k w in
          bind_eff (lift_res (handshake_begin_new [1]) w) (\<lambda>hb w.
            Some (Ok (length (hello_data msg), fds), upd_conn k (send_message (MHandshakeBegin hb)) w)))
      | HandshakeAck \<Rightarrow>
          bind_eff (lift_res (handshake_ack_from_bytes data needle) w) (\<lambda>msg w.
          let w = upd_client k (\<lambda>c. c\<lparr>sc_version := ack_version msg\<rparr>) w;
              protocol_names = map (announced \<circ> im_spec) (sv_impls w) in
          bind_eff (lift_res (handshake_protocols_new protocol_names) w) (\<lambda>hp w.
            Some (Ok (length (ack_data msg), fds), upd_conn k (send_message (MHandshakeProtocols hp)) w)))
      | BindProtocol \<Rightarrow>
          bind_eff (lift_res (bind_protocol_from_bytes pr data needle) w) (\<lambda>msg w.
          case client_create_object k (bind_name msg) [] (bind_version msg) (bind_seq msg) w of
            (new, w) \<Rightarrow>
              bind_eff (run (on_bind new w) w) (\<lambda>_ w.
                Some (Ok (length (bind_data msg), fds), w)))
      | GenericProtocolMessage \<Rightarrow>
          bind_eff (Option.bind (generic_from_bytes pr data fds needle) (\<lambda>r. lift_res r w))
            (\<lambda>(msg, fds') w.
          bind_eff (on_generic disp k msg w) (\<lambda>_ w. Some (Ok (length (gm_data msg), fds'), w)))
      | RoundtripRequest \<Rightarrow>
          bind_eff (lift_res (roundtrip_request_from_bytes data needle) w) (\<lambda>msg w.
            Some (Ok (length (req_data msg), fds),
              upd_client k (\<lambda>c. c\<lparr>sc_scheduled_roundtrip_seq := req_seq msg\<rparr>) w))
      | NewObject \<Rightarrow> wrong_role k w
      | HandshakeProtocols \<Rightarrow> wrong_role k w
      | HandshakeBegin \<Rightarrow> wrong_role k w
      | FatalProtocolError \<Rightarrow> wrong_role k w
      | RoundtripDone \<Rightarrow> wrong_role k w)"

section \<open>The loop\<close>

partial_function (option) server_handle_message ::
    "profile \<Rightarrow> ('h, 'd) dispatcher \<Rightarrow> nat \<Rightarrow> bytes \<Rightarrow> i32 list \<Rightarrow> usize \<Rightarrow> ('h, 'd) server \<Rightarrow>
       (error, unit, ('h, 'd) server) eff" where
  "server_handle_message pr disp k data fds needle w =
     (if needle < length data then
        (case message_type_try_from (data ! needle) of
           Ok t \<Rightarrow>
             bind_eff (server_message pr disp k t data fds needle w) (\<lambda>x w.
             bind_eff (lift_res (uadd pr needle (fst x)) w) (\<lambda>needle' w.
               server_handle_message pr disp k data (snd x) needle' w))
         | _ \<Rightarrow> Some (Err InvalidMessage, w))
      else if fds \<noteq> [] then Some (Err MalformedMessage, w)
      else Some (Ok (), w))"

section \<open>Dispatching a client\<close>

definition fail_client :: "nat \<Rightarrow> str \<Rightarrow> ('h, 'd) server \<Rightarrow> (error, unit, ('h, 'd) server) eff" where
  "fail_client k msg w =
     bind_eff (lift_res (fatal_protocol_error_new 0 (- 1) msg) w) (\<lambda>fatal w.
       Some (Ok (), upd_conn k (shutdown_conn \<circ> set_error \<circ> send_message (MFatal fatal)) w))"

definition dispatch_client ::
    "profile \<Rightarrow> ('h, 'd) dispatcher \<Rightarrow> nat \<Rightarrow> recv_answer list \<Rightarrow> ('h, 'd) server \<Rightarrow>
       (error, unit, ('h, 'd) server) eff" where
  "dispatch_client pr disp k answers w =
     (case read_from_socket answers of
        None \<Rightarrow> fail_client k (ascii ''fatal: invalid message on wire'') w
      | Some raw \<Rightarrow>
          if raw_data raw = [] then Some (Ok (), upd_conn k (shutdown_conn \<circ> set_error) w)
          else
            (case server_handle_message pr disp k (raw_data raw) (raw_fds raw) 0 w of
               None \<Rightarrow> None
             | Some (Panic, w) \<Rightarrow> Some (Panic, w)
             | Some (Err _, w) \<Rightarrow>
                 fail_client k (ascii ''fatal: failed to handle message on wire'') w
             | Some (Ok _, w) \<Rightarrow>
                 let scheduled_seq = sc_scheduled_roundtrip_seq (sv_client_heap w ! k) in
                 Some (Ok (),
                   if scheduled_seq > 0 then
                     upd_client k (\<lambda>c. c\<lparr>sc_scheduled_roundtrip_seq := 0\<rparr>)
                       (upd_conn k (send_message (MRoundtripDone (roundtrip_done_new scheduled_seq))) w)
                   else w)))"

section \<open>The socket\<close>

text \<open>
  What the system answers while an event is processed: to \<open>accept\<close> (an error; or a stream, with whether
  \<open>set_nonblocking\<close> and \<open>poller.add\<close> succeed and the peer's credentials), to \<open>recvmsg\<close>, and to
  \<open>poller.modify\<close>.
\<close>

datatype accept_answer = AcceptError | Accepted bool bool "ucred option"

record poll_event =
  ev_key :: usize
  ev_accept :: accept_answer
  ev_recv :: "recv_answer list"
  ev_modify_ok :: bool

definition server_new :: "bool \<Rightarrow> 'd \<Rightarrow> ('h, 'd) server" where
  "server_new listening app =
     \<lparr>sv_impls = [], sv_objects = [], sv_client_heap = [], sv_clients = [], sv_listener = listening,
      sv_next_client_id = 1, sv_app = app\<rparr>"

definition add_implementation :: "('h, 'd) server_impl \<Rightarrow> ('h, 'd) server \<Rightarrow> ('h, 'd) server" where
  "add_implementation im w = w\<lparr>sv_impls := sv_impls w @ [im]\<rparr>"

definition push_client ::
    "profile \<Rightarrow> ucred option \<Rightarrow> ('h, 'd) server \<Rightarrow> (hw_error, u32 \<times> ('h, 'd) server) res" where
  "push_client pr peer w =
     (let i = sv_next_client_id w in
      bind_res (succ_u32 pr i) (\<lambda>next.
        Ok (i, w\<lparr>sv_next_client_id := next,
          sv_client_heap := sv_client_heap w @ [server_client_new i peer],
          sv_clients := sv_clients w @ [length (sv_client_heap w)]\<rparr>)))"

definition accept_one ::
    "profile \<Rightarrow> accept_answer \<Rightarrow> ('h, 'd) server \<Rightarrow> (hw_error, bool, ('h, 'd) server) eff" where
  "accept_one pr answer w =
     (if \<not> sv_listener w then Some (Ok False, w)
      else case answer of
        AcceptError \<Rightarrow> Some (Ok False, w)
      | Accepted nonblocking_ok poller_ok peer \<Rightarrow>
          if \<not> nonblocking_ok then Some (Ok False, w)
          else if \<not> poller_ok then Some (Err Io, w)
          else (case push_client pr peer w of
                  Ok (_, w') \<Rightarrow> Some (Ok True, w')
                | Err e \<Rightarrow> Some (Err e, w)
                | Panic \<Rightarrow> Some (Panic, w)))"

text \<open>\<open>add_client\<close>; \<open>poller_ok\<close> is the answer to \<open>poller.add\<close>.\<close>

definition add_client ::
    "profile \<Rightarrow> bool \<Rightarrow> ucred option \<Rightarrow> ('h, 'd) server \<Rightarrow> (hw_error, u32, ('h, 'd) server) eff" where
  "add_client pr poller_ok peer w =
     (if \<not> poller_ok then Some (Err Io, w)
      else (case push_client pr peer w of
              Ok (i, w') \<Rightarrow> Some (Ok i, w') | Err e \<Rightarrow> Some (Err e, w) | Panic \<Rightarrow> Some (Panic, w)))"

definition find_client :: "u32 \<Rightarrow> ('h, 'd) server \<Rightarrow> nat option" where
  "find_client i w = List.find (\<lambda>k. sc_id (sv_client_heap w ! k) = i) (sv_clients w)"

text \<open>The first loop of \<open>dispatch_pending\<close>; it collects the ids of the dead clients.\<close>

fun process_events ::
    "profile \<Rightarrow> ('h, 'd) dispatcher \<Rightarrow> poll_event list \<Rightarrow> u32 list \<Rightarrow> ('h, 'd) server \<Rightarrow>
       (hw_error, u32 list, ('h, 'd) server) eff" where
  "process_events pr disp [] dead w = Some (Ok dead, w)"
| "process_events pr disp (ev # evs) dead w =
     (if ev_key ev = 0 then
        bind_eff (accept_one pr (ev_accept ev) w) (\<lambda>_ w.
          if sv_listener w \<and> \<not> ev_modify_ok ev then Some (Err Io, w)
          else process_events pr disp evs dead w)
      else
        let i = of_nat (ev_key ev) in
        (case find_client i w of
           None \<Rightarrow> process_events pr disp evs dead w
         | Some k \<Rightarrow>
             bind_eff (no_error (dispatch_client pr disp k (ev_recv ev) w)) (\<lambda>_ w.
               if c_error (sc_conn (sv_client_heap w ! k)) then
                 process_events pr disp evs (dead @ [i]) w
               else if \<not> ev_modify_ok ev then Some (Err Io, w)
               else process_events pr disp evs dead w)))"

text \<open>
  The second loop: a dead client leaves the list, its objects are destroyed, and its state is dropped.
\<close>

fun bury ::
    "('h, 'd) dispatcher \<Rightarrow> u32 list \<Rightarrow> ('h, 'd) server \<Rightarrow> (hw_error, unit, ('h, 'd) server) eff" where
  "bury disp [] w = Some (Ok (), w)"
| "bury disp (i # dead) w =
     (case find_client i w of
        None \<Rightarrow> bury disp dead w
      | Some k \<Rightarrow>
          bind_eff (no_error (destroy_objects_for_disconnect disp k
              (w\<lparr>sv_clients := remove1 k (sv_clients w)\<rparr>)))
            (\<lambda>_ w. bury disp dead (upd_client k (\<lambda>c. c\<lparr>sc_alive := False\<rparr>) w)))"

definition dispatch_pending ::
    "profile \<Rightarrow> ('h, 'd) dispatcher \<Rightarrow> poll_event list \<Rightarrow> ('h, 'd) server \<Rightarrow>
       (hw_error, bool, ('h, 'd) server) eff" where
  "dispatch_pending pr disp events w =
     (if events = [] then Some (Ok False, w)
      else bind_eff (process_events pr disp events [] w) (\<lambda>dead w.
        bind_eff (bury disp dead w) (\<lambda>_ w. Some (Ok True, w))))"

text \<open>
  \<open>dispatch_events\<close>: the list holds what each \<open>poller.wait\<close> returns, \<open>None\<close> for an error; the loop ends
  when one returns nothing. When the list is used up, the last \<open>wait\<close> returned nothing.
\<close>

fun dispatch_events ::
    "profile \<Rightarrow> ('h, 'd) dispatcher \<Rightarrow> poll_event list option list \<Rightarrow> ('h, 'd) server \<Rightarrow>
       (hw_error, unit, ('h, 'd) server) eff" where
  "dispatch_events pr disp [] w = Some (Ok (), w)"
| "dispatch_events pr disp (None # waits) w = Some (Err Io, w)"
| "dispatch_events pr disp (Some events # waits) w =
     bind_eff (dispatch_pending pr disp events w) (\<lambda>more w.
       if more then dispatch_events pr disp waits w else Some (Ok (), w))"

text \<open>
  \<open>remove_client\<close>: every client state with the handle's id is marked, shut down and emptied, then the
  list keeps the others.
\<close>

fun remove_loop ::
    "('h, 'd) dispatcher \<Rightarrow> nat list \<Rightarrow> ('h, 'd) server \<Rightarrow> (error, unit, ('h, 'd) server) eff" where
  "remove_loop disp [] w = Some (Ok (), w)"
| "remove_loop disp (k # ks) w =
     bind_eff (destroy_objects_for_disconnect disp k (upd_conn k (shutdown_conn \<circ> set_error) w))
       (\<lambda>_ w. remove_loop disp ks w)"

definition remove_client ::
    "('h, 'd) dispatcher \<Rightarrow> u32 \<Rightarrow> ('h, 'd) server \<Rightarrow> (error, bool, ('h, 'd) server) eff" where
  "remove_client disp i w =
     (let ks = filter (\<lambda>k. sc_id (sv_client_heap w ! k) = i) (sv_clients w) in
      bind_eff (remove_loop disp ks w) (\<lambda>_ w.
        let left = filter (\<lambda>k. sc_id (sv_client_heap w ! k) \<noteq> i) (sv_clients w);
            w' = fold (\<lambda>k. upd_client k (\<lambda>c. c\<lparr>sc_alive := False\<rparr>)) ks (w\<lparr>sv_clients := left\<rparr>)
        in Some (Ok (length left < length (sv_clients w)), w')))"

section \<open>The loop stays within the contract\<close>

locale message_relation = server_relation R for R :: "('h, 'd) server \<Rightarrow> ('h, 'd) server \<Rightarrow> bool" +
  assumes R_due: "R w (upd_client k (\<lambda>c. c\<lparr>sc_scheduled_roundtrip_seq := s\<rparr>) w)"
begin

lemma R_version: "R w (upd_client k (\<lambda>c. c\<lparr>sc_version := v\<rparr>) w)"
  by (intro R_client) simp

lemma keeps_wrong_role: "keeps R w (wrong_role k w)"
  unfolding wrong_role_def by (intro keeps_Some_R R_conn) simp

lemma keeps_server_message:
  assumes k: "k < length (sv_client_heap w)"
  shows "keeps R w (server_message pr disp k t data fds needle w)"
proof (cases t)
  case Sup
  show ?thesis
    unfolding Sup server_message_def Let_def message_type.case
    by (rule keeps_trans[OF keeps_lift_R], rule keeps_after[OF R_first_poll],
        rule keeps_trans[OF keeps_lift_R], rule keeps_Some_R, rule R_conn) simp
next
  case HandshakeAck
  show ?thesis
    unfolding HandshakeAck server_message_def Let_def message_type.case
    by (rule keeps_trans[OF keeps_lift_R], rule keeps_after[OF R_version],
        rule keeps_trans[OF keeps_lift_R], rule keeps_Some_R, rule R_conn) simp
next
  case BindProtocol
  have "keeps R w' (case client_create_object k (bind_name msg) [] (bind_version msg) (bind_seq msg) w' of
      (new, w) \<Rightarrow> bind_eff (run (on_bind new w) w) (\<lambda>_ w. Some (Ok (length (bind_data msg), fds), w)))"
    if "R w w'" for msg w'
  proof -
    obtain new w1 where new: "client_create_object k (bind_name msg) [] (bind_version msg)
        (bind_seq msg) w' = (new, w1)" by fastforce
    have "R w' w1"
      using R_create[of k w' "bind_name msg" "[]" "bind_version msg" "bind_seq msg"]
        k R_heap[OF that] new by simp
    then show ?thesis
      unfolding new prod.case
      by (rule keeps_after) (intro keeps_trans keeps_run keeps_Some_R R_refl)
  qed
  with BindProtocol show ?thesis
    unfolding server_message_def by (auto intro!: keeps_trans[OF keeps_lift_R])
next
  case GenericProtocolMessage
  have "keeps R w (Option.bind (generic_from_bytes pr data fds needle) (\<lambda>r. lift_res r w))"
    by (cases "generic_from_bytes pr data fds needle") (simp_all add: keeps_lift_R)
  with GenericProtocolMessage show ?thesis
    unfolding server_message_def
    by (auto intro!: keeps_trans keeps_on_generic keeps_Some_R R_refl)
next
  case RoundtripRequest
  then show ?thesis
    unfolding server_message_def
    by (auto intro!: keeps_trans keeps_lift_R keeps_Some_R R_due)
qed (simp_all add: server_message_def keeps_wrong_role)

lemma keeps_server_handle_message:
  assumes "k < length (sv_client_heap w)"
  shows "keeps R w (server_handle_message pr disp k data fds needle w)"
proof -
  have "k < length (sv_client_heap w) \<longrightarrow> fst y \<noteq> Panic \<longrightarrow> R w (snd y)"
    if "server_handle_message pr disp k data fds needle w = Some y" for y
  proof (rule server_handle_message.raw_induct
      [where P = "\<lambda>pr disp k data fds needle w y.
        k < length (sv_client_heap w) \<longrightarrow> fst y \<noteq> Panic \<longrightarrow> R w (snd y)", OF _ that])
    fix loop :: "profile \<Rightarrow> ('h, 'd) dispatcher \<Rightarrow> nat \<Rightarrow> bytes \<Rightarrow> i32 list \<Rightarrow> usize \<Rightarrow>
        ('h, 'd) server \<Rightarrow> (error, unit, ('h, 'd) server) eff"
      and pr and disp :: "('h, 'd) dispatcher" and k data fds needle
      and w :: "('h, 'd) server" and y
    assume hyp: "\<And>pr disp k data fds needle w y. loop pr disp k data fds needle w = Some y \<Longrightarrow>
      k < length (sv_client_heap w) \<longrightarrow> fst y \<noteq> Panic \<longrightarrow> R w (snd y)"
    have IH: "keeps R w (loop pr disp k data fds needle w)" if "k < length (sv_client_heap w)"
      for pr disp data fds needle w
      using hyp[of pr disp k data fds needle w] that by (auto simp: keeps_def)
    let ?body = "if needle < length data then
        (case message_type_try_from (data ! needle) of
           Ok t \<Rightarrow>
             bind_eff (server_message pr disp k t data fds needle w) (\<lambda>x w.
             bind_eff (lift_res (uadd pr needle (fst x)) w) (\<lambda>needle' w.
               loop pr disp k data (snd x) needle' w))
         | _ \<Rightarrow> Some (Err InvalidMessage, w))
      else if fds \<noteq> [] then Some (Err MalformedMessage, w)
      else Some (Ok (), w)"
    assume body: "?body = Some y"
    show "k < length (sv_client_heap w) \<longrightarrow> fst y \<noteq> Panic \<longrightarrow> R w (snd y)"
    proof
      assume k: "k < length (sv_client_heap w)"
      have "keeps R w ?body"
        using k
        by (auto split: res.splits
            intro!: keeps_Some_R R_refl keeps_trans keeps_server_message keeps_lift_R IH
            dest!: R_heap)
      with body show "fst y \<noteq> Panic \<longrightarrow> R w (snd y)" by (cases y) (simp add: keeps_def)
    qed
  qed
  with assms show ?thesis by (auto simp: keeps_def)
qed

lemma keeps_fail_client: "keeps R w (fail_client k msg w)"
proof -
  have "talks c ((shutdown_conn \<circ> set_error \<circ> send_message (MFatal m)) c)" for c m
    using talks_trans[OF talks_fatal talks_steps(3)] by simp
  then show ?thesis
    unfolding fail_client_def by (intro keeps_trans keeps_lift_R keeps_Some_R R_conn)
qed

lemma keeps_dispatch_client:
  assumes k: "k < length (sv_client_heap w)"
  shows "keeps R w (dispatch_client pr disp k answers w)"
proof (cases "read_from_socket answers")
  case None
  then show ?thesis by (simp add: dispatch_client_def keeps_fail_client)
next
  case (Some raw)
  note handle = keeps_server_handle_message[OF k, of pr disp "raw_data raw" "raw_fds raw" 0]
  show ?thesis
  proof (cases "raw_data raw = []")
    case True
    with Some show ?thesis
      by (auto simp: dispatch_client_def intro!: keeps_Some_R R_conn[OF talks_close])
  next
    case False
    have ack: "R w' (upd_client k (\<lambda>c. c\<lparr>sc_scheduled_roundtrip_seq := 0\<rparr>)
        (upd_conn k (send_message (MRoundtripDone m)) w'))" for m w'
      by (rule R_trans[OF R_conn R_due]) simp
    show ?thesis
    proof (cases "server_handle_message pr disp k (raw_data raw) (raw_fds raw) 0 w")
      case None
      with Some False show ?thesis by (simp add: dispatch_client_def)
    next
      case res: (Some y)
      obtain r w' where y: "y = (r, w')" by fastforce
      have "R w w'" if "r \<noteq> Panic" using handle res y that by (simp add: keeps_def)
      then show ?thesis
        using Some False res y
        by (cases r) (auto simp: dispatch_client_def Let_def keeps_Panic
            intro!: keeps_Some_R keeps_after[OF _ keeps_fail_client] intro: R_trans[OF _ ack])
    qed
  qed
qed

end

interpretation frozen: message_relation frozen
  by unfold_locales (simp add: frozen_def upd_client_def map_same_update)

section \<open>The socket stays within the contract\<close>

locale socket_relation = message_relation R for R :: "('h, 'd) server \<Rightarrow> ('h, 'd) server \<Rightarrow> bool" +
  assumes R_push: "push_client pr peer w = Ok (i, w') \<Longrightarrow> R w w'"
    and R_clients: "set ks \<subseteq> set (sv_clients w) \<Longrightarrow> R w (w\<lparr>sv_clients := ks\<rparr>)"
    and R_impls: "R w (add_implementation im w)"
    and R_clients_ok: "R w w' \<Longrightarrow> clients_ok w \<Longrightarrow> clients_ok w'"
    and R_bury: "R w (upd_client k (\<lambda>c. c\<lparr>sc_alive := False\<rparr>) w)"
begin

lemma keeps_accept: "keeps R w (accept_one pr answer w)"
  unfolding accept_one_def
  by (auto split: accept_answer.splits res.splits intro: keeps_Some_R R_refl R_push keeps_Panic)

lemma keeps_add_client: "keeps R w (add_client pr ok peer w)"
  unfolding add_client_def by (auto split: res.splits intro: keeps_Some_R R_refl R_push keeps_Panic)

lemma find_client_ok: "find_client i w = Some k \<Longrightarrow> clients_ok w \<Longrightarrow> k < length (sv_client_heap w)"
  by (auto simp: find_client_def clients_ok_def find_Some_iff)

lemma keeps_process_events: "clients_ok w \<Longrightarrow> keeps R w (process_events pr disp evs dead w)"
proof (induction evs arbitrary: dead w)
  case (Cons ev evs)
  show ?case
  proof (cases "ev_key ev = 0")
    case True
    then show ?thesis
      using Cons by (auto intro!: keeps_trans keeps_accept keeps_Some_R R_refl Cons.IH
          dest: R_clients_ok)
  next
    case False
    show ?thesis
    proof (cases "find_client (of_nat (ev_key ev)) w")
      case None
      then show ?thesis using False Cons by simp
    next
      case (Some k)
      note keeps = keeps_no_error[OF keeps_dispatch_client[OF find_client_ok[OF Some Cons.prems]]]
      show ?thesis
        using False Some
        by (auto simp: Let_def intro!: keeps_trans keeps keeps_Some_R R_refl Cons.IH
            dest: R_clients_ok[OF _ Cons.prems])
    qed
  qed
qed (simp add: keeps_Some_R R_refl)

lemma keeps_bury: "keeps R w (bury disp dead w)"
proof (induction dead arbitrary: w)
  case (Cons i dead)
  have "R w (w\<lparr>sv_clients := remove1 k (sv_clients w)\<rparr>)" for k
    by (rule R_clients) (rule set_remove1_subset)
  then show ?case
    by (auto split: option.splits
        intro: Cons keeps_after[OF _ keeps_trans[OF keeps_no_error[OF keeps_destroy_objects]
          keeps_after[OF R_bury Cons]]])
qed (simp add: keeps_Some_R R_refl)

lemma keeps_dispatch_pending: "clients_ok w \<Longrightarrow> keeps R w (dispatch_pending pr disp events w)"
  unfolding dispatch_pending_def
  by (auto intro!: keeps_trans keeps_process_events keeps_bury keeps_Some_R R_refl)

lemma keeps_dispatch_events: "clients_ok w \<Longrightarrow> keeps R w (dispatch_events pr disp waits w)"
proof (induction waits arbitrary: w)
  case (Cons events waits)
  then show ?case
    by (cases events) (auto intro!: keeps_trans keeps_dispatch_pending keeps_Some_R R_refl
        dest: R_clients_ok)
qed (simp add: keeps_Some_R R_refl)

lemma keeps_remove_loop: "keeps R w (remove_loop disp ks w)"
proof (induction ks arbitrary: w)
  case (Cons k ks)
  show ?case
    unfolding remove_loop.simps
    by (rule keeps_after[OF R_conn[OF talks_close] keeps_trans[OF keeps_destroy_objects Cons]])
qed (simp add: keeps_Some_R R_refl)

lemma R_fold_bury: "R w (fold (\<lambda>k. upd_client k (\<lambda>c. c\<lparr>sc_alive := False\<rparr>)) ks w)"
  by (induction ks arbitrary: w) (auto intro: R_refl R_trans[OF R_bury])

lemma keeps_remove_client: "keeps R w (remove_client disp i w)"
  unfolding remove_client_def Let_def
  by (rule keeps_trans[OF keeps_remove_loop], rule keeps_Some_R,
      rule R_trans[OF R_clients R_fold_bury]) auto

end

lemma server_le_push_client: "push_client pr peer w = Ok (i, w') \<Longrightarrow> server_le w w'"
  by (auto simp: push_client_def Let_def bind_res_eq_Ok server_le_def clients_ok_def nth_append)
    fastforce

interpretation evolution: socket_relation server_le
proof
  show "server_le w (w\<lparr>sv_clients := ks\<rparr>)" if "set ks \<subseteq> set (sv_clients w)"
    for ks and w :: "('a, 'b) server"
    using that by (auto simp: server_le_def clients_ok_def)
  show "server_le w (add_implementation im w)" for im and w :: "('a, 'b) server"
    by (auto simp: server_le_def add_implementation_def clients_ok_def)
  show "clients_ok w'" if "server_le w w'" "clients_ok w" for w w' :: "('a, 'b) server"
    using that by (simp add: server_le_def)
  show "server_le w (upd_client k (\<lambda>c. c\<lparr>sc_alive := False\<rparr>) w)"
    "server_le w (upd_client k (\<lambda>c. c\<lparr>sc_scheduled_roundtrip_seq := s\<rparr>) w)" for k s and w :: "('a, 'b) server"
    by (rule server_le_client, simp add: client_evolves_def)+
qed (rule server_le_push_client)

lemma views_ok_push:
  assumes "views_ok ov cv"
  shows "views_ok ov (cv @ [(1, [])])"
proof -
  have "ids_of ov (length cv) = []"
    using assms by (auto simp: views_ok_def ids_of_def filter_empty_conv)
  then have "client_ok ov (length cv) (1, [])" by (simp add: client_ok_def count_ids_def)
  with assms show ?thesis by (auto simp: views_ok_def nth_append less_Suc_eq)
qed

lemma server_inv_push_client: "push_client pr peer w = Ok (i, w') \<Longrightarrow> server_inv w \<Longrightarrow> server_inv w'"
  using views_ok_push[of "objects_view w" "clients_view w"]
  by (auto simp: push_client_def Let_def bind_res_eq_Ok server_inv_def objects_view_def
      clients_view_def server_client_new_def)

interpretation ids: socket_relation inv_step
proof
  show "inv_step w w'" if "push_client pr peer w = Ok (i, w')" for pr peer i and w w' :: "('a, 'b) server"
    using that by (auto simp: inv_step_def server_le_push_client intro: server_inv_push_client)
  show "inv_step w (w\<lparr>sv_clients := ks\<rparr>)" if "set ks \<subseteq> set (sv_clients w)"
    for ks and w :: "('a, 'b) server"
    using evolution.R_clients[OF that]
    by (simp add: inv_step_def server_inv_def objects_view_def clients_view_def)
  show "inv_step w (add_implementation im w)" for im and w :: "('a, 'b) server"
    using evolution.R_impls[of w im]
    by (simp add: inv_step_def server_inv_def objects_view_def clients_view_def add_implementation_def)
  show "clients_ok w'" if "inv_step w w'" "clients_ok w" for w w' :: "('a, 'b) server"
    using that evolution.R_clients_ok by (auto simp: inv_step_def)
  show "inv_step w (upd_client k (\<lambda>c. c\<lparr>sc_alive := False\<rparr>) w)"
    "inv_step w (upd_client k (\<lambda>c. c\<lparr>sc_scheduled_roundtrip_seq := s\<rparr>) w)" for k s and w :: "('a, 'b) server"
    by (simp_all add: inv_step_def evolution.R_bury evolution.R_due server_inv_client filter_True_ex)
qed

section \<open>Reachable states\<close>

text \<open>
  What an application does with a server: it registers implementations, adds and removes clients, uses its
  objects in any way (a \<open>prog\<close> outside of callbacks), and dispatches events, with any answers of the system and any
  callbacks. An operation that panics has no successor.
\<close>

inductive server_step ::
    "profile \<Rightarrow> ('h, 'd) dispatcher \<Rightarrow> ('h, 'd) server \<Rightarrow> ('h, 'd) server \<Rightarrow> bool"
  for pr disp where
  implement: "server_step pr disp w (add_implementation im w)"
| add: "add_client pr ok peer w = Some (r, w') \<Longrightarrow> r \<noteq> Panic \<Longrightarrow> server_step pr disp w w'"
| remove: "remove_client disp i w = Some (r, w') \<Longrightarrow> r \<noteq> Panic \<Longrightarrow> server_step pr disp w w'"
| app: "run p w = Some (Ok (), w') \<Longrightarrow> server_step pr disp w w'"
| dispatch: "dispatch_events pr disp waits w = Some (r, w') \<Longrightarrow> r \<noteq> Panic \<Longrightarrow> server_step pr disp w w'"

inductive server_reachable :: "profile \<Rightarrow> ('h, 'd) dispatcher \<Rightarrow> ('h, 'd) server \<Rightarrow> bool"
  for pr disp where
  start: "server_reachable pr disp (server_new listening app)"
| step: "server_reachable pr disp w \<Longrightarrow> server_step pr disp w w' \<Longrightarrow> server_reachable pr disp w'"

lemma server_step_inv:
  assumes "server_step pr disp w w'" and "clients_ok w"
  shows "inv_step w w'"
  using assms
proof cases
  case (implement im)
  then show ?thesis using ids.R_impls by simp
next
  case (add ok peer r)
  then show ?thesis using keepsD[OF ids.keeps_add_client] by blast
next
  case (remove i r)
  then show ?thesis using keepsD[OF ids.keeps_remove_client] by blast
next
  case (app p)
  then show ?thesis using keepsD[OF ids.keeps_run] by blast
next
  case (dispatch waits r)
  then show ?thesis using keepsD[OF ids.keeps_dispatch_events[OF assms(2)]] by blast
qed

lemma server_reachable_inv:
  "server_reachable pr disp w \<Longrightarrow> server_inv w \<and> clients_ok w"
proof (induction rule: server_reachable.induct)
  case (start listening app)
  then show ?case
    by (simp add: server_new_def server_inv_def views_ok_def clients_ok_def objects_view_def
      clients_view_def)
next
  case (step w w')
  have "inv_step w w'" using step.hyps(2) step.IH by (intro server_step_inv) auto
  with step.IH show ?case using ids.R_clients_ok[of w w'] by (auto simp: inv_step_def)
qed

end
