(* ===== verification/Server_Properties.thy ===== *)
theory Server_Properties
  imports Server_Loop
begin

text \<open>
  What the server guarantees: the theorems about the models of \<open>server_object.rs\<close>,
  \<open>server_client.rs\<close>, \<open>server_socket.rs\<close> and the server's half of \<open>message.rs\<close>, over the contracts proved
  in \<open>Server_Invariant\<close> and \<open>Server_Loop\<close>.
\<close>

section \<open>Helpers\<close>

lemma upd_client_nth [simp]:
  "k < length (sv_client_heap w) \<Longrightarrow> sv_client_heap (upd_client k g w) ! k = g (sv_client_heap w ! k)"
  by (simp add: upd_client_def)

lemma upd_conn_nth [simp]:
  "k < length (sv_client_heap w) \<Longrightarrow>
     sc_conn (sv_client_heap (upd_conn k f w) ! k) = f (sc_conn (sv_client_heap w ! k))"
  by (simp add: upd_conn_def)

lemma upd_client_simps [simp]:
  "sv_objects (upd_client k g w) = sv_objects w" "sv_impls (upd_client k g w) = sv_impls w"
  "sv_clients (upd_client k g w) = sv_clients w" "sv_app (upd_client k g w) = sv_app w"
  "length (sv_client_heap (upd_client k g w)) = length (sv_client_heap w)"
  by (simp_all add: upd_client_def)

lemma upd_conn_simps [simp]:
  "sv_objects (upd_conn k f w) = sv_objects w" "sv_impls (upd_conn k f w) = sv_impls w"
  "length (sv_client_heap (upd_conn k f w)) = length (sv_client_heap w)"
  by (simp_all add: upd_conn_def)

lemma upd_object_simps [simp]:
  "sv_client_heap (upd_object r f w) = sv_client_heap w" "sv_impls (upd_object r f w) = sv_impls w"
  "length (sv_objects (upd_object r f w)) = length (sv_objects w)"
  by (simp_all add: upd_object_def)

lemma upd_object_nth:
  "r < length (sv_objects w) \<Longrightarrow>
     sv_objects (upd_object r f w) ! s = (if s = r then f (sv_objects w ! r) else sv_objects w ! s)"
  by (simp add: upd_object_def nth_list_update)

lemma fatal_new_Ok:
  "length msg < usize_bound \<Longrightarrow> \<exists>m. fatal_protocol_error_new i e msg = Ok m \<and>
     fatal_object_id m = i \<and> fatal_error_id m = e \<and> fatal_error_msg m = msg"
  by (simp add: fatal_protocol_error_new_def)

lemma length_unknown_object_msg: "length (unknown_object_msg i) < usize_bound"
  using length_show_u32[of i] by (simp add: unknown_object_msg_def ascii_def usize_bound_def)

lemma frozen_facts:
  assumes "frozen w w'"
  shows "sv_impls w' = sv_impls w" and "length (sv_client_heap w') = length (sv_client_heap w)"
    and "k < length (sv_client_heap w) \<Longrightarrow>
      sc_alive (sv_client_heap w' ! k) = sc_alive (sv_client_heap w ! k)"
proof -
  from assms have alive: "map sc_alive (sv_client_heap w') = map sc_alive (sv_client_heap w)"
    by (simp add: frozen_def)
  then show len: "length (sv_client_heap w') = length (sv_client_heap w)"
    by (rule map_eq_imp_length_eq)
  show "sv_impls w' = sv_impls w" using assms by (simp add: frozen_def)
  show "sc_alive (sv_client_heap w' ! k) = sc_alive (sv_client_heap w ! k)"
    if "k < length (sv_client_heap w)"
    using arg_cong[OF alive, of "\<lambda>xs. xs ! k"] that len by simp
qed

lemma server_le_object_at:
  "server_le w w' \<Longrightarrow> r < length (sv_objects w) \<Longrightarrow> object_le (sv_objects w ! r) (sv_objects w' ! r)"
  by (simp add: server_le_def)

lemma server_le_out:
  assumes "server_le w w'" and "k < length (sv_client_heap w)"
  shows "\<exists>ms. c_out (sc_conn (sv_client_heap w' ! k)) = c_out (sc_conn (sv_client_heap w ! k)) @ ms"
  using assms by (auto simp: server_le_def client_evolves_def conn_le_def)

lemma server_inv_table:
  assumes "server_inv w" and "k < length (sv_client_heap w)" and "r \<in> set (sc_objects (sv_client_heap w ! k))"
  shows "r < length (sv_objects w)" and "so_client (sv_objects w ! r) = k"
proof -
  have "client_ok (objects_view w) k (clients_view w ! k)"
    using assms by (simp add: server_inv_def views_ok_def clients_view_def)
  with assms show len: "r < length (sv_objects w)"
    by (simp add: client_ok_def clients_view_def objects_view_def)
  from \<open>client_ok _ _ _\<close> assms len show "so_client (sv_objects w ! r) = k"
    by (auto simp: client_ok_def clients_view_def objects_view_def)
qed

lemma find_object_SomeD:
  "find_object k i w = Some r \<Longrightarrow>
     r \<in> set (sc_objects (sv_client_heap w ! k)) \<and> so_id (sv_objects w ! r) = i"
  by (auto simp: find_object_def find_Some_iff)

text \<open>A message that was read has a length, so the loop's index grows.\<close>

lemma server_message_progress:
  assumes ok: "server_message Debug disp k t data fds needle w = Some (Ok (n, fds'), w')"
    and len: "length data \<le> isize_max"
  shows "0 < n"
proof (cases t)
  case Sup
  with ok obtain m where "hello_from_bytes data needle = Ok m" "n = length (hello_data m)"
    by (auto simp: server_message_def bind_eff_Some Let_def)
  with hello.parse_progress(1)[OF len] show ?thesis by simp
next
  case HandshakeAck
  with ok obtain m where "handshake_ack_from_bytes data needle = Ok m" "n = length (ack_data m)"
    by (auto simp: server_message_def bind_eff_Some Let_def)
  with ack.parse_progress(1)[OF len] show ?thesis by simp
next
  case BindProtocol
  with ok obtain m where "bind_protocol_from_bytes Debug data needle = Ok m" "n = length (bind_data m)"
    by (auto simp: server_message_def bind_eff_Some case_prod_beta)
  with bindp.parse_progress(1)[OF len] show ?thesis by simp
next
  case GenericProtocolMessage
  with ok obtain m where "generic_from_bytes Debug data fds needle = Some (Ok (m, fds'))"
    "n = length (gm_data m)"
    by (auto simp: server_message_def bind_eff_Some Option.bind_eq_Some_conv)
  moreover from generic_from_bytes_bwd[OF this(1)] obtain object meth fs B
    where "m = generic_parsed object meth fs B fds" by blast
  ultimately show ?thesis by (simp add: generic_parsed_def)
next
  case RoundtripRequest
  with ok obtain m where "roundtrip_request_from_bytes data needle = Ok m" "n = length (req_data m)"
    by (auto simp: server_message_def bind_eff_Some)
  with rtreq.parse_progress(1)[OF len] show ?thesis by simp
qed (use ok in \<open>simp_all add: server_message_def wrong_role_def\<close>)

section \<open>An example\<close>

text \<open>
  A server with one implementation, whose root object has one method, a destructor, and one client.
  The witnesses of the properties below run on it.
\<close>

definition example_object :: object_spec where
  "example_object = \<lparr>object_name = ascii ''root'', c2s = [\<lparr>method_idx = 0, method_params = [],
     returns_type = [], since = 0, destructor = True\<rparr>], s2c = []\<rparr>"

definition example_impl :: "(unit, unit) server_impl" where
  "example_impl = \<lparr>im_spec = \<lparr>spec_name = ascii ''demo'', spec_ver = 1, spec_objects = [example_object]\<rparr>,
     im_objects = []\<rparr>"

definition example_server :: "(unit, unit) server" where
  "example_server = \<lparr>sv_impls = [example_impl], sv_objects = [],
     sv_client_heap = [server_client_new 1 None], sv_clients = [0], sv_listener = False,
     sv_next_client_id = 2, sv_app = ()\<rparr>"

definition example_dispatcher :: "(unit, unit) dispatcher" where
  "example_dispatcher h i data fds app = Finish"

text \<open>The same server after its client has bound the protocol.\<close>

definition example_bound :: "(unit, unit) server" where
  "example_bound = snd (client_create_object 0 (ascii ''demo'') [] 1 1 example_server)"

lemma run_Finish [simp]: "run Finish w = Some (Ok (), w)"
  by (subst run.simps) simp

lemma example_on_bind [simp]: "sv_impls w = [example_impl] \<Longrightarrow> on_bind r w = Finish"
  by (simp add: on_bind_def find_impl_def example_impl_def Let_def split: option.splits)

lemma example_reachable: "server_reachable Debug example_dispatcher example_server"
proof -
  let ?w0 = "server_new False () :: (unit, unit) server"
  let ?w1 = "add_implementation example_impl ?w0"
  have "server_reachable Debug example_dispatcher ?w1"
    by (rule server_reachable.step[OF server_reachable.start server_step.implement])
  moreover have "add_client Debug True None ?w1 = Some (Ok 1, example_server)"
    by (simp add: add_client_def push_client_def succ_u32_def Let_def server_new_def
      add_implementation_def example_server_def)
  then have "server_step Debug example_dispatcher ?w1 example_server"
    by (rule server_step.add) simp
  ultimately show ?thesis by (rule server_reachable.step)
qed

lemma example_bound_eq:
  "sv_objects example_bound = [\<lparr>so_client = 0, so_spec = Some example_object, so_destroyed = False,
      so_data = None, so_reading = False, so_id = 1, so_version = 1, so_seq = 1,
      so_protocol_name = ascii ''demo''\<rparr>]"
  "sv_client_heap example_bound = [(server_client_new 1 None)\<lparr>sc_max_id := 2, sc_objects := [0],
      sc_conn := send_message (MNewObject (new_object_new 1 1)) conn_new\<rparr>]"
  "sv_impls example_bound = [example_impl]"
  by (simp_all add: example_bound_def client_create_object_def Let_def example_server_def
      server_client_new_def find_spec_def find_impl_def example_impl_def upd_client_def)

lemma example_bound_inv: "server_inv example_bound"
  using server_inv_create[of example_server 0 "ascii ''demo''" "[]" 1 1]
    server_reachable_inv[OF example_reachable]
  by (simp add: example_bound_def) (simp add: example_server_def)

section \<open>Properties\<close>

text \<open>A call on an object the client does not have ends the connection: the server sends a fatal
  error that names the object, raises the connection's error flag and changes nothing else.\<close>
theorem unknown_object_fatal:
  assumes "find_object k (gm_object msg) w = None" and "k < length (sv_client_heap w)"
  shows "\<exists>fatal. on_generic disp k msg w = Some (Ok (), upd_conn k (set_error \<circ> send_message (MFatal fatal)) w) \<and>
    fatal_object_id fatal = gm_object msg \<and> fatal_error_id fatal = - 1 \<and>
    fatal_error_msg fatal = unknown_object_msg (gm_object msg)"
  using assms fatal_new_Ok[OF length_unknown_object_msg, of "gm_object msg" "- 1" "gm_object msg"]
  by (auto simp: on_generic_def lift_res_def)

theorem unknown_object_fatal_witness:
  "\<exists>fatal. on_generic example_dispatcher 0 (generic_message_new [] []) example_server =
      Some (Ok (), upd_conn 0 (set_error \<circ> send_message (MFatal fatal)) example_server) \<and>
    fatal_object_id fatal = 0 \<and> fatal_error_id fatal = - 1 \<and>
    fatal_error_msg fatal = unknown_object_msg 0"
  using unknown_object_fatal[of 0 "generic_message_new [] []" example_server example_dispatcher]
  by (simp add: find_object_def example_server_def server_client_new_def generic_message_new_def)

text \<open>Whatever happens while a client is dispatched, objects keep their owner, id, version, sequence
  number, protocol and spec, a destroyed object stays destroyed, and every connection keeps its error
  flag and the messages it has sent, in order.\<close>
theorem dispatch_keeps_history:
  assumes "k < length (sv_client_heap w)"
    and "dispatch_client pr disp k answers w = Some (r, w')" and "r \<noteq> Panic"
  shows "server_le w w'"
  using keepsD[OF evolution.keeps_dispatch_client[OF assms(1)] assms(2,3)] .

theorem dispatch_keeps_history_witness:
  "server_le example_bound (upd_conn 0 (shutdown_conn \<circ> set_error) example_bound)"
proof (rule dispatch_keeps_history)
  show "0 < length (sv_client_heap example_bound)" by (simp add: example_bound_eq)
  show "dispatch_client Debug example_dispatcher 0 [Received [] []] example_bound =
      Some (Ok (), upd_conn 0 (shutdown_conn \<circ> set_error) example_bound)"
    by (simp add: dispatch_client_def read_from_socket_def)
qed simp

text \<open>A destroyed object is silent: it sends no call and no error, and creates no object.\<close>
theorem destroyed_silent:
  assumes "so_destroyed (sv_objects w ! r)"
  shows "server_call r i args w = Ok (0, w) \<and> server_error r e msg w = Ok w \<and>
    object_create_object r name seq w = None"
  using assms by (simp add: server_call_def server_error_def object_create_object_def)

theorem destroyed_silent_witness:
  "server_call 0 0 [] (mark_destroyed 0 example_bound) = Ok (0, mark_destroyed 0 example_bound) \<and>
   server_error 0 1 (ascii ''x'') (mark_destroyed 0 example_bound) = Ok (mark_destroyed 0 example_bound) \<and>
   object_create_object 0 [] 2 (mark_destroyed 0 example_bound) = None"
  by (rule destroyed_silent) (simp add: mark_destroyed_def upd_object_def example_bound_eq)

text \<open>C32: A message the server cannot accept ends the connection: when the data read from a client does
  not parse, or a message arrives that only a server sends, the server's last message to the client
  is a fatal error, its error flag is raised and the stream is shut down.\<close>
theorem malformed_closes:
  assumes k: "k < length (sv_client_heap w)"
    and read: "read_from_socket answers = Some raw" "raw_data raw \<noteq> []"
    and err: "server_handle_message pr disp k (raw_data raw) (raw_fds raw) 0 w = Some (Err e, w1)"
  shows "\<exists>fatal w2. dispatch_client pr disp k answers w = Some (Ok (), w2) \<and>
    w2 = upd_conn k (shutdown_conn \<circ> set_error \<circ> send_message (MFatal fatal)) w1 \<and>
    fatal_error_msg fatal = ascii ''fatal: failed to handle message on wire'' \<and>
    c_error (sc_conn (sv_client_heap w2 ! k)) \<and> c_shut (sc_conn (sv_client_heap w2 ! k)) \<and>
    last (c_out (sc_conn (sv_client_heap w2 ! k))) = MFatal fatal"
proof -
  let ?msg = "ascii ''fatal: failed to handle message on wire''"
  have "length ?msg < usize_bound" by (simp add: ascii_def usize_bound_def)
  from fatal_new_Ok[OF this, of 0 "- 1"] obtain fatal where fatal:
    "fatal_protocol_error_new 0 (- 1) ?msg = Ok fatal" "fatal_error_msg fatal = ?msg" by blast
  have "k < length (sv_client_heap w1)"
    using keepsD[OF evolution.keeps_server_handle_message[OF k] err] k
    by (auto dest: evolution.R_heap)
  with read err fatal show ?thesis
    by (auto simp: dispatch_client_def fail_client_def lift_res_def)
qed

theorem malformed_closes_witness:
  "\<exists>fatal w2. dispatch_client Debug example_dispatcher 0 [Received [0] []] example_server = Some (Ok (), w2) \<and>
    w2 = upd_conn 0 (shutdown_conn \<circ> set_error \<circ> send_message (MFatal fatal)) example_server \<and>
    fatal_error_msg fatal = ascii ''fatal: failed to handle message on wire'' \<and>
    c_error (sc_conn (sv_client_heap w2 ! 0)) \<and> c_shut (sc_conn (sv_client_heap w2 ! 0)) \<and>
    last (c_out (sc_conn (sv_client_heap w2 ! 0))) = MFatal fatal"
proof (rule malformed_closes)
  show "0 < length (sv_client_heap example_server)" by (simp add: example_server_def)
  show "read_from_socket [Received [0] []] = Some \<lparr>raw_data = [0], raw_fds = []\<rparr>"
    by (simp add: read_from_socket_def buffer_size_def)
  show "server_handle_message Debug example_dispatcher 0 (raw_data \<lparr>raw_data = [0], raw_fds = []\<rparr>)
      (raw_fds \<lparr>raw_data = [0], raw_fds = []\<rparr>) 0 example_server = Some (Err InvalidMessage, example_server)"
    by (subst server_handle_message.simps) (simp add: message_type_try_from_def)
qed simp

text \<open>The object a request creates, once its \<open>on_bind\<close> has run.\<close>

lemma bound_object:
  assumes k: "k < length (sv_client_heap w)"
    and new: "client_create_object k name [] version seq w = (r, w1)"
    and callback: "run (on_bind r w1) w1 = Some (Ok (), w2)"
  shows "r = length (sv_objects w) \<and> r < length (sv_objects w2) \<and>
    so_client (sv_objects w2 ! r) = k \<and> so_id (sv_objects w2 ! r) = sc_max_id (sv_client_heap w ! k) \<and>
    so_version (sv_objects w2 ! r) = version \<and> so_seq (sv_objects w2 ! r) = seq \<and>
    so_spec (sv_objects w2 ! r) = find_spec (sv_impls w) name [] \<and>
    so_protocol_name (sv_objects w2 ! r) = name \<and>
    (\<exists>ms. c_out (sc_conn (sv_client_heap w2 ! k)) = c_out (sc_conn (sv_client_heap w ! k)) @
      MNewObject (new_object_new seq (sc_max_id (sv_client_heap w ! k))) # ms)"
proof -
  let ?oid = "sc_max_id (sv_client_heap w ! k)"
  have r: "r = length (sv_objects w)" and r1: "r < length (sv_objects w1)"
    and obj: "so_client (sv_objects w1 ! r) = k" "so_id (sv_objects w1 ! r) = ?oid"
      "so_version (sv_objects w1 ! r) = version" "so_seq (sv_objects w1 ! r) = seq"
      "so_spec (sv_objects w1 ! r) = find_spec (sv_impls w) name []"
      "so_protocol_name (sv_objects w1 ! r) = name"
    and out: "c_out (sc_conn (sv_client_heap w1 ! k)) = c_out (sc_conn (sv_client_heap w ! k)) @
      [MNewObject (new_object_new seq ?oid)]"
    and k1: "k < length (sv_client_heap w1)"
    using new k by (auto simp: client_create_object_def Let_def)
  have le: "server_le w1 w2" using keepsD[OF evolution.keeps_run callback] by simp
  note same = server_le_object_at[OF le r1]
  from le r1 have "r < length (sv_objects w2)" by (simp add: server_le_def)
  moreover from server_le_out[OF le k1] out have "\<exists>ms. c_out (sc_conn (sv_client_heap w2 ! k)) =
      c_out (sc_conn (sv_client_heap w ! k)) @ MNewObject (new_object_new seq ?oid) # ms"
    by auto
  ultimately show ?thesis using r obj same by (simp add: object_le_def)
qed

text \<open>Binding a protocol creates its object: the object gets the client's next id and the version
  and sequence number of the request, its spec is the first object of the first implementation of
  that name (none, if there is none), and the client is told the id before anything else is sent.\<close>
theorem bind_creates_object:
  assumes k: "k < length (sv_client_heap w)"
    and msg: "bind_protocol_from_bytes pr data needle = Ok msg"
    and new: "client_create_object k (bind_name msg) [] (bind_version msg) (bind_seq msg) w = (r, w1)"
    and callback: "run (on_bind r w1) w1 = Some (Ok (), w2)"
  shows "server_message pr disp k BindProtocol data fds needle w =
      Some (Ok (length (bind_data msg), fds), w2) \<and>
    r = length (sv_objects w) \<and> r < length (sv_objects w2) \<and>
    so_client (sv_objects w2 ! r) = k \<and>
    so_id (sv_objects w2 ! r) = sc_max_id (sv_client_heap w ! k) \<and>
    so_version (sv_objects w2 ! r) = bind_version msg \<and> so_seq (sv_objects w2 ! r) = bind_seq msg \<and>
    so_spec (sv_objects w2 ! r) = find_spec (sv_impls w) (bind_name msg) [] \<and>
    (\<exists>ms. c_out (sc_conn (sv_client_heap w2 ! k)) = c_out (sc_conn (sv_client_heap w ! k)) @
      MNewObject (new_object_new (bind_seq msg) (sc_max_id (sv_client_heap w ! k))) # ms)"
proof -
  have "server_message pr disp k BindProtocol data fds needle w = Some (Ok (length (bind_data msg), fds), w2)"
    using msg new callback by (simp add: server_message_def lift_res_def)
  with bound_object[OF k new callback] show ?thesis by blast
qed

theorem bind_creates_object_witness:
  "\<exists>msg. bind_protocol_new (ascii ''demo'') 1 1 = Ok msg \<and>
    server_message Debug example_dispatcher 0 BindProtocol (bind_data msg) [] 0 example_server =
      Some (Ok (length (bind_data msg), []), example_bound) \<and>
    so_id (sv_objects example_bound ! 0) = 1 \<and>
    so_spec (sv_objects example_bound ! 0) = find_spec [example_impl] (ascii ''demo'') []"
proof -
  let ?m = "\<lparr>bind_seq = 1, bind_version = 1, bind_name = ascii ''demo'',
      bind_data = bind_bytes [4] 1 (ascii ''demo'') 1\<rparr>"
  have "bind_protocol_new (ascii ''demo'') 1 1 = Ok ?m"
    by (simp add: bind_protocol_new_def usize_bound_def varint.simps)
  then obtain msg where new: "bind_protocol_new (ascii ''demo'') 1 1 = Ok msg"
    and msg: "bind_name msg = ascii ''demo''" "bind_version msg = 1" "bind_seq msg = 1"
      "bind_data msg = bind_bytes [4] 1 (ascii ''demo'') 1"
    using that[of ?m] by simp
  have "bind_built msg"
    using new msg by (simp add: bind_built_def isize_max_def)
  from bindp.parse_own[OF this, of Debug] have
    parse: "bind_protocol_from_bytes Debug (bind_data msg) 0 = Ok msg"
    by (simp add: msg(4) bind_bytes_def isize_max_def)
  have create: "client_create_object 0 (bind_name msg) [] (bind_version msg) (bind_seq msg) example_server =
      (0, example_bound)"
    by (simp add: msg example_bound_def client_create_object_def Let_def example_server_def)
  have "run (on_bind 0 example_bound) example_bound = Some (Ok (), example_bound)"
    by (simp add: example_bound_eq)
  from bind_creates_object[OF _ parse create this, of example_dispatcher "[]"] new msg
  show ?thesis by (auto simp: example_server_def server_client_new_def)
qed

text \<open>C29: After a destructor call the object is gone: it is marked destroyed, it has left its client's
  table, and its id is unknown to later calls.\<close>
theorem destructor_removes:
  assumes inv: "server_inv w" and k: "k < length (sv_client_heap w)" "sc_alive (sv_client_heap w ! k)"
    and found: "find_object k (gm_object msg) w = Some r" and id: "gm_object msg \<noteq> 0"
    and spec: "so_spec (sv_objects w ! r) = Some spec" and dtor: "is_destructor (c2s spec) (gm_method msg)"
    and ok: "on_generic disp k msg w = Some (Ok (), w')"
  shows "so_destroyed (sv_objects w' ! r) \<and> r \<notin> set (sc_objects (sv_client_heap w' ! k)) \<and>
    find_object k (gm_object msg) w' = None"
proof -
  from find_object_SomeD[OF found] have r: "r \<in> set (sc_objects (sv_client_heap w ! k))"
    and rid: "so_id (sv_objects w ! r) = gm_object msg" by auto
  note table = server_inv_table[OF inv k(1) r]
  from ok found obtain span w1 where
    disp: "object_dispatch disp r (gm_method msg) span (gm_fds msg) w = Some (Ok (), w1)"
    and w': "w' = (let obj = sv_objects w1 ! r in
      if is_destructor (case so_spec obj of Some spec \<Rightarrow> c2s spec | None \<Rightarrow> []) (gm_method msg)
      then (let w' = mark_destroyed r w1 in
            if so_id obj \<noteq> 0 \<and> sc_alive (sv_client_heap w' ! so_client obj)
            then destroy_object (so_client obj) (so_id obj) w' else w')
      else w1)"
    by (auto simp: on_generic_def bind_eff_Some Let_def)
  have le: "server_le w w1" and fr: "frozen w w1"
    using keepsD[OF evolution.keeps_object_dispatch disp] keepsD[OF frozen.keeps_object_dispatch disp]
    by auto
  note same = server_le_object_at[OF le table(1)]
  have k1: "k < length (sv_client_heap w1)" "sc_alive (sv_client_heap w1 ! k)"
    using frozen_facts[OF fr] k by auto
  have r1: "r < length (sv_objects w1)" using le table(1) by (simp add: server_le_def)
  have "w' = destroy_object k (gm_object msg) (mark_destroyed r w1)"
    using w' same table(2) rid spec dtor id k1
    by (simp add: object_le_def Let_def mark_destroyed_def)
  then show ?thesis
    using k1 r1 same rid
    by (auto simp: destroy_object_def mark_destroyed_def find_object_def upd_object_nth object_le_def
        find_None_iff)
qed

theorem destructor_removes_witness:
  "so_destroyed (sv_objects (destroy_object 0 1 (mark_destroyed 0 example_bound)) ! 0) \<and>
   0 \<notin> set (sc_objects (sv_client_heap (destroy_object 0 1 (mark_destroyed 0 example_bound)) ! 0)) \<and>
   find_object 0 1 (destroy_object 0 1 (mark_destroyed 0 example_bound)) = None"
proof -
  let ?msg = "generic_parsed 1 0 [] [] []"
  have msg: "gm_object ?msg = 1" "gm_method ?msg = 0" by (simp_all add: generic_parsed_def)
  have found: "find_object 0 1 example_bound = Some 0"
    by (simp add: find_object_def example_bound_eq)
  have "on_generic example_dispatcher 0 ?msg example_bound =
      Some (Ok (), destroy_object 0 1 (mark_destroyed 0 example_bound))"
    using found
    by (simp add: on_generic_def msg data_span_parsed lift_res_def object_dispatch_def example_bound_eq
      is_destructor_def example_object_def Let_def mark_destroyed_def server_client_new_def)
  from destructor_removes[OF example_bound_inv _ _ _ _ _ _ this, of 0 example_object] found
  show ?thesis
    by (simp add: msg example_bound_eq server_client_new_def is_destructor_def example_object_def)
qed

lemma returns_server_dispatch:
  fixes w w' :: "('h, 'd) server"
  assumes "\<And>w' h i d f app. sv_impls w' = sv_impls w \<Longrightarrow> returns (run (disp h i d f app) w')"
    and "sv_impls w' = sv_impls w"
  shows "returns (object_dispatch disp r i d f w')" and "returns (on_generic disp k m w')"
proof -
  have dispatch: "returns (object_dispatch disp r i d f w')" if "sv_impls w' = sv_impls w" for r i d f and w' :: "('h, 'd) server"
    using assms(1)[of "upd_object r (\<lambda>obj. obj\<lparr>so_reading := True\<rparr>) w'"] that
    by (auto simp: object_dispatch_def split: option.splits intro!: returns_bind)
  with assms(2) show "returns (object_dispatch disp r i d f w')" by blast
  from assms(2) show "returns (on_generic disp k m w')"
    by (auto simp: on_generic_def Let_def split: option.splits intro!: returns_bind dispatch)
qed

lemma returns_server_message:
  fixes w w' :: "('h, 'd) server"
  assumes on_bind: "\<And>w' r. sv_impls w' = sv_impls w \<Longrightarrow> returns (run (on_bind r w') w')"
    and callback: "\<And>w' h i d f app. sv_impls w' = sv_impls w \<Longrightarrow> returns (run (disp h i d f app) w')"
    and w': "sv_impls w' = sv_impls w"
  shows "returns (server_message Debug disp k t data fds needle w')"
proof (cases t)
  case BindProtocol
  have "returns (run (on_bind r w1) w1)"
    if "client_create_object k n [] v s w' = (r, w1)" for n v s r w1
    using that w' by (intro on_bind) (auto simp: client_create_object_def Let_def)
  with BindProtocol show ?thesis
    by (auto simp: server_message_def split: prod.splits intro!: returns_bind)
next
  case GenericProtocolMessage
  obtain r where "generic_from_bytes Debug data fds needle = Some r"
    using generic_from_bytes_Debug_returns by blast
  with GenericProtocolMessage returns_server_dispatch(2)[OF callback w'] show ?thesis
    by (auto simp: server_message_def split: prod.splits intro!: returns_bind)
qed (auto simp: server_message_def wrong_role_def Let_def intro!: returns_bind)

text \<open>C25: The message loop ends, whatever the peer sends: with overflow checks, and if the application's
  callbacks return, \<open>handle_message\<close> returns on every buffer.\<close>
theorem server_loop_returns:
  assumes k: "k < length (sv_client_heap w)" and len: "length data \<le> isize_max"
    and on_bind: "\<And>w' r. sv_impls w' = sv_impls w \<Longrightarrow> returns (run (on_bind r w') w')"
    and callback: "\<And>w' h i d f app. sv_impls w' = sv_impls w \<Longrightarrow> returns (run (disp h i d f app) w')"
  shows "returns (server_handle_message Debug disp k data fds needle w)"
proof -
  have "sv_impls w' = sv_impls w \<Longrightarrow> k < length (sv_client_heap w') \<Longrightarrow>
      returns (server_handle_message Debug disp k data fds needle w')" for fds needle w'
  proof (induction "length data - needle" arbitrary: needle fds w' rule: less_induct)
    case less
    have rest: "returns (server_handle_message Debug disp k data (snd x) needle' w2)"
      if x: "server_message Debug disp k t data fds needle w' = Some (Ok x, w2)"
        and needle': "uadd Debug needle (fst x) = (Ok needle' :: (error, usize) res)"
        and inside: "needle < length data" for t x w2 needle'
    proof (rule less.hyps)
      have "0 < fst x" using server_message_progress[OF _ len] x by (cases x) auto
      with needle' inside show "length data - needle' < length data - needle"
        by (auto simp: uadd_Debug_Ok)
      have "frozen w' w2" using keepsD[OF frozen.keeps_server_message[OF less.prems(2)] x] by simp
      from frozen_facts[OF this] less.prems
      show "sv_impls w2 = sv_impls w" and "k < length (sv_client_heap w2)" by auto
    qed
    show ?case
      by (subst server_handle_message.simps)
        (auto split: res.splits intro!: returns_bind returns_server_message[OF on_bind callback] less.prems rest)
  qed
  with k show ?thesis by blast
qed

theorem server_loop_returns_witness:
  "returns (server_handle_message Debug example_dispatcher 0 looping_message [] 0 example_server)"
proof (rule server_loop_returns)
  show "0 < length (sv_client_heap example_server)" by (simp add: example_server_def)
  show "length looping_message \<le> isize_max" by (simp add: looping_message_bytes isize_max_def)
  show "returns (run (on_bind r w) w)" if "sv_impls w = sv_impls example_server" for w r
    using that by (simp add: example_server_def)
qed (simp add: example_dispatcher_def)

end
