(* ===== verification/Client_Loop.thy ===== *)
theory Client_Loop
  imports Client_State
begin

text \<open>
  The client's message loop, \<open>ClientSocket::handle_message\<close> of \<open>hyprwire/src/message.rs\<close>; the event queue,
  \<open>hyprwire/src/client/event_queue.rs\<close>, with deferred messages and round trips; and \<open>Client::bind\<close> of
  \<open>hyprwire/src/client/mod.rs\<close>. What the poller and the kernel answer is an argument, one \<open>poll_round\<close> for
  each call of \<open>dispatch_events_inner\<close>; a blocking operation that is still waiting when the rounds are
  used up does not return.
\<close>

section \<open>One message\<close>

definition client_wrong_role :: "('h, 'd) client \<Rightarrow> (error, usize \<times> i32 list, ('h, 'd) client) eff" where
  "client_wrong_role w = Some (Err InvalidMessage, upd_cconn set_error w)"

definition protocol_version :: u32 where
  "protocol_version = 1"

definition client_message ::
    "profile \<Rightarrow> ('h, 'd) client_dispatcher \<Rightarrow> nat \<Rightarrow> message_type \<Rightarrow> bytes \<Rightarrow> i32 list \<Rightarrow> usize \<Rightarrow>
       ('h, 'd) client \<Rightarrow> (error, usize \<times> i32 list, ('h, 'd) client) eff" where
  "client_message pr disp q t data fds needle w =
     (case t of
        HandshakeBegin \<Rightarrow>
          bind_eff (lift_res (handshake_begin_from_bytes pr data needle) w) (\<lambda>msg w.
            if protocol_version \<notin> set (hsb_versions msg) then
              Some (Err VersionNegotiationFailed, upd_cconn set_error w)
            else
              Some (Ok (length (hsb_data msg), fds),
                upd_cconn (send_message (MHandshakeAck (handshake_ack_new protocol_version))) w))
      | HandshakeProtocols \<Rightarrow>
          bind_eff (lift_res (handshake_protocols_from_bytes pr data needle) w) (\<lambda>msg w.
            Some (Ok (length (hsp_data msg), fds),
              (server_specs (hsp_protocols msg) w)\<lparr>cl_handshake_done := True\<rparr>))
      | NewObject \<Rightarrow>
          bind_eff (lift_res (new_object_from_bytes data needle) w) (\<lambda>msg w.
            Some (Ok (length (new_data msg), fds), on_seq (new_seq msg) (new_id msg) w))
      | GenericProtocolMessage \<Rightarrow>
          bind_eff (Option.bind (generic_from_bytes pr data fds needle) (\<lambda>r. lift_res r w))
            (\<lambda>(msg, fds') w.
          bind_eff (client_on_generic pr disp msg w) (\<lambda>_ w. Some (Ok (length (gm_data msg), fds'), w)))
      | FatalProtocolError \<Rightarrow>
          bind_eff (lift_res (fatal_protocol_error_from_bytes pr data needle) w) (\<lambda>msg w.
            Some (Ok (length (fatal_data msg), fds), upd_cconn set_error w))
      | RoundtripDone \<Rightarrow>
          bind_eff (lift_res (roundtrip_done_from_bytes data needle) w) (\<lambda>msg w.
            Some (Ok (length (done_data msg), fds), upd_queue q (\<lambda>eq. eq\<lparr>eq_ackd := done_seq msg\<rparr>) w))
      | BindProtocol \<Rightarrow> client_wrong_role w
      | HandshakeAck \<Rightarrow> client_wrong_role w
      | RoundtripRequest \<Rightarrow> client_wrong_role w
      | Sup \<Rightarrow> client_wrong_role w)"

partial_function (option) client_handle_message ::
    "profile \<Rightarrow> ('h, 'd) client_dispatcher \<Rightarrow> nat \<Rightarrow> bytes \<Rightarrow> i32 list \<Rightarrow> usize \<Rightarrow> ('h, 'd) client \<Rightarrow>
       (error, unit, ('h, 'd) client) eff" where
  "client_handle_message pr disp q data fds needle w =
     (if needle < length data then
        (case message_type_try_from (data ! needle) of
           Ok t \<Rightarrow>
             bind_eff (client_message pr disp q t data fds needle w) (\<lambda>x w.
             bind_eff (lift_res (uadd pr needle (fst x)) w) (\<lambda>needle' w.
               client_handle_message pr disp q data (snd x) needle' w))
         | _ \<Rightarrow> Some (Err InvalidMessage, w))
      else if fds \<noteq> [] then Some (Err MalformedMessage, w)
      else Some (Ok (), w))"

section \<open>Deferred messages\<close>

text \<open>
  The loop over the messages that were waiting: a message whose object is gone is dropped, one whose
  object still has no id goes back to the queue, any other gets the id and is sent.
\<close>

fun send_pending :: "nat \<Rightarrow> generic_message list \<Rightarrow> ('h, 'd) client \<Rightarrow> ('h, 'd) client" where
  "send_pending q [] w = w"
| "send_pending q (msg # msgs) w =
     (case map_option (\<lambda>r. co_id (cl_heap w ! r)) (object_for_seq (gm_depends_on_seq msg) w) of
        None \<Rightarrow> send_pending q msgs w
      | Some i \<Rightarrow>
          if i = 0 then
            send_pending q msgs (upd_queue q (\<lambda>eq. eq\<lparr>eq_queue := eq_queue eq @ [msg]\<rparr>) w)
          else send_pending q msgs (upd_cconn (send_message (MGeneric (resolve_seq i msg))) w))"

definition flush_pending :: "nat \<Rightarrow> ('h, 'd) client \<Rightarrow> ('h, 'd) client" where
  "flush_pending q w =
     send_pending q (eq_queue (cl_queues w ! q)) (upd_queue q (\<lambda>eq. eq\<lparr>eq_queue := []\<rparr>) w)"

section \<open>Dispatching\<close>

text \<open>
  The answers to one \<open>dispatch_events_inner\<close>: to \<open>poller.wait\<close> (an error, or whether there are events),
  to \<open>poller.modify\<close> and to \<open>recvmsg\<close>. The handshake's time limit only bounds the wait.
\<close>

record poll_round =
  pl_wait :: "bool option"
  pl_modify_ok :: bool
  pl_recv :: "recv_answer list"

text \<open>From reading the socket to the end; an error of \<open>handle_message\<close> disconnects.\<close>

definition handle_or_disconnect ::
    "(error, unit, ('h, 'd) client) eff \<Rightarrow> (hw_error, unit, ('h, 'd) client) eff" where
  "handle_or_disconnect m = map_option (\<lambda>(r, w).
     case r of Ok x \<Rightarrow> (Ok x, w) | Err e \<Rightarrow> (Err (hw_error_from e), disconnect_on_error w)
     | Panic \<Rightarrow> (Panic, w)) m"

definition receive_events ::
    "profile \<Rightarrow> ('h, 'd) client_dispatcher \<Rightarrow> nat \<Rightarrow> recv_answer list \<Rightarrow> ('h, 'd) client \<Rightarrow>
       (hw_error, unit, ('h, 'd) client) eff" where
  "receive_events pr disp q answers w =
     (case read_from_socket answers of
        None \<Rightarrow> Some (Err ConnectionClosed, disconnect_on_error w)
      | Some raw \<Rightarrow>
          if raw_data raw = [] then Some (Err ConnectionClosed, w)
          else
            bind_eff (handle_or_disconnect
                (client_handle_message pr disp q (raw_data raw) (raw_fds raw) 0 w)) (\<lambda>_ w.
            bind_eff (no_error (collect_orphaned_objects pr (flush_pending q w))) (\<lambda>_ w.
              if c_error (cl_conn w) then Some (Err ConnectionClosed, w) else Some (Ok (), w))))"

definition dispatch_events_inner ::
    "profile \<Rightarrow> ('h, 'd) client_dispatcher \<Rightarrow> nat \<Rightarrow> bool \<Rightarrow> poll_round \<Rightarrow> ('h, 'd) client \<Rightarrow>
       (hw_error, unit, ('h, 'd) client) eff" where
  "dispatch_events_inner pr disp q block rnd w =
     (if c_error (cl_conn w) then Some (Err ConnectionClosed, w)
      else
        bind_eff (no_error (collect_orphaned_objects pr w)) (\<lambda>_ w.
        case pl_wait rnd of
          None \<Rightarrow> Some (Err Io, w)
        | Some False \<Rightarrow>
            if \<not> cl_handshake_done w then
              (if block then Some (Err HandshakeTimeout, disconnect_on_error w) else Some (Ok (), w))
            else
              bind_eff (no_error (collect_orphaned_objects pr w)) (\<lambda>_ w.
                if block then Some (Err ConnectionClosed, w) else Some (Ok (), w))
        | Some True \<Rightarrow>
            if \<not> pl_modify_ok rnd then Some (Err Io, w)
            else receive_events pr disp q (pl_recv rnd) w))"

text \<open>The mutex of an event queue; a thread that holds it and locks it again does not go on.\<close>

definition with_queue ::
    "nat \<Rightarrow> (('h, 'd) client \<Rightarrow> (hw_error, 'a, ('h, 'd) client) eff) \<Rightarrow> ('h, 'd) client \<Rightarrow>
       (hw_error, 'a, ('h, 'd) client) eff" where
  "with_queue q body w =
     (if eq_locked (cl_queues w ! q) then None
      else map_option (\<lambda>(r, w). (r, upd_queue q (\<lambda>eq. eq\<lparr>eq_locked := False\<rparr>) w))
        (body (upd_queue q (\<lambda>eq. eq\<lparr>eq_locked := True\<rparr>) w)))"

definition client_dispatch_events ::
    "profile \<Rightarrow> ('h, 'd) client_dispatcher \<Rightarrow> nat \<Rightarrow> bool \<Rightarrow> poll_round \<Rightarrow> ('h, 'd) client \<Rightarrow>
       (hw_error, unit, ('h, 'd) client) eff" where
  "client_dispatch_events pr disp q block rnd =
     with_queue q (dispatch_events_inner pr disp q block rnd)"

section \<open>Waiting\<close>

text \<open>\<open>while running(state) { step()?; }\<close>, where each step uses up one round.\<close>

fun wait_while ::
    "('w \<Rightarrow> bool) \<Rightarrow> ('r \<Rightarrow> 'w \<Rightarrow> ('e, unit, 'w) eff) \<Rightarrow> 'r list \<Rightarrow> 'w \<Rightarrow> ('e, unit, 'w) eff" where
  "wait_while running step rounds w =
     (if running w then
        (case rounds of
           [] \<Rightarrow> None
         | rnd # rnds \<Rightarrow> bind_eff (step rnd w) (\<lambda>_ w. wait_while running step rnds w))
      else Some (Ok (), w))"

declare wait_while.simps [simp del]

definition roundtrip ::
    "profile \<Rightarrow> ('h, 'd) client_dispatcher \<Rightarrow> nat \<Rightarrow> poll_round list \<Rightarrow> ('h, 'd) client \<Rightarrow>
       (hw_error, unit, ('h, 'd) client) eff" where
  "roundtrip pr disp q rounds =
     with_queue q (\<lambda>w.
       if c_error (cl_conn w) then Some (Err ConnectionClosed, w)
       else
         bind_eff (lift_res (succ_u32 pr (eq_sent (cl_queues w ! q))) w) (\<lambda>sent w.
         let w = upd_cconn (send_message (MRoundtripRequest (roundtrip_request_new sent)))
               (upd_queue q (\<lambda>eq. eq\<lparr>eq_sent := sent\<rparr>) w)
         in wait_while (\<lambda>w. eq_ackd (cl_queues w ! q) < eq_sent (cl_queues w ! q))
              (dispatch_events_inner pr disp q True) rounds w))"

definition wait_for_handshake ::
    "profile \<Rightarrow> ('h, 'd) client_dispatcher \<Rightarrow> nat \<Rightarrow> poll_round list \<Rightarrow> ('h, 'd) client \<Rightarrow>
       (hw_error, unit, ('h, 'd) client) eff" where
  "wait_for_handshake pr disp q rounds w =
     bind_eff (wait_while (\<lambda>w. \<not> c_error (cl_conn w) \<and> \<not> cl_handshake_done w)
         (client_dispatch_events pr disp q True) rounds w) (\<lambda>_ w.
       if c_error (cl_conn w) then Some (Err ConnectionClosed, w) else Some (Ok (), w))"

definition wait_for_object ::
    "profile \<Rightarrow> ('h, 'd) client_dispatcher \<Rightarrow> nat \<Rightarrow> nat \<Rightarrow> poll_round list \<Rightarrow> ('h, 'd) client \<Rightarrow>
       (hw_error, unit, ('h, 'd) client) eff" where
  "wait_for_object pr disp q r rounds w =
     bind_eff (wait_while (\<lambda>w. co_id (cl_heap w ! r) = 0 \<and> \<not> c_error (cl_conn w))
         (client_dispatch_events pr disp q True) rounds w) (\<lambda>_ w.
       if c_error (cl_conn w) then Some (Err ConnectionClosed, w) else Some (Ok (), w))"

section \<open>Client::bind\<close>

text \<open>
  \<open>proto\<close> is the protocol of the requested type and \<open>h\<close> the data its \<open>from_object\<close> installs; the typed
  object holds a second reference while \<open>bind\<close> waits. The version allowed is the advertised one.
\<close>

text \<open>\<open>ServerSpec\<close>: the protocol of a type with the version the server advertises.\<close>

definition server_spec_new :: "protocol_spec \<Rightarrow> u32 \<Rightarrow> protocol_spec" where
  [simp]: "server_spec_new proto version = proto\<lparr>spec_ver := version\<rparr>"

definition client_get_spec :: "protocol_spec \<Rightarrow> ('h, 'd) client \<Rightarrow> protocol_spec option" where
  "client_get_spec proto w =
     (case get_spec (spec_name proto) w of
        None \<Rightarrow> None | Some spec \<Rightarrow> Some (server_spec_new proto (adv_version spec)))"

definition bind_failed ::
    "profile \<Rightarrow> nat \<Rightarrow> hw_error \<Rightarrow> ('h, 'd) client \<Rightarrow> (hw_error, nat, ('h, 'd) client) eff" where
  "bind_failed pr r e w =
     bind_eff (no_error (release_object pr r w)) (\<lambda>_ w.
     bind_eff (no_error (release_object pr r w)) (\<lambda>_ w. Some (Err e, w)))"

definition client_bind ::
    "profile \<Rightarrow> ('h, 'd) client_dispatcher \<Rightarrow> nat \<Rightarrow> protocol_spec \<Rightarrow> 'h \<Rightarrow> u32 \<Rightarrow> poll_round list \<Rightarrow>
       ('h, 'd) client \<Rightarrow> (hw_error, nat, ('h, 'd) client) eff" where
  "client_bind pr disp q proto h version rounds w =
     (case client_get_spec proto w of
        None \<Rightarrow> Some (Err ProtocolNotFound, w)
      | Some spec \<Rightarrow>
          bind_eff (client_bind_protocol pr q spec version w) (\<lambda>r w.
          let w = client_set_data r h (hold_object r w) in
          (case wait_for_object pr disp q r rounds w of
             None \<Rightarrow> None
           | Some (Ok _, w) \<Rightarrow>
               bind_eff (no_error (release_object pr r w)) (\<lambda>_ w. Some (Ok r, w))
           | Some (Err e, w) \<Rightarrow> bind_failed pr r e w
           | Some (Panic, w) \<Rightarrow> Some (Panic, w))))"

end
