(* ===== verification/Client_Invariant.thy ===== *)
theory Client_Invariant
  imports Client_Loop
begin

text \<open>
  What every operation of the client keeps, stated as for the server: the locale \<open>client_relation\<close> is the
  contract of a relation between the states before and after a step, and that calls, callbacks, drops,
  dispatching and waiting stay within such a relation is proved once inside it. It is interpreted on
  \<open>history_le\<close> (objects keep their identity, nothing that was sent is taken back), on the preservation of
  \<open>client_inv\<close> (sequence numbers identify objects), and the smaller contracts it extends on what an event queue
  keeps while messages (\<open>queue_kept\<close>) and callbacks (\<open>acks_kept\<close>) are handled.
\<close>

section \<open>The contract\<close>

definition cobj_le :: "'h client_object \<Rightarrow> 'h client_object \<Rightarrow> bool" where
  "cobj_le a b \<longleftrightarrow> co_spec b = co_spec a \<and> co_version b = co_version a \<and> co_seq b = co_seq a \<and>
     co_protocol_name b = co_protocol_name a \<and> co_queue b = co_queue a \<and> co_id b = co_id a \<and>
     (co_destroyed a \<longrightarrow> co_destroyed b)"

lemma cobj_le_refl [simp, intro]: "cobj_le a a"
  by (simp add: cobj_le_def)

lemma cobj_le_trans: "cobj_le a b \<Longrightarrow> cobj_le b c \<Longrightarrow> cobj_le a c"
  by (simp add: cobj_le_def)

lemma cobj_le_steps [simp]:
  "cobj_le a (a\<lparr>co_destroyed := True\<rparr>)" "cobj_le a (a\<lparr>co_data := d\<rparr>)" "cobj_le a (a\<lparr>co_reading := b\<rparr>)"
  "cobj_le a (a\<lparr>co_refs := n\<rparr>)"
  by (simp_all add: cobj_le_def)

text \<open>Callbacks do not touch the lock of an event queue, nor the numbers of its round trips.\<close>

definition queue_le :: "event_queue \<Rightarrow> event_queue \<Rightarrow> bool" where
  "queue_le a b \<longleftrightarrow> eq_locked b = eq_locked a \<and> eq_sent b = eq_sent a \<and> eq_ackd b = eq_ackd a"

lemma queue_le_steps [simp]:
  "queue_le a a" "queue_le a (a\<lparr>eq_queue := ms\<rparr>)" "queue_le a (a\<lparr>eq_alive := b\<rparr>)"
  by (simp_all add: queue_le_def)

text \<open>The contract of the operations on an object: calling it and dropping it.\<close>

locale call_relation = step_relation R for R :: "('h, 'd) client \<Rightarrow> ('h, 'd) client \<Rightarrow> bool" +
  fixes pr :: profile
  assumes R_cobj: "(\<And>obj. cobj_le obj (f obj)) \<Longrightarrow> R w (upd_cobj r f w)"
    and R_queue: "(\<And>eq. queue_le eq (g eq)) \<Longrightarrow> R w (upd_queue q g w)"
    and R_conn: "(\<And>c. conn_le c (h c)) \<Longrightarrow> R w (upd_cconn h w)"
    and R_seq: "seq_left pr w \<Longrightarrow> R w (take_seq w)"
    and R_push: "seq_left pr w \<Longrightarrow> \<not> cl_locked w \<Longrightarrow> client_find_spec (cl_impls w) p t = Some spec \<Longrightarrow>
      R w (push_object (fresh_object spec p 0 (cl_seq w + 1) q 0) (take_seq w))"
begin

subsection \<open>Calls\<close>

lemma R_mark: "R w (client_mark_destroyed r w)"
  unfolding client_mark_destroyed_def by (intro R_cobj) simp

lemma R_mark_if: "R w (if d then client_mark_destroyed r w else w)"
  by (simp add: R_mark R_refl)

lemma seq_left_mark: "seq_left pr (if d then client_mark_destroyed r w else w) = seq_left pr w"
  by (simp add: seq_left_def client_mark_destroyed_def upd_cobj_def)

lemma R_effects:
  assumes "b \<Longrightarrow> seq_left pr w"
  shows "R w (call_effects r d b w)"
proof (cases b)
  case True
  with assms show ?thesis
    unfolding call_effects_def Let_def
    by (simp only: if_True) (rule R_trans[OF R_mark_if R_seq], simp only: seq_left_mark)
qed (simp add: call_effects_def R_mark_if)

lemma R_effects_push:
  assumes "seq_left pr w" and "\<not> cl_locked w" and "client_find_spec (cl_impls w) p t = Some spec"
  shows "R w (push_object (fresh_object spec p 0 (cl_seq w + 1) q 0) (call_effects r d True w))"
proof -
  let ?w = "if d then client_mark_destroyed r w else w"
  have same: "cl_seq ?w = cl_seq w" "cl_locked ?w = cl_locked w" "cl_impls ?w = cl_impls w"
    by (simp_all add: client_mark_destroyed_def upd_cobj_def)
  from assms have "seq_left pr ?w" "\<not> cl_locked ?w" "client_find_spec (cl_impls ?w) p t = Some spec"
    by (simp_all only: seq_left_mark same not_False_eq_True)
  from R_push[OF this, of q] same
  have "R ?w (push_object (fresh_object spec p 0 (cl_seq w + 1) q 0) (call_effects r d True w))"
    by (simp add: call_effects_def Let_def)
  with R_mark_if show ?thesis by (rule R_trans)
qed

lemma keeps_make_object:
  assumes "R w0 w" and "\<And>spec. \<not> cl_locked w \<Longrightarrow> client_find_spec (cl_impls w) p t = Some spec \<Longrightarrow>
    R w0 (push_object (fresh_object spec p 0 s q 0) w)"
  shows "keeps R w0 (make_object p t s q w)"
  using assms by (auto simp: make_object_def split: option.splits intro!: keeps_Some_R)

lemma push_object_queue:
  "push_object obj (upd_queue q f w) = upd_queue q f (push_object obj w)"
  by (simp add: push_object_def upd_queue_def)

lemma push_object_cconn:
  "push_object obj (upd_cconn f w) = upd_cconn f (push_object obj w)"
  by (simp add: push_object_def upd_cconn_def)

lemma keeps_client_deliver:
  assumes left: "b \<Longrightarrow> seq_left pr w"
    and seq: "s \<noteq> 0 \<Longrightarrow> cl_alive w \<Longrightarrow> b \<and> s = cl_seq w + 1"
  shows "keeps R w (client_deliver r msg s rtype (call_effects r d b w))"
proof -
  let ?w = "call_effects r d b w"
  have alive: "cl_alive ?w = cl_alive w" and locked: "cl_locked ?w = cl_locked w"
    and impls: "cl_impls ?w = cl_impls w"
    by (simp_all add: call_effects_def Let_def take_seq_def client_mark_destroyed_def upd_cobj_def)
  have eff: "R w ?w" by (rule R_effects) (rule left)
  have queue: "R w (upd_queue q (\<lambda>eq. eq\<lparr>eq_queue := f eq\<rparr>) ?w)" for q f by (rule R_trans[OF eff R_queue]) simp
  have conn: "R w' (upd_cconn (send_message m) w')" for m w' by (rule R_conn) simp
  note eff_conn = R_trans[OF eff conn]
  have push: "R w (push_object (fresh_object spec p 0 s q 0) ?w)" if "s \<noteq> 0" "cl_alive w" "\<not> cl_locked w"
    "client_find_spec (cl_impls w) p t = Some spec" for spec p q t
    using seq[OF that(1,2)] left R_effects_push[OF _ that(3,4)] by auto
  have locked_queue: "cl_locked (upd_queue q f w') = cl_locked w'" "cl_impls (upd_queue q f w') = cl_impls w'"
    and locked_conn: "cl_locked (upd_cconn h w') = cl_locked w'" "cl_impls (upd_cconn h w') = cl_impls w'" for q f h w'
    by (simp_all add: upd_queue_def upd_cconn_def)
  have made_queue: "keeps R w (make_object p n s q' (upd_queue q (\<lambda>eq. eq\<lparr>eq_queue := f eq\<rparr>) ?w))" if "s \<noteq> 0" "cl_alive w"
    for p n q q' f
    by (intro keeps_make_object queue)
      (simp only: push_object_queue locked_queue locked impls, rule R_trans[OF push[OF that] R_queue], assumption+, simp)
  have made_conn: "keeps R w (make_object p n s q (upd_cconn (send_message m) ?w))" if "s \<noteq> 0" "cl_alive w"
    for p n q m
    by (intro keeps_make_object eff_conn)
      (simp only: push_object_cconn locked_conn locked impls, rule R_trans[OF push[OF that] conn])
  have alive_queue: "cl_alive (upd_queue q f w') = cl_alive w'"
    and alive_conn: "cl_alive (upd_cconn h w') = cl_alive w'" for q f h w'
    by (simp_all add: upd_queue_def upd_cconn_def)
  have done_ok: "keeps R w' (Some (r, w'))" for w' and r :: "(error, u32) res"
    by (rule keeps_Some_R[OF R_refl])
  show ?thesis
    unfolding client_deliver_def Let_def alive_queue alive_conn alive
    by (simp add: keeps_Some_R eff queue eff_conn keeps_trans[OF made_queue] keeps_trans[OF made_conn]
        done_ok)
qed

lemma keeps_logged: "keeps R w m \<Longrightarrow> keeps R w (logged m)"
  by (cases m) (auto simp: keeps_def logged_def split: res.splits)

lemma keeps_seq:
  assumes "b \<Longrightarrow> seq_left pr w \<Longrightarrow> keeps R w (f w)" and "\<not> b \<Longrightarrow> keeps R w (f w)"
  shows "keeps R w (bind_eff (lift_res (if b then next_seq pr w else Ok 0) w) (\<lambda>_ w. f w))"
proof (cases b)
  case True
  with assms show ?thesis
    by (cases "seq_left pr w")
      (auto simp: lift_res_def next_seq_def succ_u32_def seq_left_def keeps_Panic)
qed (use assms in \<open>simp add: lift_res_def\<close>)

lemma keeps_client_call: "keeps R w (client_call pr r i args w)"
proof -
  let ?obj = "cl_heap w ! r"
  let ?methods = "client_methods_out ?obj"
  let ?rtype = "returns_type (?methods ! unat i)"
  let ?takes = "?rtype \<noteq> [] \<and> cl_alive w"
  let ?seq = "if cl_alive w then Some (cl_seq w + 1) else None"
  let ?call = "wire_call False ?methods (co_id ?obj) (co_version ?obj) ?seq i args"
  have "keeps R w (case outcome of
           CallRefused msg \<Rightarrow> Some (Ok 0, w)
         | CallUnmarshalled dtor _ \<Rightarrow>
             bind_eff (lift_res (if ?takes then next_seq pr w else Ok 0) w) (\<lambda>_ w.
               Some (Ok 0, upd_cconn set_error (call_effects r dtor ?takes w)))
         | CallMessage dtor return_seq data fds \<Rightarrow>
             bind_eff (lift_res (if ?takes then next_seq pr w else Ok 0) w) (\<lambda>_ w.
               client_deliver r (generic_message_new data fds) return_seq ?rtype
                 (call_effects r dtor ?takes w)))"
    if call: "?call = Ok outcome" for outcome
  proof (cases outcome)
    case (CallRefused msg)
    then show ?thesis by (simp add: keeps_Some_R R_refl)
  next
    case (CallUnmarshalled d s)
    show ?thesis
      unfolding CallUnmarshalled call_outcome.case
      by (intro keeps_seq keeps_Some_R R_trans[OF R_effects R_conn] conn_le_error) simp_all
  next
    case (CallMessage d s data fds)
    from wire_call_accepted(1)[OF call CallMessage]
    have "s = call_seq (?methods ! unat i) ?seq" by simp
    then have s: "?takes \<and> s = cl_seq w + 1" if "s \<noteq> 0" "cl_alive w"
      using that by (auto simp: call_seq_def split: if_splits)
    show ?thesis
      unfolding CallMessage call_outcome.case
      by (intro keeps_seq keeps_client_deliver s) simp_all
  qed
  then show ?thesis
    unfolding client_call_def Let_def
    by (intro keeps_logged keeps_trans[OF keeps_lift_R]) auto
qed

subsection \<open>Dropping\<close>

lemma keeps_done: "keeps R w (Some (r, w))"
  by (rule keeps_Some_R[OF R_refl])

lemma keeps_drop_object: "keeps R w (drop_object pr r w)"
  by (auto simp: drop_object_def Let_def split: option.splits
      intro!: keeps_done keeps_trans[OF keeps_client_call])

lemma keeps_drop_all: "keeps R w (drop_all pr rs w)"
  by (induction rs arbitrary: w) (auto intro!: keeps_done keeps_trans[OF keeps_drop_object])

end

text \<open>The contract of what a callback can do.\<close>

locale callback_relation = call_relation R pr
  for R :: "('h, 'd) client \<Rightarrow> ('h, 'd) client \<Rightarrow> bool" and pr +
  assumes R_app: "R w (w\<lparr>cl_app := d\<rparr>)"
    and R_table: "R w (w\<lparr>cl_objects := filter P (cl_objects w), cl_locked := True\<rparr>)"
    and R_unlock: "R w (w\<lparr>cl_locked := False\<rparr>)"
begin

lemma keeps_retain: "keeps R w (retain pr keep w)"
  unfolding retain_def Let_def
  by (rule keeps_after[OF R_table], rule keeps_trans[OF keeps_drop_all], rule keeps_Some_R, rule R_unlock)

lemma R_hold: "R w (hold_object r w)"
  unfolding hold_object_def by (intro R_cobj) simp

lemma R_hold_found: "R w (hold_found x w)"
  by (cases x) (simp_all add: hold_found_def R_hold R_refl)

lemma keeps_release: "keeps R w (release_object pr r w)"
proof -
  have "R w (upd_cobj r (\<lambda>obj. obj\<lparr>co_refs := co_refs obj - 1\<rparr>) w)" by (intro R_cobj) simp
  then show ?thesis
    unfolding release_object_def Let_def
    by (rule keeps_after) (simp add: keeps_drop_object keeps_done)
qed

lemma keeps_run_client: "keeps R w (run_client pr p w)"
proof (induction p arbitrary: w)
  case (CSetData r h p)
  have "R w (client_set_data r h w)" unfolding client_set_data_def by (intro R_cobj) simp
  with CSetData show ?case by (auto intro: keeps_after keeps_Panic)
next
  case (CObjectForSeq s k)
  then show ?case by (simp, rule keeps_after[OF R_hold_found]) blast
next
  case (CObjectForId i k)
  then show ?case by (simp, rule keeps_after[OF R_hold_found]) blast
qed (auto intro: keeps_done keeps_Panic keeps_after[OF R_app] keeps_after[OF R_hold]
      keeps_after[OF R_hold_found] keeps_trans[OF keeps_client_call] keeps_trans[OF keeps_release])

lemma keeps_client_object_dispatch: "keeps R w (client_object_dispatch pr disp r i data fds w)"
proof (cases "co_data (cl_heap w ! r)")
  case (Some h)
  have reading: "R w (upd_cobj r (\<lambda>obj. obj\<lparr>co_reading := b\<rparr>) w)" for w b by (intro R_cobj) simp
  show ?thesis
    unfolding client_object_dispatch_def Some option.case
    by (intro keeps_trans[OF keeps_after[OF reading keeps_run_client]] keeps_Some_R reading)
qed (simp add: client_object_dispatch_def keeps_done)

lemma R_disconnect: "R w (disconnect_on_error w)"
  unfolding disconnect_on_error_def
  by (intro R_conn) (metis comp_apply conn_le_error conn_le_shutdown conn_le_trans)

lemma R_send: "R w (upd_cconn (send_message m) w)"
  by (rule R_conn) simp

lemma R_error: "R w (upd_cconn set_error w)"
  by (rule R_conn) simp

lemma keeps_client_on_generic: "keeps R w (client_on_generic pr disp msg w)"
proof (cases "object_for_id (gm_object msg) w")
  case None
  then show ?thesis by (simp add: client_on_generic_def keeps_Some_R R_disconnect)
next
  case (Some r)
  have removed: "keeps R w (if client_is_destructor (cl_heap w ! r) i then
      let w = client_mark_destroyed r w; i = co_id (cl_heap w ! r) in
      if i \<noteq> 0 then client_destroy_object pr i w else Some (Ok (), w)
    else Some (Ok (), w))" for w i
    unfolding Let_def client_destroy_object_def
    by (simp add: keeps_after[OF R_mark keeps_retain] keeps_Some_R R_mark R_refl)
  show ?thesis
    unfolding client_on_generic_def Some option.case Let_def
    by (rule keeps_after[OF R_hold], rule keeps_trans[OF keeps_lift_R],
        rule keeps_trans[OF keeps_client_object_dispatch], rule keeps_trans[OF removed[unfolded Let_def]],
        rule keeps_release)
qed

end

text \<open>
  The contract of dispatching, for what may be read: \<open>good\<close> holds of the answers of the system whose bytes the
  message loop handles within the relation.
\<close>

locale reading_relation = callback_relation R pr
  for R :: "('h, 'd) client \<Rightarrow> ('h, 'd) client \<Rightarrow> bool" and pr +
  fixes good :: "recv_answer list \<Rightarrow> bool"
  assumes keeps_read: "good answers \<Longrightarrow> read_from_socket answers = Some raw \<Longrightarrow>
    keeps R w (client_handle_message pr disp q (raw_data raw) (raw_fds raw) 0 w)"
begin

lemma R_send_pending: "R w (send_pending q msgs w)"
proof (induction msgs arbitrary: w)
  case (Cons m ms)
  have "R w (upd_queue q (\<lambda>eq. eq\<lparr>eq_queue := eq_queue eq @ [m]\<rparr>) w)" for w by (rule R_queue) simp
  with Cons show ?case by (auto split: option.splits intro: R_trans R_trans[OF R_send])
qed (simp add: R_refl)

lemma R_flush: "R w (flush_pending q w)"
  unfolding flush_pending_def by (rule R_trans[OF R_queue R_send_pending]) simp

subsection \<open>Dispatching\<close>

lemma keeps_handle_or_disconnect: "keeps R w m \<Longrightarrow> keeps R w (handle_or_disconnect m)"
  by (cases m) (auto simp: keeps_def handle_or_disconnect_def split: res.splits
      intro: R_trans[OF _ R_disconnect])

lemma keeps_collect: "keeps R w (no_error (collect_orphaned_objects pr w))"
  unfolding collect_orphaned_objects_def by (intro keeps_no_error keeps_retain)

lemma keeps_receive:
  assumes good: "good answers"
  shows "keeps R w (receive_events pr disp q answers w)"
proof -
  have "keeps R w (bind_eff (handle_or_disconnect
                (client_handle_message pr disp q (raw_data raw) (raw_fds raw) 0 w)) (\<lambda>_ w.
            bind_eff (no_error (collect_orphaned_objects pr (flush_pending q w))) (\<lambda>_ w.
              if c_error (cl_conn w) then Some (Err ConnectionClosed, w) else Some (Ok (), w))))"
    if "read_from_socket answers = Some raw" for raw
    by (rule keeps_trans[OF keeps_handle_or_disconnect[OF keeps_read[OF good that]]],
        rule keeps_trans[OF keeps_after[OF R_flush keeps_collect]]) (simp add: keeps_done)
  then show ?thesis
    by (auto simp: receive_events_def keeps_done keeps_Some_R R_disconnect split: option.splits)
qed

lemma keeps_dispatch_inner:
  assumes good: "good (pl_recv rnd)"
  shows "keeps R w (dispatch_events_inner pr disp q block rnd w)"
proof -
  have "keeps R w (case pl_wait rnd of
          None \<Rightarrow> Some (Err Io, w)
        | Some False \<Rightarrow>
            if \<not> cl_handshake_done w then
              (if block then Some (Err HandshakeTimeout, disconnect_on_error w) else Some (Ok (), w))
            else
              bind_eff (no_error (collect_orphaned_objects pr w)) (\<lambda>_ w.
                if block then Some (Err ConnectionClosed, w) else Some (Ok (), w))
        | Some True \<Rightarrow>
            if \<not> pl_modify_ok rnd then Some (Err Io, w)
            else receive_events pr disp q (pl_recv rnd) w)" for w
    by (simp add: keeps_done keeps_Some_R R_disconnect keeps_receive[OF good] keeps_trans[OF keeps_collect]
        split: option.split bool.split)
  then show ?thesis
    unfolding dispatch_events_inner_def by (simp add: keeps_done keeps_trans[OF keeps_collect])
qed

end

text \<open>The contract of taking the lock of an event queue, which dispatching and waiting do.\<close>

locale waiting_relation = reading_relation R pr good
  for R :: "('h, 'd) client \<Rightarrow> ('h, 'd) client \<Rightarrow> bool" and pr and good +
  assumes R_lock: "R w (upd_queue q (\<lambda>eq. eq\<lparr>eq_locked := b\<rparr>) w)"
    and R_count: "R w (upd_queue q (\<lambda>eq. eq\<lparr>eq_sent := n\<rparr>) w)"
begin

subsection \<open>Waiting\<close>

lemma keeps_with_queue:
  assumes "\<And>w. keeps R w (body w)"
  shows "keeps R w (with_queue q body w)"
  using keeps_after[OF R_lock assms]
  by (auto simp: with_queue_def keeps_def intro: R_trans[OF _ R_lock])

lemma keeps_wait_while:
  assumes "\<And>rnd w. rnd \<in> set rounds \<Longrightarrow> keeps R w (step rnd w)"
  shows "keeps R w (wait_while running step rounds w)"
  using assms
proof (induction rounds arbitrary: w)
  case Nil
  show ?case by (subst wait_while.simps) (simp add: keeps_done)
next
  case (Cons rnd rounds)
  show ?case by (subst wait_while.simps) (simp add: keeps_done keeps_trans[OF Cons.prems Cons.IH] Cons.prems)
qed

lemma keeps_client_dispatch_events:
  "good (pl_recv rnd) \<Longrightarrow> keeps R w (client_dispatch_events pr disp q block rnd w)"
  unfolding client_dispatch_events_def by (intro keeps_with_queue keeps_dispatch_inner)

lemma keeps_roundtrip:
  assumes good: "\<forall>rnd \<in> set rounds. good (pl_recv rnd)"
  shows "keeps R w (roundtrip pr disp q rounds w)"
  unfolding roundtrip_def
proof (rule keeps_with_queue)
  fix w
  have "keeps R w (let w = upd_cconn (send_message m) (upd_queue q (\<lambda>eq. eq\<lparr>eq_sent := n\<rparr>) w)
         in wait_while (\<lambda>w. eq_ackd (cl_queues w ! q) < eq_sent (cl_queues w ! q))
              (dispatch_events_inner pr disp q True) rounds w)" for m n w
  proof -
    have "R w (upd_cconn (send_message m) (upd_queue q (\<lambda>eq. eq\<lparr>eq_sent := n\<rparr>) w))" by (rule R_trans[OF R_count R_send])
    then show ?thesis
      unfolding Let_def by (rule keeps_after) (rule keeps_wait_while, rule keeps_dispatch_inner, use good in blast)
  qed
  then show "keeps R w (if c_error (cl_conn w) then Some (Err ConnectionClosed, w)
       else
         bind_eff (lift_res (succ_u32 pr (eq_sent (cl_queues w ! q))) w) (\<lambda>sent w.
         let w = upd_cconn (send_message (MRoundtripRequest (roundtrip_request_new sent)))
               (upd_queue q (\<lambda>eq. eq\<lparr>eq_sent := sent\<rparr>) w)
         in wait_while (\<lambda>w. eq_ackd (cl_queues w ! q) < eq_sent (cl_queues w ! q))
              (dispatch_events_inner pr disp q True) rounds w))"
    by (simp only: if_split keeps_done keeps_trans[OF keeps_lift_R] simp_thms)
qed

lemma keeps_wait_for_handshake:
  "\<forall>rnd \<in> set rounds. good (pl_recv rnd) \<Longrightarrow> keeps R w (wait_for_handshake pr disp q rounds w)"
  unfolding wait_for_handshake_def
  by (rule keeps_trans[OF keeps_wait_while[OF keeps_client_dispatch_events]]) (simp_all add: keeps_done)

lemma keeps_wait_for_object:
  "\<forall>rnd \<in> set rounds. good (pl_recv rnd) \<Longrightarrow> keeps R w (wait_for_object pr disp q r rounds w)"
  unfolding wait_for_object_def
  by (rule keeps_trans[OF keeps_wait_while[OF keeps_client_dispatch_events]]) (simp_all add: keeps_done)

end

text \<open>The contract of binding, again for what may be read.\<close>

locale binding_relation = waiting_relation R pr good
  for R :: "('h, 'd) client \<Rightarrow> ('h, 'd) client \<Rightarrow> bool" and pr and good +
  assumes R_bound: "seq_left pr w \<Longrightarrow> \<not> cl_locked w \<Longrightarrow>
      R w (push_object (fresh_object spec p v (cl_seq w + 1) q n) (take_seq w))"
begin

lemma keeps_client_bind_protocol: "keeps R w (client_bind_protocol pr q spec version w)"
proof (cases "spec_objects spec")
  case (Cons ospec rest)
  have "keeps R w (bind_eff (lift_res (next_seq pr w) w) (\<lambda>seq w.
      if cl_locked w then None else
      let w' = push_object (fresh_object ospec (spec_name spec) version seq q 1) (take_seq w) in
      bind_eff (lift_res (bind_protocol_message (spec_name spec) seq version) w') (\<lambda>msg w'.
        Some (Ok (length (cl_heap w)), upd_cconn (send_message (MBindProtocol msg)) w'))))"
  proof (rule keeps_trans[OF keeps_lift_R], goal_cases)
    case (1 seq w1)
    then have "seq_left pr w" "seq = cl_seq w + 1" "w1 = w" by (auto simp: next_seq_Ok)
    then show ?case
      unfolding Let_def
      by (simp only: if_split keeps_None simp_thms)
        (intro impI, rule keeps_after[OF R_bound], assumption+, rule keeps_trans[OF keeps_lift_R],
          rule keeps_Some_R, rule R_send)
  qed
  with Cons show ?thesis by (simp add: client_bind_protocol_def keeps_done)
qed (simp add: client_bind_protocol_def keeps_done)

lemma keeps_bind_failed: "keeps R w (bind_failed pr r e w)"
  unfolding bind_failed_def
  by (rule keeps_trans[OF keeps_no_error[OF keeps_release]],
      rule keeps_trans[OF keeps_no_error[OF keeps_release]], rule keeps_done)

lemma keeps_client_bind:
  assumes good: "\<forall>rnd \<in> set rounds. good (pl_recv rnd)"
  shows "keeps R w (client_bind pr disp q proto h version rounds w)"
proof -
  have data: "R w (client_set_data r h (hold_object r w))" for r w
    unfolding client_set_data_def by (rule R_trans[OF R_hold R_cobj]) simp
  have waited: "keeps R w (case wait_for_object pr disp q r rounds w of
      None \<Rightarrow> None
    | Some (Ok _, w) \<Rightarrow> bind_eff (no_error (release_object pr r w)) (\<lambda>_ w. Some (Ok r, w))
    | Some (Err e, w) \<Rightarrow> bind_failed pr r e w
    | Some (Panic, w) \<Rightarrow> Some (Panic, w))" for r w
  proof (cases "wait_for_object pr disp q r rounds w")
    case (Some y)
    obtain x w' where y: "y = (x, w')" by fastforce
    have R: "x \<noteq> Panic \<Longrightarrow> R w w'"
      using keeps_wait_for_object[OF good, of w disp q r] Some y by (simp add: keeps_def)
    show ?thesis
      using R keeps_after[OF R keeps_trans[OF keeps_no_error[OF keeps_release] keeps_done]]
        keeps_after[OF R keeps_bind_failed]
      by (cases x) (simp_all add: Some y keeps_Panic)
  qed simp
  have bound: "keeps R w (bind_eff (client_bind_protocol pr q spec version w) (\<lambda>r w.
      case wait_for_object pr disp q r rounds (client_set_data r h (hold_object r w)) of
      None \<Rightarrow> None
    | Some (Ok _, w) \<Rightarrow> bind_eff (no_error (release_object pr r w)) (\<lambda>_ w. Some (Ok r, w))
    | Some (Err e, w) \<Rightarrow> bind_failed pr r e w
    | Some (Panic, w) \<Rightarrow> Some (Panic, w)))" for spec
    by (rule keeps_trans[OF keeps_client_bind_protocol], rule keeps_after[OF data waited])
  show ?thesis
    unfolding client_bind_def Let_def by (simp add: bound keeps_done split: option.split)
qed

end

text \<open>The contract of what dispatching does.\<close>

locale event_relation = callback_relation R pr
  for R :: "('h, 'd) client \<Rightarrow> ('h, 'd) client \<Rightarrow> bool" and pr +
  assumes R_on_seq: "R w (on_seq s i w)"
    and R_ack: "R w (upd_queue q (\<lambda>eq. eq\<lparr>eq_ackd := a\<rparr>) w)"
    and R_specs: "R w (server_specs ss w)"
    and R_handshake: "R w (w\<lparr>cl_handshake_done := True\<rparr>)"
begin

subsection \<open>Messages\<close>

lemma R_shake: "R w ((server_specs ss w)\<lparr>cl_handshake_done := True\<rparr>)"
  by (rule R_trans[OF R_specs R_handshake])

lemma keeps_parsed:
  "(\<And>msg. r = Ok msg \<Longrightarrow> R w (snd (f msg))) \<Longrightarrow>
     keeps R w (bind_eff (lift_res r w) (\<lambda>msg w'. Some (f msg)))"
  by (cases r) (auto simp: lift_res_def keeps_def R_refl split: prod.splits)

lemma keeps_client_message: "keeps R w (client_message pr disp q t data fds needle w)"
proof (cases t)
  case GenericProtocolMessage
  show ?thesis
    unfolding GenericProtocolMessage client_message_def message_type.case case_prod_beta
  proof (rule keeps_trans)
    show "keeps R w (Option.bind (generic_from_bytes pr data fds needle) (\<lambda>r. lift_res r w))"
      by (cases "generic_from_bytes pr data fds needle") (simp_all add: keeps_lift_R)
  qed (rule keeps_trans[OF keeps_client_on_generic], rule keeps_done)
qed (auto simp: client_message_def client_wrong_role_def
      intro!: keeps_trans[OF keeps_lift_R] keeps_Some_R R_error R_send R_shake R_on_seq R_ack)

lemma keeps_client_handle_message: "keeps R w (client_handle_message pr disp q data fds needle w)"
proof -
  have "pr = pr \<longrightarrow> fst y \<noteq> Panic \<longrightarrow> R w (snd y)"
    if "client_handle_message pr disp q data fds needle w = Some y" for y
  proof (rule client_handle_message.raw_induct
      [where P = "\<lambda>pr' disp q data fds needle w y. pr' = pr \<longrightarrow> fst y \<noteq> Panic \<longrightarrow> R w (snd y)", OF _ that])
    fix loop :: "profile \<Rightarrow> ('h, 'd) client_dispatcher \<Rightarrow> nat \<Rightarrow> bytes \<Rightarrow> i32 list \<Rightarrow> usize \<Rightarrow>
        ('h, 'd) client \<Rightarrow> (error, unit, ('h, 'd) client) eff"
      and pr' and disp :: "('h, 'd) client_dispatcher" and q data fds needle
      and w :: "('h, 'd) client" and y
    assume hyp: "\<And>pr' disp q data fds needle w y. loop pr' disp q data fds needle w = Some y \<Longrightarrow>
      pr' = pr \<longrightarrow> fst y \<noteq> Panic \<longrightarrow> R w (snd y)"
    have IH: "keeps R w (loop pr disp q data fds needle w)" for disp data fds needle w
      using hyp[of pr disp q data fds needle w] by (auto simp: keeps_def)
    have step: "keeps R w (bind_eff (client_message pr disp q t data fds needle w) (\<lambda>x w.
        bind_eff (lift_res (uadd pr needle (fst x)) w) (\<lambda>needle' w.
          loop pr disp q data (snd x) needle' w)))" for t fds
      by (rule keeps_trans[OF keeps_client_message], rule keeps_trans[OF keeps_lift_R], rule IH)
    let ?body = "if needle < length data then
        (case message_type_try_from (data ! needle) of
           Ok t \<Rightarrow>
             bind_eff (client_message pr' disp q t data fds needle w) (\<lambda>x w.
             bind_eff (lift_res (uadd pr' needle (fst x)) w) (\<lambda>needle' w.
               loop pr' disp q data (snd x) needle' w))
         | _ \<Rightarrow> Some (Err InvalidMessage, w))
      else if fds \<noteq> [] then Some (Err MalformedMessage, w)
      else Some (Ok (), w)"
    assume body: "?body = Some y"
    show "pr' = pr \<longrightarrow> fst y \<noteq> Panic \<longrightarrow> R w (snd y)"
    proof
      assume pr: "pr' = pr"
      have "keeps R w ?body"
        unfolding pr by (simp add: step keeps_done split: res.split)
      with body show "fst y \<noteq> Panic \<longrightarrow> R w (snd y)"
        by (cases y) (simp add: keeps_def)
    qed
  qed
  then show ?thesis by (auto simp: keeps_def)
qed

end

sublocale event_relation \<subseteq> reading: reading_relation R pr "\<lambda>_. True"
  by unfold_locales (rule keeps_client_handle_message)

text \<open>The contract of what a client can do, whatever it reads.\<close>

locale client_relation = event_relation R pr
  for R :: "('h, 'd) client \<Rightarrow> ('h, 'd) client \<Rightarrow> bool" and pr +
  assumes R_lock: "R w (upd_queue q (\<lambda>eq. eq\<lparr>eq_locked := b\<rparr>) w)"
    and R_count: "R w (upd_queue q (\<lambda>eq. eq\<lparr>eq_sent := m\<rparr>) w)"
    and R_bound: "seq_left pr w \<Longrightarrow> \<not> cl_locked w \<Longrightarrow>
      R w (push_object (fresh_object spec p v (cl_seq w + 1) q n) (take_seq w))"

sublocale client_relation \<subseteq> binding: binding_relation R pr "\<lambda>_. True"
  by unfold_locales (rule R_lock, rule R_count, rule R_bound)

section \<open>History\<close>

text \<open>
  Objects keep their identity, a destroyed object stays destroyed, the connection never takes anything
  back, the handshake stays done, and the specs announced by the server accumulate.
\<close>

definition cobj_evolves :: "'h client_object \<Rightarrow> 'h client_object \<Rightarrow> bool" where
  "cobj_evolves a b \<longleftrightarrow> cobj_le (a\<lparr>co_id := co_id b\<rparr>) b"

lemma cobj_evolves_refl [simp, intro]: "cobj_evolves a a" "cobj_evolves a (a\<lparr>co_id := i\<rparr>)"
  by (simp_all add: cobj_evolves_def)

lemma cobj_evolves_trans: "cobj_evolves a b \<Longrightarrow> cobj_evolves b c \<Longrightarrow> cobj_evolves a c"
  by (simp add: cobj_evolves_def cobj_le_def)

lemma cobj_le_evolves: "cobj_le a b \<Longrightarrow> cobj_evolves a b"
  by (simp add: cobj_evolves_def cobj_le_def)

definition history_le :: "('h, 'd) client \<Rightarrow> ('h, 'd) client \<Rightarrow> bool" where
  "history_le w w' \<longleftrightarrow> length (cl_heap w) \<le> length (cl_heap w') \<and>
     (\<forall>r < length (cl_heap w). cobj_evolves (cl_heap w ! r) (cl_heap w' ! r)) \<and>
     conn_le (cl_conn w) (cl_conn w') \<and> cl_impls w' = cl_impls w \<and>
     length (cl_queues w') = length (cl_queues w) \<and>
     (cl_handshake_done w \<longrightarrow> cl_handshake_done w') \<and> (\<exists>ss. cl_specs w' = cl_specs w @ ss) \<and>
     cl_alive w' = cl_alive w"

lemma history_le_refl: "history_le w w"
  by (simp add: history_le_def)

lemma history_le_trans: "history_le a b \<Longrightarrow> history_le b c \<Longrightarrow> history_le a c"
  by (auto simp: history_le_def intro: cobj_evolves_trans conn_le_trans)

interpretation client_history: client_relation history_le pr for pr
proof
  show "history_le w (on_seq s i w)" for s i and w :: "('a, 'b) client"
  proof (cases "object_for_seq s w")
    case (Some r)
    have "cobj_evolves (cl_heap w ! r') ((cl_heap w)[r := (cl_heap w ! r)\<lparr>co_id := i\<rparr>] ! r')"
      if "r' < length (cl_heap w)" for r'
      using that by (cases "r' = r") simp_all
    with Some show ?thesis by (simp add: history_le_def on_seq_def upd_cobj_def)
  qed (simp add: on_seq_def history_le_refl)
  show "history_le a c" if "history_le a b" "history_le b c" for a b c :: "('a, 'b) client"
    using that by (rule history_le_trans)
  show "history_le w (upd_cobj r f w)" if "\<And>obj. cobj_le obj (f obj)" for r f and w :: "('a, 'b) client"
  proof -
    have "cobj_evolves (cl_heap w ! r') ((cl_heap w)[r := f (cl_heap w ! r)] ! r')"
      if "r' < length (cl_heap w)" for r'
      using that \<open>\<And>obj. cobj_le obj (f obj)\<close> by (cases "r' = r") (simp_all add: cobj_le_evolves)
    then show ?thesis by (simp add: history_le_def upd_cobj_def)
  qed
qed (simp_all add: history_le_refl history_le_def upd_queue_def upd_cconn_def take_seq_def server_specs_def
    push_object_def nth_append)

section \<open>Sequence numbers\<close>

text \<open>
  Objects get increasing sequence numbers, none of them 0 and none beyond the counter, and the table
  holds references in the order the objects were made. With overflow checks this holds without a
  bound on the number of calls: the counter panics before it wraps.
\<close>

definition client_inv :: "('h, 'd) client \<Rightarrow> bool" where
  "client_inv w \<longleftrightarrow> sorted_wrt (<) (map co_seq (cl_heap w)) \<and>
     (\<forall>s \<in> set (map co_seq (cl_heap w)). 0 < s \<and> s \<le> cl_seq w) \<and>
     sorted_wrt (<) (cl_objects w) \<and> (\<forall>r \<in> set (cl_objects w). r < length (cl_heap w))"

definition inv_kept :: "('h, 'd) client \<Rightarrow> ('h, 'd) client \<Rightarrow> bool" where
  "inv_kept w w' \<longleftrightarrow> (client_inv w \<longrightarrow> client_inv w')"

lemma less_succ_word:
  fixes a :: "'a::len word"
  assumes "a \<noteq> - 1"
  shows "a < a + 1"
proof -
  have "1 + a \<noteq> 0" using assms by (metis add.commute eq_neg_iff_add_eq_0)
  from unatSuc[OF this] show ?thesis by (simp add: word_less_nat_alt add.commute)
qed

lemma client_inv_push:
  assumes left: "seq_left Debug w" and inv: "client_inv w"
  shows "client_inv (push_object (fresh_object spec p v (cl_seq w + 1) q n) (take_seq w))"
proof -
  have less: "cl_seq w < cl_seq w + 1" using left by (intro less_succ_word) (simp add: seq_left_def)
  moreover from this have "0 < cl_seq w + 1" by (metis word_gt_0 not_less_zero word_not_simps(1))
  ultimately show ?thesis
    using inv
    by (auto simp: client_inv_def push_object_def take_seq_def fresh_object_def sorted_wrt_append
        intro: order.strict_trans1 less_imp_le)
qed

lemma client_inv_same:
  assumes "client_inv w" and "map co_seq (cl_heap w') = map co_seq (cl_heap w)"
    and "cl_seq w' = cl_seq w" and "cl_objects w' = filter P (cl_objects w)"
  shows "client_inv w'"
proof -
  have "length (cl_heap w') = length (cl_heap w)"
    using assms(2) by (rule map_eq_imp_length_eq)
  with assms show ?thesis by (simp add: client_inv_def sorted_wrt_filter)
qed

lemma client_inv_view:
  assumes "client_inv w" and "map co_seq (cl_heap w') = map co_seq (cl_heap w)"
    and "cl_seq w' = cl_seq w" and "cl_objects w' = cl_objects w"
  shows "client_inv w'"
  using client_inv_same[OF assms(1-3), of "\<lambda>_. True"] assms(4) by simp

lemma map_seq_upd:
  assumes "co_seq (f (cl_heap w ! r)) = co_seq (cl_heap w ! r)"
  shows "map co_seq (cl_heap (upd_cobj r f w)) = map co_seq (cl_heap w)"
  using assms unfolding upd_cobj_def
  by (simp add: map_update)
    (metis list_update_id list_update_beyond linorder_not_less map_update nth_map)

lemma client_inv_upd_cobj:
  "client_inv w \<Longrightarrow> co_seq (f (cl_heap w ! r)) = co_seq (cl_heap w ! r) \<Longrightarrow> client_inv (upd_cobj r f w)"
  using client_inv_view[of w "upd_cobj r f w"] map_seq_upd[of f w r] by (simp add: upd_cobj_def)

interpretation client_seqs: client_relation inv_kept Debug
proof
  show "inv_kept w (upd_cobj r f w)" if "\<And>obj. cobj_le obj (f obj)" for r f and w :: "('a, 'b) client"
    using that by (auto simp: inv_kept_def cobj_le_def intro: client_inv_upd_cobj)
  show "inv_kept w (on_seq s i w)" for s i and w :: "('a, 'b) client"
    by (auto simp: inv_kept_def on_seq_def split: option.split intro: client_inv_upd_cobj)
  show "inv_kept w (take_seq w)" if "seq_left Debug w" for w :: "('a, 'b) client"
  proof -
    have "cl_seq w < cl_seq w + 1" using that by (intro less_succ_word) (simp add: seq_left_def)
    then show ?thesis by (fastforce simp: inv_kept_def client_inv_def take_seq_def)
  qed
  show "inv_kept w (w\<lparr>cl_objects := filter P (cl_objects w), cl_locked := True\<rparr>)"
    for P and w :: "('a, 'b) client"
    by (auto simp: inv_kept_def intro: client_inv_same)
qed (auto simp: inv_kept_def upd_queue_def upd_cconn_def server_specs_def
    intro: client_inv_view client_inv_push)

lemma find_self: "r \<in> set rs \<Longrightarrow> List.find (\<lambda>r'. r' = r) rs = Some r"
  by (induction rs) auto

text \<open>A sequence number of the table leads to the one object that has it.\<close>

lemma client_inv_object_for_seq:
  assumes inv: "client_inv w" and r: "r \<in> set (cl_objects w)"
  shows "object_for_seq (co_seq (cl_heap w ! r)) w = Some r"
proof -
  have "distinct (map co_seq (cl_heap w))"
    using inv by (simp add: client_inv_def strict_sorted_iff)
  then have inj: "r' = r" if "co_seq (cl_heap w ! r') = co_seq (cl_heap w ! r)"
    and "r' < length (cl_heap w)" "r < length (cl_heap w)" for r'
    using that nth_eq_iff_index_eq[of "map co_seq (cl_heap w)" r' r] by simp
  have "\<forall>r \<in> set (cl_objects w). r < length (cl_heap w)"
    using inv by (simp add: client_inv_def)
  with inj r have "co_seq (cl_heap w ! r') = co_seq (cl_heap w ! r) \<longleftrightarrow> r' = r"
    if "r' \<in> set (cl_objects w)" for r'
    using that by blast
  then have "object_for_seq (co_seq (cl_heap w ! r)) w = List.find (\<lambda>r'. r' = r) (cl_objects w)"
    unfolding object_for_seq_def by (intro find_cong) auto
  also have "\<dots> = Some r" using r by (rule find_self)
  finally show ?thesis .
qed

section \<open>Tables and ids\<close>

text \<open>While the table is locked no operation on an object changes it.\<close>

definition table_kept :: "('h, 'd) client \<Rightarrow> ('h, 'd) client \<Rightarrow> bool" where
  "table_kept w w' \<longleftrightarrow> (cl_locked w \<longrightarrow> cl_locked w' \<and> cl_objects w' = cl_objects w)"

interpretation locked_table: call_relation table_kept pr for pr
  by unfold_locales (auto simp: table_kept_def upd_cobj_def upd_queue_def upd_cconn_def take_seq_def)

text \<open>
  Each event queue keeps its lock and the number of its last round trip in whatever a message or a callback does;
  between messages it also keeps the number that was acknowledged.
\<close>

definition queue_kept :: "nat \<Rightarrow> ('h, 'd) client \<Rightarrow> ('h, 'd) client \<Rightarrow> bool" where
  "queue_kept q w w' \<longleftrightarrow>
     eq_locked (cl_queues w' ! q) = eq_locked (cl_queues w ! q) \<and> eq_sent (cl_queues w' ! q) = eq_sent (cl_queues w ! q)"

interpretation queue_held: event_relation "queue_kept q" pr for q pr
proof
  show "queue_kept q w (upd_queue q' g w)" if "\<And>eq. queue_le eq (g eq)" for q' g and w :: "('a, 'b) client"
    using that by (cases "q' = q"; cases "q < length (cl_queues w)")
      (auto simp: queue_kept_def queue_le_def upd_queue_def list_update_beyond)
  show "queue_kept q w (upd_queue q' (\<lambda>eq. eq\<lparr>eq_ackd := a\<rparr>) w)" for q' a and w :: "('a, 'b) client"
    by (cases "q' = q"; cases "q < length (cl_queues w)") (auto simp: queue_kept_def upd_queue_def list_update_beyond)
qed (auto simp: queue_kept_def upd_cobj_def upd_cconn_def take_seq_def push_object_def on_seq_def server_specs_def split: option.split)

definition acks_kept :: "nat \<Rightarrow> ('h, 'd) client \<Rightarrow> ('h, 'd) client \<Rightarrow> bool" where
  "acks_kept q w w' \<longleftrightarrow> queue_le (cl_queues w ! q) (cl_queues w' ! q)"

interpretation acks_held: reading_relation "acks_kept q" pr "\<lambda>_. False" for q pr
proof
  show "acks_kept q w (upd_queue q' g w)" if "\<And>eq. queue_le eq (g eq)" for q' g and w :: "('a, 'b) client"
    using that by (cases "q' = q"; cases "q < length (cl_queues w)") (auto simp: acks_kept_def upd_queue_def list_update_beyond)
qed (auto simp: acks_kept_def queue_le_def upd_cobj_def upd_cconn_def take_seq_def push_object_def)

text \<open>A callback gives no object another id, and the table holds references to objects.\<close>

definition table_ok :: "('h, 'd) client \<Rightarrow> bool" where
  "table_ok w \<longleftrightarrow> (\<forall>r \<in> set (cl_objects w). r < length (cl_heap w))"

definition ids_kept :: "('h, 'd) client \<Rightarrow> ('h, 'd) client \<Rightarrow> bool" where
  "ids_kept w w' \<longleftrightarrow> length (cl_heap w) \<le> length (cl_heap w') \<and>
     (\<forall>r < length (cl_heap w). cobj_le (cl_heap w ! r) (cl_heap w' ! r)) \<and>
     (table_ok w \<longrightarrow> table_ok w')"

interpretation callback_ids: callback_relation ids_kept pr for pr
proof
  show "ids_kept a c" if "ids_kept a b" "ids_kept b c" for a b c :: "('a, 'b) client"
  proof -
    have "cobj_le (cl_heap a ! r) (cl_heap c ! r)" if "r < length (cl_heap a)" for r
      using that \<open>ids_kept a b\<close> \<open>ids_kept b c\<close> cobj_le_trans[of "cl_heap a ! r" "cl_heap b ! r" "cl_heap c ! r"]
      by (simp add: ids_kept_def)
    then show ?thesis using that by (simp add: ids_kept_def)
  qed
  show "ids_kept w (upd_cobj r f w)" if "\<And>obj. cobj_le obj (f obj)" for r f and w :: "('a, 'b) client"
  proof -
    have "cobj_le (cl_heap w ! r') ((cl_heap w)[r := f (cl_heap w ! r)] ! r')"
      if "r' < length (cl_heap w)" for r'
      using that \<open>\<And>obj. cobj_le obj (f obj)\<close> by (cases "r' = r") simp_all
    then show ?thesis by (simp add: ids_kept_def table_ok_def upd_cobj_def)
  qed
qed (auto simp: ids_kept_def table_ok_def upd_queue_def upd_cconn_def take_seq_def push_object_def nth_append)

section \<open>Indexed specs\<close>

text \<open>
  The methods of a spec stand at their indices, as the code generator writes them, and the table holds
  references to objects.
\<close>

definition indexed_spec :: "object_spec \<Rightarrow> bool" where
  "indexed_spec s \<longleftrightarrow> (\<forall>i < length (c2s s). unat (method_idx (c2s s ! i)) = i)"

definition indexed :: "('h, 'd) client \<Rightarrow> bool" where
  "indexed w \<longleftrightarrow> (\<forall>im \<in> set (cl_impls w). \<forall>s \<in> set (spec_objects im). indexed_spec s) \<and>
     (\<forall>spec \<in> set (map co_spec (cl_heap w)). \<forall>s. spec = Some s \<longrightarrow> indexed_spec s) \<and> table_ok w"

definition indexed_kept :: "('h, 'd) client \<Rightarrow> ('h, 'd) client \<Rightarrow> bool" where
  "indexed_kept w w' \<longleftrightarrow> (indexed w \<longrightarrow> indexed w')"

lemma indexed_upd_cobj:
  assumes "co_spec (f (cl_heap w ! r)) = co_spec (cl_heap w ! r)" and "indexed w"
  shows "indexed (upd_cobj r f w)"
proof -
  have "map co_spec (cl_heap (upd_cobj r f w)) = map co_spec (cl_heap w)"
    using assms(1) unfolding upd_cobj_def
    by (simp add: map_update)
      (metis list_update_id list_update_beyond linorder_not_less map_update nth_map)
  with assms(2) show ?thesis by (simp add: indexed_def table_ok_def upd_cobj_def)
qed

lemma find_SomeD: "List.find P xs = Some x \<Longrightarrow> x \<in> set xs \<and> P x"
  by (auto simp: find_Some_iff)

lemma indexed_find_spec:
  "indexed w \<Longrightarrow> client_find_spec (cl_impls w) p t = Some spec \<Longrightarrow> indexed_spec spec"
  by (auto simp: indexed_def client_find_spec_def split: option.splits dest!: find_SomeD)

interpretation indexing: event_relation indexed_kept pr for pr
proof
  show "indexed_kept w (upd_cobj r f w)" if "\<And>obj. cobj_le obj (f obj)" for r f and w :: "('a, 'b) client"
    using that by (auto simp: indexed_kept_def cobj_le_def intro: indexed_upd_cobj)
  show "indexed_kept w (on_seq s i w)" for s i and w :: "('a, 'b) client"
    by (auto simp: indexed_kept_def on_seq_def split: option.split intro: indexed_upd_cobj)
  show "indexed_kept w (push_object (fresh_object spec p 0 (cl_seq w + 1) q 0) (take_seq w))"
    if "client_find_spec (cl_impls w) p t = Some spec" for p t q spec and w :: "('a, 'b) client"
    using indexed_find_spec[OF _ that]
    by (auto simp: indexed_kept_def indexed_def table_ok_def push_object_def take_seq_def fresh_object_def)
  show "indexed_kept a c" if "indexed_kept a b" "indexed_kept b c" for a b c :: "('a, 'b) client"
    using that by (simp add: indexed_kept_def)
qed (simp_all add: indexed_kept_def indexed_def table_ok_def upd_queue_def upd_cconn_def take_seq_def server_specs_def)

section \<open>The states an application can reach\<close>

inductive client_step :: "profile \<Rightarrow> ('h, 'd) client_dispatcher \<Rightarrow> ('h, 'd) client \<Rightarrow> ('h, 'd) client \<Rightarrow> bool"
  for pr disp where
  implement: "client_step pr disp w (client_add_implementation im w)"
| queue: "client_step pr disp w (snd (new_event_queue w))"
| app: "run_client pr p w = Some (Ok (), w') \<Longrightarrow> client_step pr disp w w'"
| dispatch: "client_dispatch_events pr disp q block rnd w = Some (r, w') \<Longrightarrow> r \<noteq> Panic \<Longrightarrow>
    client_step pr disp w w'"
| roundtrip: "roundtrip pr disp q rounds w = Some (r, w') \<Longrightarrow> r \<noteq> Panic \<Longrightarrow> client_step pr disp w w'"
| handshake: "wait_for_handshake pr disp q rounds w = Some (r, w') \<Longrightarrow> r \<noteq> Panic \<Longrightarrow>
    client_step pr disp w w'"
| bind: "client_bind pr disp q proto h version rounds w = Some (x, w') \<Longrightarrow> x \<noteq> Panic \<Longrightarrow>
    client_step pr disp w w'"
| drop_queue: "client_step pr disp w (upd_queue q (\<lambda>eq. eq\<lparr>eq_alive := False\<rparr>) w)"
| drop_client: "client_step pr disp w (w\<lparr>cl_alive := False\<rparr>)"

inductive client_reachable :: "profile \<Rightarrow> ('h, 'd) client_dispatcher \<Rightarrow> ('h, 'd) client \<Rightarrow> bool"
  for pr disp where
  start: "client_reachable pr disp (client_new app)"
| step: "client_reachable pr disp w \<Longrightarrow> client_step pr disp w w' \<Longrightarrow> client_reachable pr disp w'"

lemma client_step_inv:
  assumes "client_step Debug disp w w'"
  shows "inv_kept w w'"
  using assms
proof cases
  case app
  then show ?thesis using keepsD[OF client_seqs.keeps_run_client] by blast
next
  case dispatch
  then show ?thesis using keepsD[OF client_seqs.binding.keeps_client_dispatch_events] by blast
next
  case roundtrip
  then show ?thesis using keepsD[OF client_seqs.binding.keeps_roundtrip] by blast
next
  case handshake
  then show ?thesis using keepsD[OF client_seqs.binding.keeps_wait_for_handshake] by blast
next
  case bind
  then show ?thesis by (rule keepsD[OF client_seqs.binding.keeps_client_bind, rotated]) simp
next
  case drop_queue
  then show ?thesis using client_seqs.R_queue[of "\<lambda>eq. eq\<lparr>eq_alive := False\<rparr>"] by simp
qed (auto simp: inv_kept_def client_add_implementation_def new_event_queue_def
    intro: client_inv_view)

lemma client_reachable_inv: "client_reachable Debug disp w \<Longrightarrow> client_inv w"
proof (induction rule: client_reachable.induct)
  case (start app)
  show ?case by (simp add: client_inv_def client_new_def)
next
  case (step w w')
  then show ?case using client_step_inv[of disp w w'] by (simp add: inv_kept_def)
qed

end
