(* ===== verification/Client_Properties.thy ===== *)
theory Client_Properties
  imports Client_Invariant
begin

text \<open>
  What the client guarantees: the theorems about the models of \<open>client_object.rs\<close>, \<open>client_socket.rs\<close>,
  \<open>event_queue.rs\<close> and the client's half of \<open>message.rs\<close>.
\<close>

section \<open>Helpers\<close>

lemma upd_cobj_nth:
  "r < length (cl_heap w) \<Longrightarrow>
     cl_heap (upd_cobj r f w) ! s = (if s = r then f (cl_heap w ! r) else cl_heap w ! s)"
  by (simp add: upd_cobj_def)

lemma upd_cobj_simps [simp]:
  "length (cl_heap (upd_cobj r f w)) = length (cl_heap w)" "cl_objects (upd_cobj r f w) = cl_objects w"
  "cl_conn (upd_cobj r f w) = cl_conn w" "cl_queues (upd_cobj r f w) = cl_queues w"
  "cl_alive (upd_cobj r f w) = cl_alive w" "cl_seq (upd_cobj r f w) = cl_seq w"
  "cl_locked (upd_cobj r f w) = cl_locked w" "cl_impls (upd_cobj r f w) = cl_impls w"
  "cl_handshake_done (upd_cobj r f w) = cl_handshake_done w" "cl_app (upd_cobj r f w) = cl_app w"
  by (simp_all add: upd_cobj_def)

lemma upd_cconn_simps [simp]:
  "cl_heap (upd_cconn h w) = cl_heap w" "cl_objects (upd_cconn h w) = cl_objects w"
  "cl_conn (upd_cconn h w) = h (cl_conn w)" "cl_queues (upd_cconn h w) = cl_queues w"
  "cl_alive (upd_cconn h w) = cl_alive w" "cl_seq (upd_cconn h w) = cl_seq w"
  "cl_locked (upd_cconn h w) = cl_locked w" "cl_impls (upd_cconn h w) = cl_impls w"
  "cl_handshake_done (upd_cconn h w) = cl_handshake_done w" "cl_specs (upd_cconn h w) = cl_specs w"
  by (simp_all add: upd_cconn_def)

lemma upd_queue_simps [simp]:
  "cl_heap (upd_queue q g w) = cl_heap w" "cl_objects (upd_queue q g w) = cl_objects w"
  "cl_conn (upd_queue q g w) = cl_conn w" "length (cl_queues (upd_queue q g w)) = length (cl_queues w)"
  "q < length (cl_queues w) \<Longrightarrow> cl_queues (upd_queue q g w) ! q = g (cl_queues w ! q)"
  "cl_alive (upd_queue q g w) = cl_alive w" "cl_seq (upd_queue q g w) = cl_seq w"
  "cl_locked (upd_queue q g w) = cl_locked w" "cl_impls (upd_queue q g w) = cl_impls w"
  "cl_handshake_done (upd_queue q g w) = cl_handshake_done w" "cl_specs (upd_queue q g w) = cl_specs w"
  by (simp_all add: upd_queue_def)

lemma upd_queue_twice:
  "q < length (cl_queues w) \<Longrightarrow> upd_queue q g (upd_queue q f w) = upd_queue q (g \<circ> f) w"
  by (simp add: upd_queue_def)

lemma upd_cconn_queue: "upd_cconn h (upd_queue q g w) = upd_queue q g (upd_cconn h w)"
  by (simp add: upd_queue_def upd_cconn_def)

lemma upd_cconn_twice: "upd_cconn h (upd_cconn g w) = upd_cconn (h \<circ> g) w"
  by (simp add: upd_cconn_def)

lemma find_append:
  "List.find P (xs @ ys) = (case List.find P xs of Some x \<Rightarrow> Some x | None \<Rightarrow> List.find P ys)"
  by (induction xs) simp_all

section \<open>Deferred messages\<close>

text \<open>What becomes of a waiting message: gone with its object, waiting on, or sent with the id.\<close>

definition pending_id :: "('h, 'd) client \<Rightarrow> generic_message \<Rightarrow> u32 option" where
  "pending_id w msg = map_option (\<lambda>r. co_id (cl_heap w ! r)) (object_for_seq (gm_depends_on_seq msg) w)"

definition ready_messages :: "('h, 'd) client \<Rightarrow> generic_message list \<Rightarrow> message list" where
  "ready_messages w msgs =
     List.map_filter (\<lambda>msg. case pending_id w msg of
       Some i \<Rightarrow> if i = 0 then None else Some (MGeneric (resolve_seq i msg)) | None \<Rightarrow> None) msgs"

lemma pending_id_same:
  "cl_heap w' = cl_heap w \<Longrightarrow> cl_objects w' = cl_objects w \<Longrightarrow> pending_id w' = pending_id w"
  unfolding pending_id_def object_for_seq_def by (rule ext) (simp only:)

lemma pending_id_upd [simp]:
  "pending_id (upd_queue q g w) = pending_id w" "pending_id (upd_cconn h w) = pending_id w"
  by (rule pending_id_same; simp)+

lemma ready_messages_upd [simp]:
  "ready_messages (upd_queue q g w) = ready_messages w" "ready_messages (upd_cconn h w) = ready_messages w"
  by (simp_all add: ready_messages_def fun_eq_iff)

lemma send_pending_Cons:
  "send_pending q (msg # msgs) w =
     (case pending_id w msg of
        None \<Rightarrow> send_pending q msgs w
      | Some i \<Rightarrow>
          if i = 0 then send_pending q msgs (upd_queue q (\<lambda>eq. eq\<lparr>eq_queue := eq_queue eq @ [msg]\<rparr>) w)
          else send_pending q msgs (upd_cconn (send_message (MGeneric (resolve_seq i msg))) w))"
  by (simp add: pending_id_def)

lemma ready_messages_Cons:
  "ready_messages w (msg # msgs) = (case pending_id w msg of
     Some i \<Rightarrow> if i = 0 then ready_messages w msgs
       else MGeneric (resolve_seq i msg) # ready_messages w msgs
   | None \<Rightarrow> ready_messages w msgs)"
  by (simp add: ready_messages_def map_filter_simps split: option.split)

lemma send_pending_eq:
  assumes "q < length (cl_queues w)"
  shows "send_pending q msgs w =
    upd_queue q (\<lambda>eq. eq\<lparr>eq_queue := eq_queue eq @ filter (\<lambda>msg. pending_id w msg = Some 0) msgs\<rparr>)
      (upd_cconn (\<lambda>c. c\<lparr>c_out := c_out c @ ready_messages w msgs\<rparr>) w)"
  using assms
proof (induction msgs arbitrary: w)
  case Nil
  then show ?case by (simp add: upd_queue_def upd_cconn_def ready_messages_def map_filter_simps)
next
  case (Cons msg msgs)
  consider "pending_id w msg = None" | "pending_id w msg = Some 0"
    | i where "pending_id w msg = Some i" "i \<noteq> 0" by (cases "pending_id w msg") auto
  then show ?case
  proof cases
    case 2
    then show ?thesis
      using Cons.prems
      by (simp add: send_pending_Cons Cons.IH ready_messages_Cons upd_cconn_queue upd_queue_twice comp_def
          del: send_pending.simps)
  next
    case 3
    then show ?thesis
      using Cons.prems
      by (simp add: send_pending_Cons Cons.IH ready_messages_Cons upd_cconn_twice comp_def
          send_message_def del: send_pending.simps)
  qed (simp add: send_pending_Cons Cons ready_messages_Cons del: send_pending.simps)
qed

text \<open>C31: After the server's messages are handled, the waiting messages are looked through once, in
  order: those whose object has got its id are sent with the id, those whose object is gone are
  dropped, the others keep waiting in the same order, and nothing else changes.\<close>
theorem flush_pending_outcome:
  assumes "q < length (cl_queues w)"
  shows "flush_pending q w =
    upd_queue q (\<lambda>eq. eq\<lparr>eq_queue := filter (\<lambda>msg. pending_id w msg = Some 0) (eq_queue eq)\<rparr>)
      (upd_cconn (\<lambda>c. c\<lparr>c_out := c_out c @ ready_messages w (eq_queue (cl_queues w ! q))\<rparr>) w)"
  using assms
  by (simp add: flush_pending_def send_pending_eq upd_cconn_queue upd_queue_twice comp_def)
    (simp add: upd_queue_def)

text \<open>C22: A call that waited is the call that would have been made: marshalling a call of an object
  without an id, queueing it, and filling in the id later gives the bytes, descriptors and sequence
  number of the same call made when the object has the id.\<close>
theorem deferred_call_equivalent:
  assumes "wire_call server methods oid version ns i args = Ok (CallMessage d s data fds)"
  shows "wire_call server methods oid' version ns i args =
    Ok (CallMessage d s
      (gm_data (resolve_seq oid' (set_depends_on_seq q (generic_message_new data fds)))) fds)"
proof -
  from assms obtain bs where data: "data = message_type_u8 GenericProtocolMessage # magic_u8 TypeObject #
      to_le_bytes oid @ bs"
    and other: "wire_call server methods oid' version ns i args =
      Ok (CallMessage d s (message_type_u8 GenericProtocolMessage # magic_u8 TypeObject #
        to_le_bytes oid' @ bs) fds)"
    by (auto simp: wire_call_def Let_def bind_res_eq_Ok split: if_splits option.splits)
  have "gm_data (resolve_seq oid' (set_depends_on_seq q (generic_message_new data fds))) =
      message_type_u8 GenericProtocolMessage # magic_u8 TypeObject # to_le_bytes oid' @ bs"
    by (simp add: data resolve_seq_def set_depends_on_seq_def generic_message_new_def numeral_eq_Suc)
  with other show ?thesis by simp
qed

section \<open>An example\<close>

text \<open>
  A client of a protocol whose root object has a method that returns a child and a destructor, and
  receives a plain event and a destructor; the child has a destructor. It has bound the protocol, the
  server has given the root the id 7, and the application holds it.
\<close>

definition example_destructor :: "u32 \<Rightarrow> method_spec" where
  "example_destructor i = \<lparr>method_idx = i, method_params = [], returns_type = [], since = 0, destructor = True\<rparr>"

definition example_child :: object_spec where
  "example_child = \<lparr>object_name = ascii ''child'', c2s = [example_destructor 0], s2c = []\<rparr>"

definition example_root :: object_spec where
  "example_root = \<lparr>object_name = ascii ''root'',
     c2s = [\<lparr>method_idx = 0, method_params = [], returns_type = ascii ''child'', since = 0,
       destructor = False\<rparr>, example_destructor 1],
     s2c = [\<lparr>method_idx = 0, method_params = [], returns_type = [], since = 0, destructor = False\<rparr>,
       example_destructor 1]\<rparr>"

definition example_protocol :: protocol_spec where
  "example_protocol = \<lparr>spec_name = ascii ''demo'', spec_ver = 1, spec_objects = [example_root, example_child]\<rparr>"

definition example_client :: "u32 \<Rightarrow> nat \<Rightarrow> (unit, unit) client" where
  "example_client i refs = \<lparr>cl_impls = [example_protocol], cl_specs = [], cl_objects = [0],
     cl_heap = [(fresh_object example_root (ascii ''demo'') 1 1 0 refs)\<lparr>co_id := i\<rparr>],
     cl_handshake_done = True, cl_seq = 1, cl_conn = conn_new, cl_queues = [event_queue_new],
     cl_locked = False, cl_alive = True, cl_app = ()\<rparr>"

definition example_callbacks :: "(unit, unit) client_dispatcher" where
  "example_callbacks h i data fds app = CFinish"

lemma example_client_inv: "client_inv (example_client i n)"
  by (simp add: client_inv_def example_client_def fresh_object_def)

section \<open>Sequence numbers\<close>

section \<open>Calls\<close>

lemma mark_destroyed_simps [simp]:
  "cl_queues (client_mark_destroyed r w) = cl_queues w" "cl_conn (client_mark_destroyed r w) = cl_conn w"
  "cl_alive (client_mark_destroyed r w) = cl_alive w" "cl_seq (client_mark_destroyed r w) = cl_seq w"
  "cl_locked (client_mark_destroyed r w) = cl_locked w" "cl_impls (client_mark_destroyed r w) = cl_impls w"
  "cl_objects (client_mark_destroyed r w) = cl_objects w"
  "length (cl_heap (client_mark_destroyed r w)) = length (cl_heap w)"
  by (simp_all add: client_mark_destroyed_def)

lemma take_seq_simps [simp]:
  "cl_queues (take_seq w) = cl_queues w" "cl_conn (take_seq w) = cl_conn w"
  "cl_alive (take_seq w) = cl_alive w" "cl_seq (take_seq w) = cl_seq w + 1"
  "cl_locked (take_seq w) = cl_locked w" "cl_impls (take_seq w) = cl_impls w"
  "cl_objects (take_seq w) = cl_objects w" "cl_heap (take_seq w) = cl_heap w"
  by (simp_all add: take_seq_def)

lemma call_effects_simps [simp]:
  "cl_queues (call_effects r d b w) = cl_queues w" "cl_conn (call_effects r d b w) = cl_conn w"
  "cl_alive (call_effects r d b w) = cl_alive w" "cl_locked (call_effects r d b w) = cl_locked w"
  "cl_impls (call_effects r d b w) = cl_impls w" "cl_objects (call_effects r d b w) = cl_objects w"
  "length (cl_heap (call_effects r d b w)) = length (cl_heap w)"
  by (simp_all add: call_effects_def Let_def)

lemma call_effects_heap:
  "r < length (cl_heap w) \<Longrightarrow> cl_heap (call_effects r d b w) ! s =
     (if s = r \<and> d then (cl_heap w ! r)\<lparr>co_destroyed := True\<rparr> else cl_heap w ! s)"
  by (simp add: call_effects_def Let_def client_mark_destroyed_def upd_cobj_nth)

text \<open>An accepted call, after its message has been marshalled.\<close>

lemma client_call_message:
  assumes call: "wire_call False (client_methods_out (cl_heap w ! r)) (co_id (cl_heap w ! r))
      (co_version (cl_heap w ! r)) (if cl_alive w then Some (cl_seq w + 1) else None) i args =
      Ok (CallMessage d s data fds)"
    and rtype: "rtype = returns_type (client_methods_out (cl_heap w ! r) ! unat i)"
    and takes: "takes = (rtype \<noteq> [] \<and> cl_alive w)" and left: "takes \<Longrightarrow> seq_left pr w"
  shows "client_call pr r i args w =
    logged (client_deliver r (generic_message_new data fds) s rtype (call_effects r d takes w))"
proof -
  have "bind_eff (lift_res (if takes then next_seq pr w else Ok 0) w) f = f (if takes then cl_seq w + 1 else 0) w"
    for f :: "u32 \<Rightarrow> ('a, 'b) client \<Rightarrow> (error, u32, ('a, 'b) client) eff"
  proof (cases takes)
    case True
    then have "next_seq pr w = (Ok (cl_seq w + 1) :: (error, u32) res)" using left by (simp add: next_seq_Ok)
    with True show ?thesis by (simp add: lift_res_def)
  qed (simp add: lift_res_def)
  with call show ?thesis
    unfolding client_call_def Let_def rtype[symmetric] takes[symmetric] by (simp add: lift_res_def)
qed

text \<open>
  A message for an object without an id goes to its event queue, so a call on it takes the queue's lock. Locking a
  mutex that the same thread holds does not return.
\<close>

lemma call_takes_lock:
  assumes "co_id (cl_heap w ! r) = 0" and "r < length (cl_heap w)"
    and "eq_alive (cl_queues w ! co_queue (cl_heap w ! r))"
    and "eq_locked (cl_queues w ! co_queue (cl_heap w ! r))"
    and "wire_call False (client_methods_out (cl_heap w ! r)) 0
      (co_version (cl_heap w ! r)) (if cl_alive w then Some (cl_seq w + 1) else None) i args =
      Ok (CallMessage d s data fds)"
    and "cl_alive w \<Longrightarrow> seq_left pr w"
  shows "client_call pr r i args w = None"
  using client_call_message[of w r i args d s data fds _ _ pr, OF _ refl refl] assms
  by (simp add: client_deliver_def Let_def call_effects_heap logged_def)

lemma example_call:
  "wire_call False (client_methods_out (cl_heap (example_client i n) ! 0)) oid 1 (Some 2) 1 [] =
     Ok (CallMessage True 0 (message_type_u8 GenericProtocolMessage # magic_u8 TypeObject #
       to_le_bytes oid @ magic_u8 TypeUint # to_le_bytes 1 @ [magic_u8 End]) [])"
  by (simp add: wire_call_def Let_def example_client_def fresh_object_def client_methods_out_def
      example_root_def example_destructor_def)

text \<open>An object pushed under the next sequence number is what a lookup of this number finds.\<close>

lemma pushed_object_found:
  fixes w w' :: "('h, 'd) client"
  assumes inv: "client_inv w" and left: "cl_seq w \<noteq> - 1" and new: "co_seq new = cl_seq w + 1"
    and w': "length (cl_heap w') = length (cl_heap w)" "cl_objects w' = cl_objects w"
      "\<And>t. t < length (cl_heap w) \<Longrightarrow> co_seq (cl_heap w' ! t) = co_seq (cl_heap w ! t)"
  shows "object_for_seq (cl_seq w + 1) (push_object new w') = Some (length (cl_heap w))"
proof -
  have less: "cl_seq w < cl_seq w + 1" by (rule less_succ_word) (rule left)
  have table: "t < length (cl_heap w)" if "t \<in> set (cl_objects w)" for t
    using inv that by (simp add: client_inv_def)
  have "co_seq (cl_heap w' ! t) \<noteq> cl_seq w + 1" if "t \<in> set (cl_objects w)" for t
  proof -
    have "\<forall>o' \<in> set (cl_heap w). co_seq o' \<le> cl_seq w" using inv by (simp add: client_inv_def)
    then have "co_seq (cl_heap w ! t) \<le> cl_seq w" using nth_mem[OF table[OF that]] by blast
    with w'(3)[OF table[OF that]] less show ?thesis by auto
  qed
  with table have "List.find (\<lambda>t. co_seq ((cl_heap w' @ [new]) ! t) = cl_seq w + 1) (cl_objects w) = None"
    using w'(1) by (auto simp: find_None_iff nth_append)
  moreover have "(cl_heap w' @ [new]) ! length (cl_heap w) = new"
    by (simp add: w'(1)[symmetric])
  ultimately show ?thesis
    using w'(1,2) new by (simp add: object_for_seq_def push_object_def find_append)
qed

text \<open>A method with a return type makes the object it returns: the call returns the next sequence
  number, the table has a new object under it, with the spec named by the method and no id yet, and
  the message has been sent, or waits in the event queue if the called object has no id itself.\<close>
lemma returning_call_makes_object:
  fixes w :: "('h, 'd) client"
  defines "obj \<equiv> \<lambda>r. cl_heap w ! r"
  assumes inv: "client_inv w" and r: "r < length (cl_heap w)" and q: "co_queue (obj r) < length (cl_queues w)"
    and alive: "cl_alive w" "eq_alive (cl_queues w ! co_queue (obj r))"
    and unlocked: "\<not> cl_locked w" "\<not> eq_locked (cl_queues w ! co_queue (obj r))"
    and left: "cl_seq w \<noteq> - 1"
    and call: "wire_call False (client_methods_out (obj r)) (co_id (obj r)) (co_version (obj r))
      (Some (cl_seq w + 1)) i args = Ok (CallMessage d s data fds)"
    and rtype: "returns_type (client_methods_out (obj r) ! unat i) \<noteq> []"
    and spec: "client_find_spec (cl_impls w) (co_protocol_name (obj r))
      (returns_type (client_methods_out (obj r) ! unat i)) = Some spec"
  shows "\<exists>w'. client_call pr r i args w = Some (Ok (cl_seq w + 1), w') \<and>
    length (cl_heap w') = Suc (length (cl_heap w)) \<and>
    object_for_seq (cl_seq w + 1) w' = Some (length (cl_heap w)) \<and>
    cl_heap w' ! length (cl_heap w) =
      fresh_object spec (co_protocol_name (obj r)) 0 (cl_seq w + 1) (co_queue (obj r)) 0 \<and>
    (if co_id (obj r) = 0 then
       eq_queue (cl_queues w' ! co_queue (obj r)) = eq_queue (cl_queues w ! co_queue (obj r)) @
         [set_depends_on_seq (co_seq (obj r)) (generic_message_new data fds)] \<and>
       c_out (cl_conn w') = c_out (cl_conn w)
     else c_out (cl_conn w') = c_out (cl_conn w) @ [MGeneric (generic_message_new data fds)])"
proof -
  let ?seq = "cl_seq w + 1" and ?q = "co_queue (obj r)"
  let ?rtype = "returns_type (client_methods_out (obj r) ! unat i)"
  let ?new = "fresh_object spec (co_protocol_name (obj r)) 0 ?seq ?q 0 :: 'h client_object"
  let ?w1 = "call_effects r d True w"
  have less: "cl_seq w < ?seq" by (rule less_succ_word) (rule left)
  then have nz: "?seq \<noteq> 0" by auto
  from wire_call_accepted(1)[OF call refl] rtype have s: "s = ?seq" by (simp add: call_seq_def)
  have eq: "client_call pr r i args w =
      logged (client_deliver r (generic_message_new data fds) ?seq ?rtype ?w1)"
    using client_call_message[of w r i args d s data fds ?rtype True pr] call rtype alive left s
    by (simp add: obj_def seq_left_def)
  have heap1: "co_id (cl_heap ?w1 ! r) = co_id (obj r)" "co_queue (cl_heap ?w1 ! r) = ?q"
      "co_seq (cl_heap ?w1 ! r) = co_seq (obj r)" "co_protocol_name (cl_heap ?w1 ! r) = co_protocol_name (obj r)"
    using r by (simp_all add: call_effects_heap obj_def)
  have new: "co_seq ?new = ?seq" by (simp add: fresh_object_def)
  note found = pushed_object_found[OF inv left new]
  have seqs: "co_seq (cl_heap ?w1 ! t) = co_seq (cl_heap w ! t)" for t
    using r by (simp add: call_effects_heap)
  show ?thesis
  proof (cases "co_id (obj r) = 0")
    case True
    let ?w2 = "upd_queue ?q (\<lambda>eq. eq\<lparr>eq_queue := eq_queue eq @
        [set_depends_on_seq (co_seq (obj r)) (generic_message_new data fds)]\<rparr>) ?w1"
    have "client_call pr r i args w = Some (Ok ?seq, push_object ?new ?w2)"
      using True alive unlocked nz spec
      by (simp add: eq client_deliver_def Let_def heap1 make_object_def logged_def)
    with True found[of ?w2] seqs q show ?thesis
      by (simp add: push_object_def nth_append)
  next
    case False
    let ?w2 = "upd_cconn (send_message (MGeneric (generic_message_new data fds))) ?w1"
    have "client_call pr r i args w = Some (Ok ?seq, push_object ?new ?w2)"
      using False alive unlocked nz spec
      by (simp add: eq client_deliver_def Let_def heap1 make_object_def logged_def)
    with False found[of ?w2] seqs show ?thesis
      by (simp add: push_object_def nth_append)
  qed
qed

lemma returning_call_example:
  "\<exists>w'. client_call Debug 0 0 [] (example_client 7 0) = Some (Ok 2, w') \<and>
    object_for_seq 2 w' = Some 1 \<and>
    cl_heap w' ! 1 = fresh_object example_child (ascii ''demo'') 0 2 0 0 \<and>
    length (c_out (cl_conn w')) = 1"
proof -
  let ?w = "example_client 7 0"
  have call: "wire_call False (client_methods_out (cl_heap ?w ! 0)) (co_id (cl_heap ?w ! 0))
      (co_version (cl_heap ?w ! 0)) (Some (cl_seq ?w + 1)) 0 [] =
    Ok (CallMessage False 2 (message_type_u8 GenericProtocolMessage # magic_u8 TypeObject #
       to_le_bytes 7 @ magic_u8 TypeUint # to_le_bytes 0 @ (magic_u8 TypeSeq # to_le_bytes 2) @
       [magic_u8 End]) [])"
    by (simp add: wire_call_def Let_def example_client_def fresh_object_def client_methods_out_def
        example_root_def)
  have rtype: "returns_type (client_methods_out (cl_heap ?w ! 0) ! unat (0::u32)) = ascii ''child''"
    by (simp add: example_client_def fresh_object_def client_methods_out_def example_root_def)
  then have rtype0: "returns_type (client_methods_out (cl_heap ?w ! 0) ! 0) \<noteq> []" by simp
  have spec: "client_find_spec (cl_impls ?w) (co_protocol_name (cl_heap ?w ! 0)) (ascii ''child'') = Some example_child"
    by (simp add: client_find_spec_def example_client_def fresh_object_def example_protocol_def
        example_root_def example_child_def)
  have state: "cl_seq ?w = 1" "length (cl_heap ?w) = 1" "co_protocol_name (cl_heap ?w ! 0) = ascii ''demo''"
    "co_queue (cl_heap ?w ! 0) = 0" "co_id (cl_heap ?w ! 0) = 7" "c_out (cl_conn ?w) = []"
    "cl_alive ?w" "\<not> cl_locked ?w" "cl_queues ?w = [event_queue_new]"
    by (simp_all add: example_client_def fresh_object_def conn_new_def)
  from returning_call_makes_object[OF example_client_inv _ _ _ _ _ _ _ call _ spec[folded rtype], of Debug]
  obtain w' where "client_call Debug 0 0 [] ?w = Some (Ok (cl_seq ?w + 1), w')"
    "object_for_seq (cl_seq ?w + 1) w' = Some (length (cl_heap ?w))"
    "cl_heap w' ! length (cl_heap ?w) =
      fresh_object example_child (co_protocol_name (cl_heap ?w ! 0)) 0 (cl_seq ?w + 1) (co_queue (cl_heap ?w ! 0)) 0"
    "length (c_out (cl_conn w')) = 1"
    by (auto simp: state rtype0 event_queue_new_def)
  then show ?thesis by (intro exI[of _ w']) (simp add: state)
qed

section \<open>Orphans\<close>

text \<open>What dropping an object sends, when its destructor stands at its index in the spec.\<close>

definition well_indexed :: "'h client_object \<Rightarrow> bool" where
  "well_indexed obj \<longleftrightarrow> (\<forall>m. drop_method obj = Some m \<longrightarrow>
     get (client_methods_out obj) (unat (method_idx m)) = Some m)"

definition destructor_message :: "u32 \<Rightarrow> u32 \<Rightarrow> message" where
  "destructor_message oid i = MGeneric (generic_message_new (message_type_u8 GenericProtocolMessage #
     magic_u8 TypeObject # to_le_bytes oid @ magic_u8 TypeUint # to_le_bytes i @ [magic_u8 End]) [])"

definition drop_messages :: "'h client_object \<Rightarrow> message list" where
  "drop_messages obj =
     (if co_destroyed obj \<or> co_id obj = 0 \<or> co_spec obj = None then []
      else case drop_method obj of
        None \<Rightarrow> [] | Some m \<Rightarrow> [destructor_message (co_id obj) (method_idx m)])"

definition says :: "message list \<Rightarrow> ('h, 'd) client \<Rightarrow> ('h, 'd) client" where
  "says ms = upd_cconn (\<lambda>c. c\<lparr>c_out := c_out c @ ms\<rparr>)"

lemma says_Nil [simp]: "says [] w = w"
  by (simp add: says_def upd_cconn_def)

lemma says_one: "says [m] w = upd_cconn (send_message m) w"
  by (simp add: says_def upd_cconn_def send_message_def)

lemma says_simps [simp]:
  "cl_heap (says ms w) = cl_heap w" "cl_objects (says ms w) = cl_objects w"
  "cl_alive (says ms w) = cl_alive w" "c_out (cl_conn (says ms w)) = c_out (cl_conn w) @ ms"
  by (simp_all add: says_def)

lemma drop_method_SomeD:
  assumes "drop_method obj = Some m"
  shows "destructor m" "since m \<le> co_version obj" "returns_type m = []" "method_params m = []"
  using assms by (auto simp: drop_method_def find_Some_iff split: option.splits if_splits)

lemma drop_object_plain:
  assumes r: "r < length (cl_heap w)" and alive: "cl_alive w" and ok: "well_indexed (cl_heap w ! r)"
  shows "drop_object pr r w = Some (Ok (),
    says (drop_messages (cl_heap w ! r))
      (if drop_messages (cl_heap w ! r) = [] then w else client_mark_destroyed r w))"
proof (cases "co_destroyed (cl_heap w ! r) \<or> co_id (cl_heap w ! r) = 0 \<or> co_spec (cl_heap w ! r) = None \<or>
    drop_method (cl_heap w ! r) = None")
  case True
  then show ?thesis by (auto simp: drop_object_def drop_messages_def Let_def)
next
  case False
  then obtain m where m: "drop_method (cl_heap w ! r) = Some m" by auto
  note facts = drop_method_SomeD[OF m]
  let ?obj = "cl_heap w ! r" and ?i = "method_idx m"
  from ok m have at: "unat ?i < length (client_methods_out ?obj)" "client_methods_out ?obj ! unat ?i = m"
    by (auto simp: well_indexed_def get_eq_Some)
  have "wire_call False (client_methods_out ?obj) (co_id ?obj) (co_version ?obj)
      (if cl_alive w then Some (cl_seq w + 1) else None) ?i [] =
    Ok (CallMessage True 0 (message_type_u8 GenericProtocolMessage #
     magic_u8 TypeObject # to_le_bytes (co_id ?obj) @ magic_u8 TypeUint # to_le_bytes ?i @ [magic_u8 End]) [])"
    using at facts by (simp add: wire_call_def Let_def)
  from client_call_message[OF this refl refl, of pr] at facts False r
  have "client_call pr r ?i [] w = Some (Ok 0, upd_cconn (send_message (destructor_message (co_id ?obj) ?i))
      (client_mark_destroyed r w))"
    by (simp add: client_deliver_def call_effects_def Let_def client_mark_destroyed_def upd_cobj_nth
        logged_def destructor_message_def)
  moreover from False m have "drop_messages ?obj = [destructor_message (co_id ?obj) ?i]" "co_spec ?obj \<noteq> None"
    by (simp_all add: drop_messages_def)
  ultimately show ?thesis using False m alive
    by (simp add: drop_object_def Let_def says_one del: not_None_eq)
qed

lemma drop_all_plain:
  assumes "distinct rs" and "cl_alive w"
    and "\<forall>r \<in> set rs. r < length (cl_heap w) \<and> well_indexed (cl_heap w ! r)"
  shows "\<exists>w'. drop_all pr rs w = Some (Ok (), w') \<and> cl_objects w' = cl_objects w \<and>
    c_out (cl_conn w') = c_out (cl_conn w) @ concat (map (\<lambda>r. drop_messages (cl_heap w ! r)) rs)"
  using assms
proof (induction rs arbitrary: w)
  case (Cons r rs)
  let ?w = "says (drop_messages (cl_heap w ! r))
      (if drop_messages (cl_heap w ! r) = [] then w else client_mark_destroyed r w)"
  have heap: "cl_heap ?w ! s = cl_heap w ! s" if "s \<in> set rs" for s
    using Cons.prems that by (auto simp: client_mark_destroyed_def upd_cobj_nth)
  have "\<exists>w'. drop_all pr rs ?w = Some (Ok (), w') \<and> cl_objects w' = cl_objects ?w \<and>
      c_out (cl_conn w') = c_out (cl_conn ?w) @ concat (map (\<lambda>r. drop_messages (cl_heap ?w ! r)) rs)"
    using Cons.prems heap by (intro Cons.IH) auto
  then obtain w' where w': "drop_all pr rs ?w = Some (Ok (), w')" "cl_objects w' = cl_objects ?w"
    "c_out (cl_conn w') = c_out (cl_conn ?w) @ concat (map (\<lambda>r. drop_messages (cl_heap ?w ! r)) rs)"
    by blast
  have same: "map (\<lambda>r. drop_messages (cl_heap ?w ! r)) rs = map (\<lambda>r. drop_messages (cl_heap w ! r)) rs"
    by (intro map_cong refl arg_cong[of _ _ drop_messages] heap)
  have "cl_objects ?w = cl_objects w" "c_out (cl_conn ?w) = c_out (cl_conn w) @ drop_messages (cl_heap w ! r)"
    by (cases "drop_messages (cl_heap w ! r) = []"; simp)+
  with w'(2,3)[unfolded same] have "cl_objects w' = cl_objects w" "c_out (cl_conn w') =
      c_out (cl_conn w) @ concat (map (\<lambda>r. drop_messages (cl_heap w ! r)) (r # rs))"
    by (simp_all only: append_assoc list.map concat.simps)
  moreover have "drop_all pr (r # rs) w = drop_all pr rs ?w"
    using Cons.prems drop_object_plain[of r w pr] by simp
  ultimately show ?case using w'(1) by auto
qed simp

text \<open>C30: Collecting orphans keeps in the table exactly the objects that the application still refers to
  or that have no id yet, in order, and calls the protocol's destructor for each of the others, in
  order, unless it is destroyed already or has no destructor that can be called.\<close>
theorem orphans_collected:
  assumes "distinct (cl_objects w)" and "cl_alive w"
    and "\<forall>r \<in> set (cl_objects w). r < length (cl_heap w) \<and> well_indexed (cl_heap w ! r)"
  shows "\<exists>w'. collect_orphaned_objects pr w = Some (Ok (), w') \<and>
    cl_objects w' = filter (\<lambda>r. co_id (cl_heap w ! r) = 0 \<or> co_refs (cl_heap w ! r) \<noteq> 0) (cl_objects w) \<and>
    c_out (cl_conn w') = c_out (cl_conn w) @ concat (map (\<lambda>r. drop_messages (cl_heap w ! r))
      (filter (\<lambda>r. co_id (cl_heap w ! r) \<noteq> 0 \<and> co_refs (cl_heap w ! r) = 0) (cl_objects w)))"
proof -
  let ?keep = "\<lambda>r. co_id (cl_heap w ! r) = 0 \<or> co_refs (cl_heap w ! r) \<noteq> 0"
  let ?gone = "filter (\<lambda>r. co_id (cl_heap w ! r) \<noteq> 0 \<and> co_refs (cl_heap w ! r) = 0) (cl_objects w)"
  let ?w = "w\<lparr>cl_objects := filter ?keep (cl_objects w), cl_locked := True\<rparr>"
  have gone: "filter (\<lambda>r. co_refs (cl_heap w ! r) = 0) (filter (\<lambda>r. \<not> ?keep r) (cl_objects w)) = ?gone"
    by (simp add: conj_ac)
  have "\<exists>w'. drop_all pr ?gone ?w = Some (Ok (), w') \<and> cl_objects w' = cl_objects ?w \<and>
      c_out (cl_conn w') = c_out (cl_conn ?w) @ concat (map (\<lambda>r. drop_messages (cl_heap ?w ! r)) ?gone)"
    using assms by (intro drop_all_plain) auto
  then show ?thesis
    unfolding collect_orphaned_objects_def retain_def Let_def gone by auto
qed

theorem orphans_collected_witness:
  "\<exists>w'. collect_orphaned_objects Debug (example_client 7 0) = Some (Ok (), w') \<and>
    cl_objects w' = [] \<and> c_out (cl_conn w') = [destructor_message 7 1]"
proof -
  have "\<forall>r \<in> set (cl_objects (example_client 7 0)). r < length (cl_heap (example_client 7 0)) \<and>
      well_indexed (cl_heap (example_client 7 0) ! r)"
    by (simp add: example_client_def fresh_object_def well_indexed_def drop_method_def client_methods_out_def
        example_root_def example_destructor_def)
  from orphans_collected[OF _ _ this, of Debug] show ?thesis
    by (simp add: example_client_def fresh_object_def drop_messages_def drop_method_def
        client_methods_out_def example_root_def example_destructor_def conn_new_def)
qed

section \<open>Events\<close>

text \<open>Two relations on the same run.\<close>

lemma keeps_Ok: "keeps R w m \<Longrightarrow> m = Some (Ok x, w') \<Longrightarrow> R w w'"
  by (simp add: keeps_def)

lemma hold_object_keeps: "ids_kept w (hold_object r w)"
  by (rule callback_ids.R_hold)

text \<open>After \<open>destroy_object\<close> nothing in the table has the id, and no object has changed its identity.\<close>

lemma destroy_object_clears:
  assumes table: "table_ok w" and destroy: "client_destroy_object pr i w = Some (Ok (), w')"
  shows "(\<forall>s \<in> set (cl_objects w'). co_id (cl_heap w' ! s) \<noteq> i) \<and>
    ids_kept (w\<lparr>cl_objects := cl_objects w'\<rparr>) w'"
proof -
  let ?left = "filter (\<lambda>r. co_id (cl_heap w ! r) \<noteq> i) (cl_objects w)"
  let ?w = "w\<lparr>cl_objects := ?left, cl_locked := True\<rparr>"
  from destroy obtain rs w3 where drops: "drop_all pr rs ?w = Some (Ok (), w3)"
    and w': "w' = w3\<lparr>cl_locked := False\<rparr>"
    by (auto simp: client_destroy_object_def retain_def Let_def bind_eff_Some)
  have kept: "ids_kept ?w w3" and left: "cl_objects w3 = ?left"
    using keeps_Ok[OF callback_ids.keeps_drop_all drops] keeps_Ok[OF locked_table.keeps_drop_all drops]
    by (simp_all add: table_kept_def)
  have "co_id (cl_heap w3 ! s) \<noteq> i" if "s \<in> set ?left" for s
  proof -
    have "s < length (cl_heap w)" using that table by (simp add: table_ok_def)
    with kept that show ?thesis by (auto simp: ids_kept_def cobj_le_def)
  qed
  with kept left w' show ?thesis by (auto simp: ids_kept_def table_ok_def)
qed

text \<open>After the server has called a destructor event of an object, whatever the application's callback
  did, the object is destroyed, it has left the client's table, and no object answers to its id.\<close>
theorem client_destructor_removes:
  assumes table: "table_ok w" and found: "object_for_id (gm_object msg) w = Some r" and id: "gm_object msg \<noteq> 0"
    and dtor: "client_is_destructor (cl_heap w ! r) (gm_method msg)"
    and ok: "client_on_generic pr disp msg w = Some (Ok (), w')"
  shows "co_destroyed (cl_heap w' ! r) \<and> r \<notin> set (cl_objects w') \<and> object_for_id (gm_object msg) w' = None"
proof -
  let ?i = "gm_object msg"
  from found have r: "r \<in> set (cl_objects w)" "co_id (cl_heap w ! r) = ?i"
    by (auto simp: object_for_id_def find_Some_iff)
  with table have len: "r < length (cl_heap w)" by (simp add: table_ok_def)
  from ok found obtain span w1 where
    disp: "client_object_dispatch pr disp r (gm_method msg) span (gm_fds msg) (hold_object r w) = Some (Ok (), w1)"
    and rest: "bind_eff
            (if client_is_destructor (cl_heap w1 ! r) (gm_method msg) then
               let w = client_mark_destroyed r w1; i = co_id (cl_heap w ! r) in
               if i \<noteq> 0 then client_destroy_object pr i w else Some (Ok (), w)
             else Some (Ok (), w1)) (\<lambda>_ w. release_object pr r w) = Some (Ok (), w')"
    by (auto simp: client_on_generic_def Let_def bind_eff_Some)
  have "ids_kept w w1"
    by (rule callback_ids.R_trans[OF hold_object_keeps keeps_Ok[OF callback_ids.keeps_client_object_dispatch disp]])
  then have le: "cobj_le (cl_heap w ! r) (cl_heap w1 ! r)" and len1: "r < length (cl_heap w1)"
    and table1: "table_ok w1" using len table by (auto simp: ids_kept_def)
  let ?w2 = "client_mark_destroyed r w1"
  have id2: "co_id (cl_heap ?w2 ! r) = ?i" and dead2: "co_destroyed (cl_heap ?w2 ! r)"
    using le r(2) len1 by (simp_all add: client_mark_destroyed_def upd_cobj_nth cobj_le_def)
  have "client_is_destructor (cl_heap w1 ! r) (gm_method msg)"
    using dtor le by (simp add: client_is_destructor_def cobj_le_def)
  with rest id id2 obtain w4 where destroy: "client_destroy_object pr ?i ?w2 = Some (Ok (), w4)"
    and release: "release_object pr r w4 = Some (Ok (), w')"
    by (auto simp: Let_def bind_eff_Some)
  have "table_ok ?w2" using table1 by (simp add: table_ok_def)
  from destroy_object_clears[OF this destroy]
  have ids4: "\<forall>s \<in> set (cl_objects w4). co_id (cl_heap w4 ! s) \<noteq> ?i"
    and same4: "ids_kept (?w2\<lparr>cl_objects := cl_objects w4\<rparr>) w4" by blast+
  have len4: "r < length (cl_heap w4)" and dead4: "co_destroyed (cl_heap w4 ! r)"
    and id4: "co_id (cl_heap w4 ! r) = ?i"
    using same4 len1 dead2 id2 by (auto simp: ids_kept_def cobj_le_def client_mark_destroyed_def)
  have w': "w' = upd_cobj r (\<lambda>obj. obj\<lparr>co_refs := co_refs obj - 1\<rparr>) w4"
    using release dead4 len4
    by (auto simp: release_object_def Let_def drop_object_def upd_cobj_nth split: if_splits)
  have "object_for_id ?i w' = None"
    unfolding object_for_id_def find_None_iff using ids4 len4 w' by (auto simp: upd_cobj_nth)
  moreover have "r \<notin> set (cl_objects w')" using ids4 w' id4 by auto
  moreover have "co_destroyed (cl_heap w' ! r)" using dead4 len4 w' by (simp add: upd_cobj_nth)
  ultimately show ?thesis by blast
qed

text \<open>Whatever happens while the client dispatches, objects keep their spec, version, sequence number,
  protocol and queue, a destroyed object stays destroyed, a finished handshake stays finished, the
  announced specs and the messages sent only grow, and the error flag stays raised.\<close>
theorem client_keeps_history:
  assumes "client_dispatch_events pr disp q block rnd w = Some (r, w')" and "r \<noteq> Panic"
  shows "history_le w w'"
  using keepsD[OF client_history.binding.keeps_client_dispatch_events[OF TrueI] assms] .

text \<open>What the client cannot read or handle ends the connection: the error flag is raised, the stream
  is shut down, and the dispatch returns the error.\<close>
theorem client_malformed_disconnects:
  assumes "read_from_socket answers = None \<and> e = ConnectionClosed \<and> w1 = w \<or>
    (\<exists>raw x. read_from_socket answers = Some raw \<and> raw_data raw \<noteq> [] \<and> e = hw_error_from x \<and>
      client_handle_message pr disp q (raw_data raw) (raw_fds raw) 0 w = Some (Err x, w1))"
  shows "\<exists>w'. receive_events pr disp q answers w = Some (Err e, w') \<and> w' = disconnect_on_error w1 \<and>
    c_error (cl_conn w') \<and> c_shut (cl_conn w')"
proof -
  have "receive_events pr disp q answers w = Some (Err e, disconnect_on_error w1)"
    using assms by (elim disjE exE conjE) (simp_all add: receive_events_def handle_or_disconnect_def)
  then show ?thesis by (auto simp: disconnect_on_error_def)
qed

section \<open>The loop ends\<close>

lemma indexed_object:
  assumes "indexed w" and "r < length (cl_heap w)"
  shows "well_indexed (cl_heap w ! r)"
  unfolding well_indexed_def
proof (intro allI impI)
  fix m assume m: "drop_method (cl_heap w ! r) = Some m"
  then have "m \<in> set (client_methods_out (cl_heap w ! r))"
    by (auto simp: drop_method_def split: option.splits if_splits dest: find_SomeD)
  then obtain i where i: "i < length (client_methods_out (cl_heap w ! r))"
      "client_methods_out (cl_heap w ! r) ! i = m" by (auto simp: in_set_conv_nth)
  then obtain spec where spec: "co_spec (cl_heap w ! r) = Some spec" "client_methods_out (cl_heap w ! r) = c2s spec"
    by (auto simp: client_methods_out_def split: option.splits)
  from assms spec(1) have "indexed_spec spec" using nth_mem[OF assms(2)] by (fastforce simp: indexed_def)
  with i spec(2) have "unat (method_idx m) = i" by (auto simp: indexed_spec_def)
  with i show "get (client_methods_out (cl_heap w ! r)) (unat (method_idx m)) = Some m"
    by (simp add: get_eq_Some)
qed

lemma returns_drop_object: "indexed w \<Longrightarrow> r < length (cl_heap w) \<Longrightarrow> returns (drop_object pr r w)"
  using drop_object_plain[OF _ _ indexed_object, of r w pr]
  by (cases "cl_alive w") (simp_all add: drop_object_def Let_def)

lemma returns_drop_all:
  "indexed w \<Longrightarrow> \<forall>r \<in> set rs. r < length (cl_heap w) \<Longrightarrow> returns (drop_all pr rs w)"
proof (induction rs arbitrary: w)
  case (Cons r rs)
  have "returns (drop_all pr rs w')" if drop: "drop_object pr r w = Some (Ok u, w')" for u w'
  proof (rule Cons.IH)
    show "indexed w'" using keeps_Ok[OF indexing.keeps_drop_object drop] Cons.prems
      by (simp add: indexed_kept_def)
    show "\<forall>r \<in> set rs. r < length (cl_heap w')"
      using keeps_Ok[OF callback_ids.keeps_drop_object drop] Cons.prems by (auto simp: ids_kept_def)
  qed
  with Cons.prems show ?case by (auto intro!: returns_bind returns_drop_object)
qed simp

lemma returns_retain: "indexed w \<Longrightarrow> returns (retain pr keep w)"
  unfolding retain_def Let_def
  by (intro returns_bind returns_drop_all) (auto simp: indexed_def table_ok_def)

lemma returns_release: "indexed w \<Longrightarrow> r < length (cl_heap w) \<Longrightarrow> returns (release_object pr r w)"
  unfolding release_object_def Let_def
  by (auto intro!: returns_drop_object indexed_upd_cobj)

lemma returns_no_error: "returns m \<Longrightarrow> returns (no_error m)"
  by (cases m) (auto simp: returns_def no_error_def)

lemma client_message_progress:
  assumes ok: "client_message Debug disp q t data fds needle w = Some (Ok (n, fds'), w')"
    and len: "length data \<le> isize_max"
  shows "0 < n"
proof (cases t)
  case HandshakeBegin
  with ok obtain m where "handshake_begin_from_bytes Debug data needle = Ok m" "n = length (hsb_data m)"
    by (auto simp: client_message_def bind_eff_Some split: if_splits)
  with hsbeginp.parse_progress(1)[OF len] show ?thesis by simp
next
  case HandshakeProtocols
  with ok obtain m where "handshake_protocols_from_bytes Debug data needle = Ok m" "n = length (hsp_data m)"
    by (auto simp: client_message_def bind_eff_Some)
  with hsprotop.parse_progress(1)[OF len] show ?thesis by simp
next
  case NewObject
  with ok obtain m where "new_object_from_bytes data needle = Ok m" "n = length (new_data m)"
    by (auto simp: client_message_def bind_eff_Some)
  with newobj.parse_progress(1)[OF len] show ?thesis by simp
next
  case GenericProtocolMessage
  with ok obtain m where "generic_from_bytes Debug data fds needle = Some (Ok (m, fds'))"
    "n = length (gm_data m)"
    by (auto simp: client_message_def bind_eff_Some Option.bind_eq_Some_conv)
  moreover from generic_from_bytes_bwd[OF this(1)] obtain object meth fs B
    where "m = generic_parsed object meth fs B fds" by blast
  ultimately show ?thesis by (simp add: generic_parsed_def)
next
  case FatalProtocolError
  with ok obtain m where "fatal_protocol_error_from_bytes Debug data needle = Ok m" "n = length (fatal_data m)"
    by (auto simp: client_message_def bind_eff_Some)
  with fatalp.parse_progress(1)[OF len] show ?thesis by simp
next
  case RoundtripDone
  with ok obtain m where "roundtrip_done_from_bytes data needle = Ok m" "n = length (done_data m)"
    by (auto simp: client_message_def bind_eff_Some)
  with rtdone.parse_progress(1)[OF len] show ?thesis by simp
qed (use ok in \<open>simp_all add: client_message_def client_wrong_role_def\<close>)

text \<open>The states a dispatch can be in when a callback runs.\<close>

definition follows :: "('h, 'd) client \<Rightarrow> ('h, 'd) client \<Rightarrow> bool" where
  "follows w w' \<longleftrightarrow> history_le w w' \<and> indexed w'"

lemma follows_Ok:
  "follows w w' \<Longrightarrow> keeps history_le w' m \<Longrightarrow> keeps indexed_kept w' m \<Longrightarrow> m = Some (Ok x, w2) \<Longrightarrow> follows w w2"
  by (auto simp: follows_def keeps_def indexed_kept_def intro: history_le_trans)

lemma follows_step: "follows w w' \<Longrightarrow> history_le w' w2 \<Longrightarrow> indexed_kept w' w2 \<Longrightarrow> follows w w2"
  by (auto simp: follows_def indexed_kept_def intro: history_le_trans)

lemma returns_on_generic:
  fixes w w0 :: "('h, 'd) client"
  assumes callback: "\<And>w' h i d f app. follows w0 w' \<Longrightarrow> returns (run_client pr (disp h i d f app) w')"
    and w: "follows w0 w"
  shows "returns (client_on_generic pr disp msg w)"
proof (cases "object_for_id (gm_object msg) w")
  case None
  then show ?thesis by (simp add: client_on_generic_def)
next
  case (Some r)
  from w have ok: "indexed w" by (simp add: follows_def)
  with Some have len: "r < length (cl_heap w)"
    by (auto simp: object_for_id_def indexed_def table_ok_def dest!: find_SomeD)
  have hold: "follows w0 (hold_object r w)" "r < length (cl_heap (hold_object r w))"
    using follows_step[OF w client_history.R_hold indexing.R_hold] len by (simp_all add: hold_object_def)
  have reading: "follows w0 (upd_cobj r (\<lambda>obj. obj\<lparr>co_reading := True\<rparr>) (hold_object r w))"
    by (intro follows_step[OF hold(1) client_history.R_cobj indexing.R_cobj]) simp_all
  have dispatch: "returns (client_object_dispatch pr disp r i d f (hold_object r w))" for i d f
    using callback[OF reading]
    by (auto simp: client_object_dispatch_def split: option.splits intro!: returns_bind)
  have rest: "returns (bind_eff
            (if client_is_destructor (cl_heap w1 ! r) i then
               let w = client_mark_destroyed r w1; i = co_id (cl_heap w ! r) in
               if i \<noteq> 0 then client_destroy_object pr i w else Some (Ok (), w)
             else Some (Ok (), w1)) (\<lambda>_ w. release_object pr r w))"
    if "indexed w1" "r < length (cl_heap w1)" for w1 :: "('h, 'd) client" and i
  proof -
    have marked: "indexed (client_mark_destroyed r w1)"
      using that(1) by (simp add: client_mark_destroyed_def indexed_upd_cobj)
    have release: "returns (release_object pr r w2)"
      if "client_destroy_object pr i (client_mark_destroyed r w1) = Some (Ok u, w2)" for i u w2
    proof (rule returns_release)
      note retain = that[unfolded client_destroy_object_def]
      show "indexed w2" using keeps_Ok[OF indexing.keeps_retain retain] marked by (simp add: indexed_kept_def)
      show "r < length (cl_heap w2)"
        using keeps_Ok[OF callback_ids.keeps_retain retain] \<open>r < length (cl_heap w1)\<close> by (simp add: ids_kept_def)
    qed
    have "returns (client_destroy_object pr i (client_mark_destroyed r w1))" for i
      unfolding client_destroy_object_def by (rule returns_retain[OF marked])
    note destroy = this
    show ?thesis
    proof (cases "client_is_destructor (cl_heap w1 ! r) i \<and> co_id (cl_heap (client_mark_destroyed r w1) ! r) \<noteq> 0")
      case True
      then show ?thesis by (simp add: Let_def) (rule returns_bind[OF destroy], rule release, simp)
    next
      case False
      with marked that show ?thesis by (auto simp: Let_def intro: returns_release)
    qed
  qed
  show ?thesis
    unfolding client_on_generic_def Some option.case Let_def
  proof (rule returns_bind, simp, rule returns_bind, goal_cases)
    case (1 span w1)
    then have "w1 = hold_object r w" by simp
    then show ?case by (simp add: dispatch)
  next
    case (2 span w1 u w2)
    then have w1: "w1 = hold_object r w" by simp
    show ?case
      unfolding w1
    proof (rule rest[unfolded Let_def])
      show "indexed w2"
        using keeps_Ok[OF indexing.keeps_client_object_dispatch 2(2)] hold(1)
        by (simp add: w1 indexed_kept_def follows_def)
      show "r < length (cl_heap w2)"
        using keeps_Ok[OF callback_ids.keeps_client_object_dispatch 2(2)] hold(2)
        by (simp add: w1 ids_kept_def)
    qed
  qed
qed

lemma returns_client_message:
  fixes w w0 :: "('h, 'd) client"
  assumes callback: "\<And>w' h i d f app. follows w0 w' \<Longrightarrow> returns (run_client Debug (disp h i d f app) w')"
    and w: "follows w0 w"
  shows "returns (client_message Debug disp q t data fds needle w)"
proof (cases t)
  case GenericProtocolMessage
  obtain r where "generic_from_bytes Debug data fds needle = Some r"
    using generic_from_bytes_Debug_returns by blast
  with GenericProtocolMessage returns_on_generic[OF callback w] show ?thesis
    by (auto simp: client_message_def split: prod.splits intro!: returns_bind)
qed (auto simp: client_message_def client_wrong_role_def intro!: returns_bind)

lemma returns_client_handle_message:
  fixes w w0 :: "('h, 'd) client"
  assumes callback: "\<And>w' h i d f app. follows w0 w' \<Longrightarrow> returns (run_client Debug (disp h i d f app) w')"
    and len: "length data \<le> isize_max" and w: "follows w0 w"
  shows "returns (client_handle_message Debug disp q data fds needle w)"
  using w
proof (induction "length data - needle" arbitrary: needle fds w rule: less_induct)
  case less
  have rest: "returns (client_handle_message Debug disp q data (snd x) needle' w2)"
    if x: "client_message Debug disp q t data fds needle w = Some (Ok x, w2)"
      and needle': "uadd Debug needle (fst x) = (Ok needle' :: (error, usize) res)"
      and inside: "needle < length data" for t x w2 needle'
  proof (rule less.hyps)
    have "0 < fst x" using client_message_progress[OF _ len] x by (cases x) auto
    with needle' inside show "length data - needle' < length data - needle"
      by (auto simp: uadd_Debug_Ok)
    show "follows w0 w2"
      by (rule follows_Ok[OF less.prems client_history.keeps_client_message
          indexing.keeps_client_message x])
  qed
  show ?case
    by (subst client_handle_message.simps)
      (auto split: res.splits intro!: returns_bind returns_client_message[OF callback] less.prems rest)
qed

text \<open>C26: Dispatching a client's events ends, whatever the server sends, in a build with overflow checks, for specs
  whose methods stand at their indices, and if the application's callbacks return: reading, handling
  the messages, sending what was waiting and collecting orphans always return.\<close>
theorem client_loop_returns:
  assumes w: "indexed w"
    and len: "\<And>raw. read_from_socket (pl_recv rnd) = Some raw \<Longrightarrow> length (raw_data raw) \<le> isize_max"
    and callback: "\<And>w' h i d f app. follows w w' \<Longrightarrow> returns (run_client Debug (disp h i d f app) w')"
  shows "returns (dispatch_events_inner Debug disp q block rnd w)"
proof -
  have collect: "returns (no_error (collect_orphaned_objects Debug w'))" if "indexed w'" for w' :: "('a, 'b) client"
    unfolding collect_orphaned_objects_def by (intro returns_no_error returns_retain that)
  have receive: "returns (receive_events Debug disp q (pl_recv rnd) w')" if "follows w w'" for w'
  proof (cases "read_from_socket (pl_recv rnd)")
    case (Some raw)
    let ?m = "client_handle_message Debug disp q (raw_data raw) (raw_fds raw) 0 w'"
    have "returns (handle_or_disconnect ?m)"
      using returns_client_handle_message[OF callback len[OF Some] that, where q = q and fds = "raw_fds raw" and needle = 0]
      by (auto simp: returns_def handle_or_disconnect_def)
    moreover have "indexed (flush_pending q w2)" if "handle_or_disconnect ?m = Some (Ok x, w2)" for x w2
    proof -
      have "?m = Some (Ok x, w2)"
        using that unfolding handle_or_disconnect_def
        by (elim map_option_eq_Some[THEN iffD1, THEN exE] conjE) (auto split: res.splits prod.splits)
      from follows_Ok[OF \<open>follows w w'\<close> client_history.keeps_client_handle_message
          indexing.keeps_client_handle_message this]
      show ?thesis using indexing.reading.R_flush[of w2 q] by (simp add: follows_def indexed_kept_def)
    qed
    ultimately show ?thesis
      using Some by (auto simp: receive_events_def intro!: returns_bind collect)
  qed (simp add: receive_events_def)
  have start: "follows w w'" if "no_error (collect_orphaned_objects Debug w) = Some (Ok x, w')" for x w'
  proof -
    have "follows w w" using w by (simp add: follows_def history_le_refl)
    from follows_Ok[OF this client_history.reading.keeps_collect indexing.reading.keeps_collect that] show ?thesis .
  qed
  then show ?thesis
    by (auto simp: dispatch_events_inner_def follows_def split: option.split bool.split
        intro!: returns_bind collect w receive[unfolded follows_def])
qed

theorem client_loop_returns_witness:
  "returns (dispatch_events_inner Debug example_callbacks 0 True
     \<lparr>pl_wait = Some True, pl_modify_ok = True, pl_recv = [Received looping_message []]\<rparr> (example_client 7 1))"
proof (rule client_loop_returns)
  show "indexed (example_client 7 1)"
    by (simp add: indexed_def table_ok_def indexed_spec_def example_client_def fresh_object_def example_protocol_def
        example_root_def example_child_def example_destructor_def less_Suc_eq)
  show "length (raw_data raw) \<le> isize_max"
    if "read_from_socket (pl_recv \<lparr>pl_wait = Some True, pl_modify_ok = True,
      pl_recv = [Received looping_message []]\<rparr>) = Some raw" for raw
    using that by (auto simp: read_from_socket_def looping_message_bytes buffer_size_def isize_max_def)
qed (simp add: example_callbacks_def)

section \<open>Binding\<close>

lemma bind_protocol_new_eq:
  "length name < usize_bound \<Longrightarrow> bind_protocol_new name seq version =
     Ok \<lparr>bind_seq = seq, bind_version = version, bind_name = name,
       bind_data = bind_bytes (varint (length name)) seq name version\<rparr>"
  by (simp add: bind_protocol_new_def)

text \<open>Binding a protocol is refused, with nothing sent, exactly when the version is beyond the spec's or
  the spec has no object. Otherwise the client gets a new object under the next sequence number, with
  the protocol's first spec, the version asked for, no id and one reference, and sends the request.\<close>
theorem bind_protocol_outcome:
  assumes "\<not> cl_locked w" and "cl_seq w \<noteq> - 1" and "length (spec_name spec) < usize_bound"
  shows "client_bind_protocol pr q spec version w =
    (if version > spec_ver spec then Some (Err (VersionOutOfRange version (spec_ver spec)), w)
     else case spec_objects spec of
       [] \<Rightarrow> Some (Err (ProtocolViolation NoSpec), w)
     | ospec # _ \<Rightarrow> Some (Ok (length (cl_heap w)),
         upd_cconn (send_message (MBindProtocol \<lparr>bind_seq = cl_seq w + 1, bind_version = version,
             bind_name = spec_name spec,
             bind_data = bind_bytes (varint (length (spec_name spec))) (cl_seq w + 1) (spec_name spec) version\<rparr>))
           (push_object (fresh_object ospec (spec_name spec) version (cl_seq w + 1) q 1) (take_seq w))))"
proof (cases "spec_objects spec")
  case (Cons ospec rest)
  have "next_seq pr w = (Ok (cl_seq w + 1) :: (hw_error, u32) res)" using assms(2) by (simp add: next_seq_Ok seq_left_def)
  with Cons assms show ?thesis
    by (simp add: client_bind_protocol_def lift_res_def bind_protocol_message_def bind_protocol_new_eq Let_def)
qed (simp add: client_bind_protocol_def)

theorem bind_protocol_outcome_witness:
  "client_bind_protocol Debug 0 example_protocol 2 (example_client 7 1) =
     Some (Err (VersionOutOfRange 2 1), example_client 7 1)"
  using bind_protocol_outcome[of "example_client 7 1" example_protocol Debug 0 2]
  by (simp add: example_client_def example_protocol_def usize_bound_def)

section \<open>Witnesses\<close>

text \<open>A call of the pending root object that waits in the queue.\<close>

definition example_pending :: generic_message where
  "example_pending = set_depends_on_seq 1 (generic_message_new (message_type_u8 GenericProtocolMessage #
     magic_u8 TypeObject # to_le_bytes 0 @ magic_u8 TypeUint # to_le_bytes 1 @ [magic_u8 End]) [])"

definition example_waiting :: "u32 \<Rightarrow> (unit, unit) client" where
  "example_waiting i = upd_queue 0 (\<lambda>eq. eq\<lparr>eq_queue := [example_pending]\<rparr>) (example_client i 1)"

lemma example_waiting_id: "pending_id (example_waiting i) example_pending = Some i"
  by (simp add: pending_id_def object_for_seq_def example_waiting_def example_pending_def example_client_def
      fresh_object_def set_depends_on_seq_def generic_message_new_def upd_queue_def)

lemma example_waiting_queue: "eq_queue (cl_queues (example_waiting i) ! 0) = [example_pending]"
    "length (cl_queues (example_waiting i)) = 1" "c_out (cl_conn (example_waiting i)) = []"
  by (simp_all add: example_waiting_def example_client_def upd_queue_def conn_new_def)

theorem flush_pending_outcome_witness:
  "c_out (cl_conn (flush_pending 0 (example_waiting 7))) = [MGeneric (resolve_seq 7 example_pending)] \<and>
   eq_queue (cl_queues (flush_pending 0 (example_waiting 7)) ! 0) = []"
  using flush_pending_outcome[of 0 "example_waiting 7"]
  by (simp add: example_waiting_queue example_waiting_id ready_messages_Cons)
    (simp add: ready_messages_def map_filter_simps)

theorem deferred_call_equivalent_witness:
  "wire_call False (client_methods_out (cl_heap (example_client 0 1) ! 0)) 7 1 (Some 2) 1 [] =
     Ok (CallMessage True 0 (gm_data (resolve_seq 7 example_pending)) [])"
  using deferred_call_equivalent[OF example_call[of 0 1 0], of 7 1] by (simp only: example_pending_def)

theorem client_destructor_removes_witness:
  "\<exists>w'. client_on_generic Debug example_callbacks (generic_parsed 7 1 [] [] []) (example_client 7 1) =
      Some (Ok (), w') \<and> co_destroyed (cl_heap w' ! 0) \<and> 0 \<notin> set (cl_objects w') \<and> object_for_id 7 w' = None"
proof -
  let ?msg = "generic_parsed 7 1 [] [] []"
  have msg: "gm_object ?msg = 7" "gm_method ?msg = 1" by (simp_all add: generic_parsed_def)
  have found: "object_for_id 7 (example_client 7 1) = Some 0"
    by (simp add: object_for_id_def example_client_def fresh_object_def)
  have "\<exists>w'. client_on_generic Debug example_callbacks ?msg (example_client 7 1) = Some (Ok (), w')"
    using found
    by (simp add: client_on_generic_def msg data_span_parsed lift_res_def client_object_dispatch_def
        hold_object_def example_client_def fresh_object_def upd_cobj_def client_is_destructor_def
        example_root_def example_destructor_def Let_def client_mark_destroyed_def
        client_destroy_object_def retain_def release_object_def)
  then obtain w' where ok: "client_on_generic Debug example_callbacks ?msg (example_client 7 1) = Some (Ok (), w')"
    by blast
  have "table_ok (example_client 7 1)" "client_is_destructor (cl_heap (example_client 7 1) ! 0) 1"
    by (simp_all add: table_ok_def example_client_def fresh_object_def client_is_destructor_def
        example_root_def example_destructor_def)
  with client_destructor_removes[OF _ _ _ _ ok, of 0] found have "co_destroyed (cl_heap w' ! 0) \<and>
      0 \<notin> set (cl_objects w') \<and> object_for_id 7 w' = None" by (simp only: msg) simp
  with ok show ?thesis by blast
qed

theorem client_keeps_history_witness:
  "history_le (example_waiting 7) (disconnect_on_error (example_waiting 7))"
  using client_keeps_history[of Debug example_callbacks 0 False
    "\<lparr>pl_wait = Some True, pl_modify_ok = True, pl_recv = [RecvError]\<rparr>" "example_waiting 7"
    "Err ConnectionClosed" "disconnect_on_error (example_waiting 7)"]
  by (simp add: client_dispatch_events_def with_queue_def dispatch_events_inner_def example_waiting_def
      example_client_def fresh_object_def upd_queue_def event_queue_new_def conn_new_def no_error_def
      collect_orphaned_objects_def retain_def receive_events_def read_from_socket_def
      disconnect_on_error_def upd_cconn_def)

theorem client_malformed_disconnects_witness:
  "\<exists>w'. receive_events Debug example_callbacks 0 [RecvError] (example_client 7 1) = Some (Err ConnectionClosed, w') \<and>
    c_error (cl_conn w') \<and> c_shut (cl_conn w')"
  using client_malformed_disconnects[of "[RecvError]" ConnectionClosed "example_client 7 1" "example_client 7 1"
    Debug example_callbacks 0]
  by (simp add: read_from_socket_def)

end
