(* ===== verification/Message_Stream.thy ===== *)
theory Message_Stream
  imports Wire_Object
begin

text \<open>
  Streams of messages. What the two sides of a connection exchange is a sequence of bytes and one of
  descriptors; what they mean is a list of messages. \<open>message_loop\<close> is the interface between the two: a
  loop over a buffer, in the shape both \<open>handle_message\<close> functions have, whose body does for the bytes of
  a message what \<open>receive\<close> does for the message. Inside it the loop over the bytes of any list of messages
  is proved to be \<open>receive_all\<close> of the list. The models of the server and of the client interpret it.
\<close>

section \<open>Messages that can be sent\<close>

text \<open>What the constructors build, within the limits of the receiver.\<close>

definition generic_sendable :: "profile \<Rightarrow> generic_message \<Rightarrow> bool" where
  "generic_sendable pr m \<longleftrightarrow> (\<exists>object meth fs B. gm_data m = generic_bytes object meth B \<and>
     fields_rep pr fs B \<and> length (gm_fds m) = fields_fds fs)"

primrec sendable :: "profile \<Rightarrow> message \<Rightarrow> bool" where
  "sendable pr (MSup m) = (m = hello_new)"
| "sendable pr (MHandshakeBegin m) = handshake_begin_built m"
| "sendable pr (MHandshakeAck m) = (\<exists>v. m = handshake_ack_new v)"
| "sendable pr (MHandshakeProtocols m) = handshake_protocols_built m"
| "sendable pr (MBindProtocol m) = bind_built m"
| "sendable pr (MNewObject m) = (\<exists>s i. m = new_object_new s i)"
| "sendable pr (MFatal m) = fatal_built m"
| "sendable pr (MRoundtripRequest m) = (\<exists>v. m = roundtrip_request_new v)"
| "sendable pr (MRoundtripDone m) = (\<exists>v. m = roundtrip_done_new v)"
| "sendable pr (MGeneric m) = generic_sendable pr m"

text \<open>What the receiver makes of a method call by itself.\<close>

definition received :: "profile \<Rightarrow> generic_message \<Rightarrow> generic_message" where
  "received pr m = (case generic_from_bytes pr (gm_data m) (gm_fds m) 0 of
     Some (Ok (m', _)) \<Rightarrow> m' | _ \<Rightarrow> m)"

lemma generic_in_stream:
  assumes m: "generic_sendable pr m" and c: "cursor_at data off (gm_data m @ rest)"
  shows "generic_from_bytes pr data (gm_fds m @ fds) off = Some (Ok (received pr m, fds))"
    and "gm_data (received pr m) = gm_data m"
proof -
  from m obtain object meth fs B where B: "gm_data m = generic_bytes object meth B"
    "fields_rep pr fs B" "length (gm_fds m) = fields_fds fs" by (auto simp: generic_sendable_def)
  have parsed: "generic_parsed object meth fs B (gm_fds m @ more) = generic_parsed object meth fs B (gm_fds m)"
    for more by (simp add: generic_parsed_def B(3)[symmetric])
  have "length (gm_data m) \<le> isize_max"
    using cursor_slice[OF c] cursor_length[OF c] by simp
  then have "cursor_at (gm_data m) 0 (generic_bytes object meth B @ [])"
    using cursor_start[of "gm_data m"] B(1) by simp
  from generic_from_bytes_fwd[OF B(2) this, of "gm_fds m"] B(3)
  have received: "received pr m = generic_parsed object meth fs B (gm_fds m)"
    by (simp add: received_def)
  then show "gm_data (received pr m) = gm_data m" by (simp add: B(1) generic_parsed_def)
  show "generic_from_bytes pr data (gm_fds m @ fds) off = Some (Ok (received pr m, fds))"
    using generic_from_bytes_fwd[OF B(2), of data off object meth rest "gm_fds m @ fds"] c B(1,3) parsed
    by (simp add: received)
qed

text \<open>A call whose arguments fit is such a message, before and after its object gets an id.\<close>

lemma call_sendable:
  assumes "unat i < length methods" and "since (methods ! unat i) \<le> version"
    and "\<not> (returns_type (methods ! unat i) \<noteq> [] \<and> server)"
    and "arg_fields (method_params (methods ! unat i)) args = Some fs"
    and "wire_call server methods oid version ns i args = Ok (CallMessage d s data fds)"
  shows "generic_sendable pr (generic_message_new data fds)"
    and "generic_sendable pr (resolve_seq oid' (set_depends_on_seq q (generic_message_new data fds)))"
proof -
  from wire_call_message[OF assms(1) refl assms(2-4), of oid ns pr] assms(5) obtain B where
    B: "data = generic_bytes oid i B" "fields_rep pr (call_fields (methods ! unat i) ns fs) B"
      "length fds = fields_fds (call_fields (methods ! unat i) ns fs)" by auto
  then show "generic_sendable pr (generic_message_new data fds)"
    unfolding generic_sendable_def by (intro exI conjI) (simp_all add: generic_message_new_def)
  have "gm_data (resolve_seq oid' (set_depends_on_seq q (generic_message_new data fds))) = generic_bytes oid' i B"
    by (simp add: B(1) resolve_seq_def set_depends_on_seq_def generic_message_new_def generic_bytes_def
        numeral_eq_Suc)
  with B(2,3) show "generic_sendable pr (resolve_seq oid' (set_depends_on_seq q (generic_message_new data fds)))"
    unfolding generic_sendable_def
    by (intro exI conjI) (simp_all add: resolve_seq_def set_depends_on_seq_def generic_message_new_def)
qed

text \<open>Every message starts with its type.\<close>

lemma built_heads:
  "handshake_begin_built hb \<Longrightarrow> \<exists>bs. hsb_data hb = message_type_u8 HandshakeBegin # bs"
  "handshake_protocols_built hp \<Longrightarrow> \<exists>bs. hsp_data hp = message_type_u8 HandshakeProtocols # bs"
  "bind_built b \<Longrightarrow> \<exists>bs. bind_data b = message_type_u8 BindProtocol # bs"
  "fatal_built f \<Longrightarrow> \<exists>bs. fatal_data f = message_type_u8 FatalProtocolError # bs"
proof -
  show "\<exists>bs. hsb_data hb = message_type_u8 HandshakeBegin # bs" if "handshake_begin_built hb"
    using that unfolding handshake_begin_built_def handshake_begin_new_def handshake_begin_bytes_def
    by (auto simp: bind_res_eq_Ok dest: arg_cong[of _ _ hsb_data] dest!: sym[of _ "hsb_data hb"])
  show "\<exists>bs. hsp_data hp = message_type_u8 HandshakeProtocols # bs" if "handshake_protocols_built hp"
    using that unfolding handshake_protocols_built_def handshake_protocols_new_def handshake_protocols_bytes_def
    by (auto simp: bind_res_eq_Ok dest: arg_cong[of _ _ hsp_data] dest!: sym[of _ "hsp_data hp"])
  show "\<exists>bs. bind_data b = message_type_u8 BindProtocol # bs" if "bind_built b"
    using that unfolding bind_built_def bind_protocol_new_def bind_bytes_def
    by (auto simp: bind_res_eq_Ok dest: arg_cong[of _ _ bind_data] dest!: sym[of _ "bind_data b"])
  show "\<exists>bs. fatal_data f = message_type_u8 FatalProtocolError # bs" if "fatal_built f"
    using that unfolding fatal_built_def fatal_protocol_error_new_def fatal_bytes_def
    by (auto simp: bind_res_eq_Ok dest: arg_cong[of _ _ fatal_data] dest!: sym[of _ "fatal_data f"])
qed

lemma sendable_head: "sendable pr m \<Longrightarrow> \<exists>bs. message_data m = message_type_u8 (message_type_of m) # bs"
  by (cases m)
    (auto simp: built_heads[simplified] hello_new_def hello_bytes_def handshake_ack_new_def new_object_new_def
      roundtrip_request_new_def roundtrip_done_new_def generic_sendable_def generic_bytes_def)

section \<open>The loop over a stream\<close>

fun receive_all :: "('m \<Rightarrow> 'w \<Rightarrow> ('e, unit, 'w) eff) \<Rightarrow> 'm list \<Rightarrow> 'w \<Rightarrow> ('e, unit, 'w) eff" where
  "receive_all receive [] w = Some (Ok (), w)"
| "receive_all receive (m # ms) w = bind_eff (receive m w) (\<lambda>_ w. receive_all receive ms w)"

definition stream_data :: "message list \<Rightarrow> bytes" where
  "stream_data ms = concat (map message_data ms)"

definition stream_fds :: "message list \<Rightarrow> i32 list" where
  "stream_fds ms = concat (map message_fds ms)"

lemma stream_simps [simp]:
  "stream_data [] = []" "stream_data (m # ms) = message_data m @ stream_data ms"
  "stream_fds [] = []" "stream_fds (m # ms) = message_fds m @ stream_fds ms"
  by (simp_all add: stream_data_def stream_fds_def)

lemma receive_all_append:
  "receive_all receive (ms @ ms') w = bind_eff (receive_all receive ms w) (\<lambda>_ w. receive_all receive ms' w)"
proof (induction ms arbitrary: w)
  case (Cons m ms)
  show ?case
    by (cases "receive m w") (auto simp: Cons.IH bind_eff_def split: res.splits)
qed simp

locale message_loop =
  fixes pr :: profile
    and step :: "message_type \<Rightarrow> bytes \<Rightarrow> i32 list \<Rightarrow> usize \<Rightarrow> 'w \<Rightarrow> (error, usize \<times> i32 list, 'w) eff"
    and loop :: "bytes \<Rightarrow> i32 list \<Rightarrow> usize \<Rightarrow> 'w \<Rightarrow> (error, unit, 'w) eff"
    and receive :: "message \<Rightarrow> 'w \<Rightarrow> (error, unit, 'w) eff"
  assumes loop_unfold: "loop data fds needle w =
     (if needle < length data then
        (case message_type_try_from (data ! needle) of
           Ok t \<Rightarrow>
             bind_eff (step t data fds needle w) (\<lambda>x w.
             bind_eff (lift_res (uadd pr needle (fst x)) w) (\<lambda>needle' w.
               loop data (snd x) needle' w))
         | _ \<Rightarrow> Some (Err InvalidMessage, w))
      else if fds \<noteq> [] then Some (Err MalformedMessage, w)
      else Some (Ok (), w))"
    and step_receive: "sendable pr m \<Longrightarrow> cursor_at data needle (message_data m @ rest) \<Longrightarrow>
      step (message_type_of m) data (message_fds m @ fds) needle w =
        bind_eff (receive m w) (\<lambda>_ w. Some (Ok (length (message_data m), fds), w))"
begin

lemma loop_message:
  assumes m: "sendable pr m" and c: "cursor_at data needle (message_data m @ rest)"
  shows "loop data (message_fds m @ fds) needle w =
    bind_eff (receive m w) (\<lambda>_ w. loop data fds (needle + length (message_data m)) w)"
proof -
  from sendable_head[OF m] obtain bs where head: "message_data m = message_type_u8 (message_type_of m) # bs"
    by blast
  with c have at: "needle < length data" "data ! needle = message_type_u8 (message_type_of m)"
    using cursor_get[of data needle "message_type_u8 (message_type_of m)" "bs @ rest"]
    by (auto simp: get_eq_Some)
  have "uadd pr needle (length (message_data m)) = (Ok (needle + length (message_data m)) :: (error, usize) res)"
    using cursor_bound[OF c, of "length (message_data m)"] by simp
  with at step_receive[OF m c, of fds w] show ?thesis
    by (subst loop_unfold) (cases "receive m w", auto simp: bind_eff_def lift_res_def split: res.splits)
qed

lemma loop_stream_at:
  assumes "\<forall>m \<in> set ms. sendable pr m" and "cursor_at data needle (stream_data ms)"
  shows "loop data (stream_fds ms) needle w = receive_all receive ms w"
  using assms
proof (induction ms arbitrary: needle w)
  case Nil
  then have "\<not> needle < length data" using cursor_length[of data needle "[]"] by simp
  then show ?case by (subst loop_unfold) simp
next
  case (Cons m ms)
  have c: "cursor_at data needle (message_data m @ stream_data ms)" using Cons.prems by simp
  have "loop data (stream_fds ms) (needle + length (message_data m)) w = receive_all receive ms w" for w
    using Cons.prems cursor_advance[OF c refl] by (intro Cons.IH) auto
  then show ?case using loop_message[OF _ c, of "stream_fds ms" w] Cons.prems by simp
qed

text \<open>Handling the bytes of a list of messages is receiving the messages one after the other.\<close>

lemma loop_stream:
  "\<forall>m \<in> set ms. sendable pr m \<Longrightarrow> length (stream_data ms) \<le> isize_max \<Longrightarrow>
     loop (stream_data ms) (stream_fds ms) 0 w = receive_all receive ms w"
  by (rule loop_stream_at) (simp_all add: cursor_start)

text \<open>How the stream was cut into buffers does not matter, as long as no message is cut.\<close>

lemma loop_two_buffers:
  "\<forall>m \<in> set (ms @ ms'). sendable pr m \<Longrightarrow> length (stream_data (ms @ ms')) \<le> isize_max \<Longrightarrow>
     loop (stream_data (ms @ ms')) (stream_fds (ms @ ms')) 0 w =
     bind_eff (loop (stream_data ms) (stream_fds ms) 0 w)
       (\<lambda>_ w. loop (stream_data ms') (stream_fds ms') 0 w)"
  using loop_stream[of "ms @ ms'"] loop_stream[of ms] loop_stream[of ms']
  by (simp add: receive_all_append stream_data_def)

end

end
