(* ===== verification/Session.thy ===== *)
theory Session
  imports Server_Properties Client_Properties Message_Stream
begin

text \<open>
  The two sides together. \<open>server_receive\<close> and \<open>client_receive\<close> say what each side does with a message;
  they are the abstract side, without bytes. The message loops of \<open>hyprwire/src/message.rs\<close> over the bytes
  of any stream of messages refine them (\<open>message_loop\<close>), and on this rest the properties of a whole
  exchange: the handshake, binding a protocol, a round trip.
\<close>

section \<open>What a message means\<close>

definition server_receive ::
    "profile \<Rightarrow> ('h, 'd) dispatcher \<Rightarrow> nat \<Rightarrow> message \<Rightarrow> ('h, 'd) server \<Rightarrow> (error, unit, ('h, 'd) server) eff" where
  "server_receive pr disp k m w =
     (case m of
        MSup _ \<Rightarrow>
          bind_eff (lift_res (handshake_begin_new [1]) (dispatch_first_poll k w)) (\<lambda>hb w.
            Some (Ok (), upd_conn k (send_message (MHandshakeBegin hb)) w))
      | MHandshakeAck a \<Rightarrow>
          bind_eff (lift_res (handshake_protocols_new (map (announced \<circ> im_spec) (sv_impls w)))
              (upd_client k (\<lambda>c. c\<lparr>sc_version := ack_version a\<rparr>) w)) (\<lambda>hp w.
            Some (Ok (), upd_conn k (send_message (MHandshakeProtocols hp)) w))
      | MBindProtocol b \<Rightarrow>
          (case client_create_object k (bind_name b) [] (bind_version b) (bind_seq b) w of
             (new, w) \<Rightarrow> run (on_bind new w) w)
      | MGeneric g \<Rightarrow> on_generic disp k (received pr g) w
      | MRoundtripRequest r \<Rightarrow>
          Some (Ok (), upd_client k (\<lambda>c. c\<lparr>sc_scheduled_roundtrip_seq := req_seq r\<rparr>) w)
      | _ \<Rightarrow> Some (Err InvalidMessage, upd_conn k set_error w))"

definition client_receive ::
    "profile \<Rightarrow> ('h, 'd) client_dispatcher \<Rightarrow> nat \<Rightarrow> message \<Rightarrow> ('h, 'd) client \<Rightarrow>
       (error, unit, ('h, 'd) client) eff" where
  "client_receive pr disp q m w =
     (case m of
        MHandshakeBegin hb \<Rightarrow>
          if protocol_version \<in> set (hsb_versions hb)
          then Some (Ok (), upd_cconn (send_message (MHandshakeAck (handshake_ack_new protocol_version))) w)
          else Some (Err VersionNegotiationFailed, upd_cconn set_error w)
      | MHandshakeProtocols hp \<Rightarrow> Some (Ok (), (server_specs (hsp_protocols hp) w)\<lparr>cl_handshake_done := True\<rparr>)
      | MNewObject n \<Rightarrow> Some (Ok (), on_seq (new_seq n) (new_id n) w)
      | MGeneric g \<Rightarrow> client_on_generic pr disp (received pr g) w
      | MFatal _ \<Rightarrow> Some (Ok (), upd_cconn set_error w)
      | MRoundtripDone r \<Rightarrow> Some (Ok (), upd_queue q (\<lambda>eq. eq\<lparr>eq_ackd := done_seq r\<rparr>) w)
      | _ \<Rightarrow> Some (Err InvalidMessage, upd_cconn set_error w))"

section \<open>The loops are message loops\<close>

lemma bind_eff_return: "bind_eff m (\<lambda>_ w. Some (Ok x, w)) = bind_eff m (\<lambda>u w. bind_eff (Some (Ok u, w)) (\<lambda>_ w. Some (Ok x, w)))"
  by simp

lemma bind_eff_assoc: "bind_eff (bind_eff m f) g = bind_eff m (\<lambda>x w. bind_eff (f x w) g)"
  by (cases m) (auto simp: bind_eff_def split: res.splits)

interpretation server_stream: message_loop pr "server_message pr disp k" "server_handle_message pr disp k"
    "server_receive pr disp k" for pr disp k
proof
  fix data fds needle rest and w :: "('a, 'b) server" and m
  show "server_handle_message pr disp k data fds needle w =
     (if needle < length data then
        (case message_type_try_from (data ! needle) of
           Ok t \<Rightarrow>
             bind_eff (server_message pr disp k t data fds needle w) (\<lambda>x w.
             bind_eff (lift_res (uadd pr needle (fst x)) w) (\<lambda>needle' w.
               server_handle_message pr disp k data (snd x) needle' w))
         | _ \<Rightarrow> Some (Err InvalidMessage, w))
      else if fds \<noteq> [] then Some (Err MalformedMessage, w)
      else Some (Ok (), w))"
    by (rule server_handle_message.simps)
  assume m: "sendable pr m" and c: "cursor_at data needle (message_data m @ rest)"
  show "server_message pr disp k (message_type_of m) data (message_fds m @ fds) needle w =
        bind_eff (server_receive pr disp k m w) (\<lambda>_ w. Some (Ok (length (message_data m), fds), w))"
  proof (cases m)
    case (MSup h)
    with m c have "hello_from_bytes data needle = Ok h" by (auto intro: hello.parse_built)
    with MSup show ?thesis
      by (simp add: server_message_def server_receive_def lift_res_def Let_def bind_eff_assoc)
  next
    case (MHandshakeAck a)
    with m c have "handshake_ack_from_bytes data needle = Ok a" by (auto intro: ack.parse_built)
    with MHandshakeAck show ?thesis
      by (simp add: server_message_def server_receive_def lift_res_def Let_def bind_eff_assoc)
  next
    case (MBindProtocol b)
    with m c have "bind_protocol_from_bytes pr data needle = Ok b" by (auto intro: bindp.parse_built)
    with MBindProtocol show ?thesis
      by (simp add: server_message_def server_receive_def lift_res_def case_prod_beta)
  next
    case (MGeneric g)
    with m c have "generic_from_bytes pr data (gm_fds g @ fds) needle = Some (Ok (received pr g, fds))"
      and "gm_data (received pr g) = gm_data g" using generic_in_stream(1)[of pr g data needle rest fds] generic_in_stream(2)[of pr g data needle rest]
      by auto
    with MGeneric show ?thesis
      by (simp add: server_message_def server_receive_def lift_res_def)
  next
    case (MRoundtripRequest r)
    with m c have "roundtrip_request_from_bytes data needle = Ok r" by (auto intro: rtreq.parse_built)
    with MRoundtripRequest show ?thesis
      by (simp add: server_message_def server_receive_def lift_res_def)
  qed (simp_all add: server_message_def server_receive_def wrong_role_def)
qed

interpretation client_stream: message_loop pr "client_message pr disp q" "client_handle_message pr disp q"
    "client_receive pr disp q" for pr disp q
proof
  fix data fds needle rest and w :: "('a, 'b) client" and m
  show "client_handle_message pr disp q data fds needle w =
     (if needle < length data then
        (case message_type_try_from (data ! needle) of
           Ok t \<Rightarrow>
             bind_eff (client_message pr disp q t data fds needle w) (\<lambda>x w.
             bind_eff (lift_res (uadd pr needle (fst x)) w) (\<lambda>needle' w.
               client_handle_message pr disp q data (snd x) needle' w))
         | _ \<Rightarrow> Some (Err InvalidMessage, w))
      else if fds \<noteq> [] then Some (Err MalformedMessage, w)
      else Some (Ok (), w))"
    by (rule client_handle_message.simps)
  assume m: "sendable pr m" and c: "cursor_at data needle (message_data m @ rest)"
  show "client_message pr disp q (message_type_of m) data (message_fds m @ fds) needle w =
        bind_eff (client_receive pr disp q m w) (\<lambda>_ w. Some (Ok (length (message_data m), fds), w))"
  proof (cases m)
    case (MHandshakeBegin hb)
    with m c have "handshake_begin_from_bytes pr data needle = Ok hb" by (auto intro: hsbeginp.parse_built)
    with MHandshakeBegin show ?thesis
      by (simp add: client_message_def client_receive_def lift_res_def)
  next
    case (MHandshakeProtocols hp)
    with m c have "handshake_protocols_from_bytes pr data needle = Ok hp" by (auto intro: hsprotop.parse_built)
    with MHandshakeProtocols show ?thesis
      by (simp add: client_message_def client_receive_def lift_res_def)
  next
    case (MNewObject n)
    with m c have "new_object_from_bytes data needle = Ok n" by (auto intro: newobj.parse_built)
    with MNewObject show ?thesis
      by (simp add: client_message_def client_receive_def lift_res_def)
  next
    case (MGeneric g)
    with m c have "generic_from_bytes pr data (gm_fds g @ fds) needle = Some (Ok (received pr g, fds))"
      and "gm_data (received pr g) = gm_data g" using generic_in_stream(1)[of pr g data needle rest fds] generic_in_stream(2)[of pr g data needle rest]
      by auto
    with MGeneric show ?thesis
      by (simp add: client_message_def client_receive_def lift_res_def)
  next
    case (MFatal f)
    with m c have "fatal_protocol_error_from_bytes pr data needle = Ok f" by (auto intro: fatalp.parse_built)
    with MFatal show ?thesis
      by (simp add: client_message_def client_receive_def lift_res_def)
  next
    case (MRoundtripDone r)
    with m c have "roundtrip_done_from_bytes data needle = Ok r" by (auto intro: rtdone.parse_built)
    with MRoundtripDone show ?thesis
      by (simp add: client_message_def client_receive_def lift_res_def)
  qed (simp_all add: client_message_def client_receive_def client_wrong_role_def)
qed

section \<open>Refinement\<close>

text \<open>C19: The server's loop over bytes refines the meaning of messages: on the bytes and descriptors of any
  list of messages that can be sent, whatever their types, it does what receiving the messages one
  after the other does, to the first one that is refused.\<close>
theorem server_loop_refines:
  assumes "\<forall>m \<in> set ms. sendable pr m" and "length (stream_data ms) \<le> isize_max"
  shows "server_handle_message pr disp k (stream_data ms) (stream_fds ms) 0 w =
    receive_all (server_receive pr disp k) ms w"
  using assms by (rule server_stream.loop_stream)

theorem server_loop_refines_witness:
  "server_handle_message Debug example_dispatcher 0
     (stream_data [MSup hello_new, MRoundtripRequest (roundtrip_request_new 7)]) [] 0 example_server =
   receive_all (server_receive Debug example_dispatcher 0)
     [MSup hello_new, MRoundtripRequest (roundtrip_request_new 7)] example_server"
  using server_loop_refines[of "[MSup hello_new, MRoundtripRequest (roundtrip_request_new 7)]" Debug
      example_dispatcher 0 example_server]
  by (auto simp: hello_new_def hello_bytes_def roundtrip_request_new_def isize_max_def)

text \<open>C20: The client's loop over bytes refines the meaning of messages in the same way.\<close>
theorem client_loop_refines:
  assumes "\<forall>m \<in> set ms. sendable pr m" and "length (stream_data ms) \<le> isize_max"
  shows "client_handle_message pr disp q (stream_data ms) (stream_fds ms) 0 w =
    receive_all (client_receive pr disp q) ms w"
  using assms by (rule client_stream.loop_stream)

theorem client_loop_refines_witness:
  "client_handle_message Debug example_callbacks 0
     (stream_data [MNewObject (new_object_new 1 5), MRoundtripDone (roundtrip_done_new 7)]) [] 0 (example_client 0 0) =
   receive_all (client_receive Debug example_callbacks 0)
     [MNewObject (new_object_new 1 5), MRoundtripDone (roundtrip_done_new 7)] (example_client 0 0)"
  using client_loop_refines[of "[MNewObject (new_object_new 1 5), MRoundtripDone (roundtrip_done_new 7)]" Debug
      example_callbacks 0 "example_client 0 0"]
  by (auto simp: new_object_new_def roundtrip_done_new_def isize_max_def)

end
