(* ===== verification/Exchange.thy ===== *)
theory Exchange
  imports Session
begin

text \<open>
  What the properties of a whole exchange rest on: the messages one side sends in a step are the ones the
  other side reads in the next. A side reads a list of messages by handling the bytes and descriptors
  they are made of; by the refinement of \<open>Session\<close> this is to receive the messages in turn.
\<close>

section \<open>Steps of an exchange\<close>

definition sent :: "conn \<Rightarrow> conn \<Rightarrow> message list" where
  "sent c c' = drop (length (c_out c)) (c_out c')"

definition conn_at :: "nat \<Rightarrow> ('h, 'd) server \<Rightarrow> conn" where
  "conn_at k w = sc_conn (sv_client_heap w ! k)"

definition server_reads ::
    "profile \<Rightarrow> ('h, 'd) dispatcher \<Rightarrow> nat \<Rightarrow> message list \<Rightarrow> ('h, 'd) server \<Rightarrow>
       (error, unit, ('h, 'd) server) eff" where
  "server_reads pr disp k ms w = server_handle_message pr disp k (stream_data ms) (stream_fds ms) 0 w"

definition client_reads ::
    "profile \<Rightarrow> ('h, 'd) client_dispatcher \<Rightarrow> nat \<Rightarrow> message list \<Rightarrow> ('h, 'd) client \<Rightarrow>
       (error, unit, ('h, 'd) client) eff" where
  "client_reads pr disp q ms w = client_handle_message pr disp q (stream_data ms) (stream_fds ms) 0 w"

text \<open>Reading a single message.\<close>

lemma server_reads_one:
  "sendable pr m \<Longrightarrow> length (message_data m) \<le> isize_max \<Longrightarrow>
     server_reads pr disp k [m] w = server_receive pr disp k m w"
  unfolding server_reads_def using server_stream.loop_stream[of "[m]" pr disp k w]
  by (cases "server_receive pr disp k m w") (auto simp: bind_eff_def split: res.splits)

lemma client_reads_one:
  "sendable pr m \<Longrightarrow> length (message_data m) \<le> isize_max \<Longrightarrow>
     client_reads pr disp q [m] w = client_receive pr disp q m w"
  unfolding client_reads_def using client_stream.loop_stream[of "[m]" pr disp q w]
  by (cases "client_receive pr disp q m w") (auto simp: bind_eff_def split: res.splits)

section \<open>Announcing protocols\<close>

lemma parse_announced:
  "parse_spec (announced spec) = Some \<lparr>adv_name = spec_name spec, adv_version = spec_ver spec\<rparr>"
proof -
  have "rfind 64 (spec_name spec @ 64 # show_u32 (spec_ver spec)) = Some (length (spec_name spec))"
    by (rule rfind_append[OF show_u32_no_at])
  then show ?thesis by (simp add: parse_spec_def announced_def)
qed

definition advertised :: "('h, 'd) server_impl \<Rightarrow> advertised_spec" where
  "advertised im = \<lparr>adv_name = spec_name (im_spec im), adv_version = spec_ver (im_spec im)\<rparr>"

lemma server_specs_announced:
  "server_specs (map (announced \<circ> im_spec) impls) w = w\<lparr>cl_specs := cl_specs w @ map advertised impls\<rparr>"
proof -
  have "List.map_filter parse_spec (map (announced \<circ> im_spec) impls) = map advertised impls"
    by (induction impls) (simp_all add: parse_announced advertised_def map_filter_simps)
  then show ?thesis by (simp add: server_specs_def)
qed

text \<open>
  The protocols whose announcement fits one message: fewer than 2048, and with names of no more than
  \<open>2 ^ 62\<close> bytes in all, which no memory holds.
\<close>

definition announceable :: "('h, 'd) server_impl list \<Rightarrow> bool" where
  "announceable impls \<longleftrightarrow> length impls < 2048 \<and> (\<forall>im \<in> set impls. utf8_valid (spec_name (im_spec im))) \<and>
     sum_list (map (\<lambda>im. length (spec_name (im_spec im))) impls) \<le> 2 ^ 62"

lemma length_announced: "length (announced spec) \<le> length (spec_name spec) + 11"
  using length_show_u32[of "spec_ver spec"] by (simp add: announced_def)

lemma announcement_built:
  fixes impls :: "('h, 'd) server_impl list"
  assumes "announceable impls"
  obtains hp where "handshake_protocols_new (map (announced \<circ> im_spec) impls) = Ok hp"
    "hsp_protocols hp = map (announced \<circ> im_spec) impls" "sendable pr (MHandshakeProtocols hp)"
    "length (hsp_data hp) \<le> isize_max"
proof -
  let ?ss = "map (announced \<circ> im_spec) impls"
  let ?size = "\<lambda>im :: ('h, 'd) server_impl. length (spec_name (im_spec im))"
  have len: "length ?ss < usize_bound" using assms by (simp add: announceable_def usize_bound_def)
  have size: "length (announced (im_spec im)) \<le> 2 ^ 62 + 11" if "im \<in> set impls" for im
  proof -
    have "?size im \<le> sum_list (map ?size impls)" using that by (intro member_le_sum_list) simp_all
    with assms length_announced[of "im_spec im"] show ?thesis by (simp add: announceable_def)
  qed
  have strs: "\<forall>s \<in> set ?ss. length s < usize_bound"
    using size by (fastforce simp: usize_bound_def)
  let ?hp = "\<lparr>hsp_protocols = ?ss, hsp_data = handshake_protocols_bytes (varint (length ?ss))
         (concat (map (\<lambda>s. varint (length s) @ s) ?ss))\<rparr>"
  have new: "handshake_protocols_new ?ss = Ok ?hp" by (rule handshake_protocols_new_eq[OF len strs])
  have entry: "length (varint (length (announced (im_spec im))) @ announced (im_spec im)) \<le> ?size im + 21"
    if "im \<in> set impls" for im
  proof -
    have "length (announced (im_spec im)) < usize_bound" using strs that by simp
    from varint_length_10[OF this] length_announced[of "im_spec im"] show ?thesis by simp
  qed
  have "length (concat (map (\<lambda>s. varint (length s) @ s) ?ss)) \<le> sum_list (map (\<lambda>im. ?size im + 21) impls)"
    using entry unfolding length_concat map_map by (intro sum_list_mono) simp_all
  also have "\<dots> = sum_list (map ?size impls) + length impls * 21"
    by (simp add: sum_list_addf sum_list_triv)
  finally have "length (hsp_data ?hp) \<le> isize_max"
    using assms varint_length_10[OF len]
    by (simp add: announceable_def handshake_protocols_bytes_def isize_max_def)
  moreover have "handshake_protocols_built ?hp"
    using assms size new unfolding handshake_protocols_built_def announceable_def
    by (fastforce simp: announced_def isize_max_def utf8_valid_append)
  ultimately show thesis using that[OF new] by simp
qed

section \<open>The steps of the handshake\<close>

lemma upd_client_at [simp]:
  "k < length (sv_client_heap w) \<Longrightarrow> sv_client_heap (upd_client k f w) ! k = f (sv_client_heap w ! k)"
  "length (sv_client_heap (upd_client k f w)) = length (sv_client_heap w)"
  "sv_impls (upd_client k f w) = sv_impls w" "sv_objects (upd_client k f w) = sv_objects w"
  by (simp_all add: upd_client_def)

lemma conn_at_send:
  "k < length (sv_client_heap w) \<Longrightarrow> conn_at k (upd_conn k f w) = f (conn_at k w)"
  by (simp add: conn_at_def upd_conn_def)

lemma sent_simps [simp]:
  "sent c (send_message m c) = [m]"
  "c_out c = [] \<Longrightarrow> sent c c' = c_out c'"
  by (simp_all add: sent_def)

definition offer :: handshake_begin where
  "offer = \<lparr>hsb_versions = [1], hsb_data = handshake_begin_bytes (varint 1) [1]\<rparr>"

lemma offer_built: "handshake_begin_new [1] = Ok offer"
  by (simp add: offer_def handshake_begin_new_def usize_bound_def)

lemma offer_sendable: "sendable pr (MHandshakeBegin offer)" "length (hsb_data offer) \<le> isize_max"
proof -
  have "length (varint 1) \<le> 10" by (rule varint_length_10) (simp add: usize_bound_def)
  then show "length (hsb_data offer) \<le> isize_max"
    by (simp add: offer_def handshake_begin_bytes_def isize_max_def)
  show "sendable pr (MHandshakeBegin offer)"
    using offer_built by (simp add: handshake_begin_built_def offer_def)
qed

lemma server_answers_hello:
  assumes "k < length (sv_client_heap w)"
  obtains w' where "server_reads pr disp k [MSup hello_new] w = Some (Ok (), w')"
    "sv_client_heap w' ! k = (sv_client_heap (dispatch_first_poll k w) ! k)
      \<lparr>sc_conn := send_message (MHandshakeBegin offer) (conn_at k w)\<rparr>"
    "length (sv_client_heap w') = length (sv_client_heap w)" "sv_impls w' = sv_impls w"
proof
  let ?w = "upd_conn k (send_message (MHandshakeBegin offer)) (dispatch_first_poll k w)"
  show "server_reads pr disp k [MSup hello_new] w = Some (Ok (), ?w)"
    by (subst server_reads_one)
      (simp_all add: server_receive_def offer_built[simplified] lift_res_def hello_new_def hello_bytes_def isize_max_def)
qed (use assms in \<open>auto simp: upd_conn_def dispatch_first_poll_def conn_at_def\<close>)

lemma client_answers_offer:
  "client_reads pr disp q [MHandshakeBegin offer] w =
     Some (Ok (), upd_cconn (send_message (MHandshakeAck (handshake_ack_new protocol_version))) w)"
proof -
  have "hsb_versions offer = [1]" by (simp add: offer_def)
  then show ?thesis
    by (subst client_reads_one[OF offer_sendable(1)])
      (simp_all add: offer_sendable(2) client_receive_def protocol_version_def)
qed

lemma server_answers_ack:
  assumes "k < length (sv_client_heap w)"
    and "handshake_protocols_new (map (announced \<circ> im_spec) (sv_impls w)) = Ok hp"
  obtains w' where "server_reads pr disp k [MHandshakeAck (handshake_ack_new v)] w = Some (Ok (), w')"
    "sv_client_heap w' ! k = (sv_client_heap w ! k)
      \<lparr>sc_version := v, sc_conn := send_message (MHandshakeProtocols hp) (conn_at k w)\<rparr>"
    "length (sv_client_heap w') = length (sv_client_heap w)" "sv_impls w' = sv_impls w"
proof
  let ?w = "upd_conn k (send_message (MHandshakeProtocols hp)) (upd_client k (\<lambda>c. c\<lparr>sc_version := v\<rparr>) w)"
  show "server_reads pr disp k [MHandshakeAck (handshake_ack_new v)] w = Some (Ok (), ?w)"
    by (subst server_reads_one)
      (auto simp: server_receive_def assms(2) lift_res_def handshake_ack_new_def isize_max_def)
qed (use assms in \<open>auto simp: upd_conn_def conn_at_def\<close>)

lemma client_takes_protocols:
  assumes "sendable pr (MHandshakeProtocols hp)" and "length (hsp_data hp) \<le> isize_max"
    and "hsp_protocols hp = map (announced \<circ> im_spec) impls"
  shows "client_reads pr disp q [MHandshakeProtocols hp] w =
    Some (Ok (), w\<lparr>cl_specs := cl_specs w @ map advertised impls, cl_handshake_done := True\<rparr>)"
  using assms(2,3) by (subst client_reads_one[OF assms(1)])
    (simp_all add: client_receive_def server_specs_announced)

section \<open>Binding\<close>

text \<open>A request that was made: its message, and the object it made.\<close>

lemma bind_request:
  fixes w :: "('h, 'd) client"
  assumes inv: "client_inv w" and left: "pr = Debug \<or> cl_seq w \<noteq> - 1"
    and bind: "client_bind_protocol pr q spec version w = Some (Ok r, w')"
  obtains m where "bind_protocol_new (spec_name spec) (cl_seq w + 1) version = Ok m"
    "sent (cl_conn w) (cl_conn w') = [MBindProtocol m]" "object_for_seq (cl_seq w + 1) w' = Some r"
    "r < length (cl_heap w')" "co_seq (cl_heap w' ! r) = cl_seq w + 1" "co_version (cl_heap w' ! r) = version"
    "co_protocol_name (cl_heap w' ! r) = spec_name spec"
proof -
  from bind obtain ospec rest s m where spec: "spec_objects spec = ospec # rest"
    and seq: "next_seq pr w = (Ok s :: (hw_error, u32) res)"
    and msg: "bind_protocol_message (spec_name spec) s version = Ok m" and r: "r = length (cl_heap w)"
    and w': "w' = upd_cconn (send_message (MBindProtocol m))
      (push_object (fresh_object ospec (spec_name spec) version s q 1) (take_seq w))"
    by (auto simp: client_bind_protocol_def bind_eff_Some Let_def split: if_splits list.splits)
  from seq left have s: "s = cl_seq w + 1" and left: "cl_seq w \<noteq> - 1"
    by (auto simp: next_seq_Ok seq_left_def)
  let ?new = "fresh_object ospec (spec_name spec) version s q 1 :: 'h client_object"
  have "object_for_seq (cl_seq w + 1) (push_object ?new (take_seq w)) = Some (length (cl_heap w))"
    by (rule pushed_object_found[OF inv left]) (simp_all add: s fresh_object_def take_seq_def)
  then have "object_for_seq (cl_seq w + 1) w' = Some r"
    by (simp add: w' r object_for_seq_def upd_cconn_def)
  moreover have "bind_protocol_new (spec_name spec) (cl_seq w + 1) version = Ok m"
    using msg s by (auto simp: bind_protocol_message_def split: res.splits)
  moreover have "sent (cl_conn w) (cl_conn w') = [MBindProtocol m]"
    by (simp add: w' upd_cconn_def push_object_def take_seq_def)
  ultimately show thesis
    using that by (simp add: w' r s upd_cconn_def push_object_def take_seq_def fresh_object_def nth_append)
qed

lemma bind_message_fields:
  assumes "bind_protocol_new name s version = Ok m"
  shows "bind_name m = name" "bind_seq m = s" "bind_version m = version"
    "length (bind_data m) \<le> length name + 23"
  using assms
  by (auto simp: bind_protocol_new_def bind_bytes_def bind_res_eq_Ok encode_var_int_varint var_int_buf_def
      split: if_splits)

lemma client_takes_id:
  assumes "object_for_seq s w = Some r"
  shows "client_reads pr disp q [MNewObject (new_object_new s i)] w =
    Some (Ok (), upd_cobj r (\<lambda>obj. obj\<lparr>co_id := i\<rparr>) w)"
  using assms by (subst client_reads_one)
    (auto simp: client_receive_def on_seq_def new_object_new_def isize_max_def)

text \<open>What the server makes of a request: \<open>on_bind\<close> of the object it creates, unless the version is 0.\<close>

lemma server_takes_bind:
  assumes m: "bind_protocol_new name s version = Ok m" and name: "utf8_valid name" "length name \<le> 2 ^ 62"
    and version: "version \<noteq> 0"
    and create: "client_create_object k name [] version s w = (r, w1)"
  shows "server_reads pr disp k [MBindProtocol m] w = run (on_bind r w1) w1"
proof -
  note fields = bind_message_fields[OF m]
  have "bind_built m"
    using m name version fields by (simp add: bind_built_def isize_max_def)
  then show ?thesis
    using fields name(2) create
    by (subst server_reads_one) (simp_all add: server_receive_def isize_max_def)
qed

lemma server_refuses_version_0:
  assumes m: "bind_protocol_new name s 0 = Ok m" and name: "utf8_valid name" "length name \<le> 2 ^ 62"
  shows "server_reads pr disp k [MBindProtocol m] w = Some (Err InvalidVersion, w)"
proof -
  note fields = bind_message_fields[OF m]
  have len: "length name < usize_bound" and fits: "length (bind_data m) \<le> isize_max"
    using name(2) fields(4) by (simp_all add: usize_bound_def isize_max_def)
  have data: "bind_data m = bind_bytes (varint (length name)) s name 0"
    using m len by (auto simp: bind_protocol_new_def)
  have "bind_protocol_from_bytes pr (bind_data m) 0 = Err InvalidVersion"
    using bind_cursor[where pr = pr and m = m and data = "bind_data m" and off = 0 and rest = "[]"]
      varint_repr_varint[OF len, of pr] name fields data cursor_start[OF fits] by simp
  moreover have "bind_data m \<noteq> []" "bind_data m ! 0 = message_type_u8 BindProtocol"
    by (simp_all add: data bind_bytes_def)
  ultimately show ?thesis
    by (simp add: server_reads_def server_handle_message.simps server_message_def lift_res_def
        del: message_type_u8.simps)
qed

section \<open>What messages keep\<close>

context event_relation
begin

lemma keeps_client_receive: "keeps R w (client_receive pr disp q m w)"
  by (cases m) (auto simp: client_receive_def intro!: keeps_Some_R R_send R_error R_shake R_on_seq R_ack keeps_client_on_generic)

lemma keeps_receive_all: "keeps R w (receive_all (client_receive pr disp q) ms w)"
  by (induction ms arbitrary: w) (auto intro: keeps_done keeps_trans[OF keeps_client_receive])

end

text \<open>Only a request makes an answer due, and the server answers nothing else before it has handled what it read.\<close>

lemma keeps_due: "k < length (sv_client_heap w) \<Longrightarrow> \<forall>r. m \<noteq> MRoundtripRequest r \<Longrightarrow> keeps (due_kept k) w (server_receive pr disp k m w)"
proof (cases m)
  case (MSup h)
  show ?thesis
    unfolding MSup server_receive_def message.case
    by (rule due.keeps_after[OF due.R_first_poll], rule due.keeps_trans[OF due.keeps_lift_R], rule due.keeps_Some_R, rule due.R_conn) simp
next
  case (MHandshakeAck a)
  have version: "due_kept k w (upd_client k (\<lambda>c. c\<lparr>sc_version := ack_version a\<rparr>) w)" by (rule due.R_client) simp
  show ?thesis
    unfolding MHandshakeAck server_receive_def message.case
    by (rule due.keeps_after[OF version], rule due.keeps_trans[OF due.keeps_lift_R], rule due.keeps_Some_R, rule due.R_conn) simp
next
  case (MBindProtocol b)
  assume k: "k < length (sv_client_heap w)"
  obtain new w1 where new: "client_create_object k (bind_name b) [] (bind_version b) (bind_seq b) w = (new, w1)" by fastforce
  then have "due_kept k w w1" using due.R_create[of k w k "bind_name b" "[]" "bind_version b" "bind_seq b"] k by simp
  then show ?thesis
    unfolding MBindProtocol server_receive_def message.case new prod.case by (rule due.keeps_after[OF _ due.keeps_run])
qed (auto simp: server_receive_def intro!: due.keeps_Some_R due.R_conn due.keeps_on_generic)

lemma keeps_due_all:
  assumes "k < length (sv_client_heap w)" and "\<forall>m \<in> set ms. \<forall>r. m \<noteq> MRoundtripRequest r"
  shows "keeps (due_kept k) w (receive_all (server_receive pr disp k) ms w)"
  using assms
proof (induction ms arbitrary: w)
  case (Cons m ms)
  show ?case
    unfolding receive_all.simps
  proof (rule due.keeps_trans[OF keeps_due])
    fix x w' assume "due_kept k w w'"
    then have "k < length (sv_client_heap w')" using Cons.prems(1) by (simp add: due_kept_def)
    then show "keeps (due_kept k) w' (receive_all (server_receive pr disp k) ms w')" by (rule Cons.IH) (use Cons.prems(2) in simp)
  qed (use Cons.prems in auto)
qed (simp add: due.keeps_Some_R due.R_refl)

section \<open>Round trips\<close>

text \<open>A client with nothing to clean up and nothing waiting.\<close>

definition settled :: "nat \<Rightarrow> ('h, 'd) client \<Rightarrow> bool" where
  "settled q w \<longleftrightarrow> q < length (cl_queues w) \<and> \<not> cl_locked w \<and> \<not> c_error (cl_conn w) \<and>
     eq_queue (cl_queues w ! q) = [] \<and>
     (\<forall>r \<in> set (cl_objects w). co_id (cl_heap w ! r) = 0 \<or> co_refs (cl_heap w ! r) \<noteq> 0)"

lemma collect_settled: "settled q w \<Longrightarrow> collect_orphaned_objects pr w = Some (Ok (), w)"
proof -
  assume w: "settled q w"
  then have "filter (\<lambda>r. co_id (cl_heap w ! r) = 0 \<or> co_refs (cl_heap w ! r) \<noteq> 0) (cl_objects w) = cl_objects w"
    and "filter (\<lambda>r. \<not> (co_id (cl_heap w ! r) = 0 \<or> co_refs (cl_heap w ! r) \<noteq> 0)) (cl_objects w) = []"
    by (auto simp: settled_def filter_id_conv filter_empty_conv)
  with w show ?thesis by (simp add: collect_orphaned_objects_def retain_def settled_def)
qed

lemma settled_queue:
  "settled q w \<Longrightarrow> eq_queue (f (cl_queues w ! q)) = [] \<Longrightarrow> settled q (upd_queue q f w)"
  "settled q w \<Longrightarrow> settled q (upd_cconn (send_message m) w)"
  by (simp_all add: settled_def upd_queue_def upd_cconn_def)

lemma flush_settled: "settled q w \<Longrightarrow> flush_pending q w = w"
proof -
  assume w: "settled q w"
  then have "(cl_queues w)[q := (cl_queues w ! q)\<lparr>eq_queue := []\<rparr>] = cl_queues w"
    by (metis settled_def event_queue.surjective event_queue.update_convs(1) list_update_id)
  with w show ?thesis by (simp add: flush_pending_def settled_def upd_queue_def)
qed

text \<open>Reading the answer to a round trip in an otherwise quiet round.\<close>

definition quiet_round :: "message list \<Rightarrow> poll_round" where
  "quiet_round ms = \<lparr>pl_wait = Some True, pl_modify_ok = True,
     pl_recv = [Received (stream_data ms) (stream_fds ms)]\<rparr>"

lemma read_one: "bs \<noteq> [] \<Longrightarrow> length bs < buffer_size \<Longrightarrow> read_from_socket [Received bs fds] = Some \<lparr>raw_data = bs, raw_fds = fds\<rparr>"
  by (simp add: read_from_socket_def)

lemma dispatch_reading_all:
  assumes ms: "\<forall>m \<in> set ms. sendable pr m" "length (stream_data ms) < buffer_size" "ms \<noteq> []"
    and before: "\<not> c_error (cl_conn w)" "collect_orphaned_objects pr w = Some (Ok (), w0)"
    and receive: "receive_all (client_receive pr disp q) ms w0 = Some (Ok (), w1)"
    and after: "collect_orphaned_objects pr (flush_pending q w1) = Some (Ok (), w')" "\<not> c_error (cl_conn w')"
  shows "dispatch_events_inner pr disp q block (quiet_round ms) w = Some (Ok (), w')"
proof -
  have "length (stream_data ms) \<le> isize_max" using ms(2) by (simp add: buffer_size_def isize_max_def)
  then have reads: "client_handle_message pr disp q (stream_data ms) (stream_fds ms) 0 w0 = Some (Ok (), w1)"
    by (rule trans[OF client_stream.loop_stream[OF ms(1)] receive])
  obtain m ms' where "ms = m # ms'" using ms(3) by (cases ms) auto
  then have data: "stream_data ms \<noteq> []" using sendable_head[of pr m] ms(1) by (auto simp: stream_data_def)
  then have "receive_events pr disp q [Received (stream_data ms) (stream_fds ms)] w0 = Some (Ok (), w')"
    using reads after by (simp add: receive_events_def read_one[OF data ms(2)] handle_or_disconnect_def no_error_def)
  with before show ?thesis by (simp add: dispatch_events_inner_def quiet_round_def no_error_def)
qed

lemma dispatch_reading:
  assumes m: "sendable pr m" "length (message_data m) < buffer_size"
    and receive: "client_receive pr disp q m w = Some (Ok (), w')" and w: "settled q w" "settled q w'"
  shows "dispatch_events_inner pr disp q True (quiet_round [m]) w = Some (Ok (), w')"
proof (rule dispatch_reading_all[OF _ _ _ _ collect_settled[OF w(1)]])
  show "receive_all (client_receive pr disp q) [m] w = Some (Ok (), w')" using receive by simp
  show "collect_orphaned_objects pr (flush_pending q w') = Some (Ok (), w')"
    by (simp add: flush_settled[OF w(2)] collect_settled[OF w(2)])
qed (use m w in \<open>simp_all add: stream_data_def settled_def\<close>)

lemma sent_append: "conn_le c c1 \<Longrightarrow> c_out c2 = c_out c1 @ ms \<Longrightarrow> sent c c2 = sent c c1 @ ms"
  by (auto simp: sent_def conn_le_def)

text \<open>
  The server reads a request among other messages: its answer is sent once, after everything that handling them has
  sent, and nothing is due any more.
\<close>

lemma server_answers_roundtrip:
  fixes n :: u32
  defines "request \<equiv> MRoundtripRequest (roundtrip_request_new n)"
  assumes k: "k < length (sv_client_heap w)" and n: "n \<noteq> 0"
    and stream: "\<forall>m \<in> set (before @ request # after). sendable pr m" "length (stream_data (before @ request # after)) \<le> isize_max"
    and read: "read_from_socket answers =
      Some \<lparr>raw_data = stream_data (before @ request # after), raw_fds = stream_fds (before @ request # after)\<rparr>"
    and handled: "receive_all (server_receive pr disp k) (before @ request # after) w = Some (Ok (), w1)"
    and last: "\<forall>m \<in> set after. \<forall>r. m \<noteq> MRoundtripRequest r"
  obtains w' where "dispatch_client pr disp k answers w = Some (Ok (), w')"
    "sent (conn_at k w) (conn_at k w') = sent (conn_at k w) (conn_at k w1) @ [MRoundtripDone (roundtrip_done_new n)]"
    "sc_scheduled_roundtrip_seq (sv_client_heap w' ! k) = 0"
proof
  let ?w' = "upd_client k (\<lambda>c. c\<lparr>sc_scheduled_roundtrip_seq := 0\<rparr>)
    (upd_conn k (send_message (MRoundtripDone (roundtrip_done_new n))) w1)"
  have loop: "server_handle_message pr disp k (stream_data (before @ request # after)) (stream_fds (before @ request # after)) 0 w =
      Some (Ok (), w1)"
    using handled by (simp only: server_stream.loop_stream[OF stream])
  then have le: "server_le w w1" using keepsD[OF evolution.keeps_server_handle_message[OF k] loop] by simp
  then have k1: "k < length (sv_client_heap w1)" using k by (simp add: server_le_def)
  from handled obtain w0 where w0: "receive_all (server_receive pr disp k) before w = Some (Ok (), w0)"
    and after: "receive_all (server_receive pr disp k) after
      (upd_client k (\<lambda>c. c\<lparr>sc_scheduled_roundtrip_seq := n\<rparr>) w0) = Some (Ok (), w1)"
    by (auto simp: receive_all_append bind_eff_Some request_def server_receive_def roundtrip_request_new_def)
  have "length (stream_data before) \<le> isize_max" using stream(2) by (simp add: stream_data_def)
  then have "server_handle_message pr disp k (stream_data before) (stream_fds before) 0 w = Some (Ok (), w0)"
    using w0 stream(1) by (subst server_stream.loop_stream) simp_all
  then have "server_le w w0" using keepsD[OF evolution.keeps_server_handle_message[OF k]] by simp
  then have k0: "k < length (sv_client_heap w0)" using k by (simp add: server_le_def)
  then have "due_kept k (upd_client k (\<lambda>c. c\<lparr>sc_scheduled_roundtrip_seq := n\<rparr>) w0) w1"
    by (intro keepsD[OF keeps_due_all[OF _ last] after]) simp_all
  then have due: "sc_scheduled_roundtrip_seq (sv_client_heap w1 ! k) = n" using k0 by (simp add: due_kept_def)
  have "stream_data (before @ request # after) \<noteq> []"
    by (simp add: stream_data_def request_def roundtrip_request_new_def)
  then show "dispatch_client pr disp k answers w = Some (Ok (), ?w')"
    using n by (simp add: dispatch_client_def read loop due Let_def word_gt_0)
  have "conn_le (conn_at k w) (conn_at k w1)" using le k by (simp add: server_le_def client_evolves_def conn_at_def)
  then show "sent (conn_at k w) (conn_at k ?w') = sent (conn_at k w) (conn_at k w1) @ [MRoundtripDone (roundtrip_done_new n)]"
    by (rule sent_append) (use k1 in \<open>simp add: conn_at_def upd_conn_def\<close>)
  show "sc_scheduled_roundtrip_seq (sv_client_heap ?w' ! k) = 0" using k1 by (simp add: upd_conn_def)
qed

text \<open>A client that has asked reads what the server had sent before, and the answer.\<close>

definition asked :: "nat \<Rightarrow> ('h, 'd) client \<Rightarrow> ('h, 'd) client" where
  "asked q w = (let n = eq_sent (cl_queues w ! q) + 1 in
     upd_cconn (send_message (MRoundtripRequest (roundtrip_request_new n)))
       (upd_queue q (\<lambda>eq. eq\<lparr>eq_locked := True, eq_sent := n\<rparr>) w))"

lemma asked_queue:
  "q < length (cl_queues w) \<Longrightarrow> cl_queues (asked q w) ! q = (cl_queues w ! q)\<lparr>eq_locked := True, eq_sent := eq_sent (cl_queues w ! q) + 1\<rparr>"
  "length (cl_queues (asked q w)) = length (cl_queues w)" "c_error (cl_conn (asked q w)) = c_error (cl_conn w)"
  by (simp_all add: asked_def Let_def upd_queue_def upd_cconn_def)

lemma client_takes_answer:
  fixes cl cl0 cl1 cl2 :: "('h, 'd) client" and q :: nat
  defines "n \<equiv> eq_sent (cl_queues cl ! q) + 1"
  defines "answer \<equiv> MRoundtripDone (roundtrip_done_new n)"
  assumes q: "q < length (cl_queues cl)" "\<not> eq_locked (cl_queues cl ! q)" "\<not> c_error (cl_conn cl)"
    and n: "eq_sent (cl_queues cl ! q) \<noteq> - 1" "eq_ackd (cl_queues cl ! q) \<le> eq_sent (cl_queues cl ! q)"
    and stream: "\<forall>m \<in> set (ms @ [answer]). sendable pr m" "length (stream_data (ms @ [answer])) < buffer_size"
    and before: "collect_orphaned_objects pr (asked q cl) = Some (Ok (), cl0)"
    and taken: "receive_all (client_receive pr disp q) ms cl0 = Some (Ok (), cl1)"
    and after: "collect_orphaned_objects pr (flush_pending q (upd_queue q (\<lambda>eq. eq\<lparr>eq_ackd := n\<rparr>) cl1)) = Some (Ok (), cl2)"
      "\<not> c_error (cl_conn cl2)"
  shows "roundtrip pr disp q [quiet_round (ms @ [answer])] cl = Some (Ok (), upd_queue q (\<lambda>eq. eq\<lparr>eq_locked := False\<rparr>) cl2)"
    and "q < length (cl_queues cl2)" "eq_sent (cl_queues cl2 ! q) = n" "eq_ackd (cl_queues cl2 ! q) = n"
    and "\<exists>more. sent (cl_conn cl) (cl_conn cl2) = MRoundtripRequest (roundtrip_request_new n) # more"
proof -
  let ?acked = "upd_queue q (\<lambda>eq. eq\<lparr>eq_ackd := n\<rparr>)"
  have less: "eq_sent (cl_queues cl ! q) < n" unfolding n_def by (rule less_succ_word[OF n(1)])
  have "receive_all (client_receive pr disp q) (ms @ [answer]) cl0 = Some (Ok (), ?acked cl1)"
    by (simp add: receive_all_append taken) (simp add: answer_def client_receive_def roundtrip_done_new_def)
  from dispatch_reading_all[OF stream _ _ before this after]
  have step: "dispatch_events_inner pr disp q True (quiet_round (ms @ [answer])) (asked q cl) = Some (Ok (), cl2)"
    using q(3) by (simp add: asked_queue)
  have history: "history_le (asked q cl) cl2" by (rule keeps_Ok[OF client_history.reading.keeps_dispatch_inner[OF TrueI] step])
  then show len: "q < length (cl_queues cl2)" using q(1) by (simp add: history_le_def asked_queue)
  from history have "conn_le (cl_conn (asked q cl)) (cl_conn cl2)" by (simp add: history_le_def)
  then show "\<exists>more. sent (cl_conn cl) (cl_conn cl2) = MRoundtripRequest (roundtrip_request_new n) # more"
    by (auto simp: conn_le_def sent_def asked_def Let_def upd_queue_def upd_cconn_def n_def)
  have "queue_kept q (asked q cl) cl2" by (rule keeps_Ok[OF queue_held.reading.keeps_dispatch_inner[OF TrueI] step])
  then show sent: "eq_sent (cl_queues cl2 ! q) = n" using q(1) by (simp add: queue_kept_def asked_queue n_def)
  have "history_le (asked q cl) cl0"
    by (rule keeps_Ok[OF client_history.keeps_retain before[unfolded collect_orphaned_objects_def]])
  moreover have "history_le cl0 cl1" by (rule keeps_Ok[OF client_history.keeps_receive_all taken])
  ultimately have "q < length (cl_queues cl1)" using q(1) by (simp add: history_le_def asked_queue)
  then have "eq_ackd (cl_queues (?acked cl1) ! q) = n" by (simp add: upd_queue_def)
  moreover have "acks_kept q (?acked cl1) cl2"
    by (rule acks_held.R_trans[OF acks_held.R_flush keeps_Ok[OF acks_held.keeps_retain after(1)[unfolded collect_orphaned_objects_def]]])
  ultimately show ackd: "eq_ackd (cl_queues cl2 ! q) = n" by (simp add: acks_kept_def queue_le_def)
  have "eq_ackd (cl_queues cl ! q) < n" using n(2) less by (rule order.strict_trans1)
  then have "wait_while (\<lambda>w. eq_ackd (cl_queues w ! q) < eq_sent (cl_queues w ! q))
      (dispatch_events_inner pr disp q True) [quiet_round (ms @ [answer])] (asked q cl) = Some (Ok (), cl2)"
    using q(1) step sent ackd by (simp add: wait_while.simps asked_queue n_def)
  then show "roundtrip pr disp q [quiet_round (ms @ [answer])] cl = Some (Ok (), upd_queue q (\<lambda>eq. eq\<lparr>eq_locked := False\<rparr>) cl2)"
    using q n(1) by (simp add: roundtrip_def with_queue_def asked_def lift_res_def succ_u32_def upd_queue_def upd_cconn_def Let_def)
qed

end
