(* ===== verification/Generated_Properties.thy ===== *)
theory Generated_Properties
  imports Generated_Code Exchange
begin

text \<open>
  The generated code against the wire. What a generated \<open>send_\<close> function writes, in the layout the
  generated spec gives, is what the generated \<open>dispatch\<close> of the peer reads; but \<open>dispatch\<close> reads by the
  spec while the scan of a message accepts any tags, and the two are never compared.
\<close>

section \<open>The layout of values\<close>

primrec value_field :: "arg_type \<Rightarrow> gen_value \<Rightarrow> field" where
  "value_field t (VString s) = FStr s"
| "value_field t (VFd fd) = FFd"
| "value_field t (VUint w) = FWord TypeUint w"
| "value_field t (VInt w) = FWord TypeInt w"
| "value_field t (VF32 w) = FWord TypeF32 w"
| "value_field t (VEnum w) = FWord TypeUint w"
| "value_field t (VStrings ss) = FStrs ss"
| "value_field t (VFds fds) = FFds (length fds)"
| "value_field t (VUints ws) = FWords TypeUint ws"
| "value_field t (VInts ws) = FWords TypeInt ws"
| "value_field t (VF32s ws) = FWords TypeF32 ws"

fun value_fds :: "gen_value \<Rightarrow> i32 list" where
  "value_fds (VFd fd) = [fd]"
| "value_fds (VFds fds) = fds"
| "value_fds _ = []"

text \<open>The limits of the receiver: arrays of fewer than 10000 elements, strings of at most \<open>isize::MAX\<close> bytes.\<close>

fun value_fits :: "gen_value \<Rightarrow> bool" where
  "value_fits (VString s) \<longleftrightarrow> length s \<le> isize_max"
| "value_fits (VStrings ss) \<longleftrightarrow> length ss < 10000 \<and> (\<forall>s \<in> set ss. length s \<le> isize_max)"
| "value_fits (VFds fds) \<longleftrightarrow> length fds < 10000"
| "value_fits (VUints ws) \<longleftrightarrow> length ws < 10000"
| "value_fits (VInts ws) \<longleftrightarrow> length ws < 10000"
| "value_fits (VF32s ws) \<longleftrightarrow> length ws < 10000"
| "value_fits _ \<longleftrightarrow> True"

abbreviation args_fit :: "arg list \<Rightarrow> gen_value list \<Rightarrow> bool" where
  "args_fit \<equiv> list_all2 (\<lambda>a v. value_has_type (arg_type a) v \<and> value_fits v)"

definition value_fields :: "arg list \<Rightarrow> gen_value list \<Rightarrow> field list" where
  "value_fields as vs = map2 (\<lambda>a v. value_field (arg_type a) v) as vs"

lemma value_call_arg:
  assumes "value_has_type t v" and "value_fits v"
  obtains c where "call_arg_expr t v = Some c" "arg_fds c = value_fds v"
    "\<And>ps cs. arg_fields (magic_for_arg t @ ps) (c # cs) = map_option ((#) (value_field t v)) (arg_fields ps cs)"
  using assms
  by (cases t; cases v; simp add: magic_try_from_def split: option.split)

lemma build_call_args_fields:
  assumes "args_fit as vs"
  shows "arg_fields (concat (map (magic_for_arg \<circ> arg_type) as)) (build_call_args as vs) = Some (value_fields as vs) \<and>
    concat (map arg_fds (build_call_args as vs)) = concat (map value_fds vs)"
  using assms
proof (induction as vs rule: list_all2_induct)
  case (Cons a as v vs)
  then obtain c where "call_arg_expr (arg_type a) v = Some c" "arg_fds c = value_fds v"
    "\<And>ps cs. arg_fields (magic_for_arg (arg_type a) @ ps) (c # cs) =
       map_option ((#) (value_field (arg_type a) v)) (arg_fields ps cs)"
    using value_call_arg[of "arg_type a" v] by metis
  with Cons.IH show ?case by (simp add: build_call_args_def value_fields_def)
qed (simp add: build_call_args_def value_fields_def)

section \<open>Reading what was written\<close>

lemma gen_word_cursor:
  assumes c: "cursor_at data n (to_le_bytes w @ rest)"
  shows "gen_word pr data n = Ok (w, n + 4)"
proof -
  have "n + 4 < usize_bound" using cursor_bound[OF c, of 4] by simp
  moreover have "slice_at data n (n + 4) = (Ok (to_le_bytes w) :: (error, bytes) res)"
    by (rule cursor_slice_at[OF c]) simp
  ultimately show ?thesis by (simp add: gen_word_def) (simp add: to_le_bytes_def)
qed

lemma gen_len_cursor:
  assumes "varint_repr pr V k" and "cursor_at data n (V @ rest)"
  shows "gen_len pr data n = Ok (k, n + length V)"
  using varint_repr_cursor[OF assms] cursor_bound[OF assms(2), of "length V"] by (simp add: gen_len_def)

lemma gen_string_cursor:
  assumes "varint_repr pr V (length s)" and c: "cursor_at data n (V @ s @ rest)" and "utf8_valid s"
  shows "gen_string pr data n = Ok (s, n + length V + length s)"
proof -
  have c2: "cursor_at data (n + length V) (s @ rest)" by (rule cursor_advance[OF c refl])
  show ?thesis
    using gen_len_cursor[OF assms(1) c] cursor_bound[OF c2, of "length s"]
      cursor_slice_at[OF c2 refl, where ?'b = error] assms(3)
    by (simp add: gen_string_def from_utf8_lossy_valid)
qed

lemma gen_loop_words:
  "cursor_at data n (concat (map to_le_bytes ws) @ rest) \<Longrightarrow>
     gen_loop (gen_word pr data) (length ws) n = Ok (ws, n + length (concat (map to_le_bytes ws)))"
proof (induction ws arbitrary: n)
  case (Cons w ws)
  then have c: "cursor_at data n (to_le_bytes w @ concat (map to_le_bytes ws) @ rest)" by simp
  from Cons.IH[OF cursor_advance[OF c, of 4]] gen_word_cursor[OF c] show ?case by (simp add: ac_simps)
qed simp

lemma gen_loop_strings:
  "cursor_at data n (P @ rest) \<Longrightarrow> blobs_rep pr ss P \<Longrightarrow> \<forall>s \<in> set ss. utf8_valid s \<Longrightarrow>
     gen_loop (gen_string pr data) (length ss) n = Ok (ss, n + length P)"
proof (induction ss arbitrary: n P)
  case (Cons s ss)
  then obtain V P' where V: "varint_repr pr V (length s)" and P: "P = V @ s @ P'" and P': "blobs_rep pr ss P'"
    by auto
  have c: "cursor_at data n (V @ s @ P' @ rest)" using Cons.prems(1) P by simp
  have c2: "cursor_at data (n + length V + length s) (P' @ rest)"
    by (rule cursor_advance[OF cursor_advance[OF c refl] refl])
  from Cons.IH[OF c2 P'] gen_string_cursor[OF V c] Cons.prems(3) P show ?case by (simp add: ac_simps)
qed simp

lemma gen_count_cursor:
  assumes V: "varint_repr pr V k" and c: "cursor_at data n (t # m # V @ rest)" and k: "k < 10000" "elem \<le> 24"
  shows "gen_count pr elem data n = Ok (k, n + 2 + length V)" "cursor_at data (n + 2 + length V) rest"
proof -
  have c2: "cursor_at data (n + 2) (V @ rest)" using cursor_next[OF cursor_next[OF c]] by simp
  then show "cursor_at data (n + 2 + length V) rest" by (rule cursor_advance) simp
  have "k * elem \<le> 10000 * 24" using k by (intro mult_le_mono) simp_all
  then have "with_capacity elem k = Ok ()" by (simp add: with_capacity_def isize_max_def)
  then show "gen_count pr elem data n = Ok (k, n + 2 + length V)"
    using cursor_bound[OF c, of 2] gen_len_cursor[OF V c2] by (simp add: gen_count_def)
qed

lemma gen_scalar_cursor:
  assumes c: "cursor_at data n (t # to_le_bytes w @ rest)"
  shows "gen_scalar pr data n = Ok (w, n + 5)"
  using gen_word_cursor[OF cursor_next[OF c]] cursor_bound[OF c, of 1] by (simp add: gen_scalar_def)

lemma write_parse_arg_cursor:
  assumes typed: "value_has_type t v" and rep: "field_rep pr (value_field t v) F"
    and c: "cursor_at data n (F @ rest)"
  shows "write_parse_arg pr data t (n, value_fds v @ fds) = Ok (v, n + length F, fds)"
proof -
  have words: "gen_array pr 4 (gen_word pr data) data n = Ok (ws, n + length F)"
    if "field_rep pr (FWords m ws) F" for m ws
  proof -
    from that obtain V where V: "varint_repr pr V (length ws)" and len: "length ws < 10000"
      and F: "F = magic_u8 TypeArray # magic_u8 m # V @ concat (map to_le_bytes ws)" by auto
    have c': "cursor_at data n (magic_u8 TypeArray # magic_u8 m # V @ concat (map to_le_bytes ws) @ rest)"
      using c F by simp
    from gen_loop_words[OF gen_count_cursor(2)[OF V c' len, of 4]] gen_count_cursor(1)[OF V c' len, of 4]
    show ?thesis by (simp add: gen_array_def F del: magic_u8.simps)
  qed
  have scalar: "gen_scalar pr data n = Ok (w, n + length F)" if "field_rep pr (FWord m w) F" for m w
    using that gen_scalar_cursor[of data n "magic_u8 m" w rest pr] c by (auto simp del: magic_u8.simps)
  show ?thesis
  proof (cases v)
    case (VString str)
    with typed have t: "t = TVarchar" "utf8_valid str" by (cases t; simp)+
    from VString rep obtain V where V: "varint_repr pr V (length str)" and F: "F = magic_u8 TypeVarchar # V @ str"
      by auto
    have c1: "cursor_at data (n + 1) (V @ str @ rest)" using cursor_next[of data n] c F by simp
    from gen_string_cursor[OF V c1 t(2)] cursor_bound[OF c, of 1] F t(1) VString
    show ?thesis by (simp add: gen_returns_def)
  next
    case (VFd fd)
    with typed have t: "t = TFd" "fd \<noteq> - 1" by (cases t; simp)+
    with rep VFd cursor_bound[OF c, of 1] show ?thesis by simp
  next
    case (VStrings ss)
    with typed have t: "t = TArrayVarchar" "\<forall>s \<in> set ss. utf8_valid s" by (cases t; simp)+
    from VStrings rep obtain V P where V: "varint_repr pr V (length ss)" and len: "length ss < 10000"
      and P: "blobs_rep pr ss P" and F: "F = magic_u8 TypeArray # magic_u8 TypeVarchar # V @ P" by auto
    have c': "cursor_at data n (magic_u8 TypeArray # magic_u8 TypeVarchar # V @ P @ rest)" using c F by simp
    from gen_loop_strings[OF gen_count_cursor(2)[OF V c' len, of 24] P t(2)] gen_count_cursor(1)[OF V c' len, of 24]
    show ?thesis by (simp add: VStrings t(1) gen_array_def gen_returns_def F)
  next
    case (VFds xs)
    with typed have t: "t = TArrayFd" "- 1 \<notin> set xs" by (cases t; simp)+
    from VFds rep obtain V where V: "varint_repr pr V (length xs)" and len: "length xs < 10000"
      and F: "F = magic_u8 TypeArray # magic_u8 TypeFd # V" by auto
    have c': "cursor_at data n (magic_u8 TypeArray # magic_u8 TypeFd # V @ rest)" using c F by simp
    from gen_count_cursor(1)[OF V c' len, of 4] t show ?thesis by (simp add: VFds F)
  next
    case (VUint x)
    with typed have "t = TUint" by (cases t; simp)
    with VUint scalar[of TypeUint x] rep show ?thesis by (simp add: gen_returns_def del: field_rep.simps)
  next
    case (VInt x)
    with typed have "t = TInt" by (cases t; simp)
    with VInt scalar[of TypeInt x] rep show ?thesis by (simp add: gen_returns_def del: field_rep.simps)
  next
    case (VF32 x)
    with typed have "t = TF32" by (cases t; simp)
    with VF32 scalar[of TypeF32 x] rep show ?thesis by (simp add: gen_returns_def del: field_rep.simps)
  next
    case (VEnum x)
    with typed have "t = TEnum" by (cases t; simp)
    with VEnum scalar[of TypeUint x] rep show ?thesis by (simp add: gen_returns_def del: field_rep.simps)
  next
    case (VUints x)
    with typed have "t = TArrayUint" by (cases t; simp)
    with VUints words[of TypeUint x] rep show ?thesis by (simp add: gen_returns_def del: field_rep.simps)
  next
    case (VInts x)
    with typed have "t = TArrayInt" by (cases t; simp)
    with VInts words[of TypeInt x] rep show ?thesis by (simp add: gen_returns_def del: field_rep.simps)
  next
    case (VF32s x)
    with typed have "t = TArrayF32" by (cases t; simp)
    with VF32s words[of TypeF32 x] rep show ?thesis by (simp add: gen_returns_def del: field_rep.simps)
  qed
qed

lemma parse_args_cursor:
  assumes "args_fit as vs" and "fields_rep pr (value_fields as vs) B" and "cursor_at data n (B @ rest)"
  shows "parse_args pr data as (n, concat (map value_fds vs) @ fds) = Ok vs"
  using assms
proof (induction as vs arbitrary: n B rule: list_all2_induct)
  case (Cons a as v vs)
  then obtain F B' where F: "field_rep pr (value_field (arg_type a) v) F" and B: "B = F @ B'"
    and B': "fields_rep pr (value_fields as vs) B'" by (auto simp: value_fields_def)
  have c: "cursor_at data n (F @ B' @ rest)" using Cons.prems(2) B by simp
  have "parse_args pr data as (n + length F, concat (map value_fds vs) @ fds) = Ok vs"
    by (rule Cons.IH[OF B' cursor_advance[OF c refl]])
  moreover have "value_has_type (arg_type a) v" using Cons.hyps by simp
  ultimately show ?case
    using write_parse_arg_cursor[OF _ F c, of "concat (map value_fds vs) @ fds"] by simp
qed simp

section \<open>A generated call arrives\<close>

text \<open>
  Wherever the bytes lie in a stream, the receiver reads them as a call of method \<open>i\<close> of the object, takes
  exactly the descriptors, and \<open>P\<close> holds of the bytes and descriptors it dispatches.
\<close>

definition arrives ::
    "bytes \<Rightarrow> i32 list \<Rightarrow> u32 \<Rightarrow> u32 \<Rightarrow> (profile \<Rightarrow> bytes \<Rightarrow> i32 list \<Rightarrow> bool) \<Rightarrow> bool" where
  "arrives data fds oid i P \<longleftrightarrow>
     (\<forall>pr pre post more. length (pre @ data @ post) \<le> isize_max \<longrightarrow>
       (\<exists>msg span. generic_from_bytes pr (pre @ data @ post) (fds @ more) (length pre) = Some (Ok (msg, more)) \<and>
          gm_object msg = oid \<and> gm_method msg = i \<and> data_span msg = Ok span \<and> P pr span (gm_fds msg)))"

lemma arrives_mono:
  "arrives data fds oid i P \<Longrightarrow> (\<And>pr span xs. P pr span xs \<Longrightarrow> Q pr span xs) \<Longrightarrow> arrives data fds oid i Q"
  unfolding arrives_def by meson

text \<open>The arguments, and the sequence number of a returning method, as the generated code reads them.\<close>

definition reads_call :: "method_decl \<Rightarrow> u32 \<Rightarrow> gen_value list \<Rightarrow> profile \<Rightarrow> bytes \<Rightarrow> i32 list \<Rightarrow> bool" where
  "reads_call m seq vs pr span fds \<longleftrightarrow>
     (if md_returns m = None then parse_args pr span (md_args m) (0, fds) = Ok vs
      else gen_scalar pr span 0 = Ok (seq, 5) \<and> parse_args pr span (md_args m) (5, fds) = Ok vs)"

lemma reads_call_span:
  assumes fit: "args_fit (md_args m) vs" and returns: "md_returns m \<noteq> Some []"
    and rep: "fields_rep pr (call_fields (write_method_spec n m) ns (value_fields (md_args m) vs)) B"
    and len: "length (B @ [magic_u8 End]) \<le> isize_max"
  shows "reads_call m (call_seq (write_method_spec n m) ns) vs pr (B @ [magic_u8 End]) (concat (map value_fds vs))"
proof -
  let ?span = "B @ [magic_u8 End]"
  have c: "cursor_at ?span 0 ?span" by (rule cursor_start[OF len])
  show ?thesis
  proof (cases "md_returns m")
    case None
    then have "fields_rep pr (value_fields (md_args m) vs) B"
      using rep by (simp add: call_fields_def write_method_spec_def)
    from parse_args_cursor[OF fit this c, of "[]"] None show ?thesis by (simp add: reads_call_def)
  next
    case (Some returned)
    let ?seq = "call_seq (write_method_spec n m) ns"
    from Some rep returns obtain B' where B': "B = magic_u8 TypeSeq # to_le_bytes ?seq @ B'"
      and rep': "fields_rep pr (value_fields (md_args m) vs) B'"
      by (auto simp: call_fields_def write_method_spec_def)
    have c0: "cursor_at ?span 0 (magic_u8 TypeSeq # to_le_bytes ?seq @ B' @ [magic_u8 End])" using c B' by simp
    have c5: "cursor_at ?span 5 (B' @ [magic_u8 End])"
      using cursor_advance[OF cursor_next[OF c0], of 4] by simp
    from parse_args_cursor[OF fit rep' c5, of "[]"] gen_scalar_cursor[OF c0] Some show ?thesis
      by (simp add: reads_call_def del: magic_u8.simps)
  qed
qed

lemma generated_message:
  fixes ms :: "method_decl list" and i :: u32 and ns :: "u32 option"
  defines "m \<equiv> ms ! unat i"
  defines "seq \<equiv> call_seq (write_method_spec (unat i) m) ns"
  assumes i: "unat i < length ms" and fit: "args_fit (md_args m) vs"
    and returns: "md_returns m \<noteq> Some []" "server \<Longrightarrow> md_returns m = None"
  obtains data where "wire_call server (method_specs ms) oid version ns i (build_call_args (md_args m) vs) =
      Ok (CallMessage (md_destructor m) seq data (concat (map value_fds vs)))"
    "arrives data (concat (map value_fds vs)) oid i (reads_call m seq vs)"
    "\<And>pr. generic_sendable pr (generic_message_new data (concat (map value_fds vs)))"
proof -
  let ?spec = "write_method_spec (unat i) m"
  let ?fds = "concat (map value_fds vs)"
  let ?fs = "call_fields ?spec ns (value_fields (md_args m) vs)"
  note args = build_call_args_fields[OF fit]
  have nth: "method_specs ms ! unat i = ?spec" using i by (simp add: method_specs_nth m_def)
  have call: "\<exists>B. wire_call server (method_specs ms) oid version ns i (build_call_args (md_args m) vs) =
      Ok (CallMessage (md_destructor m) seq (generic_bytes oid i B) ?fds) \<and>
      fields_rep pr ?fs B \<and> fields_fds ?fs = length ?fds" for pr
  proof -
    have "destructor ?spec = md_destructor m" "since ?spec \<le> version" "\<not> (returns_type ?spec \<noteq> [] \<and> server)"
      and "arg_fields (method_params ?spec) (build_call_args (md_args m) vs) = Some (value_fields (md_args m) vs)"
      using args returns(2) by (auto simp: write_method_spec_def)
    with wire_call_message[of i "method_specs ms" ?spec version server "build_call_args (md_args m) vs"
        "value_fields (md_args m) vs" oid ns pr] i nth args
    show ?thesis by (simp add: seq_def)
  qed
  then obtain data where data: "wire_call server (method_specs ms) oid version ns i (build_call_args (md_args m) vs) =
      Ok (CallMessage (md_destructor m) seq data ?fds)" by blast
  have "\<exists>msg span. generic_from_bytes pr (pre @ data @ post) (?fds @ more) (length pre) = Some (Ok (msg, more)) \<and>
      gm_object msg = oid \<and> gm_method msg = i \<and> data_span msg = Ok span \<and> reads_call m seq vs pr span (gm_fds msg)"
    if len: "length (pre @ data @ post) \<le> isize_max" for pr pre post more
  proof -
    from call[of pr] data obtain B where B: "data = generic_bytes oid i B" "fields_rep pr ?fs B"
      "fields_fds ?fs = length ?fds" by auto
    let ?msg = "generic_parsed oid i ?fs B (?fds @ more)"
    have "cursor_at (pre @ data @ post) (length pre) (generic_bytes oid i B @ post)"
      using cursor_append[OF len] B(1) by simp
    from generic_from_bytes_fwd[OF B(2) this, of "?fds @ more"] B(3)
    have "generic_from_bytes pr (pre @ data @ post) (?fds @ more) (length pre) = Some (Ok (?msg, more))" by simp
    moreover have "gm_object ?msg = oid" "gm_method ?msg = i" and fds: "gm_fds ?msg = ?fds"
      using B(3) by (simp_all add: generic_parsed_def)
    moreover have "reads_call m seq vs pr (B @ [magic_u8 End]) ?fds"
      unfolding seq_def using len B(1) by (intro reads_call_span fit returns(1) B(2)) simp
    moreover note data_span_parsed[of oid i ?fs B "?fds @ more"]
    ultimately show ?thesis using fds by metis
  qed
  then have "arrives data ?fds oid i (reads_call m seq vs)" unfolding arrives_def by blast
  moreover have "generic_sendable pr (generic_message_new data ?fds)" for pr
  proof -
    from call[of pr] data obtain B where "data = generic_bytes oid i B" "fields_rep pr ?fs B" "fields_fds ?fs = length ?fds"
      by auto
    then show ?thesis unfolding generic_sendable_def
      by (intro exI[of _ oid] exI[of _ i] exI[of _ ?fs] exI[of _ B]) (simp add: generic_message_new_def)
  qed
  ultimately show thesis using that[OF data] by blast
qed

text \<open>What the receiver makes of such a message.\<close>

lemma arrives_received:
  assumes "arrives data fds oid i P" and "length data \<le> isize_max"
  obtains span where "gm_object (received pr (generic_message_new data fds)) = oid"
    "gm_method (received pr (generic_message_new data fds)) = i"
    "data_span (received pr (generic_message_new data fds)) = Ok span"
    "P pr span (gm_fds (received pr (generic_message_new data fds)))"
proof -
  have "length ([] @ data @ []) \<le> isize_max" using assms(2) by simp
  with assms(1) obtain msg span where msg: "generic_from_bytes pr ([] @ data @ []) (fds @ []) (length ([] :: bytes)) = Some (Ok (msg, []))"
    "gm_object msg = oid" "gm_method msg = i" "data_span msg = Ok span" "P pr span (gm_fds msg)"
    unfolding arrives_def by blast
  then have "received pr (generic_message_new data fds) = msg"
    by (simp add: received_def generic_message_new_def)
  with msg(2-) show thesis using that by metis
qed

section \<open>Properties\<close>

text \<open>C10: A generated call arrives as it was made: for every method of an object and all arguments of its
  types within the receiver's limits, the call the generated \<open>send_\<close> function makes under the
  generated spec is accepted and marshalled, and from wherever the message lies in a stream the
  server's generated \<open>dispatch\<close> gives the application's handler exactly these arguments; for a method
  with a return type it first creates the object, under the sequence number of the call, and
  installs its data.\<close>
theorem generated_call_roundtrip:
  fixes p :: protocol and obj :: object_decl and i :: u32 and ns :: "u32 option"
    and handler :: "gen_event \<Rightarrow> 'd \<Rightarrow> (gen_data, 'd) prog"
  defines "m \<equiv> od_c2s obj ! unat i"
  defines "seq \<equiv> call_seq (write_method_spec (unat i) m) ns"
  assumes obj: "find_object_decl p name = Some obj" and i: "unat i < length (od_c2s obj)"
    and fit: "args_fit (md_args m) vs" and returns: "md_returns m \<noteq> Some []"
  shows "\<exists>data. wire_call False (c2s (generate_object_spec obj)) oid version ns i (build_call_args (md_args m) vs) =
      Ok (CallMessage (md_destructor m) seq data (concat (map value_fds vs))) \<and>
    arrives data (concat (map value_fds vs)) oid i (\<lambda>pr span fds.
      server_dispatch pr p handler \<lparr>gd_object = r, gd_name = name\<rparr> i span fds app =
      (case md_returns m of
         None \<Rightarrow> handler \<lparr>ge_object = r, ge_method = i, ge_returned = None, ge_seq = None, ge_args = vs\<rparr> app
       | Some returned \<Rightarrow> CreateObject r returned seq (\<lambda>new. case new of
           None \<Rightarrow> Finish
         | Some n \<Rightarrow> SetData n \<lparr>gd_object = n, gd_name = returned\<rparr>
             (handler \<lparr>ge_object = r, ge_method = i, ge_returned = Some n, ge_seq = None, ge_args = vs\<rparr> app))))"
proof -
  have specs: "c2s (generate_object_spec obj) = method_specs (od_c2s obj)" by (simp add: generate_object_spec_def)
  obtain data where call: "wire_call False (method_specs (od_c2s obj)) oid version ns i (build_call_args (md_args m) vs) =
      Ok (CallMessage (md_destructor m) seq data (concat (map value_fds vs)))"
    and arrived: "arrives data (concat (map value_fds vs)) oid i (reads_call m seq vs)"
    using generated_message[OF i fit[unfolded m_def] returns[unfolded m_def], of False oid version ns]
    unfolding m_def seq_def by blast
  show ?thesis
    unfolding specs
    by (rule exI[of _ data], rule conjI[OF call], rule arrives_mono[OF arrived])
      (use obj i in \<open>auto simp: reads_call_def server_dispatch_def server_dispatch_arm_def write_new_fn_def Let_def get_def m_def
        split: option.split\<close>)
qed

text \<open>C14: A generated event arrives as it was made, in the same way: the server's call of a method without a
  return type reaches the handler of the client with exactly its arguments.\<close>
theorem generated_event_roundtrip:
  fixes p :: protocol and obj :: object_decl and i :: u32
    and handler :: "gen_event \<Rightarrow> 'd \<Rightarrow> (gen_data, 'd) cprog"
  defines "m \<equiv> od_s2c obj ! unat i"
  assumes obj: "find_object_decl p name = Some obj" and i: "unat i < length (od_s2c obj)"
    and fit: "args_fit (md_args m) vs" and returns: "md_returns m = None"
  shows "\<exists>data. wire_call True (s2c (generate_object_spec obj)) oid version None i (build_call_args (md_args m) vs) =
      Ok (CallMessage (md_destructor m) 0 data (concat (map value_fds vs))) \<and>
    arrives data (concat (map value_fds vs)) oid i (\<lambda>pr span fds.
      client_dispatch pr p handler \<lparr>gd_object = r, gd_name = name\<rparr> i span fds app =
      handler \<lparr>ge_object = r, ge_method = i, ge_returned = None, ge_seq = None, ge_args = vs\<rparr> app)"
proof -
  have specs: "s2c (generate_object_spec obj) = method_specs (od_s2c obj)" by (simp add: generate_object_spec_def)
  have seq: "call_seq (write_method_spec (unat i) (od_s2c obj ! unat i)) None = 0" by (simp add: call_seq_def)
  have "md_returns (od_s2c obj ! unat i) \<noteq> Some []" "md_returns (od_s2c obj ! unat i) = None"
    using returns by (simp_all add: m_def)
  from generated_message[OF i fit[unfolded m_def] this, of True oid version None]
  obtain data where call: "wire_call True (method_specs (od_s2c obj)) oid version None i (build_call_args (md_args m) vs) =
      Ok (CallMessage (md_destructor m) 0 data (concat (map value_fds vs)))"
    and arrived: "arrives data (concat (map value_fds vs)) oid i (reads_call m 0 vs)"
    unfolding m_def seq by blast
  show ?thesis
    unfolding specs
    by (rule exI[of _ data], rule conjI[OF call], rule arrives_mono[OF arrived])
      (use obj i returns in \<open>auto simp: reads_call_def client_dispatch_def client_dispatch_arm_def Let_def get_def m_def\<close>)
qed

text \<open>The generated \<open>dispatch\<close> trusts the peer: a call without any argument of a method that has a number,
  an enum or a descriptor as its first argument, or a return type, is a message the server reads and
  dispatches, and the generated code then panics.\<close>
theorem generated_dispatch_panics:
  fixes w :: "(gen_data, 'd) server" and i oid :: u32
  defines "msg \<equiv> generic_message_new (generic_bytes oid i []) []"
  assumes found: "find_object k oid w = Some r"
    and data: "so_data (sv_objects w ! r) = Some \<lparr>gd_object = r', gd_name = name\<rparr>"
    and obj: "find_object_decl p name = Some obj" and i: "unat i < length (od_c2s obj)"
    and reads: "md_returns (od_c2s obj ! unat i) \<noteq> None \<or>
      (\<exists>a as. md_args (od_c2s obj ! unat i) = a # as \<and> arg_type a \<in> {TUint, TInt, TF32, TEnum, TFd})"
  shows "sendable pr (MGeneric msg) \<and>
    (\<exists>w'. server_reads pr (server_dispatch pr p handler) k [MGeneric msg] w = Some (Panic, w'))"
proof -
  let ?parsed = "generic_parsed oid i [] [] []"
  have sendable: "generic_sendable pr msg"
    unfolding generic_sendable_def msg_def
    by (rule exI[of _ oid], rule exI[of _ i], rule exI[of _ "[]"], rule exI[of _ "[]"])
      (simp add: generic_message_new_def)
  have len: "length (generic_bytes oid i []) \<le> isize_max" by (simp add: isize_max_def)
  have "received pr msg = ?parsed"
    using generic_from_bytes_fwd[of pr "[]" "[]" "generic_bytes oid i []" 0 oid i "[]" "[]"] cursor_start[OF len]
    by (simp add: received_def msg_def generic_message_new_def)
  moreover have "gen_scalar pr [magic_u8 End] 0 = Panic" by (simp add: gen_scalar_def gen_word_def slice_at_def
    get_range_def usize_bound_def)
  then have "server_dispatch pr p handler \<lparr>gd_object = r', gd_name = name\<rparr> i [magic_u8 End] [] app = Crash" for app
    using obj i reads
    by (auto simp: server_dispatch_def server_dispatch_arm_def Let_def get_def usize_bound_def split: option.split)
  moreover have "gm_object ?parsed = oid" "gm_method ?parsed = i" "gm_fds ?parsed = []"
    by (simp_all add: generic_parsed_def)
  ultimately have "\<exists>w'. on_generic (server_dispatch pr p handler) k (received pr msg) w = Some (Panic, w')"
    using found data by (simp add: on_generic_def object_dispatch_def data_span_parsed lift_res_def run.simps[of Crash])
  moreover have "length (message_data (MGeneric msg)) \<le> isize_max"
    using len by (simp add: msg_def generic_message_new_def)
  then have "server_reads pr (server_dispatch pr p handler) k [MGeneric msg] w =
      on_generic (server_dispatch pr p handler) k (received pr msg) w"
    using sendable by (subst server_reads_one) (simp_all add: server_receive_def)
  ultimately show ?thesis using sendable by simp
qed

section \<open>Witnesses\<close>

definition example_arg :: "string \<Rightarrow> arg_type \<Rightarrow> arg" where
  "example_arg name t = \<lparr>arg_name = ascii name, arg_type = t, arg_interface = None, arg_summary = None\<rparr>"

definition example_decl :: object_decl where
  "example_decl = \<lparr>od_name = ascii ''root'', od_version = 1,
     od_c2s = [\<lparr>md_name = ascii ''put'', md_args = [example_arg ''n'' TUint, example_arg ''names'' TArrayVarchar,
         example_arg ''fd'' TFd], md_returns = None, md_destructor = False, md_description = None\<rparr>],
     od_s2c = [\<lparr>md_name = ascii ''done'', md_args = [example_arg ''code'' TInt], md_returns = None,
         md_destructor = False, md_description = None\<rparr>],
     od_description = None\<rparr>"

definition example_description :: protocol where
  "example_description = \<lparr>pt_name = ascii ''demo'', pt_version = 1, pt_objects = [example_decl], pt_enums = [],
     pt_copyright = None\<rparr>"

lemma example_decl_found: "find_object_decl example_description (ascii ''root'') = Some example_decl"
  by (simp add: find_object_decl_def example_description_def example_decl_def)

lemma example_decl_simps:
  "length (od_c2s example_decl) = 1" "length (od_s2c example_decl) = 1"
  "md_returns (od_c2s example_decl ! 0) = None" "md_returns (od_s2c example_decl ! 0) = None"
  "md_args (od_c2s example_decl ! 0) = [example_arg ''n'' TUint, example_arg ''names'' TArrayVarchar, example_arg ''fd'' TFd]"
  "md_args (od_s2c example_decl ! 0) = [example_arg ''code'' TInt]"
  "arg_type (example_arg name t) = t"
  by (simp_all add: example_decl_def example_arg_def)

theorem generated_call_roundtrip_witness:
  "\<exists>data. wire_call False (c2s (generate_object_spec example_decl)) 5 1 (Some 3) 0
      [ArgUint 7, ArgVarcharArray [ascii ''a'', []], ArgFd 3] = Ok (CallMessage (md_destructor (od_c2s example_decl ! 0))
        (call_seq (write_method_spec 0 (od_c2s example_decl ! 0)) (Some 3)) data [3]) \<and>
    arrives data [3] 5 0 (\<lambda>pr span fds.
      server_dispatch pr example_description (\<lambda>_ _. Finish) \<lparr>gd_object = 0, gd_name = ascii ''root''\<rparr> 0 span fds () = Finish)"
  using generated_call_roundtrip[OF example_decl_found, where i = 0 and vs = "[VUint 7, VStrings [ascii ''a'', []], VFd 3]"
      and oid = 5 and version = 1 and ns = "Some 3" and r = 0 and handler = "\<lambda>_ _. Finish" and app = "()"]
  by (simp add: example_decl_simps build_call_args_def isize_max_def)

theorem generated_event_roundtrip_witness:
  "\<exists>data. wire_call True (s2c (generate_object_spec example_decl)) 5 1 None 0 [ArgInt 7] =
      Ok (CallMessage (md_destructor (od_s2c example_decl ! 0)) 0 data []) \<and>
    arrives data [] 5 0 (\<lambda>pr span fds.
      client_dispatch pr example_description (\<lambda>_ _. CFinish) \<lparr>gd_object = 0, gd_name = ascii ''root''\<rparr> 0 span fds () =
        CFinish)"
  using generated_event_roundtrip[OF example_decl_found, where i = 0 and vs = "[VInt 7]" and oid = 5 and version = 1
      and r = 0 and handler = "\<lambda>_ _. CFinish" and app = "()"]
  by (simp add: example_decl_simps build_call_args_def)

definition example_generated :: "(gen_data, unit) server" where
  "example_generated = \<lparr>sv_impls = [], sv_objects = [\<lparr>so_client = 0,
       so_spec = Some (generate_object_spec example_decl), so_destroyed = False,
       so_data = Some \<lparr>gd_object = 0, gd_name = ascii ''root''\<rparr>, so_reading = False, so_id = 1, so_version = 1,
       so_seq = 1, so_protocol_name = ascii ''demo''\<rparr>],
     sv_client_heap = [(server_client_new 1 None)\<lparr>sc_objects := [0]\<rparr>], sv_clients = [0], sv_listener = False,
     sv_next_client_id = 2, sv_app = ()\<rparr>"

theorem generated_dispatch_panics_witness:
  "\<exists>w'. server_reads Release (server_dispatch Release example_description (\<lambda>_ _. Finish)) 0
     [MGeneric (generic_message_new (generic_bytes 1 0 []) [])] example_generated = Some (Panic, w')"
  using generated_dispatch_panics[where k = 0 and oid = 1 and w = example_generated and r = 0 and r' = 0
      and name = "ascii ''root''" and p = example_description and obj = example_decl and i = 0 and pr = Release
      and handler = "\<lambda>_ _. Finish"] example_decl_found
  by (simp add: example_decl_simps) (simp add: example_generated_def find_object_def)

end
