(* ===== verification/Generated_Objects.thy ===== *)
theory Generated_Objects
  imports Generated_Properties Client_Properties
begin

text \<open>
  The objects of the generated code. A request to bind a protocol reaches the application of a generated
  server, with the object of the protocol's first type; a generated \<open>send_\<close> function of a method with a
  return type gives the application of the client the object it made. In both the object has the spec
  that was generated for its type and the data by which \<open>dispatch\<close> knows it.
\<close>

section \<open>Binding\<close>

lemma run_SetData:
  "r < length (sv_objects w) \<Longrightarrow> \<not> so_reading (sv_objects w ! r) \<Longrightarrow> run (SetData r h k) w = run k (set_object_data r h w)"
  by (subst run.simps) simp

lemma generated_binds:
  fixes sv :: "(gen_data, 'd) server" and p :: protocol
  defines "r \<equiv> length (sv_objects sv)"
  assumes impl: "find_impl (sv_impls sv) (pt_name p) = Some im" and gen: "generate_server p bind = Ok im"
    and objs: "pt_objects p = obj # rest"
    and m: "bind_protocol_new (pt_name p) s version = Ok m" and name: "utf8_valid (pt_name p)" "length (pt_name p) \<le> 2 ^ 62"
    and version: "version \<noteq> 0" and k: "k < length (sv_client_heap sv)"
  obtains sv1 where "server_reads pr disp k [MBindProtocol m] sv = run (bind r) sv1"
    "sent (conn_at k sv) (conn_at k sv1) = [MNewObject (new_object_new s (sc_max_id (sv_client_heap sv ! k)))]"
    "sc_objects (sv_client_heap sv1 ! k) = sc_objects (sv_client_heap sv ! k) @ [r]"
    "sv_objects sv1 = sv_objects sv @ [\<lparr>so_client = k, so_spec = Some (generate_object_spec obj), so_destroyed = False,
      so_data = Some \<lparr>gd_object = r, gd_name = od_name obj\<rparr>, so_reading = False,
      so_id = sc_max_id (sv_client_heap sv ! k), so_version = version, so_seq = s, so_protocol_name = pt_name p\<rparr>]"
    "length (sv_client_heap sv1) = length (sv_client_heap sv)" "sv_app sv1 = sv_app sv"
    "sc_creds (sv_client_heap sv1 ! k) = sc_creds (sv_client_heap sv ! k)"
    "sc_alive (sv_client_heap sv1 ! k) = sc_alive (sv_client_heap sv ! k)"
proof -
  have im: "im_spec im = generate_spec p" "im_objects im = (od_name obj, \<lambda>r. write_new_fn (od_name obj) r (bind r)) #
      map (\<lambda>obj. (od_name obj, \<lambda>_. Finish)) rest"
    using gen by (auto simp: generate_server_def objs)
  have spec: "find_spec (sv_impls sv) (pt_name p) [] = Some (generate_object_spec obj)"
    by (simp add: find_spec_def impl im(1) generate_spec_def objs)
  obtain sv0 where create: "client_create_object k (pt_name p) [] version s sv = (r, sv0)"
    by (simp add: client_create_object_def r_def Let_def)
  let ?new = "\<lparr>so_client = k, so_spec = Some (generate_object_spec obj), so_destroyed = False, so_data = None,
    so_reading = False, so_id = sc_max_id (sv_client_heap sv ! k), so_version = version, so_seq = s,
    so_protocol_name = pt_name p\<rparr> :: gen_data server_object"
  let ?data = "\<lparr>gd_object = r, gd_name = od_name obj\<rparr>"
  let ?sv1 = "set_object_data r ?data sv0"
  have sv0: "sv_objects sv0 = sv_objects sv @ [?new]" "sv_impls sv0 = sv_impls sv"
      "conn_at k sv0 = send_message (MNewObject (new_object_new s (sc_max_id (sv_client_heap sv ! k)))) (conn_at k sv)"
      "sc_objects (sv_client_heap sv0 ! k) = sc_objects (sv_client_heap sv ! k) @ [r]"
      "length (sv_client_heap sv0) = length (sv_client_heap sv)" "sv_app sv0 = sv_app sv"
      "sc_creds (sv_client_heap sv0 ! k) = sc_creds (sv_client_heap sv ! k)"
      "sc_alive (sv_client_heap sv0 ! k) = sc_alive (sv_client_heap sv ! k)"
    using create k spec by (auto simp: client_create_object_def Let_def r_def upd_client_def conn_at_def)
  then have new: "sv_objects sv0 ! r = ?new" "r < length (sv_objects sv0)" by (simp_all add: r_def)
  have "on_bind r sv0 = write_new_fn (od_name obj) r (bind r)"
    using impl by (simp add: on_bind_def new(1) sv0(2) im(2) generate_object_spec_def)
  then have "server_reads pr disp k [MBindProtocol m] sv = run (bind r) ?sv1"
    using new run_SetData[of r sv0 ?data "bind r"] server_takes_bind[OF m name version create]
    by (simp add: write_new_fn_def)
  moreover have "sv_objects ?sv1 = sv_objects sv @ [?new\<lparr>so_data := Some ?data\<rparr>]" "sv_client_heap ?sv1 = sv_client_heap sv0"
    "sv_app ?sv1 = sv_app sv0"
    using sv0(1) by (simp_all add: set_object_data_def upd_object_def r_def)
  ultimately show thesis
    using sv0 by (intro that[of ?sv1]) (simp_all add: conn_at_def)
qed

text \<open>C13: A bind reaches the application: when a server with the generated implementation of a protocol, the first
  it has under the protocol's name, reads a request to bind it, it creates and announces an object of the
  protocol's first type, with the generated spec, the id next in turn and the version and number of the
  request, installs the object's data, and runs the handler's \<open>bind\<close> with the object.\<close>
theorem generated_bind:
  fixes sv :: "(gen_data, 'd) server" and p :: protocol
  defines "r \<equiv> length (sv_objects sv)"
  assumes impl: "find_impl (sv_impls sv) (pt_name p) = Some im" and gen: "generate_server p bind = Ok im"
    and objs: "pt_objects p = obj # rest"
    and m: "bind_protocol_new (pt_name p) s version = Ok m" and name: "utf8_valid (pt_name p)" "length (pt_name p) \<le> 2 ^ 62"
    and version: "version \<noteq> 0" and k: "k < length (sv_client_heap sv)"
  shows "\<exists>sv1. server_reads pr disp k [MBindProtocol m] sv = run (bind r) sv1 \<and>
    sent (conn_at k sv) (conn_at k sv1) = [MNewObject (new_object_new s (sc_max_id (sv_client_heap sv ! k)))] \<and>
    sc_objects (sv_client_heap sv1 ! k) = sc_objects (sv_client_heap sv ! k) @ [r] \<and>
    sv_objects sv1 ! r = \<lparr>so_client = k, so_spec = Some (generate_object_spec obj), so_destroyed = False,
      so_data = Some \<lparr>gd_object = r, gd_name = od_name obj\<rparr>, so_reading = False,
      so_id = sc_max_id (sv_client_heap sv ! k), so_version = version, so_seq = s, so_protocol_name = pt_name p\<rparr>"
  unfolding r_def
  by (rule generated_binds[OF impl gen objs m name version k, of pr disp]) (rule exI, rule conjI, assumption, simp)

definition example_generated_impl :: "(gen_data, unit) server_impl" where
  "example_generated_impl = \<lparr>im_spec = generate_spec example_description,
     im_objects = [(ascii ''root'', \<lambda>r. write_new_fn (ascii ''root'') r Finish)]\<rparr>"

definition example_rooted :: "(gen_data, unit) server" where
  "example_rooted = \<lparr>sv_impls = [example_generated_impl], sv_objects = [], sv_client_heap = [server_client_new 1 None],
     sv_clients = [0], sv_listener = False, sv_next_client_id = 2, sv_app = ()\<rparr>"

theorem generated_bind_witness:
  "\<exists>m sv1. bind_protocol_new (ascii ''demo'') 7 1 = Ok m \<and>
    server_reads Debug (server_dispatch Debug example_description (\<lambda>_ _. Finish)) 0 [MBindProtocol m] example_rooted =
      Some (Ok (), sv1) \<and>
    sent (conn_at 0 example_rooted) (conn_at 0 sv1) = [MNewObject (new_object_new 7 1)] \<and>
    so_data (sv_objects sv1 ! 0) = Some \<lparr>gd_object = 0, gd_name = ascii ''root''\<rparr>"
proof -
  obtain m where m: "bind_protocol_new (ascii ''demo'') 7 1 = Ok m"
    by (simp add: bind_protocol_new_def usize_bound_def)
  have "find_impl (sv_impls example_rooted) (pt_name example_description) = Some example_generated_impl"
    and "generate_server example_description (\<lambda>_. Finish) = Ok example_generated_impl"
    and "pt_objects example_description = [example_decl]" and "pt_name example_description = ascii ''demo''"
    by (simp_all add: find_impl_def example_rooted_def example_generated_impl_def example_description_def generate_spec_def
        generate_server_def example_decl_def)
  note facts = this
  have state: "length (sv_objects example_rooted) = 0" "0 < length (sv_client_heap example_rooted)"
    "sc_max_id (sv_client_heap example_rooted ! 0) = 1"
    by (simp_all add: example_rooted_def server_client_new_def)
  obtain sv1 where sv1: "server_reads Debug (server_dispatch Debug example_description (\<lambda>_ _. Finish)) 0 [MBindProtocol m]
      example_rooted = run Finish sv1"
    "sent (conn_at 0 example_rooted) (conn_at 0 sv1) = [MNewObject (new_object_new 7 1)]"
    "sv_objects sv1 ! 0 = \<lparr>so_client = 0, so_spec = Some (generate_object_spec example_decl), so_destroyed = False,
      so_data = Some \<lparr>gd_object = 0, gd_name = od_name example_decl\<rparr>, so_reading = False,
      so_id = 1, so_version = 1, so_seq = 7, so_protocol_name = ascii ''demo''\<rparr>"
    using generated_bind[where sv = example_rooted and p = example_description and s = 7 and version = 1 and k = 0
        and disp = "server_dispatch Debug example_description (\<lambda>_ _. Finish)" and pr = Debug and m = m,
        OF facts(1-3)] m state unfolding facts(4) state by auto
  have "od_name example_decl = ascii ''root''" by (simp add: example_decl_def)
  with m sv1 show ?thesis by (intro exI conjI) (assumption | simp)+
qed

section \<open>Sending\<close>

lemma find_generated_spec:
  "List.find (\<lambda>s. object_name s = name) (map generate_object_spec objs) =
     map_option generate_object_spec (List.find (\<lambda>obj. od_name obj = name) objs)"
  by (induction objs) (simp_all add: generate_object_spec_def)

lemma object_for_seq_upd:
  "(\<And>obj. co_seq (f obj) = co_seq obj) \<Longrightarrow> object_for_seq s (upd_cobj r f w) = object_for_seq s w"
  unfolding object_for_seq_def upd_cobj_def
  by (cases "r < length (cl_heap w)") (auto intro!: find_cong simp: nth_list_update list_update_beyond)

text \<open>
  What a generated \<open>send_\<close> function of a method with a return type does: its message, which arrives, and the
  object it makes.
\<close>

lemma generated_send_call:
  fixes w :: "(gen_data, 'd) client" and p :: protocol and r :: nat and i :: u32 and decl :: object_decl
    and vs :: "gen_value list"
  defines "obj \<equiv> cl_heap w ! r" and "n \<equiv> length (cl_heap w)" and "fds \<equiv> concat (map value_fds vs)"
  defines "m \<equiv> od_c2s decl ! unat i"
  assumes inv: "client_inv w" and r: "r < length (cl_heap w)" and q: "co_queue obj < length (cl_queues w)"
    and alive: "cl_alive w" "eq_alive (cl_queues w ! co_queue obj)"
    and unlocked: "\<not> cl_locked w" "\<not> eq_locked (cl_queues w ! co_queue obj)" and left: "cl_seq w \<noteq> - 1"
    and obj: "co_spec obj = Some (generate_object_spec decl)" "co_protocol_name obj = pt_name p"
    and impl: "List.find (\<lambda>im. spec_name im = pt_name p) (cl_impls w) = Some (generate_spec p)"
    and i: "unat i < length (od_c2s decl)" and fit: "args_fit (md_args m) vs"
    and returns: "md_returns m = Some returned" "returned \<noteq> []" "find_object_decl p returned = Some rdecl"
  obtains w' data where "run_client pr (client_send r i m vs k) w = run_client pr (k (Some n)) w'"
    "object_for_seq (cl_seq w + 1) w' = Some n" "length (cl_heap w') = Suc n"
    "cl_heap w' ! n = (fresh_object (generate_object_spec rdecl) (pt_name p) 0 (cl_seq w + 1) (co_queue obj) 1)
      \<lparr>co_data := Some \<lparr>gd_object = n, gd_name = returned\<rparr>\<rparr>"
    "co_id obj \<noteq> 0 \<Longrightarrow> sent (cl_conn w) (cl_conn w') = [MGeneric (generic_message_new data fds)]"
    "arrives data fds (co_id obj) i (reads_call m (cl_seq w + 1) vs)"
    "\<And>pr. generic_sendable pr (generic_message_new data fds)"
proof -
  have out: "client_methods_out obj = method_specs (od_c2s decl)"
    by (simp add: client_methods_out_def obj generate_object_spec_def)
  have rtype: "returns_type (client_methods_out obj ! unat i) = returned"
    using i returns(1) by (simp add: out method_specs_nth write_method_spec_def m_def)
  have "returns_type (write_method_spec (unat i) m) = returned"
    using returns(1) by (simp add: write_method_spec_def)
  then have seq: "call_seq (write_method_spec (unat i) m) (Some (cl_seq w + 1)) = cl_seq w + 1"
    using returns(2) by (simp add: call_seq_def)
  have "md_returns (od_c2s decl ! unat i) \<noteq> Some []" using returns by (simp add: m_def)
  from generated_message[OF i fit[unfolded m_def] this, of False "co_id obj" "co_version obj" "Some (cl_seq w + 1)"]
  obtain data where call: "wire_call False (client_methods_out obj) (co_id obj) (co_version obj) (Some (cl_seq w + 1)) i
      (build_call_args (md_args m) vs) = Ok (CallMessage (md_destructor m) (cl_seq w + 1) data fds)"
    and arrives: "arrives data fds (co_id obj) i (reads_call m (cl_seq w + 1) vs)"
    and sendable: "\<And>pr. generic_sendable pr (generic_message_new data fds)"
    unfolding out fds_def m_def[symmetric] seq by blast
  have "client_find_spec (cl_impls w) (co_protocol_name obj) (returns_type (client_methods_out obj ! unat i)) =
      Some (generate_object_spec rdecl)"
    using returns(3) by (simp add: client_find_spec_def obj(2) impl rtype generate_spec_def find_generated_spec
        find_object_decl_def)
  from returning_call_makes_object[OF inv r q[unfolded obj_def] alive(1) alive(2)[unfolded obj_def] unlocked(1)
      unlocked(2)[unfolded obj_def] left call[unfolded obj_def] _ this[unfolded obj_def], of pr] rtype returns(2)
  obtain w' where w': "client_call pr r i (build_call_args (md_args m) vs) w = Some (Ok (cl_seq w + 1), w')"
    "length (cl_heap w') = Suc n" "object_for_seq (cl_seq w + 1) w' = Some n"
    "cl_heap w' ! n = fresh_object (generate_object_spec rdecl) (pt_name p) 0 (cl_seq w + 1) (co_queue obj) 0"
    "co_id obj \<noteq> 0 \<Longrightarrow> c_out (cl_conn w') = c_out (cl_conn w) @ [MGeneric (generic_message_new data fds)]"
    by (auto simp: obj_def[symmetric] n_def obj(2))
  let ?w' = "client_set_data n \<lparr>gd_object = n, gd_name = returned\<rparr> (hold_object n w')"
  show thesis
  proof (rule that[OF _ _ _ _ _ arrives sendable])
    show "run_client pr (client_send r i m vs k) w = run_client pr (k (Some n)) ?w'"
      using r w' returns(1)
      by (simp add: client_send_def hold_found_def hold_object_def upd_cobj_def fresh_object_def)
    show "object_for_seq (cl_seq w + 1) ?w' = Some n"
      by (simp add: client_set_data_def hold_object_def object_for_seq_upd w'(3))
    show "cl_heap ?w' ! n = (fresh_object (generate_object_spec rdecl) (pt_name p) 0 (cl_seq w + 1) (co_queue obj) 1)
      \<lparr>co_data := Some \<lparr>gd_object = n, gd_name = returned\<rparr>\<rparr>"
      using w'(2,4) by (simp add: client_set_data_def hold_object_def upd_cobj_def fresh_object_def)
    show "sent (cl_conn w) (cl_conn ?w') = [MGeneric (generic_message_new data fds)]" if "co_id obj \<noteq> 0"
      using w'(5)[OF that] by (simp add: sent_def client_set_data_def hold_object_def upd_cobj_def)
    show "length (cl_heap ?w') = Suc n" using w'(2) by (simp add: client_set_data_def hold_object_def upd_cobj_def)
  qed
qed

text \<open>A generated \<open>send_\<close> function of a method with a return type gives the application the object it makes: for
  all arguments of the method's types within the receiver's limits, called outside of callbacks, it makes
  the call, and goes on with a new object that has the generated spec of the returned type, the data by
  which \<open>dispatch\<close> knows it, a reference held for the application, and no id yet.\<close>
theorem generated_send_makes_object:
  fixes w :: "(gen_data, 'd) client" and p :: protocol and r :: nat and i :: u32 and decl :: object_decl
  defines "obj \<equiv> cl_heap w ! r" and "n \<equiv> length (cl_heap w)"
  defines "m \<equiv> od_c2s decl ! unat i"
  assumes inv: "client_inv w" and r: "r < length (cl_heap w)" and q: "co_queue obj < length (cl_queues w)"
    and alive: "cl_alive w" "eq_alive (cl_queues w ! co_queue obj)"
    and unlocked: "\<not> cl_locked w" "\<not> eq_locked (cl_queues w ! co_queue obj)" and left: "cl_seq w \<noteq> - 1"
    and obj: "co_spec obj = Some (generate_object_spec decl)" "co_protocol_name obj = pt_name p"
    and impl: "List.find (\<lambda>im. spec_name im = pt_name p) (cl_impls w) = Some (generate_spec p)"
    and i: "unat i < length (od_c2s decl)" and fit: "args_fit (md_args m) vs"
    and returns: "md_returns m = Some returned" "returned \<noteq> []" "find_object_decl p returned = Some rdecl"
  shows "\<exists>w'. run_client pr (client_send r i m vs k) w = run_client pr (k (Some n)) w' \<and>
    object_for_seq (cl_seq w + 1) w' = Some n \<and>
    cl_heap w' ! n = (fresh_object (generate_object_spec rdecl) (pt_name p) 0 (cl_seq w + 1) (co_queue obj) 1)
      \<lparr>co_data := Some \<lparr>gd_object = n, gd_name = returned\<rparr>\<rparr>"
  by (rule generated_send_call[of w r decl p i vs returned rdecl pr k];
      use assms in \<open>(simp add: obj_def m_def n_def)?\<close>) blast

definition example_make :: method_decl where
  "example_make = \<lparr>md_name = ascii ''make'', md_args = [example_arg ''n'' TUint], md_returns = Some (ascii ''leaf''),
     md_destructor = False, md_description = None\<rparr>"

definition example_tree :: object_decl where
  "example_tree = \<lparr>od_name = ascii ''tree'', od_version = 1, od_c2s = [example_make], od_s2c = [], od_description = None\<rparr>"

definition example_leaf :: object_decl where
  "example_leaf = \<lparr>od_name = ascii ''leaf'', od_version = 1, od_c2s = [], od_s2c = [], od_description = None\<rparr>"

definition example_forest :: protocol where
  "example_forest = \<lparr>pt_name = ascii ''forest'', pt_version = 1, pt_objects = [example_tree, example_leaf], pt_enums = [],
     pt_copyright = None\<rparr>"

definition example_forester :: "(gen_data, unit) client" where
  "example_forester = \<lparr>cl_impls = [generate_spec example_forest], cl_specs = [], cl_objects = [0],
     cl_heap = [(fresh_object (generate_object_spec example_tree) (ascii ''forest'') 1 1 0 1)\<lparr>co_id := 7\<rparr>],
     cl_handshake_done = True, cl_seq = 1, cl_conn = conn_new, cl_queues = [event_queue_new], cl_locked = False,
     cl_alive = True, cl_app = ()\<rparr>"

lemma example_forester_inv: "client_inv example_forester"
  by (simp add: client_inv_def example_forester_def fresh_object_def)

theorem generated_send_makes_object_witness:
  "\<exists>w'. run_client Debug (client_send 0 0 example_make [VUint 3] (\<lambda>_. CFinish)) example_forester = Some (Ok (), w') \<and>
     object_for_seq 2 w' = Some 1 \<and> co_data (cl_heap w' ! 1) = Some \<lparr>gd_object = 1, gd_name = ascii ''leaf''\<rparr>"
proof -
  have state: "cl_seq example_forester = 1" "length (cl_heap example_forester) = 1"
    "co_queue (cl_heap example_forester ! 0) = 0" "cl_queues example_forester = [event_queue_new]"
    "cl_alive example_forester" "\<not> cl_locked example_forester"
    "co_spec (cl_heap example_forester ! 0) = Some (generate_object_spec example_tree)"
    "co_protocol_name (cl_heap example_forester ! 0) = pt_name example_forest"
    "List.find (\<lambda>im. spec_name im = pt_name example_forest) (cl_impls example_forester) = Some (generate_spec example_forest)"
    "od_c2s example_tree = [example_make]" "eq_alive event_queue_new" "\<not> eq_locked event_queue_new"
    "md_returns example_make = Some (ascii ''leaf'')" "md_args example_make = [example_arg ''n'' TUint]"
    "find_object_decl example_forest (ascii ''leaf'') = Some example_leaf"
    by (simp_all add: example_forester_def fresh_object_def event_queue_new_def example_forest_def generate_spec_def
        example_tree_def example_make_def example_leaf_def find_object_decl_def)
  from generated_send_makes_object[OF example_forester_inv, of 0 example_tree example_forest 0 "[VUint 3]" "ascii ''leaf''"
      example_leaf Debug "\<lambda>_. CFinish"] state
  obtain w' where "run_client Debug (client_send 0 0 example_make [VUint 3] (\<lambda>_. CFinish)) example_forester = Some (Ok (), w')"
    "object_for_seq 2 w' = Some 1" "co_data (cl_heap w' ! 1) = Some \<lparr>gd_object = 1, gd_name = ascii ''leaf''\<rparr>"
    by (auto simp: example_decl_simps)
  then show ?thesis by blast
qed

end
