(* ===== verification/Returned_Objects.thy ===== *)
theory Returned_Objects
  imports Generated_Objects
begin

text \<open>
  Objects that calls return, on both sides. The server's generated \<open>dispatch\<close> creates the object before it
  hands the call to the application, and the announcement of its id reaches the object the client made when
  it sent the call.
\<close>

section \<open>The server creates the object\<close>

text \<open>The implementation that was generated runs nothing when an object of another type than the first is bound.\<close>

lemma generated_on_bind:
  assumes "generate_server p bind = Ok im" and "find_impl (sv_impls w) (so_protocol_name (sv_objects w ! r)) = Some im"
    and "so_spec (sv_objects w ! r) = Some spec" and "object_name spec \<noteq> od_name (hd (pt_objects p))"
  shows "on_bind r w = Finish"
proof -
  have "(case List.find (\<lambda>(n, _). n = name) (map (\<lambda>obj. (od_name obj, \<lambda>_. Finish)) objs) of
      None \<Rightarrow> Finish | Some (_, callback) \<Rightarrow> callback r) = (Finish :: (gen_data, 'a) prog)" for name and objs :: "object_decl list"
    by (induction objs) auto
  with assms show ?thesis
    by (auto simp: on_bind_def generate_server_def split: list.splits)
qed

lemma find_name: "List.find (\<lambda>obj. od_name obj = name) objs = Some obj \<Longrightarrow> od_name obj = name"
  by (induction objs) (auto split: if_splits)

lemma generated_creates:
  fixes w :: "(gen_data, 'd) server" and p :: protocol and t :: nat
  defines "n \<equiv> length (sv_objects w)" and "j \<equiv> so_client (sv_objects w ! t)"
  assumes t: "t < length (sv_objects w)" "\<not> so_destroyed (sv_objects w ! t)" "so_protocol_name (sv_objects w ! t) = pt_name p"
    and j: "j < length (sv_client_heap w)" "sc_alive (sv_client_heap w ! j)"
    and impl: "find_impl (sv_impls w) (pt_name p) = Some im" "generate_server p bind = Ok im"
    and returned: "returned \<noteq> []" "find_object_decl p returned = Some rdecl" "returned \<noteq> od_name (hd (pt_objects p))"
  obtains w1 where
    "run (CreateObject t returned s (\<lambda>new. case new of None \<Rightarrow> Finish | Some n \<Rightarrow> write_new_fn returned n (k n))) w = run (k n) w1"
    "sent (conn_at j w) (conn_at j w1) = [MNewObject (new_object_new s (sc_max_id (sv_client_heap w ! j)))]"
    "sv_objects w1 = sv_objects w @ [\<lparr>so_client = j, so_spec = Some (generate_object_spec rdecl), so_destroyed = False,
      so_data = Some \<lparr>gd_object = n, gd_name = returned\<rparr>, so_reading = False,
      so_id = sc_max_id (sv_client_heap w ! j), so_version = so_version (sv_objects w ! t), so_seq = s,
      so_protocol_name = pt_name p\<rparr>]"
    "sv_app w1 = sv_app w"
proof -
  have name: "od_name rdecl = returned" using returned(2) by (auto simp: find_object_decl_def dest: find_name)
  have im: "im_spec im = generate_spec p" using impl(2) by (auto simp: generate_server_def split: list.splits)
  have spec: "find_spec (sv_impls w) (pt_name p) returned = Some (generate_object_spec rdecl)"
    using returned(1,2) impl(1)
    by (simp add: find_spec_def im generate_spec_def find_generated_spec find_object_decl_def)
  let ?new = "\<lparr>so_client = j, so_spec = Some (generate_object_spec rdecl), so_destroyed = False, so_data = None,
    so_reading = False, so_id = sc_max_id (sv_client_heap w ! j), so_version = so_version (sv_objects w ! t), so_seq = s,
    so_protocol_name = pt_name p\<rparr> :: gen_data server_object"
  let ?data = "\<lparr>gd_object = n, gd_name = returned\<rparr>"
  obtain w0 where w0: "object_create_object t returned s w = Some (n, w0)"
    "sv_objects w0 = sv_objects w @ [?new]" "sv_impls w0 = sv_impls w" "sv_app w0 = sv_app w"
    "conn_at j w0 = send_message (MNewObject (new_object_new s (sc_max_id (sv_client_heap w ! j)))) (conn_at j w)"
    using t j spec by (simp add: object_create_object_def client_create_object_def Let_def n_def j_def upd_client_def conn_at_def)
  have new: "sv_objects w0 ! n = ?new" "n < length (sv_objects w0)" using w0(2) by (simp_all add: n_def)
  have "on_bind n w0 = Finish"
    by (rule generated_on_bind[OF impl(2)])
      (use impl(1) w0(3) new name returned(3) in \<open>auto simp: generate_object_spec_def\<close>)
  then have "run (CreateObject t returned s (\<lambda>new. case new of None \<Rightarrow> Finish | Some n \<Rightarrow> write_new_fn returned n (k n))) w =
      run (k n) (set_object_data n ?data w0)"
    using t(1) w0(1) new by (subst run.simps) (simp add: write_new_fn_def run_SetData)
  moreover have "sent (conn_at j w) (conn_at j (set_object_data n ?data w0)) =
      [MNewObject (new_object_new s (sc_max_id (sv_client_heap w ! j)))]"
    using w0(5) by (simp add: set_object_data_def upd_object_def conn_at_def)
  moreover have "sv_objects (set_object_data n ?data w0) = sv_objects w @ [?new\<lparr>so_data := Some ?data\<rparr>]"
    "sv_app (set_object_data n ?data w0) = sv_app w"
    using w0(2,4) by (simp_all add: set_object_data_def upd_object_def n_def)
  ultimately show thesis using that[of "set_object_data n ?data w0"] by simp
qed

text \<open>The whole of a returning call on the server, for a method that is no destructor.\<close>

lemma generated_receives_call:
  fixes w :: "(gen_data, 'd) server" and p :: protocol and t k :: nat and handler :: "gen_event \<Rightarrow> 'd \<Rightarrow> (gen_data, 'd) prog"
  defines "n \<equiv> length (sv_objects w)" and "obj \<equiv> sv_objects w ! t"
  assumes t: "t < length (sv_objects w)" "\<not> so_destroyed obj" "so_protocol_name obj = pt_name p" "so_client obj = k"
      "so_spec obj = Some (generate_object_spec decl)" "so_data obj = Some \<lparr>gd_object = t, gd_name = od_name decl\<rparr>"
    and found: "find_object k (gm_object msg) w = Some t"
    and k: "k < length (sv_client_heap w)" "sc_alive (sv_client_heap w ! k)"
    and impl: "find_impl (sv_impls w) (pt_name p) = Some im" "generate_server p bind = Ok im"
    and decl: "find_object_decl p (od_name decl) = Some decl" "gm_method msg = i" "unat i < length (od_c2s decl)"
      "m = od_c2s decl ! unat i" "\<not> md_destructor m"
    and returned: "md_returns m = Some returned" "returned \<noteq> []" "find_object_decl p returned = Some rdecl"
      "returned \<noteq> od_name (hd (pt_objects p))"
    and reads: "data_span msg = Ok span" "reads_call m s vs pr span (gm_fds msg)"
  obtains w1 where "on_generic (server_dispatch pr p handler) k msg w =
      bind_eff (run (handler \<lparr>ge_object = t, ge_method = i, ge_returned = Some n, ge_seq = None, ge_args = vs\<rparr> (sv_app w)) w1)
        (\<lambda>_ w2. Some (Ok (), upd_object t (\<lambda>obj. obj\<lparr>so_reading := False\<rparr>) w2))"
    "sent (conn_at k w) (conn_at k w1) = [MNewObject (new_object_new s (sc_max_id (sv_client_heap w ! k)))]"
    "sv_objects w1 ! n = \<lparr>so_client = k, so_spec = Some (generate_object_spec rdecl), so_destroyed = False,
      so_data = Some \<lparr>gd_object = n, gd_name = returned\<rparr>, so_reading = False,
      so_id = sc_max_id (sv_client_heap w ! k), so_version = so_version obj, so_seq = s,
      so_protocol_name = pt_name p\<rparr>"
proof -
  let ?w = "upd_object t (\<lambda>obj. obj\<lparr>so_reading := True\<rparr>) w"
  let ?handler = "\<lambda>n. handler \<lparr>ge_object = t, ge_method = i, ge_returned = Some n, ge_seq = None, ge_args = vs\<rparr> (sv_app w)"
  have w: "sv_objects ?w ! t = obj\<lparr>so_reading := True\<rparr>" "length (sv_objects ?w) = n" "sv_client_heap ?w = sv_client_heap w"
    "sv_impls ?w = sv_impls w" "conn_at k ?w = conn_at k w" using t(1)
    by (simp_all add: upd_object_def obj_def n_def conn_at_def)
  obtain w1 where w1: "run (CreateObject t returned s
      (\<lambda>new. case new of None \<Rightarrow> Finish | Some n \<Rightarrow> write_new_fn returned n (?handler n))) ?w = run (?handler n) w1"
    "sent (conn_at k w) (conn_at k w1) = [MNewObject (new_object_new s (sc_max_id (sv_client_heap w ! k)))]"
    "sv_objects w1 = sv_objects ?w @ [\<lparr>so_client = k, so_spec = Some (generate_object_spec rdecl), so_destroyed = False,
      so_data = Some \<lparr>gd_object = n, gd_name = returned\<rparr>, so_reading = False,
      so_id = sc_max_id (sv_client_heap w ! k), so_version = so_version obj, so_seq = s,
      so_protocol_name = pt_name p\<rparr>]"
    using generated_creates[of t ?w p im bind returned rdecl s ?handler] t k impl returned(2-4) w by auto
  have "server_dispatch pr p handler \<lparr>gd_object = t, gd_name = od_name decl\<rparr> i span (gm_fds msg) (sv_app w) =
      CreateObject t returned s (\<lambda>new. case new of None \<Rightarrow> Finish | Some n \<Rightarrow> write_new_fn returned n (?handler n))"
    using decl(1,3,4) returned(1) reads(2)
    by (auto simp: reads_call_def server_dispatch_def server_dispatch_arm_def Let_def get_def fun_eq_iff split: option.split)
  then have dispatch: "object_dispatch (server_dispatch pr p handler) t i span (gm_fds msg) w =
      bind_eff (run (?handler n) w1) (\<lambda>_ w2. Some (Ok (), upd_object t (\<lambda>obj. obj\<lparr>so_reading := False\<rparr>) w2))"
    using t(6) w1(1) by (simp add: object_dispatch_def obj_def)
  have "so_spec (sv_objects w2 ! t) = Some (generate_object_spec decl)" if "run (?handler n) w1 = Some (Ok (), w2)" for w2
  proof -
    have "server_le w1 w2" using keepsD[OF evolution.keeps_run that] by simp
    moreover have "t < length (sv_objects w1)" "so_spec (sv_objects w1 ! t) = Some (generate_object_spec decl)"
      using w1(3) w(1,2) t(1,5) by (simp_all add: nth_append n_def)
    ultimately show ?thesis by (simp add: server_le_def object_le_def)
  qed
  then have no_destructor: "is_destructor (case so_spec (sv_objects (upd_object t (\<lambda>obj. obj\<lparr>so_reading := False\<rparr>) w2) ! t) of
      Some spec \<Rightarrow> c2s spec | None \<Rightarrow> []) i = False" if "run (?handler n) w1 = Some (Ok (), w2)" for w2
    using that decl(3-5)
    by (cases "t < length (sv_objects w2)")
      (simp_all add: upd_object_def is_destructor_def get_def generate_object_spec_def method_specs_nth
        write_method_spec_def list_update_beyond)
  have "on_generic (server_dispatch pr p handler) k msg w =
      bind_eff (run (?handler n) w1) (\<lambda>_ w2. Some (Ok (), upd_object t (\<lambda>obj. obj\<lparr>so_reading := False\<rparr>) w2))"
    using found reads(1) no_destructor
    by (auto simp: on_generic_def lift_res_def decl(2) dispatch Let_def bind_eff_def split: bind_splits res.splits)
  then show thesis using that w1(2,3) w(2) by (metis nth_append_length)
qed

section \<open>Both sides have the object\<close>

text \<open>C12: An object a call returns is the same on both sides: when a generated client calls, outside of callbacks, a
  method that returns an object of another type than the protocol's first and is no destructor, on an object the
  server knows by the same id and type, then the server, reading what the client sent, first of all creates
  and announces an object of the returned type and goes on to the handler with it and the arguments of the call; and the
  client, reading the announcement, gives the id to the object the call made. The two have the same id,
  sequence number, spec and protocol, each with the data of its own type; the client's has version 0, whatever the
  server's.\<close>
theorem returned_object_agrees:
  fixes cl :: "(gen_data, 'e) client" and sv :: "(gen_data, 'd) server" and p :: protocol and t r k :: nat and i :: u32
    and handler :: "gen_event \<Rightarrow> 'd \<Rightarrow> (gen_data, 'd) prog" and vs :: "gen_value list" and returned :: str
    and rdecl :: object_decl
  defines "cobj \<equiv> cl_heap cl ! r" and "sobj \<equiv> sv_objects sv ! t"
    and "cn \<equiv> length (cl_heap cl)" and "sn \<equiv> length (sv_objects sv)"
    and "announcement \<equiv> MNewObject (new_object_new (cl_seq cl + 1) (sc_max_id (sv_client_heap sv ! k)))"
    and "event \<equiv> \<lparr>ge_object = t, ge_method = i, ge_returned = Some (length (sv_objects sv)), ge_seq = None, ge_args = vs\<rparr>"
    and "server_obj \<equiv> \<lparr>so_client = k, so_spec = Some (generate_object_spec rdecl), so_destroyed = False,
      so_data = Some \<lparr>gd_object = length (sv_objects sv), gd_name = returned\<rparr>, so_reading = False,
      so_id = sc_max_id (sv_client_heap sv ! k), so_version = so_version (sv_objects sv ! t), so_seq = cl_seq cl + 1,
      so_protocol_name = pt_name p\<rparr>"
    and "client_obj \<equiv> (fresh_object (generate_object_spec rdecl) (pt_name p) 0 (cl_seq cl + 1) (co_queue (cl_heap cl ! r)) 1)
      \<lparr>co_data := Some \<lparr>gd_object = length (cl_heap cl), gd_name = returned\<rparr>\<rparr>"
  assumes client: "client_inv cl" "r < cn" "co_queue cobj < length (cl_queues cl)" "cl_alive cl"
      "eq_alive (cl_queues cl ! co_queue cobj)" "\<not> cl_locked cl" "\<not> eq_locked (cl_queues cl ! co_queue cobj)"
      "cl_seq cl \<noteq> - 1" "List.find (\<lambda>im. spec_name im = pt_name p) (cl_impls cl) = Some (generate_spec p)"
    and cobj: "co_spec cobj = Some (generate_object_spec decl)" "co_protocol_name cobj = pt_name p" "co_id cobj \<noteq> 0"
    and server: "k < length (sv_client_heap sv)" "sc_alive (sv_client_heap sv ! k)" "t < sn"
      "find_impl (sv_impls sv) (pt_name p) = Some im" "generate_server p bind = Ok im"
    and sobj: "find_object k (co_id cobj) sv = Some t" "so_client sobj = k" "\<not> so_destroyed sobj"
      "so_spec sobj = Some (generate_object_spec decl)" "so_protocol_name sobj = pt_name p"
      "so_data sobj = Some \<lparr>gd_object = t, gd_name = od_name decl\<rparr>"
    and m: "find_object_decl p (od_name decl) = Some decl" "unat i < length (od_c2s decl)" "m = od_c2s decl ! unat i"
      "args_fit (md_args m) vs" "\<not> md_destructor m"
    and returned: "md_returns m = Some returned" "returned \<noteq> []" "find_object_decl p returned = Some rdecl"
      "returned \<noteq> od_name (hd (pt_objects p))"
  shows "\<exists>cl1 msg cl2. run_client pr (client_send r i m vs (\<lambda>_. CFinish)) cl = Some (Ok (), cl1) \<and>
    sent (cl_conn cl) (cl_conn cl1) = [MGeneric msg] \<and>
    (length (gm_data msg) \<le> isize_max \<longrightarrow>
      (\<exists>sv1. server_reads pr' (server_dispatch pr' p handler) k [MGeneric msg] sv =
          bind_eff (run (handler event (sv_app sv)) sv1)
            (\<lambda>_ sv2. Some (Ok (), upd_object t (\<lambda>obj. obj\<lparr>so_reading := False\<rparr>) sv2)) \<and>
        sent (conn_at k sv) (conn_at k sv1) = [announcement] \<and> sv_objects sv1 ! sn = server_obj)) \<and>
    client_reads pr cdisp q [announcement] cl1 = Some (Ok (), cl2) \<and>
    cl_heap cl2 ! cn = client_obj\<lparr>co_id := so_id server_obj\<rparr>"
proof -
  let ?fds = "concat (map value_fds vs)"
  obtain cl1 data where sends: "run_client pr (client_send r i m vs (\<lambda>_. CFinish)) cl = Some (Ok (), cl1)"
    and obj: "object_for_seq (cl_seq cl + 1) cl1 = Some cn" "length (cl_heap cl1) = Suc cn" "cl_heap cl1 ! cn = client_obj"
    and sent: "sent (cl_conn cl) (cl_conn cl1) = [MGeneric (generic_message_new data ?fds)]"
    and arrives: "arrives data ?fds (co_id cobj) i (reads_call m (cl_seq cl + 1) vs)"
    and sendable: "\<And>pr. generic_sendable pr (generic_message_new data ?fds)"
    using generated_send_call[of cl r decl p i vs returned rdecl pr "\<lambda>_. CFinish"] client cobj m returned
    unfolding cobj_def cn_def client_obj_def by auto
  let ?msg = "generic_message_new data ?fds"
  have "\<exists>sv1. server_reads pr' (server_dispatch pr' p handler) k [MGeneric ?msg] sv =
          bind_eff (run (handler event (sv_app sv)) sv1)
            (\<lambda>_ sv2. Some (Ok (), upd_object t (\<lambda>obj. obj\<lparr>so_reading := False\<rparr>) sv2)) \<and>
        sent (conn_at k sv) (conn_at k sv1) = [announcement] \<and> sv_objects sv1 ! sn = server_obj"
    if len: "length data \<le> isize_max"
  proof -
    obtain span where msg: "gm_object (received pr' ?msg) = co_id cobj" "gm_method (received pr' ?msg) = i"
      "data_span (received pr' ?msg) = Ok span"
      "reads_call m (cl_seq cl + 1) vs pr' span (gm_fds (received pr' ?msg))"
      by (rule arrives_received[OF arrives len])
    have "server_reads pr' (server_dispatch pr' p handler) k [MGeneric ?msg] sv =
        on_generic (server_dispatch pr' p handler) k (received pr' ?msg) sv"
      using sendable len by (subst server_reads_one) (simp_all add: server_receive_def generic_message_new_def)
    with generated_receives_call[OF server(3)[unfolded sn_def] sobj(3,5,2,4,6)[unfolded sobj_def]
        sobj(1)[folded msg(1)] server(1,2,4,5) m(1) msg(2) m(2,3,5) returned msg(3,4), of handler]
    show ?thesis unfolding announcement_def sn_def server_obj_def event_def by metis
  qed
  moreover have "client_reads pr cdisp q [announcement] cl1 = Some (Ok (), upd_cobj cn (\<lambda>obj. obj\<lparr>co_id := so_id server_obj\<rparr>) cl1)"
    unfolding announcement_def client_takes_id[OF obj(1)] server_obj_def by simp
  moreover have "gm_data ?msg = data" by (simp add: generic_message_new_def)
  ultimately show ?thesis using sends sent obj(2,3)
    by (intro exI conjI) (assumption | simp add: upd_cobj_def)+
qed

definition example_forest_impl :: "(gen_data, unit) server_impl" where
  "example_forest_impl = \<lparr>im_spec = generate_spec example_forest,
     im_objects = [(ascii ''tree'', \<lambda>r. write_new_fn (ascii ''tree'') r Finish), (ascii ''leaf'', \<lambda>_. Finish)]\<rparr>"

definition example_forest_server :: "(gen_data, unit) server" where
  "example_forest_server = \<lparr>sv_impls = [example_forest_impl],
     sv_objects = [\<lparr>so_client = 0, so_spec = Some (generate_object_spec example_tree), so_destroyed = False,
       so_data = Some \<lparr>gd_object = 0, gd_name = ascii ''tree''\<rparr>, so_reading = False, so_id = 7, so_version = 1,
       so_seq = 1, so_protocol_name = ascii ''forest''\<rparr>],
     sv_client_heap = [(server_client_new 1 None)\<lparr>sc_objects := [0], sc_max_id := 8\<rparr>], sv_clients = [0],
     sv_listener = False, sv_next_client_id = 2, sv_app = ()\<rparr>"

lemma example_forest_server_state:
  "length (sv_objects example_forest_server) = 1" "length (sv_client_heap example_forest_server) = 1"
  "sc_alive (sv_client_heap example_forest_server ! 0)" "sc_max_id (sv_client_heap example_forest_server ! 0) = 8"
  "find_impl (sv_impls example_forest_server) (pt_name example_forest) = Some example_forest_impl"
  "generate_server example_forest (\<lambda>_. Finish) = Ok example_forest_impl"
  "find_object 0 7 example_forest_server = Some 0"
  "sv_objects example_forest_server ! 0 = \<lparr>so_client = 0, so_spec = Some (generate_object_spec example_tree),
     so_destroyed = False, so_data = Some \<lparr>gd_object = 0, gd_name = ascii ''tree''\<rparr>, so_reading = False, so_id = 7,
     so_version = 1, so_seq = 1, so_protocol_name = pt_name example_forest\<rparr>"
  by (simp_all add: example_forest_server_def find_impl_def example_forest_impl_def generate_spec_def example_forest_def
      generate_server_def example_tree_def example_leaf_def find_object_def server_client_new_def)

theorem returned_object_agrees_witness:
  "\<exists>cl1 msg cl2. run_client Debug (client_send 0 0 example_make [VUint 3] (\<lambda>_. CFinish)) example_forester = Some (Ok (), cl1) \<and>
    sent (cl_conn example_forester) (cl_conn cl1) = [MGeneric msg] \<and>
    client_reads Debug (client_dispatch Debug example_forest (\<lambda>_ _. CFinish)) 0 [MNewObject (new_object_new 2 8)] cl1 = Some (Ok (), cl2) \<and>
    co_id (cl_heap cl2 ! 1) = 8"
proof -
  have state: "cl_seq example_forester = 1" "length (cl_heap example_forester) = 1" "cl_queues example_forester = [event_queue_new]"
    "cl_alive example_forester" "\<not> cl_locked example_forester" "eq_alive event_queue_new" "\<not> eq_locked event_queue_new"
    "cl_heap example_forester ! 0 =
      (fresh_object (generate_object_spec example_tree) (pt_name example_forest) 1 1 0 1)\<lparr>co_id := 7\<rparr>"
    "List.find (\<lambda>im. spec_name im = pt_name example_forest) (cl_impls example_forester) = Some (generate_spec example_forest)"
    "od_c2s example_tree = [example_make]" "od_name example_tree = ascii ''tree''"
    "find_object_decl example_forest (ascii ''tree'') = Some example_tree"
    "md_returns example_make = Some (ascii ''leaf'')" "md_args example_make = [example_arg ''n'' TUint]" "\<not> md_destructor example_make"
    "find_object_decl example_forest (ascii ''leaf'') = Some example_leaf" "ascii ''leaf'' \<noteq> []"
    "ascii ''leaf'' \<noteq> od_name (hd (pt_objects example_forest))"
    by (simp_all add: example_forester_def event_queue_new_def example_forest_def generate_spec_def
        example_tree_def example_make_def example_leaf_def find_object_decl_def)
  from returned_object_agrees[OF example_forester_inv, where r = 0 and t = 0 and k = 0 and i = 0 and p = example_forest and decl = example_tree
      and vs = "[VUint 3]" and returned = "ascii ''leaf''" and rdecl = example_leaf and sv = example_forest_server
      and im = example_forest_impl and bind = "\<lambda>_. Finish" and pr = Debug and q = 0 and m = example_make
      and cdisp = "client_dispatch Debug example_forest (\<lambda>_ _. CFinish)" and pr' = Debug and handler = "\<lambda>_ _. Finish"]
    state example_forest_server_state
  obtain cl1 msg cl2 where
    "run_client Debug (client_send 0 0 example_make [VUint 3] (\<lambda>_. CFinish)) example_forester = Some (Ok (), cl1)"
    "sent (cl_conn example_forester) (cl_conn cl1) = [MGeneric msg]"
    "client_reads Debug (client_dispatch Debug example_forest (\<lambda>_ _. CFinish)) 0 [MNewObject (new_object_new 2 8)] cl1 =
      Some (Ok (), cl2)" "co_id (cl_heap cl2 ! 1) = 8"
    by (auto simp: fresh_object_def example_arg_def simp del: ascii_Cons)
  then show ?thesis by (intro exI conjI) (assumption | simp)+
qed

end
