(* ===== verification/Call_Order.thy ===== *)
theory Call_Order
  imports Returned_Objects
begin

text \<open>
  The order of calls. A client that makes several calls in a row sends one message after the other; the server
  reads as many at a time as the socket hands it. This theory shows that the application on the server
  sees exactly the calls, with their arguments, in the order they were made, whatever its handlers do in
  between, and however the stream was cut into reads. Where descriptors get other numbers on the way, as the kernel
  numbers them anew where they are received, it sees the calls with these (\<open>calls_delivered\<close>).
\<close>

section \<open>What a handler leaves alone\<close>

text \<open>
  While the object \<open>t\<close> is being dispatched its data stays as it is, for its lock is held; and a callback
  only adds to the tables of objects.
\<close>

definition held :: "nat \<Rightarrow> ('h, 'd) server \<Rightarrow> ('h, 'd) server \<Rightarrow> bool" where
  "held t w w' \<longleftrightarrow> length (sv_objects w) \<le> length (sv_objects w') \<and>
     length (sv_client_heap w') = length (sv_client_heap w) \<and>
     (\<forall>k < length (sv_client_heap w). \<exists>rs. sc_objects (sv_client_heap w' ! k) = sc_objects (sv_client_heap w ! k) @ rs) \<and>
     (t < length (sv_objects w) \<and> so_reading (sv_objects w ! t) \<longrightarrow>
       so_reading (sv_objects w' ! t) \<and> so_data (sv_objects w' ! t) = so_data (sv_objects w ! t))"

lemma held_refl: "held t w w"
  by (simp add: held_def)

lemma held_tables:
  assumes "held t w w'" and "k < length (sv_client_heap w)"
  obtains rs where "sc_objects (sv_client_heap w' ! k) = sc_objects (sv_client_heap w ! k) @ rs"
  using assms unfolding held_def by blast

lemma held_trans:
  assumes a: "held t w1 w2" and b: "held t w2 w3"
  shows "held t w1 w3"
proof -
  have "\<exists>rs. sc_objects (sv_client_heap w3 ! k) = sc_objects (sv_client_heap w1 ! k) @ rs" if k: "k < length (sv_client_heap w1)" for k
  proof -
    obtain rs where rs: "sc_objects (sv_client_heap w2 ! k) = sc_objects (sv_client_heap w1 ! k) @ rs"
      using held_tables[OF a k] .
    have "k < length (sv_client_heap w2)" using a k by (simp add: held_def)
    then obtain rs' where "sc_objects (sv_client_heap w3 ! k) = sc_objects (sv_client_heap w2 ! k) @ rs'"
      using held_tables[OF b] by blast
    with rs show ?thesis by simp
  qed
  with a b show ?thesis by (simp add: held_def)
qed

lemma held_conn: "held t w (upd_conn k f w)"
  unfolding held_def upd_conn_def upd_client_def
  by (cases "k < length (sv_client_heap w)") (auto simp: nth_list_update)

lemma held_mark: "held t w (mark_destroyed r w)"
  unfolding held_def mark_destroyed_def upd_object_def
  by (cases "r < length (sv_objects w)") (auto simp: nth_list_update)

lemma held_error: "server_error r i msg w = Ok w' \<Longrightarrow> held t w w'"
  by (auto simp: server_error_def Let_def bind_res_eq_Ok held_refl held_conn split: if_splits)

lemma held_call: "server_call r i args w = Ok (v, w') \<Longrightarrow> held t w w'"
proof (erule server_call_cases)
  show "held t w w'" if "w' = upd_conn j f (if d then mark_destroyed r w else w)" for j f d
  proof -
    have "held t w (if d then mark_destroyed r w else w)" by (simp add: held_mark held_refl)
    from held_trans[OF this held_conn] that show ?thesis by simp
  qed
qed (simp_all add: held_refl held_error)

lemma held_create: "held t w (snd (client_create_object k protocol name version seq w))"
  by (cases "k < length (sv_client_heap w)")
    (auto simp: held_def client_create_object_def Let_def upd_client_def nth_append nth_list_update)

interpretation held: run_relation "held t" for t
proof
  show "held t w1 w3" if "held t w1 w2" "held t w2 w3" for w1 w2 w3 :: "('a, 'b) server"
    using that by (rule held_trans)
  show "held t w w'" if "object_create_object r name seq w = Some (new, w')" for r name seq new and w w' :: "('a, 'b) server"
    using that held_create[of t w] by (fastforce simp: object_create_object_def Let_def split: if_splits dest: arg_cong[of _ _ snd])
  show "held t w (set_object_data r h w)" if "\<not> so_reading (sv_objects w ! r)" for r h and w :: "('a, 'b) server"
    using that by (cases "r < length (sv_objects w)") (auto simp: held_def set_object_data_def upd_object_def nth_list_update)
qed (simp_all add: held_refl held_error held_call, simp add: held_def)

section \<open>An object the client knows\<close>

definition serves :: "nat \<Rightarrow> nat \<Rightarrow> u32 \<Rightarrow> object_decl \<Rightarrow> (gen_data, 'd) server \<Rightarrow> bool" where
  "serves k t oid decl w \<longleftrightarrow> server_inv w \<and> k < length (sv_client_heap w) \<and> t < length (sv_objects w) \<and>
     find_object k oid w = Some t \<and> so_spec (sv_objects w ! t) = Some (generate_object_spec decl) \<and>
     so_data (sv_objects w ! t) = Some \<lparr>gd_object = t, gd_name = od_name decl\<rparr>"

lemma find_append_same:
  "List.find P xs = Some t \<Longrightarrow> (\<forall>x \<in> set xs. Q x = P x) \<Longrightarrow> List.find Q (xs @ ys) = Some t"
  by (induction xs) (auto split: if_splits)

text \<open>It is served after a callback that ran while it was dispatched.\<close>

lemma serves_run:
  fixes w w' :: "(gen_data, 'd) server" and t :: nat
  defines "start \<equiv> upd_object t (\<lambda>obj. obj\<lparr>so_reading := True\<rparr>)" and "stop \<equiv> upd_object t (\<lambda>obj. obj\<lparr>so_reading := False\<rparr>)"
  assumes w: "serves k t oid decl w" and run: "run p (start w) = Some (Ok (), w')"
  shows "serves k t oid decl (stop w')"
proof -
  have invs: "inv_step w (start w)" "inv_step (start w) w'" "inv_step w' (stop w')"
    unfolding start_def stop_def using keepsD[OF ids.keeps_run run[unfolded start_def]]
    by (simp_all add: ids.R_object)
  have held: "held t (start w) w'" using keepsD[OF held.keeps_run run] by simp
  have t: "t < length (sv_objects w)" and k: "k < length (sv_client_heap w)" using w by (simp_all add: serves_def)
  have le: "server_le (start w) w'" using invs by (simp add: inv_step_def)
  have t': "t < length (sv_objects w')" using t le by (simp add: server_le_def start_def)
  have at: "sv_objects (start w) ! t = (sv_objects w ! t)\<lparr>so_reading := True\<rparr>" using t by (simp add: start_def upd_object_def)
  have spec: "so_spec (sv_objects w' ! t) = so_spec (sv_objects w ! t)"
    using le t at by (auto simp: server_le_def object_le_def start_def)
  have data: "so_data (sv_objects w' ! t) = so_data (sv_objects w ! t)"
    using held t at by (auto simp: held_def start_def)
  obtain rs where rs: "sc_objects (sv_client_heap w' ! k) = sc_objects (sv_client_heap w ! k) @ rs"
    using held_tables[OF held, of k] k by (auto simp: start_def)
  have same: "so_id (sv_objects (stop w') ! r) = so_id (sv_objects w ! r)" if "r < length (sv_objects w)" for r
  proof -
    have "object_le (sv_objects (start w) ! r) (sv_objects w' ! r)" using le that by (simp add: server_le_def start_def)
    then show ?thesis using that t t'
      by (cases "r = t") (auto simp: stop_def start_def upd_object_def nth_list_update object_le_def)
  qed
  have "find_object k oid (stop w') = Some t"
    unfolding find_object_def
  proof -
    have "List.find (\<lambda>r. so_id (sv_objects w ! r) = oid) (sc_objects (sv_client_heap w ! k)) = Some t"
      using w by (simp add: serves_def find_object_def)
    moreover have "\<forall>r \<in> set (sc_objects (sv_client_heap w ! k)). r < length (sv_objects w)"
      using w server_inv_table(1)[of w k] by (auto simp: serves_def)
    ultimately show "List.find (\<lambda>r. so_id (sv_objects (stop w') ! r) = oid) (sc_objects (sv_client_heap (stop w') ! k)) = Some t"
      using rs same by (auto simp: stop_def intro: find_append_same)
  qed
  moreover have "server_inv (stop w')" using w invs by (simp add: serves_def inv_step_def)
  moreover have "k < length (sv_client_heap (stop w'))" using k held by (simp add: held_def start_def stop_def)
  ultimately show ?thesis
    using w t' spec data by (simp add: serves_def stop_def upd_object_def)
qed

section \<open>Calls\<close>

text \<open>A call is a method's number and its arguments. A plain call returns no object and destroys none.\<close>

type_synonym gen_call = "u32 \<times> gen_value list"

definition plain_call :: "object_decl \<Rightarrow> gen_call \<Rightarrow> bool" where
  "plain_call decl c \<longleftrightarrow> unat (fst c) < length (od_c2s decl) \<and>
     (let m = od_c2s decl ! unat (fst c) in
      args_fit (md_args m) (snd c) \<and> md_returns m = None \<and> \<not> md_destructor m)"

text \<open>The client makes calls one after the other; the server runs its handler on one of them.\<close>

fun client_calls :: "nat \<Rightarrow> object_decl \<Rightarrow> gen_call list \<Rightarrow> (gen_data, 'd) cprog" where
  "client_calls r decl [] = CFinish"
| "client_calls r decl (c # cs) =
     client_send r (fst c) (od_c2s decl ! unat (fst c)) (snd c) (\<lambda>_. client_calls r decl cs)"

definition on_call ::
    "(gen_event \<Rightarrow> 'd \<Rightarrow> (gen_data, 'd) prog) \<Rightarrow> nat \<Rightarrow> gen_call \<Rightarrow> (gen_data, 'd) server \<Rightarrow>
       (error, unit, (gen_data, 'd) server) eff" where
  "on_call handler t c w =
     bind_eff (run (handler \<lparr>ge_object = t, ge_method = fst c, ge_returned = None, ge_seq = None, ge_args = snd c\<rparr> (sv_app w))
         (upd_object t (\<lambda>obj. obj\<lparr>so_reading := True\<rparr>) w))
       (\<lambda>_ w'. Some (Ok (), upd_object t (\<lambda>obj. obj\<lparr>so_reading := False\<rparr>) w'))"

text \<open>
  An application implements \<open>Dispatch\<close> for each type of objects; the data of an object dispatches to the
  implementation for its type.
\<close>

definition typed_dispatch ::
    "profile \<Rightarrow> protocol \<Rightarrow> (str \<Rightarrow> gen_event \<Rightarrow> 'd \<Rightarrow> (gen_data, 'd) prog) \<Rightarrow> (gen_data, 'd) dispatcher" where
  "typed_dispatch pr p handlers h = server_dispatch pr p (handlers (gd_name h)) h"

text \<open>The message a call is sent as.\<close>

definition carries :: "u32 \<Rightarrow> object_decl \<Rightarrow> generic_message \<Rightarrow> gen_call \<Rightarrow> bool" where
  "carries oid decl g c \<longleftrightarrow> (\<exists>data fds. g = generic_message_new data fds \<and> (\<forall>pr. generic_sendable pr g) \<and>
     (\<exists>version ns. wire_call False (method_specs (od_c2s decl)) oid version ns (fst c)
       (build_call_args (md_args (od_c2s decl ! unat (fst c))) (snd c)) = Ok (CallMessage False 0 data fds)) \<and>
     arrives data fds oid (fst c) (reads_call (od_c2s decl ! unat (fst c)) 0 (snd c)))"

text \<open>A call that was marshalled, of a method that neither returns nor destroys, on an object with an id is sent.\<close>

lemma client_sends_message:
  fixes cl :: "(gen_data, 'd) client" and r :: nat
  defines "obj \<equiv> cl_heap cl ! r" and "ns \<equiv> if cl_alive cl then Some (cl_seq cl + 1) else None"
  assumes call: "wire_call False (client_methods_out obj) (co_id obj) (co_version obj) ns i (build_call_args (md_args m) vs) =
      Ok (CallMessage False 0 data fds)"
    and m: "md_returns m = None" "\<not> md_destructor m" "returns_type (client_methods_out obj ! unat i) = []"
    and r: "r < length (cl_heap cl)" "co_id obj \<noteq> 0"
  shows "run_client pr (client_send r i m vs k) cl =
    run_client pr (k None) (upd_cconn (send_message (MGeneric (generic_message_new data fds))) cl)"
proof -
  have "client_call pr r i (build_call_args (md_args m) vs) cl =
      Some (Ok 0, upd_cconn (send_message (MGeneric (generic_message_new data fds))) cl)"
    using call m(3) r(2)
    by (simp add: client_call_def obj_def ns_def Let_def lift_res_def call_effects_def client_deliver_def logged_def)
  then show ?thesis using r(1) m(1,2) by (simp add: client_send_def)
qed

lemma client_sends_plain:
  assumes c: "plain_call decl c" and r: "r < length (cl_heap cl)"
    and obj: "co_spec (cl_heap cl ! r) = Some (generate_object_spec decl)" "co_id (cl_heap cl ! r) = oid" "oid \<noteq> 0"
  obtains g where "carries oid decl g c"
    "run_client pr (client_send r (fst c) (od_c2s decl ! unat (fst c)) (snd c) k) cl =
      run_client pr (k None) (upd_cconn (send_message (MGeneric g)) cl)"
    "\<exists>ns. wire_call False (method_specs (od_c2s decl)) oid (co_version (cl_heap cl ! r)) ns (fst c)
      (build_call_args (md_args (od_c2s decl ! unat (fst c))) (snd c)) = Ok (CallMessage False 0 (gm_data g) (gm_fds g))"
proof -
  let ?m = "od_c2s decl ! unat (fst c)" and ?ns = "if cl_alive cl then Some (cl_seq cl + 1) else None"
  have m: "unat (fst c) < length (od_c2s decl)" "args_fit (md_args ?m) (snd c)" "md_returns ?m = None" "\<not> md_destructor ?m"
    using c by (simp_all add: plain_call_def Let_def)
  have out: "client_methods_out (cl_heap cl ! r) = method_specs (od_c2s decl)"
    by (simp add: client_methods_out_def obj generate_object_spec_def)
  have seq: "call_seq (write_method_spec (unat (fst c)) ?m) ?ns = 0"
    using m(3) by (simp add: call_seq_def write_method_spec_def)
  have "md_returns ?m \<noteq> Some []" using m(3) by simp
  from generated_message[OF m(1,2) this m(3), of False oid "co_version (cl_heap cl ! r)" ?ns] m(4)
  obtain data fds where call: "wire_call False (method_specs (od_c2s decl)) oid (co_version (cl_heap cl ! r)) ?ns (fst c)
      (build_call_args (md_args ?m) (snd c)) = Ok (CallMessage False 0 data fds)"
    and arrives: "arrives data fds oid (fst c) (reads_call ?m 0 (snd c))"
    and sendable: "\<And>pr. generic_sendable pr (generic_message_new data fds)"
    unfolding seq by simp blast
  have rtype: "returns_type (method_specs (od_c2s decl) ! unat (fst c)) = []"
    using m(1,3) by (simp add: method_specs_nth write_method_spec_def)
  have "run_client pr (client_send r (fst c) ?m (snd c) k) cl =
      run_client pr (k None) (upd_cconn (send_message (MGeneric (generic_message_new data fds))) cl)"
    by (rule client_sends_message) (use call rtype obj r m(3,4) in \<open>simp_all add: out\<close>)
  moreover have "carries oid decl (generic_message_new data fds) c"
    using arrives sendable call by (auto simp: carries_def)
  ultimately show thesis using that[of "generic_message_new data fds"] call by (auto simp: generic_message_new_def)
qed

lemma client_sends_calls:
  assumes "\<forall>c \<in> set cs. plain_call decl c" and "r < length (cl_heap cl)"
    and "co_spec (cl_heap cl ! r) = Some (generate_object_spec decl)" and "co_id (cl_heap cl ! r) = oid" and "oid \<noteq> 0"
  shows "\<exists>cl' gs. run_client pr (client_calls r decl cs) cl = Some (Ok (), cl') \<and>
    c_out (cl_conn cl') = c_out (cl_conn cl) @ map MGeneric gs \<and> list_all2 (carries oid decl) gs cs"
  using assms
proof (induction cs arbitrary: cl)
  case (Cons c cs)
  obtain g where g: "carries oid decl g c"
    "run_client pr (client_calls r decl (c # cs)) cl =
      run_client pr (client_calls r decl cs) (upd_cconn (send_message (MGeneric g)) cl)"
    using client_sends_plain[of decl c r cl oid pr "\<lambda>_. client_calls r decl cs"] Cons.prems by auto
  let ?cl = "upd_cconn (send_message (MGeneric g)) cl"
  obtain cl' gs where "run_client pr (client_calls r decl cs) ?cl = Some (Ok (), cl')"
    "c_out (cl_conn cl') = c_out (cl_conn ?cl) @ map MGeneric gs" "list_all2 (carries oid decl) gs cs"
    using Cons.IH[of ?cl] Cons.prems by auto
  with g show ?case by (intro exI[of _ cl'] exI[of _ "g # gs"]) simp
qed simp

section \<open>Reading the calls\<close>

lemma serves_on_call:
  "serves k t oid decl w \<Longrightarrow> on_call handler t c w = Some (Ok (), w') \<Longrightarrow> serves k t oid decl w'"
  by (auto simp: on_call_def bind_eff_Some intro: serves_run)

lemma on_generic_plain:
  assumes w: "serves k t oid decl w" and decl: "find_object_decl p (od_name decl) = Some decl"
    and c: "plain_call decl c"
    and msg: "gm_object msg = oid" "gm_method msg = fst c" "data_span msg = Ok span"
      "reads_call (od_c2s decl ! unat (fst c)) 0 (snd c) pr span (gm_fds msg)"
  shows "on_generic (typed_dispatch pr p handlers) k msg w = on_call (handlers (od_name decl)) t c w"
proof -
  let ?m = "od_c2s decl ! unat (fst c)"
  have m: "unat (fst c) < length (od_c2s decl)" "md_returns ?m = None" "\<not> md_destructor ?m"
    using c by (simp_all add: plain_call_def Let_def)
  have obj: "find_object k oid w = Some t" "so_data (sv_objects w ! t) = Some \<lparr>gd_object = t, gd_name = od_name decl\<rparr>"
    using w by (simp_all add: serves_def)
  have dispatch: "object_dispatch (typed_dispatch pr p handlers) t (fst c) span (gm_fds msg) w = on_call (handlers (od_name decl)) t c w"
    using decl m msg(4) obj(2)
    by (simp add: object_dispatch_def on_call_def typed_dispatch_def server_dispatch_def server_dispatch_arm_def get_def reads_call_def)
  have "is_destructor (case so_spec (sv_objects w' ! t) of Some spec \<Rightarrow> c2s spec | None \<Rightarrow> []) (fst c) = False"
    if call: "on_call (handlers (od_name decl)) t c w = Some (Ok (), w')" for w'
  proof -
    have "so_spec (sv_objects w' ! t) = Some (generate_object_spec decl)"
      using serves_on_call[OF w call] by (simp add: serves_def)
    with m show ?thesis
      by (simp add: is_destructor_def get_def generate_object_spec_def method_specs_nth write_method_spec_def)
  qed
  then show ?thesis
    using obj(1) msg(1-3)
    by (cases "on_call (handlers (od_name decl)) t c w")
      (auto simp: on_generic_def lift_res_def dispatch Let_def bind_eff_def split: res.splits)
qed

lemma received_calls:
  assumes "serves k t oid decl w" and decl: "find_object_decl p (od_name decl) = Some decl"
    and "\<forall>c \<in> set cs. plain_call decl c" and "list_all2 (carries oid decl) gs cs"
    and "\<forall>g \<in> set gs. length (gm_data g) \<le> isize_max"
  shows "receive_all (server_receive pr (typed_dispatch pr p handlers) k) (map MGeneric gs) w =
    receive_all (on_call (handlers (od_name decl)) t) cs w"
  using assms(4,1,3,5)
proof (induction gs cs arbitrary: w rule: list_all2_induct)
  case (Cons g gs c cs)
  obtain data fds where g: "g = generic_message_new data fds"
    and arrives: "arrives data fds oid (fst c) (reads_call (od_c2s decl ! unat (fst c)) 0 (snd c))"
    using Cons.hyps(1) by (auto simp: carries_def)
  have "length data \<le> isize_max" using Cons.prems(3) g by (simp add: generic_message_new_def)
  from arrives_received[OF arrives this, of pr] obtain span where
    "gm_object (received pr g) = oid" "gm_method (received pr g) = fst c" "data_span (received pr g) = Ok span"
    "reads_call (od_c2s decl ! unat (fst c)) 0 (snd c) pr span (gm_fds (received pr g))"
    unfolding g by blast
  from on_generic_plain[OF Cons.prems(1) decl _ this, of handlers] Cons.prems(2)
  have "server_receive pr (typed_dispatch pr p handlers) k (MGeneric g) w = on_call (handlers (od_name decl)) t c w"
    by (simp add: server_receive_def)
  moreover have "receive_all (server_receive pr (typed_dispatch pr p handlers) k) (map MGeneric gs) w' =
      receive_all (on_call (handlers (od_name decl)) t) cs w'" if "on_call (handlers (od_name decl)) t c w = Some (Ok (), w')" for w'
    using serves_on_call[OF Cons.prems(1) that] Cons.prems by (intro Cons.IH) auto
  ultimately show ?case
    by (cases "on_call (handlers (od_name decl)) t c w") (auto simp: bind_eff_def split: res.splits)
qed simp

text \<open>However the messages were cut into reads, they are received in turn.\<close>

lemma server_reads_all:
  assumes "\<forall>ms \<in> set reads. (\<forall>m \<in> set ms. sendable pr m) \<and> length (stream_data ms) \<le> isize_max"
  shows "receive_all (server_reads pr disp k) reads w = receive_all (server_receive pr disp k) (concat reads) w"
  using assms
proof (induction reads arbitrary: w)
  case (Cons ms reads)
  have "server_reads pr disp k ms w = receive_all (server_receive pr disp k) ms w"
    unfolding server_reads_def using Cons.prems by (intro server_stream.loop_stream) auto
  moreover have "receive_all (server_reads pr disp k) reads = receive_all (server_receive pr disp k) (concat reads)"
    using Cons by (intro ext) auto
  ultimately show ?case by (simp add: receive_all_append)
qed simp

section \<open>Descriptors have other numbers on the other side\<close>

text \<open>
  The kernel gives the descriptors of a message new numbers where they are received. The bytes of a message do not
  depend on the numbers.
\<close>

fun renumber_arg :: "(i32 \<Rightarrow> i32) \<Rightarrow> call_arg \<Rightarrow> call_arg" where
  "renumber_arg f (ArgFd fd) = ArgFd (f fd)"
| "renumber_arg f (ArgFdArray fds) = ArgFdArray (map f fds)"
| "renumber_arg f a = a"

definition renumbered :: "(i32 \<Rightarrow> i32) \<Rightarrow> marshalled \<Rightarrow> marshalled" where
  "renumbered f m = (case m of Ok (Some (bs, fds)) \<Rightarrow> Ok (Some (bs, map f fds)) | _ \<Rightarrow> m)"

lemma renumbered_simps [simp]:
  "renumbered f (Ok (Some (bs, fds))) = Ok (Some (bs, map f fds))" "renumbered f (Ok None) = Ok None"
  "renumbered f Panic = Panic" "renumbered f (Err e) = Err e"
  by (simp_all add: renumbered_def)

lemma renumbered_bind: "renumbered f (bind_res m g) = bind_res m (\<lambda>x. renumbered f (g x))"
  by (cases m) (simp_all add: bind_res_def)

lemma renumbered_emit: "renumbered f (emit bs fds m) = emit bs (map f fds) (renumbered f m)"
  by (cases m) (auto simp: emit_def bind_res_def renumbered_def map_option_case split: option.split)

lemma array_bytes_renumber: "array_bytes (renumber_arg f a) = renumbered f (array_bytes a)"
  by (cases a) (auto simp: words_bytes_def renumbered_bind intro!: arg_cong[of _ _ "bind_res _"] ext)

lemma renumbered_cases:
  "(case map (renumber_arg f) args of ArgUint v # _ \<Rightarrow> to_le_bytes v | _ \<Rightarrow> []) = (case args of ArgUint v # _ \<Rightarrow> to_le_bytes v | _ \<Rightarrow> [])"
  "(case map (renumber_arg f) args of ArgInt v # _ \<Rightarrow> to_le_bytes v | _ \<Rightarrow> []) = (case args of ArgInt v # _ \<Rightarrow> to_le_bytes v | _ \<Rightarrow> [])"
  "(case map (renumber_arg f) args of ArgObject v # _ \<Rightarrow> to_le_bytes v | _ \<Rightarrow> []) = (case args of ArgObject v # _ \<Rightarrow> to_le_bytes v | _ \<Rightarrow> [])"
  "(case map (renumber_arg f) args of ArgF32 v # _ \<Rightarrow> to_le_bytes v | _ \<Rightarrow> []) = (case args of ArgF32 v # _ \<Rightarrow> to_le_bytes v | _ \<Rightarrow> [])"
  "(case map (renumber_arg f) args of ArgVarchar s # _ \<Rightarrow> X s | _ \<Rightarrow> Y) = (case args of ArgVarchar s # _ \<Rightarrow> X s | _ \<Rightarrow> Y)"
  "(case map (renumber_arg f) args of ArgFd fd # _ \<Rightarrow> [fd] | _ \<Rightarrow> []) = map f (case args of ArgFd fd # _ \<Rightarrow> [fd] | _ \<Rightarrow> [])"
  by (cases args; cases "hd args"; simp)+

lemma marshal_args_renumber: "marshal_args ps (map (renumber_arg f) args) = renumbered f (marshal_args ps args)"
proof (induction ps args rule: marshal_args.induct)
  case (2 p ps args)
  have tl: "tl (map (renumber_arg f) args) = map (renumber_arg f) (tl args)" by (cases args) simp_all
  show ?case
  proof (cases "magic_try_from p :: (error, magic) res")
    case (Ok t)
    show ?thesis
    proof (cases t)
      case TypeArray
      show ?thesis
      proof (cases ps)
        case (Cons u us)
        show ?thesis
        proof (cases "magic_try_from u :: (error, magic) res")
          case (Ok v)
          have arr: "(case map (renumber_arg f) args of [] \<Rightarrow> Ok None | a # _ \<Rightarrow> array_bytes a) =
              renumbered f (case args of [] \<Rightarrow> Ok None | a # _ \<Rightarrow> array_bytes a)"
            by (cases args) (simp_all add: array_bytes_renumber)
          note IH = 2(5)[OF \<open>magic_try_from p = Ok t\<close> TypeArray Cons Ok _ refl]
          show ?thesis
          proof (cases "case args of [] \<Rightarrow> Ok None | a # _ \<Rightarrow> array_bytes a")
            case (Ok m)
            show ?thesis
            proof (cases m)
              case (Some x)
              then obtain bs fds where x: "m = Some (bs, fds)" by (cases x) simp
              have "marshal_args us (map (renumber_arg f) (tl args)) = renumbered f (marshal_args us (tl args))"
                by (rule IH[OF Ok[unfolded x] refl])
              then show ?thesis
                using Ok by (simp add: TypeArray Cons \<open>magic_try_from u = Ok v\<close> \<open>magic_try_from p = Ok t\<close> arr tl x renumbered_emit)
            qed (use Ok in \<open>simp add: TypeArray Cons \<open>magic_try_from u = Ok v\<close> \<open>magic_try_from p = Ok t\<close> arr\<close>)
          qed (simp_all add: TypeArray Cons Ok \<open>magic_try_from p = Ok t\<close> arr)
        qed (simp_all add: TypeArray Cons \<open>magic_try_from p = Ok t\<close>)
      qed (simp add: TypeArray \<open>magic_try_from p = Ok t\<close>)
    next
      case TypeVarchar
      let ?str = "case args of ArgVarchar s # _ \<Rightarrow> bind_res (encode_var_int (length s) var_int_buf) (\<lambda>encoded. Ok (encoded @ s)) | _ \<Rightarrow> Ok []"
      show ?thesis
      proof (cases ?str)
        fix bs
        assume str: "?str = Ok bs"
        then have "marshal_args ps (map (renumber_arg f) (tl args)) = renumbered f (marshal_args ps (tl args))"
          using 2 Ok TypeVarchar by blast
        then show ?thesis by (simp add: Ok TypeVarchar renumbered_cases str tl renumbered_emit)
      qed (simp_all add: Ok TypeVarchar renumbered_cases)
    qed (simp_all add: Ok renumbered_emit renumbered_bind renumbered_cases tl 2(1)[OF Ok] 2(2)[OF Ok] 2(3)[OF Ok] 2(4)[OF Ok] 2(6)[OF Ok] 2(7)[OF Ok]
        cong del: bind_res_weak_cong)
  qed simp_all
qed simp

lemma wire_call_renumber:
  "wire_call server methods oid version ns i args = Ok (CallMessage d s data fds) \<Longrightarrow>
     wire_call server methods oid version ns i (map (renumber_arg f) args) = Ok (CallMessage d s data (map f fds))"
proof -
  assume call: "wire_call server methods oid version ns i args = Ok (CallMessage d s data fds)"
  then obtain bs fds' where "marshal_args (method_params (methods ! unat i)) args = Ok (Some (bs, fds'))"
    by (auto simp: wire_call_def Let_def bind_res_eq_Ok split: if_splits option.splits)
  with call show ?thesis by (auto simp: wire_call_def Let_def marshal_args_renumber split: if_splits)
qed

lemma wire_call_data:
  assumes "map (renumber_arg (\<lambda>_. 0)) args = map (renumber_arg (\<lambda>_. 0)) args'"
    and "wire_call server methods oid version ns i args = Ok (CallMessage d s data fds)"
    and "wire_call server methods oid version ns i args' = Ok (CallMessage d' s' data' fds')"
  shows "data' = data"
  using wire_call_renumber[OF assms(2), of "\<lambda>_. 0"] wire_call_renumber[OF assms(3), of "\<lambda>_. 0"] assms(1) by simp

text \<open>Calls that differ in the numbers of descriptors alone.\<close>

fun unnumbered :: "gen_value \<Rightarrow> gen_value" where
  "unnumbered (VFd fd) = VFd 0"
| "unnumbered (VFds fds) = VFds (map (\<lambda>_. 0) fds)"
| "unnumbered v = v"

definition same_call :: "gen_call \<Rightarrow> gen_call \<Rightarrow> bool" where
  "same_call c c' \<longleftrightarrow> fst c = fst c' \<and> map unnumbered (snd c) = map unnumbered (snd c')"

definition call_fds :: "gen_call \<Rightarrow> i32 list" where
  "call_fds c = concat (map value_fds (snd c))"

lemma length_call_fds: "same_call c c' \<Longrightarrow> length (call_fds c) = length (call_fds c')"
proof -
  have "length (value_fds v) = length (value_fds (unnumbered v))" for v by (cases v) simp_all
  then have "length (call_fds x) = sum_list (map (length \<circ> value_fds) (map unnumbered (snd x)))" for x
    by (simp add: call_fds_def length_concat comp_def)
  then show "same_call c c' \<Longrightarrow> length (call_fds c) = length (call_fds c')" by (simp only: same_call_def)
qed

lemma unnumbered_args: "args_fit as vs \<Longrightarrow> map (renumber_arg (\<lambda>_. 0)) (build_call_args as vs) = build_call_args as (map unnumbered vs)"
proof (induction as vs rule: list_all2_induct)
  case (Cons a as v vs)
  then have "renumber_arg (\<lambda>_. 0) (the (call_arg_expr (arg_type a) v)) = the (call_arg_expr (arg_type a) (unnumbered v))"
    by (cases "arg_type a"; cases v) simp_all
  with Cons show ?case by (simp add: build_call_args_def)
qed (simp add: build_call_args_def)

lemma carries_same:
  assumes g: "carries oid decl g c" and plain: "plain_call decl c" "plain_call decl c'" and same: "same_call c c'"
  shows "length (gm_fds g) = length (call_fds c') \<and> carries oid decl (g\<lparr>gm_fds := call_fds c'\<rparr>) c'"
proof -
  let ?m = "od_c2s decl ! unat (fst c)"
  have m: "unat (fst c) < length (od_c2s decl)" "args_fit (md_args ?m) (snd c)" "args_fit (md_args ?m) (snd c')"
    "md_returns ?m = None" "\<not> md_destructor ?m" and i: "fst c' = fst c"
    using plain same by (simp_all add: plain_call_def Let_def same_call_def)
  obtain data fds version ns where g: "g = generic_message_new data fds" and call: "wire_call False (method_specs (od_c2s decl)) oid
      version ns (fst c) (build_call_args (md_args ?m) (snd c)) = Ok (CallMessage False 0 data fds)"
    using g by (auto simp: carries_def)
  have returns: "md_returns ?m \<noteq> Some []" using m(4) by simp
  have seq: "call_seq (write_method_spec (unat (fst c)) ?m) ns = 0" using m(4) by (simp add: call_seq_def write_method_spec_def)
  note message = generated_message[OF m(1) _ returns m(4), where server = False and oid = oid and version = version and ns = ns, unfolded seq]
  have fds: "fds = call_fds c"
    by (rule message[OF m(2)]) (use call m(5) in \<open>simp add: call_fds_def\<close>)
  obtain data' where call': "wire_call False (method_specs (od_c2s decl)) oid version ns (fst c) (build_call_args (md_args ?m) (snd c')) =
      Ok (CallMessage False 0 data' (call_fds c'))" and arrives: "arrives data' (call_fds c') oid (fst c) (reads_call ?m 0 (snd c'))"
    and sendable: "\<And>pr. generic_sendable pr (generic_message_new data' (call_fds c'))"
    using message[OF m(3)] m(5) unfolding call_fds_def by auto
  have "map (renumber_arg (\<lambda>_. 0)) (build_call_args (md_args ?m) (snd c)) =
      map (renumber_arg (\<lambda>_. 0)) (build_call_args (md_args ?m) (snd c'))"
    using same unfolding unnumbered_args[OF m(2)] unnumbered_args[OF m(3)] same_call_def by simp
  from wire_call_data[OF this call call'] have data: "data' = data" .
  have "g\<lparr>gm_fds := call_fds c'\<rparr> = generic_message_new data (call_fds c')" by (simp add: g generic_message_new_def)
  then have "carries oid decl (g\<lparr>gm_fds := call_fds c'\<rparr>) c'"
    using arrives sendable call' i unfolding carries_def data by auto
  then show ?thesis using length_call_fds[OF same] fds g by (simp add: generic_message_new_def)
qed

text \<open>The messages as they are received, where their descriptors have the numbers \<open>ns\<close>, in order.\<close>

primrec deliver_fds :: "message list \<Rightarrow> i32 list \<Rightarrow> message list" where
  "deliver_fds [] ns = []"
| "deliver_fds (m # ms) ns =
     (case m of
        MGeneric g \<Rightarrow> MGeneric (g\<lparr>gm_fds := take (length (gm_fds g)) ns\<rparr>) # deliver_fds ms (drop (length (gm_fds g)) ns)
      | _ \<Rightarrow> m # deliver_fds ms ns)"

lemma stream_data_delivered: "stream_data (deliver_fds ms ns) = stream_data ms"
  by (induction ms arbitrary: ns) (auto simp: stream_data_def split: message.split)

lemma delivered_calls:
  assumes "list_all2 (carries oid decl) gs cs" and "list_all2 same_call cs cs'"
    and "\<forall>c \<in> set cs. plain_call decl c" and "\<forall>c \<in> set cs'. plain_call decl c"
  shows "\<exists>gs'. deliver_fds (map MGeneric gs) (concat (map call_fds cs')) = map MGeneric gs' \<and> list_all2 (carries oid decl) gs' cs'"
  using assms
proof (induction gs cs arbitrary: cs' rule: list_all2_induct)
  case (Cons g gs c cs)
  then obtain c' rest where cs': "cs' = c' # rest" "same_call c c'" "list_all2 same_call cs rest"
    by (cases cs') auto
  with Cons obtain gs' where gs': "deliver_fds (map MGeneric gs) (concat (map call_fds rest)) = map MGeneric gs'"
    "list_all2 (carries oid decl) gs' rest" by fastforce
  have "length (gm_fds g) = length (call_fds c') \<and> carries oid decl (g\<lparr>gm_fds := call_fds c'\<rparr>) c'"
    using Cons.hyps(1) Cons.prems cs' by (intro carries_same) auto
  with gs' show ?case
    by (intro exI[of _ "g\<lparr>gm_fds := call_fds c'\<rparr> # gs'"]) (simp add: cs'(1))
qed simp

section \<open>The property\<close>

lemma reads_of_calls:
  assumes server: "serves k t oid decl sv" "find_object_decl p (od_name decl) = Some decl"
    and calls: "\<forall>c \<in> set cs. plain_call decl c" and gs: "list_all2 (carries oid decl) gs cs"
    and cut: "concat reads = map MGeneric gs" and len: "\<forall>ms \<in> set reads. length (stream_data ms) \<le> isize_max"
  shows "receive_all (server_reads pr (typed_dispatch pr p handlers) k) reads sv = receive_all (on_call (handlers (od_name decl)) t) cs sv"
proof -
  have "generic_sendable pr g" if "g \<in> set gs" for g
    using gs that by (auto simp: list_all2_conv_all_nth in_set_conv_nth carries_def)
  then have ok: "sendable pr m" if "m \<in> set (map MGeneric gs)" for m
    using that by auto
  have in_reads: "m \<in> set (concat reads) \<longleftrightarrow> (\<exists>ms \<in> set reads. m \<in> set ms)" for m by simp
  have size: "length (message_data m) \<le> isize_max" if "m \<in> set ms" "ms \<in> set reads" for m ms
  proof -
    obtain xs ys where "ms = xs @ m # ys" using \<open>m \<in> set ms\<close> by (auto simp: in_set_conv_decomp)
    then show ?thesis using len that(2) by (fastforce simp: stream_data_def)
  qed
  have "length (gm_data g) \<le> isize_max" if "g \<in> set gs" for g
    using that in_reads[of "MGeneric g"] size[of "MGeneric g"] unfolding cut by auto
  with received_calls[OF server calls gs] have
    "receive_all (server_receive pr (typed_dispatch pr p handlers) k) (concat reads) sv = receive_all (on_call (handlers (od_name decl)) t) cs sv"
    unfolding cut by simp
  moreover have "\<forall>ms \<in> set reads. (\<forall>m \<in> set ms. sendable pr m) \<and> length (stream_data ms) \<le> isize_max"
    using ok in_reads len unfolding cut by blast
  ultimately show ?thesis by (simp only: server_reads_all)
qed

lemma calls_arrive:
  fixes cl :: "(gen_data, 'e) client" and sv :: "(gen_data, 'd) server" and p :: protocol and t r k :: nat
    and handlers :: "str \<Rightarrow> gen_event \<Rightarrow> 'd \<Rightarrow> (gen_data, 'd) prog" and cs :: "gen_call list"
  assumes client: "r < length (cl_heap cl)" "co_spec (cl_heap cl ! r) = Some (generate_object_spec decl)"
      "co_id (cl_heap cl ! r) = oid" "oid \<noteq> 0"
    and server: "serves k t oid decl sv" "find_object_decl p (od_name decl) = Some decl"
    and calls: "\<forall>c \<in> set cs. plain_call decl c"
  obtains cl' where "run_client pr (client_calls r decl cs) cl = Some (Ok (), cl')"
    "length (sent (cl_conn cl) (cl_conn cl')) = length cs"
    "\<forall>reads. concat reads = sent (cl_conn cl) (cl_conn cl') \<longrightarrow>
      (\<forall>ms \<in> set reads. length (stream_data ms) \<le> isize_max) \<longrightarrow>
      receive_all (server_reads pr' (typed_dispatch pr' p handlers) k) reads sv = receive_all (on_call (handlers (od_name decl)) t) cs sv"
proof -
  obtain cl' gs where cl': "run_client pr (client_calls r decl cs) cl = Some (Ok (), cl')"
    "c_out (cl_conn cl') = c_out (cl_conn cl) @ map MGeneric gs" and gs: "list_all2 (carries oid decl) gs cs"
    using client_sends_calls[OF calls client] by blast
  have sent: "sent (cl_conn cl) (cl_conn cl') = map MGeneric gs" using cl'(2) by (simp add: sent_def)
  with cl'(1) gs reads_of_calls[OF server calls gs] show thesis by (intro that) (auto dest: list_all2_lengthD)
qed

text \<open>The same with other numbers of descriptors: the handler is run on the calls with the numbers that were received.\<close>

lemma calls_delivered:
  fixes cl :: "(gen_data, 'e) client" and sv :: "(gen_data, 'd) server" and p :: protocol and t r k :: nat
    and handlers :: "str \<Rightarrow> gen_event \<Rightarrow> 'd \<Rightarrow> (gen_data, 'd) prog" and cs cs' :: "gen_call list"
  assumes client: "r < length (cl_heap cl)" "co_spec (cl_heap cl ! r) = Some (generate_object_spec decl)"
      "co_id (cl_heap cl ! r) = oid" "oid \<noteq> 0"
    and server: "serves k t oid decl sv" "find_object_decl p (od_name decl) = Some decl"
    and calls: "\<forall>c \<in> set cs. plain_call decl c" "\<forall>c \<in> set cs'. plain_call decl c" "list_all2 same_call cs cs'"
  obtains cl' where "run_client pr (client_calls r decl cs) cl = Some (Ok (), cl')"
    "\<forall>reads. concat reads = deliver_fds (sent (cl_conn cl) (cl_conn cl')) (concat (map call_fds cs')) \<longrightarrow>
      (\<forall>ms \<in> set reads. length (stream_data ms) \<le> isize_max) \<longrightarrow>
      receive_all (server_reads pr' (typed_dispatch pr' p handlers) k) reads sv = receive_all (on_call (handlers (od_name decl)) t) cs' sv"
proof -
  obtain cl' gs where cl': "run_client pr (client_calls r decl cs) cl = Some (Ok (), cl')"
    "c_out (cl_conn cl') = c_out (cl_conn cl) @ map MGeneric gs" and gs: "list_all2 (carries oid decl) gs cs"
    using client_sends_calls[OF calls(1) client] by blast
  have sent: "sent (cl_conn cl) (cl_conn cl') = map MGeneric gs" using cl'(2) by (simp add: sent_def)
  obtain gs' where "deliver_fds (map MGeneric gs) (concat (map call_fds cs')) = map MGeneric gs'" "list_all2 (carries oid decl) gs' cs'"
    using delivered_calls[OF gs calls(3,1,2)] by blast
  with cl'(1) sent reads_of_calls[OF server calls(2)] show thesis by (intro that) auto
qed

text \<open>C11: Calls arrive in order: when a generated client makes, outside of callbacks, any calls one after the other on an
  object the server knows by the same id and type, none of which returns an object or destroys one, it sends one
  message for each; and the server, reading these messages in any number of reads that do not cut one, does
  what running the application's handler for the type of the object on the calls in turn does, each with exactly its arguments, up to
  the first that fails, whatever the handlers do. (Descriptors have the numbers they were sent with here; \<open>calls_delivered\<close>
  is the same with any others.)\<close>
theorem calls_in_order:
  fixes cl :: "(gen_data, 'e) client" and sv :: "(gen_data, 'd) server" and p :: protocol and t r k :: nat
    and handlers :: "str \<Rightarrow> gen_event \<Rightarrow> 'd \<Rightarrow> (gen_data, 'd) prog" and cs :: "gen_call list"
  assumes client: "r < length (cl_heap cl)" "co_spec (cl_heap cl ! r) = Some (generate_object_spec decl)"
      "co_id (cl_heap cl ! r) = oid" "oid \<noteq> 0"
    and server: "serves k t oid decl sv" "find_object_decl p (od_name decl) = Some decl"
    and calls: "\<forall>c \<in> set cs. plain_call decl c"
  shows "\<exists>cl'. run_client pr (client_calls r decl cs) cl = Some (Ok (), cl') \<and>
    length (sent (cl_conn cl) (cl_conn cl')) = length cs \<and>
    (\<forall>reads. concat reads = sent (cl_conn cl) (cl_conn cl') \<longrightarrow>
      (\<forall>ms \<in> set reads. length (stream_data ms) \<le> isize_max) \<longrightarrow>
      receive_all (server_reads pr' (typed_dispatch pr' p handlers) k) reads sv = receive_all (on_call (handlers (od_name decl)) t) cs sv)"
  by (rule calls_arrive[OF assms, of pr pr' handlers]) blast

definition example_note :: method_decl where
  "example_note = \<lparr>md_name = ascii ''note'', md_args = [example_arg ''n'' TUint], md_returns = None,
     md_destructor = False, md_description = None\<rparr>"

definition example_diary :: object_decl where
  "example_diary = \<lparr>od_name = ascii ''diary'', od_version = 1, od_c2s = [example_note], od_s2c = [], od_description = None\<rparr>"

definition example_diaries :: protocol where
  "example_diaries = \<lparr>pt_name = ascii ''diaries'', pt_version = 1, pt_objects = [example_diary], pt_enums = [],
     pt_copyright = None\<rparr>"

definition example_writer :: "(gen_data, unit) client" where
  "example_writer = \<lparr>cl_impls = [generate_spec example_diaries], cl_specs = [], cl_objects = [0],
     cl_heap = [(fresh_object (generate_object_spec example_diary) (ascii ''diaries'') 1 1 0 1)\<lparr>co_id := 1\<rparr>],
     cl_handshake_done = True, cl_seq = 1, cl_conn = conn_new, cl_queues = [event_queue_new], cl_locked = False,
     cl_alive = True, cl_app = ()\<rparr>"

definition example_reader :: "gen_value list \<Rightarrow> (gen_data, gen_value list) server" where
  "example_reader notes = \<lparr>sv_impls = [\<lparr>im_spec = generate_spec example_diaries, im_objects = []\<rparr>],
     sv_objects = [\<lparr>so_client = 0, so_spec = Some (generate_object_spec example_diary), so_destroyed = False,
       so_data = Some \<lparr>gd_object = 0, gd_name = ascii ''diary''\<rparr>, so_reading = False, so_id = 1, so_version = 1,
       so_seq = 1, so_protocol_name = ascii ''diaries''\<rparr>],
     sv_client_heap = [(server_client_new 1 None)\<lparr>sc_objects := [0], sc_max_id := 2\<rparr>], sv_clients = [0],
     sv_listener = False, sv_next_client_id = 2, sv_app = notes\<rparr>"

text \<open>Its handler writes the arguments of every call into the application's state.\<close>

definition example_notes :: "gen_event \<Rightarrow> gen_value list \<Rightarrow> (gen_data, gen_value list) prog" where
  "example_notes e notes = SetApp (notes @ ge_args e) Finish"

definition example_entries :: "gen_call list" where
  "example_entries = [(0, [VUint 3]), (0, [VUint 4])]"

lemma example_reader_serves: "serves 0 0 1 example_diary (example_reader notes)"
proof -
  have "server_inv (example_reader notes)"
    by (simp add: server_inv_def views_ok_def objects_view_def clients_view_def client_ok_def ids_of_def count_ids_def
        example_reader_def server_client_new_def)
  then show ?thesis
    by (simp add: serves_def find_object_def example_reader_def example_diary_def server_client_new_def)
qed

lemma example_entries_plain: "\<forall>c \<in> set example_entries. plain_call example_diary c"
  by (simp add: example_entries_def plain_call_def example_diary_def example_note_def example_decl_simps)

lemma example_notes_taken:
  "on_call example_notes 0 (0, vs) (example_reader notes) = Some (Ok (), example_reader (notes @ vs))"
  unfolding on_call_def example_notes_def by (subst run.simps) (simp add: example_reader_def upd_object_def)

theorem calls_in_order_witness:
  "\<exists>cl'. run_client Debug (client_calls 0 example_diary example_entries) example_writer = Some (Ok (), cl') \<and>
     receive_all (server_reads Debug (typed_dispatch Debug example_diaries (\<lambda>_. example_notes)) 0)
       [sent (cl_conn example_writer) (cl_conn cl')] (example_reader []) = Some (Ok (), example_reader [VUint 3, VUint 4])"
proof -
  have bytes: "map_option (\<lambda>(x, w). map message_data (c_out (cl_conn w)))
      (run_client Debug (client_calls 0 example_diary example_entries) example_writer) =
    Some [[100, 34, 1, 0, 0, 0, 16, 0, 0, 0, 0, 16, 3, 0, 0, 0, 0], [100, 34, 1, 0, 0, 0, 16, 0, 0, 0, 0, 16, 4, 0, 0, 0, 0]]"
    by code_simp
  have state: "0 < length (cl_heap example_writer)" "co_id (cl_heap example_writer ! 0) = 1"
    "co_spec (cl_heap example_writer ! 0) = Some (generate_object_spec example_diary)" "c_out (cl_conn example_writer) = []"
    "find_object_decl example_diaries (od_name example_diary) = Some example_diary"
    by (simp_all add: example_writer_def fresh_object_def conn_new_def find_object_decl_def example_diaries_def)
  from calls_in_order[OF state(1,3,2) _ example_reader_serves state(5) example_entries_plain, of Debug Debug "\<lambda>_. example_notes" "[]"]
  obtain cl' where cl': "run_client Debug (client_calls 0 example_diary example_entries) example_writer = Some (Ok (), cl')"
    and reads: "\<And>reads. concat reads = sent (cl_conn example_writer) (cl_conn cl') \<Longrightarrow>
      \<forall>ms \<in> set reads. length (stream_data ms) \<le> isize_max \<Longrightarrow>
      receive_all (server_reads Debug (typed_dispatch Debug example_diaries (\<lambda>_. example_notes)) 0) reads (example_reader []) =
      receive_all (on_call example_notes 0) example_entries (example_reader [])"
    by auto
  have "length (stream_data (sent (cl_conn example_writer) (cl_conn cl'))) \<le> isize_max"
    using bytes cl' state(4) by (simp add: sent_def stream_data_def isize_max_def)
  with reads[of "[sent (cl_conn example_writer) (cl_conn cl')]"] cl' show ?thesis
    by (auto simp: example_entries_def example_notes_taken)
qed

end
