(* ===== verification/Trace.thy ===== *)
theory Trace
  imports Generic_Message
begin

text \<open>
  The rendering of a message for \<open>HW_TRACE\<close>: \<open>Message::parse_data\<close> and \<open>format_primitive_type\<close> of
  \<open>hyprwire-core/src/message/wire/mod.rs\<close>, and the names of the message types
  (\<open>hyprwire-core/src/message/mod.rs\<close>). With tracing on, both sides render every message they send, and
  every one they have read before they handle it.

  The rendering walks over the bytes on its own. How an \<open>f32\<close> is printed is the standard library's; it is
  an argument, \<open>sf\<close>, and every statement holds whatever it is. An index that is out of range is \<open>Panic\<close>, and
  the loop is a \<open>partial_function\<close> whose result is \<open>None\<close> when it does not end.
\<close>

section \<open>The code\<close>

primrec message_type_name :: "message_type \<Rightarrow> str" where
  "message_type_name Sup = ascii ''Sup''"
| "message_type_name HandshakeBegin = ascii ''HandshakeBegin''"
| "message_type_name HandshakeAck = ascii ''HandshakeAck''"
| "message_type_name HandshakeProtocols = ascii ''HandshakeProtocols''"
| "message_type_name BindProtocol = ascii ''BindProtocol''"
| "message_type_name NewObject = ascii ''NewObject''"
| "message_type_name FatalProtocolError = ascii ''FatalProtocolError''"
| "message_type_name RoundtripRequest = ascii ''RoundtripRequest''"
| "message_type_name RoundtripDone = ascii ''RoundtripDone''"
| "message_type_name GenericProtocolMessage = ascii ''GenericProtocolMessage''"

definition show_i32 :: "i32 \<Rightarrow> str" where
  "show_i32 w = (if sint w < 0 then ascii ''-'' @ show_nat (nat (- sint w)) else show_nat (nat (sint w)))"

definition quoted :: "str \<Rightarrow> str" where
  "quoted s = [34] @ s @ [34]"

text \<open>An element of an array: its text and the number of bytes it takes.\<close>

definition format_word :: "(u32 \<Rightarrow> str) \<Rightarrow> (error, u32) res \<Rightarrow> (error, str \<times> usize) res" where
  "format_word sh r = bind_res r (\<lambda>value. Ok (sh value, 4))"

definition format_primitive_type ::
    "(f32 \<Rightarrow> str) \<Rightarrow> profile \<Rightarrow> bytes \<Rightarrow> magic \<Rightarrow> (error, str \<times> usize) res" where
  "format_primitive_type sf pr s t =
     (case t of
        TypeUint \<Rightarrow> format_word show_u32 (read_u32 s 0)
      | TypeInt \<Rightarrow> format_word show_i32 (read_i32 s 0)
      | TypeF32 \<Rightarrow> format_word sf (read_f32 s 0)
      | TypeFd \<Rightarrow> Ok (ascii ''<fd>'', 0)
      | TypeObject \<Rightarrow>
          format_word (\<lambda>id. ascii ''object: '' @ (if id = 0 then ascii ''null'' else show_u32 id)) (read_u32 s 0)
      | TypeVarchar \<Rightarrow>
          bind_res (parse_var_int pr s 0) (\<lambda>(len, int_len).
          bind_res (uadd pr int_len len) (\<lambda>stop.
          bind_res (ok_or UnexpectedEof (get_range s int_len stop)) (\<lambda>str_data.
          if utf8_valid str_data then Ok (quoted str_data, stop) else Err MalformedMessage)))
      | _ \<Rightarrow> Err MalformedMessage)"

text \<open>The loop over the elements, by the number of elements left; the first bad one ends it.\<close>

fun trace_elems ::
    "(f32 \<Rightarrow> str) \<Rightarrow> profile \<Rightarrow> bytes \<Rightarrow> magic \<Rightarrow> nat \<Rightarrow> usize \<Rightarrow> str \<Rightarrow> (error, usize \<times> str) res" where
  "trace_elems sf pr data t 0 needle result = Ok (needle, result)"
| "trace_elems sf pr data t (Suc n) needle result =
     bind_res (slice_at data needle (length data)) (\<lambda>rest.
     case format_primitive_type sf pr rest t of
       Ok (s, len) \<Rightarrow>
         bind_res (uadd pr needle len) (\<lambda>needle.
           trace_elems sf pr data t n needle (result @ s @ (if n > 0 then ascii '', '' else [])))
     | Err _ \<Rightarrow> Ok (needle, result @ ascii ''<malformed>'')
     | Panic \<Rightarrow> Panic)"

text \<open>The text of a value after its tag, the index after it, and whether the loop goes on.\<close>

definition trace_word :: "(u32 \<Rightarrow> str) \<Rightarrow> bytes \<Rightarrow> usize \<Rightarrow> (error, bool \<times> usize \<times> str) res" where
  "trace_word sh data needle =
     (case read_u32 data needle of
        Ok value \<Rightarrow> Ok (True, needle + 4, sh value)
      | Err _ \<Rightarrow> Ok (False, needle, ascii ''<eof>'')
      | Panic \<Rightarrow> Panic)"

definition trace_varchar :: "profile \<Rightarrow> bytes \<Rightarrow> usize \<Rightarrow> (error, bool \<times> usize \<times> str) res" where
  "trace_varchar pr data needle =
     bind_res (parse_var_int pr data needle) (\<lambda>(len, int_len).
     bind_res
       (if len > 0 then
          bind_res (uadd pr needle int_len) (\<lambda>start.
          bind_res (uadd pr start len) (\<lambda>stop.
          bind_res (slice_at data start stop) (\<lambda>str_data. Ok (quoted (from_utf8_lossy str_data)))))
        else Ok (quoted [])) (\<lambda>text.
     bind_res (uadd pr int_len len) (\<lambda>n.
     bind_res (uadd pr needle n) (\<lambda>needle. Ok (True, needle, text)))))"

definition trace_array ::
    "(f32 \<Rightarrow> str) \<Rightarrow> profile \<Rightarrow> bytes \<Rightarrow> usize \<Rightarrow> (error, bool \<times> usize \<times> str) res" where
  "trace_array sf pr data needle =
     (case get data needle of
        None \<Rightarrow> Ok (False, needle, ascii ''<eof>'')
      | Some type_byte \<Rightarrow>
          (case magic_try_from type_byte of
             Ok this_type \<Rightarrow>
               bind_res (parse_var_int pr data (needle + 1)) (\<lambda>(els, int_len).
               bind_res (uadd pr (needle + 1) int_len) (\<lambda>needle.
               bind_res (trace_elems sf pr data this_type els needle (ascii ''{ '')) (\<lambda>(needle, text).
                 Ok (True, needle, text @ ascii '' }''))))
           | _ \<Rightarrow> Ok (False, needle, ascii ''<malformed>'')))"

definition trace_value ::
    "(f32 \<Rightarrow> str) \<Rightarrow> profile \<Rightarrow> bytes \<Rightarrow> magic \<Rightarrow> usize \<Rightarrow> (error, bool \<times> usize \<times> str) res" where
  "trace_value sf pr data t needle =
     (case t of
        TypeSeq \<Rightarrow> trace_word (\<lambda>v. ascii ''seq: '' @ show_u32 v) data needle
      | TypeUint \<Rightarrow> trace_word show_u32 data needle
      | TypeInt \<Rightarrow> trace_word show_i32 data needle
      | TypeF32 \<Rightarrow> trace_word sf data needle
      | TypeVarchar \<Rightarrow> trace_varchar pr data needle
      | TypeArray \<Rightarrow> trace_array sf pr data needle
      | TypeObject \<Rightarrow> trace_word (\<lambda>v. ascii ''object('' @ show_u32 v @ ascii '')'') data needle
      | TypeFd \<Rightarrow> Ok (True, needle, ascii ''<fd>'')
      | _ \<Rightarrow> Ok (True, needle, []))"

text \<open>One round of the loop: the state is the index, whether nothing was printed yet, and the text.\<close>

type_synonym trace_state = "usize \<times> bool \<times> str"

definition trace_step ::
    "(f32 \<Rightarrow> str) \<Rightarrow> profile \<Rightarrow> bytes \<Rightarrow> trace_state \<Rightarrow> (error, bool \<times> trace_state) res" where
  "trace_step sf pr data s =
     (case s of (needle, first, result) \<Rightarrow>
        (case magic_try_from (data ! needle) of
          Ok t \<Rightarrow>
            if t = End \<or> t = TypeObjectId then Ok (True, needle + 1, first, result)
            else bind_res (trace_value sf pr data t (needle + 1)) (\<lambda>(go, needle, text).
              Ok (go, needle, False, result @ (if first then [] else ascii '', '') @ text))
        | _ \<Rightarrow> Ok (False, needle, first, result @ ascii ''<malformed>'')))"

partial_function (option) trace_loop ::
    "(f32 \<Rightarrow> str) \<Rightarrow> profile \<Rightarrow> bytes \<Rightarrow> trace_state \<Rightarrow> (error, str) res option" where
  "trace_loop sf pr data s =
     (if fst s < length data then
        (case trace_step sf pr data s of
           Ok (go, s') \<Rightarrow> if go then trace_loop sf pr data s' else Some (Ok (snd (snd s')))
         | Err e \<Rightarrow> Some (Err e)
         | Panic \<Rightarrow> Some Panic)
      else Some (Ok (snd (snd s))))"

definition parse_data ::
    "(f32 \<Rightarrow> str) \<Rightarrow> profile \<Rightarrow> message_type \<Rightarrow> bytes \<Rightarrow> (error, str) res option" where
  "parse_data sf pr t data =
     map_option (\<lambda>r. bind_res r (\<lambda>text. Ok (text @ ascii '' ) '')))
       (trace_loop sf pr data (1, True, message_type_name t @ ascii '' ( ''))"

end
