(* ===== verification/Trace_Properties.thy ===== *)
theory Trace_Properties
  imports Trace Message_Stream
begin

text \<open>
  What a trace shows. \<open>render\<close> is the text of a list of fields, written without indices; for every message the
  code writes, and every call it marshals, \<open>parse_data\<close> gives this text. The rendering always ends. It can
  panic on a message that was accepted.
\<close>

section \<open>The text of fields\<close>

fun join :: "str list \<Rightarrow> str" where
  "join [] = []"
| "join [s] = s"
| "join (s # t # ss) = s @ ascii '', '' @ join (t # ss)"

definition braces :: "str list \<Rightarrow> str" where
  "braces ss = ascii ''{ '' @ join ss @ ascii '' }''"

primrec show_word :: "(f32 \<Rightarrow> str) \<Rightarrow> magic \<Rightarrow> u32 \<Rightarrow> str" where
  "show_word sf TypeUint w = show_u32 w"
| "show_word sf TypeInt w = show_i32 w"
| "show_word sf TypeF32 w = sf w"
| "show_word sf TypeSeq w = ascii ''seq: '' @ show_u32 w"
| "show_word sf TypeObject w = ascii ''object('' @ show_u32 w @ ascii '')''"
| "show_word sf TypeVarchar w = []"
| "show_word sf TypeArray w = []"
| "show_word sf TypeFd w = []"
| "show_word sf TypeObjectId w = []"
| "show_word sf End w = []"

definition show_elem :: "(f32 \<Rightarrow> str) \<Rightarrow> magic \<Rightarrow> u32 \<Rightarrow> str" where
  "show_elem sf m w =
     (if m = TypeObject then ascii ''object: '' @ (if w = 0 then ascii ''null'' else show_u32 w) else show_word sf m w)"

primrec show_field :: "(f32 \<Rightarrow> str) \<Rightarrow> field \<Rightarrow> str" where
  "show_field sf (FWord m w) = show_word sf m w"
| "show_field sf (FStr s) = quoted (from_utf8_lossy s)"
| "show_field sf FFd = ascii ''<fd>''"
| "show_field sf (FWords m ws) = braces (map (show_elem sf m) ws)"
| "show_field sf (FStrs ss) = braces (map quoted ss)"
| "show_field sf (FFds n) = braces (replicate n (ascii ''<fd>''))"

definition render :: "(f32 \<Rightarrow> str) \<Rightarrow> message_type \<Rightarrow> field list \<Rightarrow> str" where
  "render sf t fs = message_type_name t @ ascii '' ( '' @ join (map (show_field sf) fs) @ ascii '' ) ''"

text \<open>Arrays of sequence numbers, and of strings that are not UTF-8, are not rendered in full.\<close>

primrec printable :: "field \<Rightarrow> bool" where
  "printable (FWord m w) \<longleftrightarrow> True"
| "printable (FStr s) \<longleftrightarrow> True"
| "printable FFd \<longleftrightarrow> True"
| "printable (FWords m ws) \<longleftrightarrow> m \<noteq> TypeSeq"
| "printable (FStrs ss) \<longleftrightarrow> (\<forall>s \<in> set ss. utf8_valid s)"
| "printable (FFds n) \<longleftrightarrow> True"

section \<open>Arrays\<close>

definition elem_rep :: "(f32 \<Rightarrow> str) \<Rightarrow> profile \<Rightarrow> magic \<Rightarrow> bytes \<times> str \<Rightarrow> bool" where
  "elem_rep sf pr t e \<longleftrightarrow> (\<forall>rest. length (fst e @ rest) \<le> isize_max \<longrightarrow>
     format_primitive_type sf pr (fst e @ rest) t = Ok (snd e, length (fst e)))"

lemma join_Cons: "join (s # ss) = s @ (if ss = [] then [] else ascii '', '') @ join ss"
  by (cases ss) simp_all

lemma slice_to_end: "cursor_at data needle xs \<Longrightarrow> slice_at data needle (length data) = Ok xs"
  by (auto simp: cursor_at_def slice_in_range)

lemma trace_elems_cursor:
  "\<forall>e \<in> set es. elem_rep sf pr t e \<Longrightarrow> cursor_at data needle (concat (map fst es) @ rest) \<Longrightarrow>
     trace_elems sf pr data t (length es) needle result =
       Ok (needle + length (concat (map fst es)), result @ join (map snd es))"
proof (induction es arbitrary: needle result)
  case (Cons e es)
  have c: "cursor_at data needle (fst e @ concat (map fst es) @ rest)" using Cons.prems(2) by simp
  have rest: "slice_at data needle (length data) = (Ok (fst e @ concat (map fst es) @ rest) :: (error, bytes) res)"
    by (rule slice_to_end[OF c])
  have "length (fst e @ concat (map fst es) @ rest) \<le> isize_max"
    using cursor_length[OF c] cursor_slice[OF c] by simp
  with Cons.prems(1) have "format_primitive_type sf pr (fst e @ concat (map fst es) @ rest) t = Ok (snd e, length (fst e))"
    by (simp add: elem_rep_def)
  moreover have "needle + length (fst e) < usize_bound" using cursor_bound[OF c, of "length (fst e)"] by simp
  ultimately show ?case
    using Cons.IH[OF _ cursor_advance[OF c refl]] Cons.prems(1) rest
    by (simp add: join_Cons add.assoc del: ascii_Cons)
qed simp

lemma word_elem:
  assumes "word_magic m" and "m \<noteq> TypeSeq"
  shows "elem_rep sf pr m (to_le_bytes w, show_elem sf m w)"
proof -
  have "read_u32 (to_le_bytes w @ rest) 0 = Ok w" if "length (to_le_bytes w @ rest) \<le> isize_max" for rest
    using that by (intro read_u32_cursor) (simp add: cursor_at_def)
  with assms show ?thesis
    by (cases m) (simp_all add: elem_rep_def format_primitive_type_def format_word_def show_elem_def
        read_i32_def read_f32_def read_u32_def)
qed

lemma varchar_elem:
  assumes V: "varint_repr pr V (length s)" and "utf8_valid s"
  shows "elem_rep sf pr TypeVarchar (V @ s, quoted s)"
  unfolding elem_rep_def
proof (intro allI impI)
  fix rest :: bytes assume len: "length (fst (V @ s, quoted s) @ rest) \<le> isize_max"
  then have c: "cursor_at (V @ s @ rest) 0 (V @ s @ rest)" by (simp add: cursor_at_def)
  have "get_range (V @ s @ rest) (length V) (length V + length s) = Some s"
    by (simp add: get_range_def)
  moreover have "length V + length s < usize_bound" using len by (simp add: isize_max_def usize_bound_def)
  ultimately show "format_primitive_type sf pr (fst (V @ s, quoted s) @ rest) TypeVarchar =
      Ok (snd (V @ s, quoted s), length (fst (V @ s, quoted s)))"
    using varint_repr_cursor[OF V c] assms(2) by (simp add: format_primitive_type_def)
qed

lemma fd_elem: "elem_rep sf pr TypeFd ([], ascii ''<fd>'')"
  by (simp add: elem_rep_def format_primitive_type_def)

lemma blobs_elems:
  "blobs_rep pr ss P \<Longrightarrow> \<forall>s \<in> set ss. utf8_valid s \<Longrightarrow>
     \<exists>es. length es = length ss \<and> concat (map fst es) = P \<and> map snd es = map quoted ss \<and>
       (\<forall>e \<in> set es. elem_rep sf pr TypeVarchar e)"
proof (induction ss arbitrary: P)
  case (Cons s ss)
  from Cons.prems(1) obtain V P' where V: "varint_repr pr V (length s)" and P: "P = V @ s @ P'"
    and rep: "blobs_rep pr ss P'" by auto
  from Cons.IH[OF rep] Cons.prems(2) obtain es where "length es = length ss" "concat (map fst es) = P'"
    "map snd es = map quoted ss" "\<forall>e \<in> set es. elem_rep sf pr TypeVarchar e" by auto
  with varchar_elem[OF V] P Cons.prems(2) show ?case
    by (intro exI[of _ "(V @ s, quoted s) # es"]) simp
qed simp

lemma field_elems:
  assumes rep: "field_rep pr f F" and arr: "field_head f = TypeArray" and "printable f"
  obtains m V es where "F = magic_u8 TypeArray # magic_u8 m # V @ concat (map fst es)"
    and "varint_repr pr V (length es)" and "\<forall>e \<in> set es. elem_rep sf pr m e"
    and "show_field sf f = braces (map snd es)"
proof (cases f)
  case (FWord m w)
  with rep arr show ?thesis by (cases m) auto
next
  case (FWords m ws)
  with rep obtain V where V: "word_magic m" "varint_repr pr V (length ws)"
    "F = magic_u8 TypeArray # magic_u8 m # V @ concat (map to_le_bytes ws)" by auto
  show ?thesis
  proof (rule that[of m V "map (\<lambda>w. (to_le_bytes w, show_elem sf m w)) ws"])
    show "\<forall>e \<in> set (map (\<lambda>w. (to_le_bytes w, show_elem sf m w)) ws). elem_rep sf pr m e"
      using word_elem[OF V(1)] assms(3) FWords by simp
  qed (simp_all add: V(2,3) FWords comp_def del: magic_u8.simps)
next
  case (FStrs ss)
  with rep obtain V P where V: "varint_repr pr V (length ss)" "blobs_rep pr ss P"
    "F = magic_u8 TypeArray # magic_u8 TypeVarchar # V @ P" by auto
  moreover obtain es where "length es = length ss" "concat (map fst es) = P" "map snd es = map quoted ss"
    "\<forall>e \<in> set es. elem_rep sf pr TypeVarchar e"
    using blobs_elems[OF V(2), of sf] assms(3) FStrs by auto
  ultimately show ?thesis
    by (intro that[of TypeVarchar V es]) (simp_all add: FStrs del: magic_u8.simps)
next
  case (FFds n)
  with rep obtain V where V: "varint_repr pr V n" "F = magic_u8 TypeArray # magic_u8 TypeFd # V" by auto
  show ?thesis
    by (rule that[of TypeFd V "replicate n ([], ascii ''<fd>'')"])
      (simp_all add: V FFds fd_elem del: magic_u8.simps ascii_Cons)
qed (use arr in auto)

section \<open>Fields and messages\<close>

lemma trace_array_cursor:
  assumes "field_rep pr f (magic_u8 TypeArray # F)" and "field_head f = TypeArray" and "printable f"
    and c: "cursor_at data needle (F @ rest)"
  shows "trace_array sf pr data needle = Ok (True, needle + length F, show_field sf f)"
proof -
  obtain m V es where F: "F = magic_u8 m # V @ concat (map fst es)" and V: "varint_repr pr V (length es)"
    and es: "\<forall>e \<in> set es. elem_rep sf pr m e" and shown: "show_field sf f = braces (map snd es)"
    by (rule field_elems[OF assms(1-3), where sf = sf]) (simp del: magic_u8.simps)
  have c0: "cursor_at data needle (magic_u8 m # V @ concat (map fst es) @ rest)" using c F by simp
  have c1: "cursor_at data (needle + 1) (V @ concat (map fst es) @ rest)" using cursor_next[OF c0] by simp
  have c2: "cursor_at data (needle + 1 + length V) (concat (map fst es) @ rest)" by (rule cursor_advance[OF c1 refl])
  have "needle + 1 + length V < usize_bound" using cursor_bound[OF c1, of "length V"] by simp
  with cursor_get[OF c0] varint_repr_cursor[OF V c1] trace_elems_cursor[OF es c2]
  show ?thesis by (simp add: trace_array_def shown braces_def F del: magic_u8.simps ascii_Cons)
qed

lemma trace_value_cursor:
  assumes rep: "field_rep pr f (magic_u8 (field_head f) # F)" and ok: "printable f"
    and c: "cursor_at data needle (F @ rest)"
  shows "trace_value sf pr data (field_head f) needle = Ok (True, needle + length F, show_field sf f)"
proof (cases f)
  case (FWord m w)
  with rep have m: "word_magic m" and F: "F = to_le_bytes w" by auto
  have "read_u32 data needle = Ok w" using c F by (intro read_u32_cursor) simp
  with m FWord F show ?thesis by (cases m) (simp_all add: trace_value_def trace_word_def)
next
  case (FStr s)
  with rep obtain V where V: "varint_repr pr V (length s)" and F: "F = V @ s" by auto
  have c0: "cursor_at data needle (V @ s @ rest)" using c F by simp
  have c1: "cursor_at data (needle + length V) (s @ rest)" by (rule cursor_advance[OF c0 refl])
  have "needle + length V + length s < usize_bound" using cursor_bound[OF c0, of "length V + length s"] by (simp add: add.assoc)
  moreover have "slice_at data (needle + length V) (needle + length V + length s) = (Ok s :: (error, bytes) res)"
    by (rule cursor_slice_at[OF c1 refl])
  ultimately show ?thesis using varint_repr_cursor[OF V c0]
    by (simp add: FStr F trace_value_def trace_varchar_def add.assoc)
next
  case FFd
  with rep show ?thesis by (simp add: trace_value_def)
qed (use rep ok trace_array_cursor[OF _ _ ok c] in \<open>simp_all add: trace_value_def del: field_rep.simps\<close>)

lemma trace_step_field:
  assumes F: "field_rep pr f F" and ok: "printable f" and c: "cursor_at data needle (F @ rest)"
  shows "trace_step sf pr data (needle, first, result) =
    Ok (True, needle + length F, False, result @ (if first then [] else ascii '', '') @ show_field sf f)"
proof -
  from F obtain F' where F': "F = magic_u8 (field_head f) # F'" and head: "field_head f \<noteq> End"
    by (rule field_rep_head)
  have not_id: "field_head f \<noteq> TypeObjectId"
    using F by (cases f) auto
  have c1: "cursor_at data (needle + 1) (F' @ rest)" using cursor_next[of data needle _ "F' @ rest"] c F' by simp
  have "trace_value sf pr data (field_head f) (needle + 1) = Ok (True, needle + 1 + length F', show_field sf f)"
    by (rule trace_value_cursor[OF _ ok c1]) (use F F' in simp)
  moreover have "data ! needle = magic_u8 (field_head f)"
    using cursor_get[of data needle _ "F' @ rest"] c F' by (simp add: get_eq_Some)
  ultimately show ?thesis
    using head not_id F' by (simp add: trace_step_def del: ascii_Cons magic_u8.simps)
qed

lemma trace_loop_fields:
  assumes "fields_rep pr fs B" and "\<forall>f \<in> set fs. printable f" and "cursor_at data needle (B @ [magic_u8 End])"
  shows "trace_loop sf pr data (needle, first, result) =
    Some (Ok (result @ (if first \<or> fs = [] then [] else ascii '', '') @ join (map (show_field sf) fs)))"
  using assms
proof (induction fs arbitrary: needle first result B)
  case Nil
  then have c: "cursor_at data needle [magic_u8 End]" by simp
  then have "data ! needle = 0" "needle < length data" "length data = Suc needle"
    using cursor_get[OF c] cursor_length[OF c] by (simp_all add: get_eq_Some)
  then show ?case
    by (simp add: trace_loop.simps[of sf pr data] trace_step_def magic_try_from_def)
next
  case (Cons f fs)
  from Cons.prems(1) obtain F B' where F: "field_rep pr f F" and B: "B = F @ B'"
    and rep: "fields_rep pr fs B'" by auto
  have c: "cursor_at data needle (F @ B' @ [magic_u8 End])" using Cons.prems(3) B by simp
  have "needle < length data" using cursor_length[OF c] by simp
  with trace_step_field[OF F _ c] Cons.IH[OF rep _ cursor_advance[OF c refl]] Cons.prems(2) show ?case
    by (subst trace_loop.simps) (simp add: join_Cons del: ascii_Cons magic_u8.simps)
qed

lemma trace_loop_step:
  "trace_step sf pr data (needle, rest) = Ok (True, s') \<Longrightarrow> needle < length data \<Longrightarrow>
     trace_loop sf pr data (needle, rest) = trace_loop sf pr data s'"
  by (subst trace_loop.simps) simp

lemma parse_data_fields:
  assumes "fields_rep pr fs B" and "\<forall>f \<in> set fs. printable f" and "length B + 2 \<le> isize_max"
  shows "parse_data sf pr t (b # B @ [magic_u8 End]) = Some (Ok (render sf t fs))"
  using trace_loop_fields[OF assms(1,2), of "b # B @ [magic_u8 End]" 1] assms(3)
  by (simp add: parse_data_def render_def cursor_at_def del: ascii_Cons)

section \<open>The messages of the code\<close>

text \<open>The fields of a message that is not a call.\<close>

primrec message_fields :: "message \<Rightarrow> field list" where
  "message_fields (MSup m) = [FStr (ascii ''VAX'')]"
| "message_fields (MHandshakeBegin m) = [FWords TypeUint (hsb_versions m)]"
| "message_fields (MHandshakeAck m) = [FWord TypeUint (ack_version m)]"
| "message_fields (MHandshakeProtocols m) = [FStrs (hsp_protocols m)]"
| "message_fields (MBindProtocol m) = [FWord TypeUint (bind_seq m), FStr (bind_name m), FWord TypeUint (bind_version m)]"
| "message_fields (MNewObject m) = [FWord TypeUint (new_id m), FWord TypeUint (new_seq m)]"
| "message_fields (MFatal m) =
     [FWord TypeUint (fatal_object_id m), FWord TypeUint (fatal_error_id m), FStr (fatal_error_msg m)]"
| "message_fields (MRoundtripRequest m) = [FWord TypeUint (req_seq m)]"
| "message_fields (MRoundtripDone m) = [FWord TypeUint (done_seq m)]"
| "message_fields (MGeneric m) = []"

lemma fields_rep_single: "field_rep pr f F \<Longrightarrow> fields_rep pr [f] F"
  by simp

lemma uint_rep: "fields_rep pr [FWord TypeUint w] (16 # to_le_bytes w)"
  by simp

lemma words_rep:
  "varint_repr pr V (length ws) \<Longrightarrow> word_magic m \<Longrightarrow> length ws < 10000 \<Longrightarrow>
     field_rep pr (FWords m ws) (magic_u8 TypeArray # magic_u8 m # V @ concat (map to_le_bytes ws))"
  by auto

lemma strs_rep:
  "varint_repr pr V (length ss) \<Longrightarrow> blobs_rep pr ss P \<Longrightarrow> length ss < 10000 \<Longrightarrow>
     field_rep pr (FStrs ss) (magic_u8 TypeArray # magic_u8 TypeVarchar # V @ P)"
  by auto

lemma built_layout:
  "handshake_begin_built hb \<Longrightarrow> \<exists>B. hsb_data hb = message_type_u8 HandshakeBegin # B @ [magic_u8 End] \<and>
     fields_rep pr [FWords TypeUint (hsb_versions hb)] B"
  "handshake_protocols_built hp \<Longrightarrow> \<exists>B. hsp_data hp = message_type_u8 HandshakeProtocols # B @ [magic_u8 End] \<and>
     fields_rep pr [FStrs (hsp_protocols hp)] B"
proof -
  assume hb: "handshake_begin_built hb"
  let ?V = "varint (length (hsb_versions hb))"
  have len: "length (hsb_versions hb) < usize_bound" using hb by (simp add: handshake_begin_built_def usize_bound_def)
  then have "handshake_begin_new (hsb_versions hb) =
      Ok \<lparr>hsb_versions = hsb_versions hb, hsb_data = handshake_begin_bytes ?V (hsb_versions hb)\<rparr>"
    by (simp add: handshake_begin_new_def)
  with hb have "hsb_data hb = handshake_begin_bytes ?V (hsb_versions hb)"
    unfolding handshake_begin_built_def by (metis handshake_begin.select_convs(2) res.inject(1))
  moreover have "length (hsb_versions hb) < 10000" using hb by (simp add: handshake_begin_built_def)
  ultimately show "\<exists>B. hsb_data hb = message_type_u8 HandshakeBegin # B @ [magic_u8 End] \<and>
     fields_rep pr [FWords TypeUint (hsb_versions hb)] B"
    using words_rep[OF varint_repr_varint[OF len], where m = TypeUint and pr = pr]
    by (intro exI conjI fields_rep_single) (simp_all add: handshake_begin_bytes_def del: field_rep.simps)
next
  assume hp: "handshake_protocols_built hp"
  let ?V = "varint (length (hsp_protocols hp))" and ?P = "concat (map (\<lambda>s. varint (length s) @ s) (hsp_protocols hp))"
  have len: "length (hsp_protocols hp) < usize_bound" "\<forall>s \<in> set (hsp_protocols hp). length s < usize_bound"
  proof -
    show "length (hsp_protocols hp) < usize_bound" using hp by (simp add: handshake_protocols_built_def usize_bound_def)
    show "\<forall>s \<in> set (hsp_protocols hp). length s < usize_bound"
      using hp usize_le_isize unfolding handshake_protocols_built_def by blast
  qed
  have "Ok hp = (Ok \<lparr>hsp_protocols = hsp_protocols hp, hsp_data = handshake_protocols_bytes ?V ?P\<rparr> :: (error, _) res)"
    using handshake_protocols_new_eq[OF len] hp unfolding handshake_protocols_built_def by (elim conjE) (rule trans[OF sym])
  then have "hp = \<lparr>hsp_protocols = hsp_protocols hp, hsp_data = handshake_protocols_bytes ?V ?P\<rparr>" by (rule res.inject(1)[THEN iffD1])
  then have "hsp_data hp = hsp_data \<lparr>hsp_protocols = hsp_protocols hp, hsp_data = handshake_protocols_bytes ?V ?P\<rparr>"
    by (rule arg_cong)
  then have "hsp_data hp = handshake_protocols_bytes ?V ?P" by (simp only: handshake_protocols.select_convs)
  moreover have "blobs_rep pr (hsp_protocols hp) ?P"
    using hp by (intro blobs_rep_varint) (simp add: handshake_protocols_built_def)
  moreover have "length (hsp_protocols hp) < 10000" using hp by (simp add: handshake_protocols_built_def)
  ultimately show "\<exists>B. hsp_data hp = message_type_u8 HandshakeProtocols # B @ [magic_u8 End] \<and>
     fields_rep pr [FStrs (hsp_protocols hp)] B"
    using strs_rep[OF varint_repr_varint[OF len(1)], where P = ?P and pr = pr]
    by (intro exI conjI fields_rep_single) (simp_all add: handshake_protocols_bytes_def del: field_rep.simps)
qed

lemma bind_layout:
  assumes "bind_built b"
  shows "\<exists>B. bind_data b = message_type_u8 BindProtocol # B @ [magic_u8 End] \<and>
    fields_rep pr (message_fields (MBindProtocol b)) B"
proof -
  let ?V = "varint (length (bind_name b))"
  have len: "length (bind_name b) < usize_bound" using assms by (auto simp: bind_built_def intro: usize_le_isize)
  then have "bind_protocol_new (bind_name b) (bind_seq b) (bind_version b) =
      Ok \<lparr>bind_seq = bind_seq b, bind_version = bind_version b, bind_name = bind_name b,
        bind_data = bind_bytes ?V (bind_seq b) (bind_name b) (bind_version b)\<rparr>"
    by (simp add: bind_protocol_new_def)
  with assms have "bind_data b = bind_bytes ?V (bind_seq b) (bind_name b) (bind_version b)"
    unfolding bind_built_def by (metis bind_protocol.select_convs(4) res.inject(1))
  with varint_repr_varint[OF len] show ?thesis
    by (intro exI[of _ "magic_u8 TypeUint # to_le_bytes (bind_seq b) @ magic_u8 TypeVarchar # ?V @ bind_name b @
        magic_u8 TypeUint # to_le_bytes (bind_version b)"]) (auto simp: bind_bytes_def)
qed

lemma fatal_layout:
  assumes "fatal_built b"
  shows "\<exists>B. fatal_data b = message_type_u8 FatalProtocolError # B @ [magic_u8 End] \<and>
    fields_rep pr (message_fields (MFatal b)) B"
proof -
  let ?V = "varint (length (fatal_error_msg b))"
  have len: "length (fatal_error_msg b) < usize_bound" using assms by (auto simp: fatal_built_def intro: usize_le_isize)
  then have "fatal_protocol_error_new (fatal_object_id b) (fatal_error_id b) (fatal_error_msg b) =
      Ok \<lparr>fatal_object_id = fatal_object_id b, fatal_error_id = fatal_error_id b,
        fatal_error_msg = fatal_error_msg b,
        fatal_data = fatal_bytes ?V (fatal_object_id b) (fatal_error_id b) (fatal_error_msg b)\<rparr>"
    by (simp add: fatal_protocol_error_new_def)
  with assms have "fatal_data b = fatal_bytes ?V (fatal_object_id b) (fatal_error_id b) (fatal_error_msg b)"
    unfolding fatal_built_def by (metis fatal_protocol_error.select_convs(4) res.inject(1))
  with varint_repr_varint[OF len] show ?thesis
    by (intro exI[of _ "magic_u8 TypeUint # to_le_bytes (fatal_object_id b) @ magic_u8 TypeUint #
        to_le_bytes (fatal_error_id b) @ magic_u8 TypeVarchar # ?V @ fatal_error_msg b"]) (auto simp: fatal_bytes_def)
qed

lemma hello_layout:
  "hello_bytes = message_type_u8 Sup # (magic_u8 TypeVarchar # varint 3 @ ascii ''VAX'') @ [magic_u8 End]"
  by (simp add: hello_bytes_def varint.simps[of 3])

lemma message_layout:
  assumes "sendable pr m" and "\<forall>g. m \<noteq> MGeneric g"
  shows "\<exists>B. message_data m = message_type_u8 (message_type_of m) # B @ [magic_u8 End] \<and> fields_rep pr (message_fields m) B"
proof (cases m)
  case (MSup h)
  with assms(1) show ?thesis
    by (intro exI[of _ "magic_u8 TypeVarchar # varint 3 @ ascii ''VAX''"])
      (auto simp: hello_new_def hello_layout numeral_3_eq_3[symmetric] intro!: exI[of _ "varint 3"]
        varint_repr_varint simp: usize_bound_def)
next
  case (MNewObject o')
  with assms(1) show ?thesis
    by (intro exI[of _ "magic_u8 TypeUint # to_le_bytes (new_id o') @ magic_u8 TypeUint # to_le_bytes (new_seq o')"])
      (auto simp: new_object_new_def)
qed (use assms built_layout bind_layout fatal_layout in
    \<open>auto simp: uint_rep handshake_ack_new_def roundtrip_request_new_def roundtrip_done_new_def word_msg_bytes_def
      simp del: field_rep.simps fields_rep.simps \<close>)

text \<open>The trace of a message that is not a call shows its fields.\<close>

lemma trace_messages:
  assumes "sendable pr m" and "\<forall>g. m \<noteq> MGeneric g" and "length (message_data m) \<le> isize_max"
  shows "parse_data sf pr (message_type_of m) (message_data m) = Some (Ok (render sf (message_type_of m) (message_fields m)))"
proof -
  obtain B where B: "message_data m = message_type_u8 (message_type_of m) # B @ [magic_u8 End]"
    "fields_rep pr (message_fields m) B" using message_layout[OF assms(1,2)] by blast
  have "\<forall>f \<in> set (message_fields m). printable f"
    using assms(1) by (cases m) (auto simp: handshake_protocols_built_def)
  with parse_data_fields[OF B(2), of sf "message_type_of m" "message_type_u8 (message_type_of m)"] assms(3)
  show ?thesis unfolding B(1) by simp
qed

section \<open>The rendering ends\<close>

lemma uadd_up: "uadd pr a b = Ok c \<Longrightarrow> a \<le> c \<Longrightarrow> b < usize_bound \<Longrightarrow> c = a + b"
proof (cases "a + b < usize_bound")
  case False
  assume c: "uadd pr a b = Ok c" "a \<le> c" "b < usize_bound"
  with False have "c = (a + b - usize_bound) mod usize_bound"
    by (cases pr) (simp_all add: uadd_def le_mod_geq)
  then have "c \<le> a + b - usize_bound" using mod_less_eq_dividend by blast
  with c False show ?thesis by linarith
qed simp

lemma format_primitive_type_length:
  "format_primitive_type sf pr s t = Ok (text, len) \<Longrightarrow> len \<le> length s"
  by (auto simp: format_primitive_type_def format_word_def bind_res_eq_Ok ok_or_eqs read_i32_def read_f32_def
      read_u32_def split: magic.splits prod.splits if_splits dest: get_range_SomeD)

lemma trace_elems_forward:
  "trace_elems sf pr data t n needle result = Ok (needle', text) \<Longrightarrow> length data \<le> isize_max \<Longrightarrow>
     needle \<le> length data \<Longrightarrow> needle \<le> needle'"
proof (induction n arbitrary: needle result)
  case (Suc n)
  from Suc.prems have rest: "slice_at data needle (length data) = (Ok (drop needle data) :: (error, bytes) res)"
    by (simp add: slice_in_range)
  show ?case
  proof (cases "format_primitive_type sf pr (drop needle data) t")
    case (Ok e)
    obtain s len where e: "e = (s, len)" by (cases e)
    from format_primitive_type_length[OF Ok[unfolded e]] Suc.prems(3) have len: "needle + len \<le> length data" by simp
    with Suc.prems(2) have "needle + len < usize_bound" by (simp add: isize_max_def usize_bound_def)
    with Suc.IH[OF _ Suc.prems(2) len] Suc.prems(1) rest Ok e show ?thesis by simp (meson add_leD1)
  qed (use Suc.prems rest in auto)
qed simp

lemma trace_varchar_forward:
  assumes "trace_varchar pr data needle = Ok (go, needle', text)" and len: "length data \<le> isize_max"
    and "needle \<le> length data"
  shows "needle \<le> needle'"
proof -
  from assms(1) obtain l k n where p: "parse_var_int pr data needle = (Ok (l, k) :: (error, usize \<times> usize) res)"
    and n: "uadd pr k l = (Ok n :: (error, usize) res)" and needle': "uadd pr needle n = (Ok needle' :: (error, usize) res)"
    and str: "l > 0 \<longrightarrow> (\<exists>start stop bs. uadd pr needle k = (Ok start :: (error, usize) res) \<and>
      uadd pr start l = (Ok stop :: (error, usize) res) \<and> slice_at data start stop = (Ok bs :: (error, bytes) res))"
    by (auto simp: trace_varchar_def bind_res_eq_Ok split: if_splits)
  note bounds = parse_var_int_bounds[OF p]
  have k: "needle + k \<le> length data" using bounds(2) assms(3) by simp
  have small: "x < usize_bound" if "x \<le> length data" for x
    using that len by (simp add: isize_max_def usize_bound_def)
  have "needle + k + l \<le> length data"
  proof (cases "l > 0")
    case True
    with str small[OF k] obtain stop bs where stop: "uadd pr (needle + k) l = (Ok stop :: (error, usize) res)"
      "slice_at data (needle + k) stop = (Ok bs :: (error, bytes) res)" by auto
    then have "needle + k \<le> stop" "stop \<le> length data" by (auto simp: slice_at_eq_Ok dest: get_range_SomeD)
    with uadd_up[OF stop(1)] bounds(1) show ?thesis by simp
  qed (use k in simp)
  then have "k + l < usize_bound" "needle + (k + l) < usize_bound" using small by simp_all
  with n needle' show ?thesis by auto
qed

lemma trace_value_forward:
  assumes "trace_value sf pr data t needle = Ok (go, needle', text)" and len: "length data \<le> isize_max"
    and "needle \<le> length data"
  shows "needle \<le> needle'"
proof -
  have "needle \<le> needle'" if "trace_word sh data needle = Ok (go, needle', text)" for sh
    using that by (auto simp: trace_word_def split: res.splits)
  moreover have "needle \<le> needle'" if array: "trace_array sf pr data needle = Ok (go, needle', text)"
  proof (cases "get data needle")
    case (Some b)
    then have b: "needle + 1 \<le> length data" by (simp add: get_eq_Some)
    show ?thesis
    proof (cases "\<exists>m. magic_try_from b = Ok m")
      case True
      then obtain m where m: "magic_try_from b = Ok m" by blast
      with array Some obtain els k needle1 text' where
        p: "parse_var_int pr data (needle + 1) = (Ok (els, k) :: (error, usize \<times> usize) res)"
        and n1: "uadd pr (needle + 1) k = (Ok needle1 :: (error, usize) res)"
        and elems: "trace_elems sf pr data m els needle1 (ascii ''{ '') = Ok (needle', text')"
        by (auto simp: trace_array_def bind_res_eq_Ok simp del: ascii_Cons)
      have "needle + 1 + k \<le> length data" using parse_var_int_bounds(2)[OF p] b by simp
      moreover from this have "needle + 1 + k < usize_bound" using len by (simp add: isize_max_def usize_bound_def)
      ultimately have "needle1 = needle + 1 + k" "needle1 \<le> length data" using n1 by auto
      with trace_elems_forward[OF elems len] show ?thesis by simp
    qed (use array Some in \<open>auto simp: trace_array_def split: res.splits\<close>)
  qed (use array in \<open>simp add: trace_array_def\<close>)
  ultimately show ?thesis
    using assms trace_varchar_forward[OF _ len assms(3)]
    by (auto simp: trace_value_def split: magic.splits)
qed

lemma trace_step_forward:
  assumes "trace_step sf pr data (needle, first, result) = Ok (True, needle', first', result')"
    and "length data \<le> isize_max" and "needle < length data"
  shows "needle < needle'"
  using assms trace_value_forward[OF _ assms(2), of sf pr _ "needle + 1"]
  by (fastforce simp: trace_step_def bind_res_eq_Ok split: res.splits if_splits)

lemma trace_loop_returns:
  "length data \<le> isize_max \<Longrightarrow> \<exists>r. trace_loop sf pr data s = Some r"
proof (induction "length data - fst s" arbitrary: s rule: less_induct)
  case less
  obtain needle first result where s: "s = (needle, first, result)" by (cases s)
  show ?case
  proof (cases "needle < length data \<and> (\<exists>s'. trace_step sf pr data s = Ok (True, s'))")
    case True
    then obtain s' where s': "trace_step sf pr data s = Ok (True, s')" by blast
    with True trace_step_forward[of sf pr data needle first result "fst s'" "fst (snd s')" "snd (snd s')"] less.prems
    have "needle < fst s'" by (simp add: s)
    with True have "length data - fst s' < length data - fst s" unfolding s by (simp add: diff_less_mono2)
    from less.hyps[OF this less.prems] have "\<exists>r. trace_loop sf pr data s' = Some r" .
    with True s' show ?thesis by (subst trace_loop.simps) (simp add: s)
  next
    case False
    then show ?thesis by (subst trace_loop.simps) (auto simp: s split: res.splits prod.splits)
  qed
qed

section \<open>Properties\<close>

text \<open>C36: The trace of a call shows the call: for a call whose arguments fit the method, \<open>parse_data\<close> of the
  message that \<open>call\<close> writes is the name of the message type with the object, the method, the sequence
  number of a returning method and every argument in order, provided the strings in arrays are UTF-8, as
  the ones of the generated code are.\<close>
theorem trace_call:
  assumes "unat i < length methods" and "since (methods ! unat i) \<le> version"
    and "\<not> (returns_type (methods ! unat i) \<noteq> [] \<and> server)"
    and args: "arg_fields (method_params (methods ! unat i)) args = Some fs" and utf8: "\<forall>f \<in> set fs. printable f"
    and call: "wire_call server methods oid version ns i args = Ok (CallMessage d s data fds)"
    and len: "length data \<le> isize_max"
  shows "parse_data sf pr GenericProtocolMessage data =
    Some (Ok (render sf GenericProtocolMessage
      (FWord TypeObject oid # FWord TypeUint i # call_fields (methods ! unat i) ns fs)))"
proof -
  let ?fs = "call_fields (methods ! unat i) ns fs"
  from wire_call_message[OF assms(1) refl assms(2-4), of oid ns pr] call obtain B where
    B: "data = generic_bytes oid i B" "fields_rep pr ?fs B" by auto
  let ?B = "(magic_u8 TypeObject # to_le_bytes oid) @ (magic_u8 TypeUint # to_le_bytes i) @ B"
  have "fields_rep pr (FWord TypeObject oid # FWord TypeUint i # ?fs) ?B"
    by (intro fields_rep_Cons_append B(2)) simp_all
  moreover have "\<forall>f \<in> set (FWord TypeObject oid # FWord TypeUint i # ?fs). printable f"
    using utf8 by (auto simp: call_fields_def)
  ultimately show ?thesis
    using parse_data_fields[of pr _ ?B sf GenericProtocolMessage "message_type_u8 GenericProtocolMessage"] len
    by (simp add: B(1) generic_bytes_def del: fields_rep.simps)
qed

definition sample_methods :: "method_spec list" where
  "sample_methods =
     [\<lparr>method_idx = 0, method_params = [0x10, 0x20], returns_type = [], since = 0, destructor = False\<rparr>]"

theorem trace_call_witness:
  "\<exists>data. wire_call False sample_methods 5 1 None 0 [ArgUint 7, ArgVarchar (ascii ''hi'')] = Ok (CallMessage False 0 data []) \<and>
     parse_data (\<lambda>_. []) Debug GenericProtocolMessage data =
       Some (Ok (ascii ''GenericProtocolMessage ( object(5), 0, 7, \"hi\" ) ''))"
proof -
  have call: "wire_call False sample_methods 5 1 None 0 [ArgUint 7, ArgVarchar (ascii ''hi'')] =
      Ok (CallMessage False 0 (generic_bytes 5 0 (0x10 # to_le_bytes 7 @ 0x20 # varint 2 @ ascii ''hi'')) [])"
    by (simp add: wire_call_def sample_methods_def magic_try_from_def generic_bytes_def call_seq_def
        usize_bound_def numeral_2_eq_2[symmetric])
  have "length (varint 2) = 1" by (simp add: varint.simps[of 2])
  with trace_call[of 0 sample_methods 1 False "[ArgUint 7, ArgVarchar (ascii ''hi'')]"
      "[FWord TypeUint 7, FStr (ascii ''hi'')]" 5 None, OF _ _ _ _ _ call]
  show ?thesis
    using call by (simp add: sample_methods_def magic_try_from_def isize_max_def call_fields_def render_def
        show_u32_def show_nat.simps digit_def quoted_def)
qed

text \<open>Rendering a message returns, a text or a panic, on any bytes a slice can hold, in both builds, also for
  lengths that would wrap: the index moves forward in every round.\<close>
theorem trace_returns:
  assumes "length data \<le> isize_max"
  shows "\<exists>r. parse_data sf pr t data = Some r"
  using trace_loop_returns[OF assms, of sf pr "(1, True, message_type_name t @ ascii '' ( '')"]
  by (auto simp: parse_data_def simp del: ascii_Cons)

theorem trace_returns_witness: "\<exists>r. parse_data (\<lambda>_. []) Release Sup [1, 0x20, 3] = Some r"
  by (rule trace_returns) (simp add: isize_max_def)

text \<open>A call with one argument, an array of one string, that is 32 bytes long and not UTF-8.\<close>

definition bad_string :: bytes where
  "bad_string = [0xFF, 0x7F] @ replicate 30 0"

definition bad_array_message :: bytes where
  "bad_array_message = generic_bytes 1 0 ([0x21, 0x20, 1, 32] @ bad_string)"

lemma bad_array_bytes:
  "cursor_at bad_array_message 1 ((magic_u8 TypeObject # to_le_bytes 1) @ (magic_u8 TypeUint # to_le_bytes 0) @
     0x21 # 0x20 # 1 # 32 # bad_string @ [0])"
  by (simp add: cursor_at_def bad_array_message_def generic_bytes_def bad_string_def isize_max_def)

lemma bad_array_drop:
  "drop 12 bad_array_message = 0x20 # 1 # 32 # bad_string @ [0]" "length bad_array_message = 48"
  using cursor_drop[OF bad_array_bytes, of 11]
  by (simp_all add: cursor_at_def bad_array_message_def bad_string_def to_le_bytes_def)

lemma bad_array_varints: "varint_repr pr [1] (length [bad_string])" "varint_repr pr [32] (length bad_string)"
  using varint_repr_varint[of 1 pr] varint_repr_varint[of 32 pr]
  by (simp_all add: varint.simps usize_bound_def bad_string_def)

lemma bad_array_blobs: "blobs_rep pr [bad_string] (32 # bad_string)"
  using bad_array_varints(2)[of pr] by (auto intro: exI[of _ "[32]"])

lemma bad_string_not_utf8: "\<not> utf8_valid bad_string"
  by (simp add: bad_string_def in_range_def)

lemma bad_array_elem: "format_primitive_type sf pr (32 # bad_string @ [0]) TypeVarchar = Err MalformedMessage"
proof -
  have "cursor_at (32 # bad_string @ [0]) 0 ([32] @ bad_string @ [0])"
    by (simp add: cursor_at_def bad_string_def isize_max_def)
  from varint_repr_cursor[OF bad_array_varints(2) this]
  have "parse_var_int pr (32 # bad_string @ [0]) 0 = (Ok (32, 1) :: (error, usize \<times> usize) res)"
    by (simp add: bad_string_def)
  moreover have "get_range (32 # bad_string @ [0]) 1 33 = Some bad_string"
    by (simp add: get_range_def bad_string_def)
  ultimately show ?thesis
    using bad_string_not_utf8 by (simp add: format_primitive_type_def usize_bound_def)
qed

lemma bad_array_step:
  "trace_step sf pr bad_array_message (11, False, result) = Ok (True, 14, False, result @ ascii '', { <malformed> }'')"
proof -
  have c: "cursor_at bad_array_message 11 (0x21 # 0x20 # [1] @ 32 # bad_string @ [0])"
    using cursor_drop[OF bad_array_bytes, of 10] by simp
  note c1 = cursor_next[OF c] note c2 = cursor_next[OF c1] note c3 = cursor_advance[OF c2 refl]
  have at: "bad_array_message ! 11 = 0x21" using cursor_get[OF c] by (simp add: get_eq_Some)
  have b: "get bad_array_message 12 = Some 0x20" using cursor_get[OF c1] by simp
  have n: "parse_var_int pr bad_array_message 13 = (Ok (1, 1) :: (error, usize \<times> usize) res)"
    using varint_repr_cursor[OF bad_array_varints(1) c2] by simp
  have "slice_at bad_array_message 14 (length bad_array_message) = (Ok (32 # bad_string @ [0]) :: (error, bytes) res)"
    using slice_to_end[OF c3] by simp
  then have "trace_elems sf pr bad_array_message TypeVarchar 1 14 (ascii ''{ '') = Ok (14, ascii ''{ <malformed>'')"
    by (simp add: bad_array_elem)
  then have "trace_array sf pr bad_array_message 12 = Ok (True, 14, ascii ''{ <malformed> }'')"
    by (simp add: trace_array_def b n magic_try_from_def usize_bound_def)
  with at show ?thesis by (simp add: trace_step_def trace_value_def magic_try_from_def)
qed

lemma bad_string_step: "trace_step sf pr bad_array_message (14, False, result) = Panic"
proof -
  have c: "cursor_at bad_array_message 14 (32 # bad_string @ [0])"
    using cursor_drop[OF bad_array_bytes, of 13] by simp
  have at: "bad_array_message ! 14 = 32" using cursor_get[OF c] by (simp add: get_eq_Some)
  have "drop 15 bad_array_message = bad_string @ [0]" using cursor_next[OF c] by (simp add: cursor_at_def)
  then have "parse_var_int pr bad_array_message 15 = (Ok (16383, 2) :: (error, usize \<times> usize) res)"
    by (simp add: parse_var_int_def parse_var_int_span_def bad_array_drop(2) bad_string_def ushl_def uadd_def usize_bound_def)
  then have "trace_varchar pr bad_array_message 15 = Panic"
    by (simp add: trace_varchar_def uadd_def usize_bound_def slice_at_def get_range_def bad_array_drop(2))
  with at show ?thesis by (simp add: trace_step_def trace_value_def magic_try_from_def)
qed

text \<open>A message that is accepted can panic the process that traces it: the bytes of the call \<open>bad_array_message\<close>
  are parsed by \<open>from_bytes\<close>, in both builds, and rendering what was parsed panics. The string of its array is
  not UTF-8; the rendering gives the array up and goes on inside it, where it takes the bytes of the string for
  tags and lengths.\<close>
theorem trace_panics:
  "(\<exists>m. generic_from_bytes pr bad_array_message [] 0 = Some (Ok (m, [])) \<and> gm_data m = bad_array_message) \<and>
     parse_data sf pr GenericProtocolMessage bad_array_message = Some Panic"
proof
  have rep: "fields_rep pr [FStrs [bad_string]] ([0x21, 0x20, 1, 32] @ bad_string)"
    using strs_rep[OF bad_array_varints(1) bad_array_blobs] by (intro fields_rep_single) simp
  show "\<exists>m. generic_from_bytes pr bad_array_message [] 0 = Some (Ok (m, [])) \<and> gm_data m = bad_array_message"
    using generic_from_bytes_fwd[OF rep, of bad_array_message 0 1 0 "[]" "[]"]
    by (simp add: bad_array_message_def generic_parsed_def cursor_at_def bad_string_def isize_max_def)
next
  note c = bad_array_bytes
  have step1: "trace_step sf pr bad_array_message (1, True, r) = Ok (True, 6, False, r @ show_field sf (FWord TypeObject 1))" for r
    using trace_step_field[OF _ _ c, of pr "FWord TypeObject 1" sf True r] by simp
  have step2: "trace_step sf pr bad_array_message (6, False, r) =
      Ok (True, 11, False, r @ ascii '', '' @ show_field sf (FWord TypeUint 0))" for r
    using trace_step_field[OF _ _ cursor_advance[OF c refl], of pr "FWord TypeUint 0" sf False r]
    by (simp del: ascii_Cons show_field.simps)
  have last: "trace_loop sf pr bad_array_message (14, False, r) = Some Panic" for r
    by (subst trace_loop.simps) (simp add: bad_string_step bad_array_drop(2))
  have "trace_loop sf pr bad_array_message (1, True, r) = Some Panic" for r
    by (subst trace_loop_step[OF step1], simp add: bad_array_drop(2),
      subst trace_loop_step[OF step2], simp add: bad_array_drop(2),
      subst trace_loop_step[OF bad_array_step], simp add: bad_array_drop(2), rule last)
  then show "parse_data sf pr GenericProtocolMessage bad_array_message = Some Panic"
    by (simp add: parse_data_def del: ascii_Cons)
qed

end
