(* ===== verification/Scanner_Parse.thy ===== *)
theory Scanner_Parse
  imports Scanner_Types Connection
begin

text \<open>
  Reading a protocol description: \<open>hyprwire-scanner/src/parse.rs\<close>.

  The XML reader is the crate \<open>quick_xml\<close>; it is a parameter, an \<open>xml_reader\<close> with the two operations the
  code uses. \<open>xr_event\<close> is \<open>read_event\<close> and \<open>xr_to_end\<close> is \<open>read_to_end\<close>, each with the state after it, or
  \<open>None\<close> for an error. The events are the ones the code tells apart; an attribute that is malformed is
  \<open>None\<close>, and a text carries the result of \<open>unescape\<close>. The loops run as long as the reader gives events.
\<close>

section \<open>The reader\<close>

type_synonym xml_attrs = "(str \<times> bytes) option list"

datatype xml_event =
    XStart str xml_attrs | XEmpty str xml_attrs | XEnd str | XText "str option" | XCData bytes | XOther | XEof

record 'r xml_reader =
  xr_event :: "'r \<Rightarrow> (xml_event \<times> 'r) option"
  xr_to_end :: "str \<Rightarrow> 'r \<Rightarrow> 'r option"

datatype scan_error =
    XmlError | MissingAttribute str | UnknownArgType str | EnumWithoutInterface str | ScanEof str | InvalidNumber

definition read_event :: "'r xml_reader \<Rightarrow> 'r \<Rightarrow> (scan_error, xml_event, 'r) eff" where
  "read_event xr r = (case xr_event xr r of Some (e, r') \<Rightarrow> Some (Ok e, r') | None \<Rightarrow> Some (Err XmlError, r))"

definition read_to_end :: "'r xml_reader \<Rightarrow> str \<Rightarrow> 'r \<Rightarrow> (scan_error, unit, 'r) eff" where
  "read_to_end xr tag r = (case xr_to_end xr tag r of Some r' \<Rightarrow> Some (Ok (), r') | None \<Rightarrow> Some (Err XmlError, r))"

section \<open>Attributes\<close>

definition attr_str :: "xml_attrs \<Rightarrow> str \<Rightarrow> str option" where
  "attr_str attrs key =
     map_option (\<lambda>(_, v). from_utf8_lossy v) (List.find (\<lambda>(k, _). k = key) (List.map_filter id attrs))"

definition attr_required :: "xml_attrs \<Rightarrow> str \<Rightarrow> (scan_error, str) res" where
  "attr_required attrs key = ok_or (MissingAttribute key) (attr_str attrs key)"

definition attr_number :: "xml_attrs \<Rightarrow> str \<Rightarrow> (scan_error, u32) res" where
  "attr_number attrs key = bind_res (attr_required attrs key) (\<lambda>v. ok_or InvalidNumber (parse_u32 v))"

definition parse_arg_type :: "str \<Rightarrow> (scan_error, arg_type) res" where
  "parse_arg_type s =
     (if s = ascii ''varchar'' then Ok TVarchar
      else if s = ascii ''fd'' then Ok TFd
      else if s = ascii ''uint'' then Ok TUint
      else if s = ascii ''int'' then Ok TInt
      else if s = ascii ''f32'' then Ok TF32
      else if s = ascii ''enum'' then Ok TEnum
      else if s = ascii ''array varchar'' then Ok TArrayVarchar
      else if s = ascii ''array fd'' then Ok TArrayFd
      else if s = ascii ''array uint'' then Ok TArrayUint
      else if s = ascii ''array int'' then Ok TArrayInt
      else if s = ascii ''array f32'' then Ok TArrayF32
      else Err (UnknownArgType s))"

definition parse_arg :: "xml_attrs \<Rightarrow> (scan_error, arg) res" where
  "parse_arg attrs =
     bind_res (attr_required attrs (ascii ''name'')) (\<lambda>name.
     bind_res (attr_required attrs (ascii ''type'')) (\<lambda>type_str.
     bind_res (parse_arg_type type_str) (\<lambda>t.
       let interface = attr_str attrs (ascii ''interface'') in
       if t = TEnum \<and> interface = None then Err (EnumWithoutInterface name)
       else Ok \<lparr>arg_name = name, arg_type = t, arg_interface = interface,
         arg_summary = attr_str attrs (ascii ''summary'')\<rparr>)))"

section \<open>Text\<close>

text \<open>\<open>str::trim().is_empty()\<close>: only characters with the property White_Space.\<close>

fun blank :: "str \<Rightarrow> bool" where
  "blank [] = True"
| "blank (a # r) =
     (if in_range 0x09 0x0D a \<or> a = 0x20 then blank r
      else case r of
        b # r1 \<Rightarrow>
          if a = 0xC2 \<and> (b = 0x85 \<or> b = 0xA0) then blank r1
          else (case r1 of
             c # r2 \<Rightarrow>
               if (a = 0xE1 \<and> b = 0x9A \<and> c = 0x80) \<or>
                 (a = 0xE2 \<and> b = 0x80 \<and> (in_range 0x80 0x8A c \<or> c = 0xA8 \<or> c = 0xA9 \<or> c = 0xAF)) \<or>
                 (a = 0xE2 \<and> b = 0x81 \<and> c = 0x9F) \<or> (a = 0xE3 \<and> b = 0x80 \<and> c = 0x80)
               then blank r2 else False
           | [] \<Rightarrow> False)
      | [] \<Rightarrow> False)"

partial_function (option) read_text_to_end ::
    "'r xml_reader \<Rightarrow> str \<Rightarrow> str \<Rightarrow> 'r \<Rightarrow> (scan_error, str, 'r) eff" where
  "read_text_to_end xr tag out r =
     bind_eff (read_event xr r) (\<lambda>e r.
     case e of
       XText t \<Rightarrow> bind_eff (lift_res (ok_or XmlError t) r) (\<lambda>t r. read_text_to_end xr tag (out @ t) r)
     | XCData t \<Rightarrow> read_text_to_end xr tag (out @ from_utf8_lossy t) r
     | XEnd name \<Rightarrow> if name = tag then Some (Ok out, r) else read_text_to_end xr tag out r
     | XEof \<Rightarrow> Some (Err (ScanEof (ascii ''copyright'')), r)
     | _ \<Rightarrow> read_text_to_end xr tag out r)"

definition parse_description ::
    "'r xml_reader \<Rightarrow> str \<Rightarrow> xml_attrs \<Rightarrow> 'r \<Rightarrow> (scan_error, description, 'r) eff" where
  "parse_description xr tag attrs r =
     bind_eff (read_text_to_end xr tag [] r) (\<lambda>body r.
       Some (Ok \<lparr>ds_summary = attr_str attrs (ascii ''summary''),
         ds_body = (if blank body then None else Some body)\<rparr>, r))"

section \<open>Methods\<close>

text \<open>
  The loop of \<open>parse_method\<close>. An argument may be an empty or a full element, a \<open>returns\<close> only an empty one;
  any other full element is skipped.
\<close>

record method_parts =
  mp_args :: "arg list"
  mp_returns :: "str option"
  mp_description :: "description option"

definition no_parts :: method_parts where
  "no_parts = \<lparr>mp_args = [], mp_returns = None, mp_description = None\<rparr>"

definition add_arg :: "arg \<Rightarrow> method_parts \<Rightarrow> method_parts" where
  "add_arg a ps = ps\<lparr>mp_args := mp_args ps @ [a]\<rparr>"

partial_function (option) method_loop ::
    "'r xml_reader \<Rightarrow> method_parts \<Rightarrow> 'r \<Rightarrow> (scan_error, method_parts, 'r) eff" where
  "method_loop xr ps r =
     bind_eff (read_event xr r) (\<lambda>e r.
     case e of
       XEmpty tag attrs \<Rightarrow>
         if tag = ascii ''arg'' then
           bind_eff (lift_res (parse_arg attrs) r) (\<lambda>a r. method_loop xr (add_arg a ps) r)
         else if tag = ascii ''returns'' then
           bind_eff (lift_res (attr_required attrs (ascii ''iface'')) r) (\<lambda>iface r.
             method_loop xr (ps\<lparr>mp_returns := Some iface\<rparr>) r)
         else method_loop xr ps r
     | XStart tag attrs \<Rightarrow>
         if tag = ascii ''description'' then
           bind_eff (parse_description xr tag attrs r) (\<lambda>d r. method_loop xr (ps\<lparr>mp_description := Some d\<rparr>) r)
         else if tag = ascii ''arg'' then
           bind_eff (lift_res (parse_arg attrs) r) (\<lambda>a r.
           bind_eff (read_to_end xr tag r) (\<lambda>_ r. method_loop xr (add_arg a ps) r))
         else bind_eff (read_to_end xr tag r) (\<lambda>_ r. method_loop xr ps r)
     | XEnd _ \<Rightarrow> Some (Ok ps, r)
     | XEof \<Rightarrow> Some (Err (ScanEof (ascii ''method'')), r)
     | _ \<Rightarrow> method_loop xr ps r)"

definition parse_method :: "'r xml_reader \<Rightarrow> xml_attrs \<Rightarrow> 'r \<Rightarrow> (scan_error, method_decl, 'r) eff" where
  "parse_method xr attrs r =
     bind_eff (lift_res (attr_required attrs (ascii ''name'')) r) (\<lambda>name r.
     bind_eff (method_loop xr no_parts r) (\<lambda>ps r.
       Some (Ok \<lparr>md_name = name, md_args = mp_args ps, md_returns = mp_returns ps,
         md_destructor = (attr_str attrs (ascii ''destructor'') = Some (ascii ''true'')),
         md_description = mp_description ps\<rparr>, r)))"

section \<open>Objects and enums\<close>

record object_parts =
  op_c2s :: "method_decl list"
  op_s2c :: "method_decl list"
  op_description :: "description option"

definition no_object_parts :: object_parts where
  "no_object_parts = \<lparr>op_c2s = [], op_s2c = [], op_description = None\<rparr>"

partial_function (option) object_loop ::
    "'r xml_reader \<Rightarrow> object_parts \<Rightarrow> 'r \<Rightarrow> (scan_error, object_parts, 'r) eff" where
  "object_loop xr ps r =
     bind_eff (read_event xr r) (\<lambda>e r.
     case e of
       XStart tag attrs \<Rightarrow>
         if tag = ascii ''description'' then
           bind_eff (parse_description xr tag attrs r) (\<lambda>d r. object_loop xr (ps\<lparr>op_description := Some d\<rparr>) r)
         else if tag = ascii ''c2s'' then
           bind_eff (parse_method xr attrs r) (\<lambda>m r. object_loop xr (ps\<lparr>op_c2s := op_c2s ps @ [m]\<rparr>) r)
         else if tag = ascii ''s2c'' then
           bind_eff (parse_method xr attrs r) (\<lambda>m r. object_loop xr (ps\<lparr>op_s2c := op_s2c ps @ [m]\<rparr>) r)
         else bind_eff (read_to_end xr tag r) (\<lambda>_ r. object_loop xr ps r)
     | XEnd _ \<Rightarrow> Some (Ok ps, r)
     | XEof \<Rightarrow> Some (Err (ScanEof (ascii ''object'')), r)
     | _ \<Rightarrow> object_loop xr ps r)"

definition parse_object :: "'r xml_reader \<Rightarrow> xml_attrs \<Rightarrow> 'r \<Rightarrow> (scan_error, object_decl, 'r) eff" where
  "parse_object xr attrs r =
     bind_eff (lift_res (attr_required attrs (ascii ''name'')) r) (\<lambda>name r.
     bind_eff (lift_res (attr_number attrs (ascii ''version'')) r) (\<lambda>version r.
     bind_eff (object_loop xr no_object_parts r) (\<lambda>ps r.
       Some (Ok \<lparr>od_name = name, od_version = version, od_c2s = op_c2s ps, od_s2c = op_s2c ps,
         od_description = op_description ps\<rparr>, r))))"

definition parse_value :: "xml_attrs \<Rightarrow> (scan_error, enum_value) res" where
  "parse_value attrs =
     bind_res (attr_number attrs (ascii ''idx'')) (\<lambda>idx.
     bind_res (attr_required attrs (ascii ''name'')) (\<lambda>name.
       Ok \<lparr>nv_name = name, nv_idx = idx, nv_description = attr_str attrs (ascii ''description'')\<rparr>))"

text \<open>A value may be an empty or a full element; any end ends the loop, also that of a full value.\<close>

partial_function (option) enum_loop ::
    "'r xml_reader \<Rightarrow> enum_value list \<Rightarrow> 'r \<Rightarrow> (scan_error, enum_value list, 'r) eff" where
  "enum_loop xr vs r =
     bind_eff (read_event xr r) (\<lambda>e r.
     case e of
       XEmpty tag attrs \<Rightarrow>
         if tag = ascii ''value'' then
           bind_eff (lift_res (parse_value attrs) r) (\<lambda>v r. enum_loop xr (vs @ [v]) r)
         else enum_loop xr vs r
     | XStart tag attrs \<Rightarrow>
         if tag = ascii ''value'' then
           bind_eff (lift_res (parse_value attrs) r) (\<lambda>v r. enum_loop xr (vs @ [v]) r)
         else enum_loop xr vs r
     | XEnd _ \<Rightarrow> Some (Ok vs, r)
     | XEof \<Rightarrow> Some (Err (ScanEof (ascii ''enum'')), r)
     | _ \<Rightarrow> enum_loop xr vs r)"

section \<open>Protocols\<close>

definition no_protocol :: protocol where
  "no_protocol = \<lparr>pt_name = [], pt_version = 0, pt_objects = [], pt_enums = [], pt_copyright = None\<rparr>"

text \<open>One start tag at the top.\<close>

definition protocol_tag ::
    "'r xml_reader \<Rightarrow> str \<Rightarrow> xml_attrs \<Rightarrow> protocol \<Rightarrow> 'r \<Rightarrow> (scan_error, protocol, 'r) eff" where
  "protocol_tag xr tag attrs p r =
     (if tag = ascii ''protocol'' then
        bind_eff (lift_res (attr_required attrs (ascii ''name'')) r) (\<lambda>name r.
        bind_eff (lift_res (attr_number attrs (ascii ''version'')) r) (\<lambda>version r.
          Some (Ok (p\<lparr>pt_name := name, pt_version := version\<rparr>), r)))
      else if tag = ascii ''copyright'' then
        bind_eff (read_text_to_end xr tag [] r) (\<lambda>body r.
          Some (Ok (if blank body then p else p\<lparr>pt_copyright := Some body\<rparr>), r))
      else if tag = ascii ''object'' then
        bind_eff (parse_object xr attrs r) (\<lambda>obj r. Some (Ok (p\<lparr>pt_objects := pt_objects p @ [obj]\<rparr>), r))
      else if tag = ascii ''enum'' then
        bind_eff (lift_res (attr_required attrs (ascii ''name'')) r) (\<lambda>name r.
        bind_eff (enum_loop xr [] r) (\<lambda>vs r.
          Some (Ok (p\<lparr>pt_enums := pt_enums p @ [\<lparr>en_name = name, en_values = vs\<rparr>]\<rparr>), r)))
      else Some (Ok p, r))"

partial_function (option) protocol_loop ::
    "'r xml_reader \<Rightarrow> protocol \<Rightarrow> 'r \<Rightarrow> (scan_error, protocol, 'r) eff" where
  "protocol_loop xr p r =
     bind_eff (read_event xr r) (\<lambda>e r.
     case e of
       XStart tag attrs \<Rightarrow> bind_eff (protocol_tag xr tag attrs p r) (\<lambda>p r. protocol_loop xr p r)
     | XEof \<Rightarrow> Some (Ok p, r)
     | _ \<Rightarrow> protocol_loop xr p r)"

definition parse_protocol :: "'r xml_reader \<Rightarrow> 'r \<Rightarrow> (scan_error, protocol, 'r) eff" where
  "parse_protocol xr = protocol_loop xr no_protocol"

end
