(* ===== verification/Scanner_Text.thy ===== *)
theory Scanner_Text
  imports Scanner_Parse
begin

text \<open>
  The text the generator of \<open>hyprwire-scanner/src/generate.rs\<close> writes around its code: the documentation of
  objects, methods and arguments (\<open>trim_doc_lines\<close>, \<open>description_doc_lines\<close>, \<open>doc_attrs\<close>,
  \<open>method_doc_attrs\<close>, \<open>arg_doc_line\<close>), and the head of the file with the protocol's copyright (\<open>generate\<close>).
  \<open>str::trim\<close> and \<open>str::lines\<close> are those of the standard library, on UTF-8.
\<close>

section \<open>Characters\<close>

definition char_len :: "u8 \<Rightarrow> nat" where
  "char_len a = (if a < 0x80 then 1 else if a < 0xE0 then 2 else if a < 0xF0 then 3 else 4)"

function chars :: "str \<Rightarrow> str list" where
  "chars [] = []"
| "chars (a # s) = take (char_len a) (a # s) # chars (drop (char_len a) (a # s))"
  by pat_completeness auto
termination
  by (relation "measure length") (auto simp: char_len_def)

text \<open>\<open>char::is_whitespace\<close>.\<close>

definition white :: "str \<Rightarrow> bool" where
  "white c \<longleftrightarrow> c \<noteq> [] \<and> blank c"

definition trim_list :: "('a \<Rightarrow> bool) \<Rightarrow> 'a list \<Rightarrow> 'a list" where
  "trim_list P xs = rev (dropWhile P (rev (dropWhile P xs)))"

definition trim :: "str \<Rightarrow> str" where
  "trim s = concat (trim_list white (chars s))"

text \<open>\<open>str::lines\<close>: a line ends with a line feed, which may follow a carriage return.\<close>

definition strip_cr :: "str \<Rightarrow> str" where
  "strip_cr l = (if l \<noteq> [] \<and> last l = 13 then butlast l else l)"

function lines :: "str \<Rightarrow> str list" where
  "lines s =
     (if s = [] then []
      else case dropWhile (\<lambda>b. b \<noteq> 10) s of
        [] \<Rightarrow> [s]
      | _ # rest \<Rightarrow> strip_cr (takeWhile (\<lambda>b. b \<noteq> 10) s) # lines rest)"
  by pat_completeness auto
termination
proof (relation "measure length", simp)
  fix s :: str and b rest assume "dropWhile (\<lambda>b. b \<noteq> 10) s = b # rest"
  then have "length (b # rest) \<le> length s" by (metis length_dropWhile_le)
  then show "(rest, s) \<in> measure length" by simp
qed

declare lines.simps [simp del]

section \<open>Documentation\<close>

definition trim_doc_lines :: "str \<Rightarrow> str list" where
  "trim_doc_lines text = trim_list (\<lambda>l. l = []) (map trim (lines text))"

definition description_doc_lines :: "description option \<Rightarrow> str list" where
  "description_doc_lines d =
     (case d of
        None \<Rightarrow> []
      | Some d \<Rightarrow>
          let ls = (case ds_summary d of
                Some s \<Rightarrow> if trim s \<noteq> [] then [trim s] else []
              | None \<Rightarrow> [])
          in case ds_body d of
               Some body \<Rightarrow>
                 (let body_lines = trim_doc_lines body in
                  if body_lines = [] then ls
                  else ls @ (if ls \<noteq> [] then [[]] else []) @ body_lines)
             | None \<Rightarrow> ls)"

text \<open>The arguments of the \<open>#[doc = ...]\<close> attributes.\<close>

definition doc_attrs :: "str list \<Rightarrow> str list" where
  "doc_attrs ls = map (\<lambda>l. if l = [] then [] else 32 # l) ls"

definition arg_doc_line :: "arg \<Rightarrow> str" where
  "arg_doc_line a =
     (case arg_summary a of
        Some s \<Rightarrow>
          if trim s \<noteq> [] then ascii ''`'' @ arg_name a @ ascii ''`: '' @ trim s
          else ascii ''`'' @ arg_name a @ ascii ''`.''
      | None \<Rightarrow> ascii ''`'' @ arg_name a @ ascii ''`.'')"

definition method_doc_attrs :: "method_decl \<Rightarrow> bool \<Rightarrow> str list" where
  "method_doc_attrs m returns_named_object =
     (let ls = description_doc_lines (md_description m);
          arg_lines = map arg_doc_line (md_args m);
          ls = (if arg_lines \<noteq> [] then
                  ls @ (if ls \<noteq> [] then [[]] else []) @ ascii ''Arguments:'' # arg_lines
                else ls);
          ls = (case md_returns m of
                  Some returned \<Rightarrow>
                    if returns_named_object then
                      ls @ (if ls \<noteq> [] then [[]] else []) @ [ascii ''Returns a new `'' @ returned @ ascii ''` object.'']
                    else ls
                | None \<Rightarrow> ls)
      in doc_attrs ls)"

section \<open>Identifiers\<close>

text \<open>\<open>raw_ident\<close>: the words that are reserved get the prefix of a raw identifier.\<close>

definition reserved :: "str list" where
  "reserved =
     [ascii ''as'', ascii ''async'', ascii ''await'', ascii ''break'', ascii ''become'', ascii ''box'',
      ascii ''const'', ascii ''continue'', ascii ''crate'', ascii ''do'', ascii ''dyn'', ascii ''else'',
      ascii ''enum'', ascii ''extern'', ascii ''false'', ascii ''final'', ascii ''fn'', ascii ''for'',
      ascii ''gen'', ascii ''if'', ascii ''impl'', ascii ''in'', ascii ''let'', ascii ''loop'',
      ascii ''macro'', ascii ''match'', ascii ''mod'', ascii ''move'', ascii ''mut'', ascii ''override'',
      ascii ''priv'', ascii ''pub'', ascii ''ref'', ascii ''return'', ascii ''self'', ascii ''static'',
      ascii ''struct'', ascii ''super'', ascii ''trait'', ascii ''true'', ascii ''try'', ascii ''type'',
      ascii ''typeof'', ascii ''unsafe'', ascii ''unsized'', ascii ''use'', ascii ''virtual'',
      ascii ''where'', ascii ''while'', ascii ''yield'']"

definition raw_ident :: "str \<Rightarrow> str" where
  "raw_ident name = (if name \<in> set reserved then ascii ''r#'' @ name else name)"

text \<open>Different names stay different, if they have no number sign.\<close>

lemma raw_ident_inject: "35 \<notin> set a \<Longrightarrow> 35 \<notin> set b \<Longrightarrow> raw_ident a = raw_ident b \<longleftrightarrow> a = b"
  by (auto simp: raw_ident_def split: if_splits)

section \<open>The head of the file\<close>

definition newline :: str where
  "newline = [10]"

fun join_lines :: "str list \<Rightarrow> str" where
  "join_lines [] = []"
| "join_lines [l] = l"
| "join_lines (l # l' # ls) = l @ newline @ join_lines (l' # ls)"

definition copyright_lines :: "str \<Rightarrow> str list" where
  "copyright_lines text =
     map (\<lambda>l. if trim l = [] then [] else ascii ''    '' @ trim l) (trim_list (\<lambda>l. trim l = []) (lines text))"

definition copyright_block :: "str option \<Rightarrow> str" where
  "copyright_block c =
     (case c of
        Some text \<Rightarrow> ascii ''/*'' @ newline @ ascii '' This protocol'' @ [39] @ ascii ''s author copyright notice is:'' @
          newline @ newline @ join_lines (copyright_lines text) @ newline @ newline @ ascii ''*/'' @ newline @ newline
      | None \<Rightarrow> [])"

text \<open>\<open>SCANNER_VERSION\<close> is the package's version, set by the build.\<close>

definition header_comment :: "str \<Rightarrow> protocol \<Rightarrow> str" where
  "header_comment version p = ascii ''// Generated with hyprwire-scanner '' @ version @
     ascii ''. Made with pure malice and hatred by r0chd.'' @ newline @ ascii ''// '' @ pt_name p @ newline"

definition file_head :: "str \<Rightarrow> protocol \<Rightarrow> str" where
  "file_head version p = header_comment version p @ copyright_block (pt_copyright p)"

section \<open>Trimming\<close>

lemma char_len_pos [simp]: "0 < char_len a" "char_len a \<noteq> 0"
  by (simp_all add: char_len_def)

lemma concat_chars [simp]: "concat (chars s) = s"
proof (induction s rule: chars.induct)
  case (2 a s)
  then show ?case by (simp del: take_append drop_append)
qed simp

text \<open>The parts \<open>chars\<close> makes: only the last can be shorter than its first byte says.\<close>

fun parts :: "str list \<Rightarrow> bool" where
  "parts [] \<longleftrightarrow> True"
| "parts (c # cs) \<longleftrightarrow> c \<noteq> [] \<and> length c \<le> char_len (hd c) \<and> (cs \<noteq> [] \<longrightarrow> length c = char_len (hd c)) \<and> parts cs"

lemma parts_chars: "parts (chars s)"
proof (induction s rule: chars.induct)
  case (2 a s)
  have "char_len a \<le> length (a # s)" if "chars (drop (char_len a) (a # s)) \<noteq> []"
  proof (rule ccontr)
    assume "\<not> char_len a \<le> length (a # s)"
    then have "drop (char_len a) (a # s) = []" by simp
    with that show False by simp
  qed
  with 2 show ?case by (auto simp: hd_take min_def)
qed simp

lemma chars_concat: "parts cs \<Longrightarrow> chars (concat cs) = cs"
proof (induction cs)
  case (Cons c cs)
  then obtain a c' where c: "c = a # c'" by (cases c) auto
  show ?case
  proof (cases "cs = []")
    case True
    with Cons.prems c show ?thesis by simp
  next
    case False
    with Cons.prems c have "char_len a = length c" by simp
    with Cons c show ?thesis by simp
  qed
qed simp

lemma parts_drop: "parts (cs @ ds) \<Longrightarrow> parts ds"
  by (induction cs) auto

lemma parts_take: "parts (cs @ ds) \<Longrightarrow> parts cs"
  by (induction cs) auto

lemma trim_list_split: "\<exists>us vs. xs = us @ trim_list P xs @ vs \<and> (\<forall>x \<in> set us \<union> set vs. P x)"
proof -
  let ?ys = "dropWhile P xs"
  have "xs = takeWhile P xs @ ?ys" by simp
  moreover have "?ys = trim_list P xs @ rev (takeWhile P (rev ?ys))"
    unfolding trim_list_def by (metis rev_append rev_rev_ident takeWhile_dropWhile_id)
  ultimately show ?thesis by (metis (no_types, lifting) UnE append_assoc set_rev set_takeWhileD)
qed

lemma trim_list_ends: "trim_list P xs \<noteq> [] \<Longrightarrow> \<not> P (hd (trim_list P xs)) \<and> \<not> P (last (trim_list P xs))"
proof -
  let ?ys = "dropWhile P xs" and ?zs = "dropWhile P (rev (dropWhile P xs))"
  assume "trim_list P xs \<noteq> []"
  then have ne: "?zs \<noteq> []" by (simp add: trim_list_def)
  have "\<not> P (hd ?zs)" by (rule hd_dropWhile[OF ne])
  then have last: "\<not> P (last (trim_list P xs))" using ne by (simp add: trim_list_def last_rev)
  obtain vs where ys: "?ys = trim_list P xs @ vs"
    unfolding trim_list_def by (metis rev_append rev_rev_ident takeWhile_dropWhile_id)
  have "trim_list P xs \<noteq> []" using ne by (simp add: trim_list_def)
  with ys have "hd ?ys = hd (trim_list P xs)" "?ys \<noteq> []" by auto
  with hd_dropWhile[of P xs] last show ?thesis by auto
qed

lemma trim_list_id: "xs = [] \<or> \<not> P (hd xs) \<and> \<not> P (last xs) \<Longrightarrow> trim_list P xs = xs"
proof (cases "xs = []")
  case False
  assume "xs = [] \<or> \<not> P (hd xs) \<and> \<not> P (last xs)"
  with False have hd: "\<not> P (hd xs)" "\<not> P (hd (rev xs))" by (simp_all add: hd_rev)
  have "dropWhile P ys = ys" if "\<not> P (hd ys)" for ys using that by (cases ys) auto
  with hd show ?thesis by (simp add: trim_list_def)
qed (simp add: trim_list_def)

lemma chars_trim: "chars (trim s) = trim_list white (chars s)"
proof -
  obtain us vs where split: "chars s = us @ trim_list white (chars s) @ vs"
    using trim_list_split[of "chars s" white] by blast
  have "parts (us @ trim_list white (chars s) @ vs)" unfolding split[symmetric] by (rule parts_chars)
  from parts_take[OF parts_drop[OF this]] have "parts (trim_list white (chars s))" .
  then show ?thesis by (simp add: trim_def chars_concat)
qed

lemma trim_trim [simp]: "trim (trim s) = trim s"
proof -
  have "trim_list white (chars (trim s)) = chars (trim s)"
    using trim_list_ends[of white "chars s"] by (intro trim_list_id) (auto simp: chars_trim)
  then show ?thesis by (simp add: trim_def[of "trim s"])
qed

lemma char_len_ranges:
  "a < 0x80 \<Longrightarrow> char_len a = 1" "in_range 0xC2 0xDF a \<Longrightarrow> char_len a = 2"
  "in_range 0xE0 0xEF a \<Longrightarrow> char_len a = 3" "in_range 0xF0 0xF4 a \<Longrightarrow> char_len a = 4"
  by (auto simp: char_len_def in_range_def word_less_nat_alt word_le_nat_alt)

lemma chars_utf8: "utf8_valid s \<Longrightarrow> chars (s @ t) = chars s @ chars t"
proof (induction s rule: utf8_valid.induct)
  case (2 a r)
  note IH = "2.IH" and valid = "2.prems"
  consider (one) "a < 0x80" | (two) "\<not> a < 0x80" "in_range 0xC2 0xDF a"
    | (three) "\<not> a < 0x80" "\<not> in_range 0xC2 0xDF a" "in_range 0xE0 0xEF a"
    | (four) "\<not> a < 0x80" "\<not> in_range 0xC2 0xDF a" "\<not> in_range 0xE0 0xEF a" "in_range 0xF0 0xF4 a"
    using valid by (auto split: if_split_asm)
  then show ?case
  proof cases
    case one
    with valid IH(1)[OF one] show ?thesis by (simp add: char_len_ranges)
  next
    case two
    with valid obtain b r1 where "r = b # r1" "utf8_valid r1" by (auto split: list.split_asm)
    with two IH(2)[OF two] show ?thesis by (simp add: char_len_ranges numeral_2_eq_2)
  next
    case three
    with valid obtain b c r2 where "r = b # c # r2" "utf8_valid r2" by (auto split: list.split_asm)
    with three IH(3)[OF three] show ?thesis by (simp add: char_len_ranges numeral_3_eq_3)
  next
    case four
    with valid obtain b c d r3 where "r = b # c # d # r3" "utf8_valid r3" by (auto split: list.split_asm)
    with four IH(4)[OF four] show ?thesis by (simp add: char_len_ranges numeral_eq_Suc)
  qed
qed simp

section \<open>Properties\<close>

text \<open>The documentation lines made of a description are clean whatever it contains: no line begins or ends
  with white space, and neither the first nor the last is empty.\<close>
theorem description_lines_clean:
  "(\<forall>l \<in> set (description_doc_lines d). trim l = l) \<and>
   (description_doc_lines d \<noteq> [] \<longrightarrow> hd (description_doc_lines d) \<noteq> [] \<and> last (description_doc_lines d) \<noteq> [])"
proof (cases d)
  case (Some d')
  let ?body = "\<lambda>b. trim_doc_lines b"
  have body: "\<forall>l \<in> set (?body b). trim l = l" "?body b \<noteq> [] \<Longrightarrow> hd (?body b) \<noteq> [] \<and> last (?body b) \<noteq> []" for b
  proof -
    have "set (?body b) \<subseteq> set (map trim (lines b))"
      using trim_list_split[of "map trim (lines b)" "\<lambda>l. l = []"] unfolding trim_doc_lines_def by (metis Un_iff set_append subsetI)
    then show "\<forall>l \<in> set (?body b). trim l = l" by auto
    show "hd (?body b) \<noteq> [] \<and> last (?body b) \<noteq> []" if "?body b \<noteq> []"
      using trim_list_ends[of "\<lambda>l. l = []" "map trim (lines b)"] that by (simp add: trim_doc_lines_def)
  qed
  have "trim [] = []" by (simp add: trim_def trim_list_def)
  with Some body show ?thesis
    by (auto simp: description_doc_lines_def Let_def split: option.splits)
qed (simp add: description_doc_lines_def)

theorem description_lines_clean_witness:
  "hd (description_doc_lines (Some \<lparr>ds_summary = Some (ascii '' a ''), ds_body = None\<rparr>)) \<noteq> []"
proof -
  have "description_doc_lines (Some \<lparr>ds_summary = Some (ascii '' a ''), ds_body = None\<rparr>) \<noteq> []"
    by (simp add: description_doc_lines_def trim_def trim_list_def white_def in_range_def char_len_def)
  with description_lines_clean show ?thesis by blast
qed

text \<open>The end of a block comment of Rust, in which block comments nest; the first argument is the depth.\<close>

fun skip_comment :: "nat \<Rightarrow> str \<Rightarrow> str option" where
  "skip_comment d (a # b # s) =
     (if a = 47 \<and> b = 42 then skip_comment (Suc d) s
      else if a = 42 \<and> b = 47 then (case d of 0 \<Rightarrow> Some s | Suc d \<Rightarrow> skip_comment d s)
      else skip_comment d (b # s))"
| "skip_comment d _ = None"

lemma lines_single: "s \<noteq> [] \<Longrightarrow> 10 \<notin> set s \<Longrightarrow> lines s = [s]"
proof -
  assume s: "s \<noteq> []" "10 \<notin> set s"
  then have "dropWhile (\<lambda>b. b \<noteq> 10) s = []" by (auto simp: dropWhile_eq_Nil_conv)
  with s(1) show ?thesis by (subst lines.simps) (simp only: list.case if_False)
qed

text \<open>A copyright notice can leave its comment: the notice is written between comment marks as it is, so for
  a notice that closes the comment and opens another the text between is code of the generated file.\<close>
theorem copyright_escapes:
  fixes code :: str
  defines "notice \<equiv> ascii ''*/'' @ code @ ascii ''/*''"
  assumes "utf8_valid code" and "10 \<notin> set code"
  shows "\<exists>comment rest. copyright_block (Some notice) = ascii ''/*'' @ comment @ code @ ascii ''/*'' @ rest \<and>
    skip_comment 0 (comment @ code @ ascii ''/*'' @ rest) = Some (code @ ascii ''/*'' @ rest) \<and>
    skip_comment 0 rest = Some (newline @ newline)"
proof -
  have white: "\<not> white [42]" by (simp add: white_def in_range_def)
  have "chars notice = [42] # [47] # chars (code @ ascii ''/*'')"
    by (simp add: notice_def char_len_def)
  also have "\<dots> = [42] # [47] # chars code @ [[47], [42]]"
    using chars_utf8[OF assms(2), of "ascii ''/*''"] by (simp add: char_len_def)
  finally have "trim_list white (chars notice) = chars notice"
    using white by (intro trim_list_id) simp
  then have "trim notice = notice" by (simp add: trim_def)
  moreover have "lines notice = [notice]"
    using assms(3) by (intro lines_single) (auto simp: notice_def)
  moreover have "notice \<noteq> []" by (simp add: notice_def)
  ultimately have copyright: "copyright_lines notice = [ascii ''    '' @ notice]"
    by (simp add: copyright_lines_def trim_list_def)
  let ?comment = "newline @ ascii '' This protocol'' @ [39] @ ascii ''s author copyright notice is:'' @ newline @ newline @
    ascii ''    */''"
  let ?rest = "newline @ newline @ ascii ''*/'' @ newline @ newline"
  have "copyright_block (Some notice) = ascii ''/*'' @ ?comment @ code @ ascii ''/*'' @ ?rest"
    unfolding copyright_block_def option.case copyright by (simp add: notice_def)
  moreover have "skip_comment 0 (?comment @ code @ ascii ''/*'' @ ?rest) = Some (code @ ascii ''/*'' @ ?rest)"
    by (simp add: newline_def)
  moreover have "skip_comment 0 ?rest = Some (newline @ newline)" by (simp add: newline_def)
  ultimately show ?thesis by blast
qed

theorem copyright_escapes_witness:
  "\<exists>comment rest. copyright_block (Some (ascii ''*/fn f(){}/*'')) = ascii ''/*'' @ comment @ ascii ''fn f(){}/*'' @ rest \<and>
    skip_comment 0 (comment @ ascii ''fn f(){}/*'' @ rest) = Some (ascii ''fn f(){}/*'' @ rest)"
  using copyright_escapes[of "ascii ''fn f(){}''"] by (auto simp: ascii_def)

end
