(* ===== verification/Scanner_Names.thy ===== *)
theory Scanner_Names
  imports Scanner_Text
begin

text \<open>
  The names of the generated code: \<open>snake_to_pascal\<close> and \<open>snake_to_screaming\<close> of \<open>hyprwire-scanner/src/generate.rs\<close>.
  They use \<open>to_uppercase\<close> of the standard library, whose tables of Unicode are not modelled: it is the argument
  \<open>upper\<close>, and \<open>uppercases\<close> says what it does on ASCII.
\<close>

section \<open>The code\<close>

text \<open>\<open>str::split\<close> for an ASCII character: there is always a part.\<close>

fun split_char :: "u8 \<Rightarrow> str \<Rightarrow> str list" where
  "split_char c [] = [[]]"
| "split_char c (x # xs) =
     (if x = c then [] # split_char c xs
      else case split_char c xs of w # ws \<Rightarrow> (x # w) # ws | [] \<Rightarrow> [[x]])"

definition capitalize :: "(str \<Rightarrow> str) \<Rightarrow> str \<Rightarrow> str" where
  "capitalize upper part = (case chars part of [] \<Rightarrow> [] | c # cs \<Rightarrow> upper c @ concat cs)"

definition snake_to_pascal :: "(str \<Rightarrow> str) \<Rightarrow> str \<Rightarrow> str" where
  "snake_to_pascal upper s = concat (map (capitalize upper) (split_char 95 s))"

definition snake_to_screaming :: "(str \<Rightarrow> str) \<Rightarrow> str \<Rightarrow> str" where
  "snake_to_screaming upper s = upper s"

section \<open>Snake case\<close>

definition lower_letter :: "u8 \<Rightarrow> bool" where
  "lower_letter b \<longleftrightarrow> in_range 97 122 b"

definition upper_ascii :: "u8 \<Rightarrow> u8" where
  "upper_ascii b = (if lower_letter b then b - 32 else b)"

definition uppercases :: "(str \<Rightarrow> str) \<Rightarrow> bool" where
  "uppercases upper \<longleftrightarrow> (\<forall>s. (\<forall>b \<in> set s. b < 0x80) \<longrightarrow> upper s = map upper_ascii s)"

text \<open>A word begins with a letter and goes on with letters and digits, all in lower case; words are joined by \<open>_\<close>.\<close>

definition snake_word :: "str \<Rightarrow> bool" where
  "snake_word w \<longleftrightarrow> w \<noteq> [] \<and> lower_letter (hd w) \<and> (\<forall>b \<in> set w. lower_letter b \<or> in_range 48 57 b)"

definition snake_case :: "str \<Rightarrow> bool" where
  "snake_case s \<longleftrightarrow> (\<forall>w \<in> set (split_char 95 s). snake_word w)"

lemma split_char_not_Nil [simp]: "split_char c s \<noteq> []" "[] \<noteq> split_char c s"
  by (cases s; auto split: list.splits)+

lemma split_char_append: "split_char c (s @ c # t) = split_char c s @ split_char c t"
proof (induction s)
  case (Cons x s)
  then show ?case by (cases "split_char c s") auto
qed simp

lemma split_char_bytes: "set s \<subseteq> \<Union>(set ` set (split_char c s)) \<union> {c}"
proof (induction s)
  case (Cons x s)
  then show ?case by (cases "split_char c s") auto
qed simp

lemma split_char_inject: "split_char c s = split_char c t \<Longrightarrow> s = t"
proof (induction s arbitrary: t)
  case Nil
  then show ?case by (cases t) (auto split: if_splits list.splits)
next
  case (Cons x s)
  then obtain y t' where t: "t = y # t'" by (cases t) (auto split: if_splits list.splits)
  with Cons show ?case by (auto split: if_splits list.splits)
qed

lemma lower_letter_upper: "lower_letter b \<Longrightarrow> in_range 65 90 (b - 32)"
  by (simp add: lower_letter_def in_range_def word_le_nat_alt unat_sub) arith

lemma lower_letter_inject: "b - 32 = b' - 32 \<Longrightarrow> b = (b' :: u8)"
  by (metis diff_add_cancel)

lemma snake_letters:
  "lower_letter b \<Longrightarrow> b < 0x80" "in_range 48 57 b \<Longrightarrow> b < 0x80"
  "lower_letter b \<Longrightarrow> \<not> in_range 65 90 b" "in_range 48 57 b \<Longrightarrow> \<not> in_range 65 90 b"
  "in_range 48 57 b \<Longrightarrow> \<not> lower_letter b"
  by (auto simp: lower_letter_def in_range_def word_le_nat_alt word_less_nat_alt)

lemma snake_case_bytes: "snake_case s \<Longrightarrow> b \<in> set s \<Longrightarrow> lower_letter b \<or> in_range 48 57 b \<or> b = 95"
  using split_char_bytes[of s 95] by (fastforce simp: snake_case_def snake_word_def)

lemma snake_case_append: "snake_case (s @ 95 # t) \<longleftrightarrow> snake_case s \<and> snake_case t"
  by (auto simp: snake_case_def split_char_append)

lemma snake_to_pascal_append: "snake_to_pascal upper (s @ 95 # t) = snake_to_pascal upper s @ snake_to_pascal upper t"
  by (simp add: snake_to_pascal_def split_char_append)

section \<open>Different names stay different\<close>

definition cap :: "str \<Rightarrow> str" where
  "cap w = (case w of [] \<Rightarrow> [] | b # bs \<Rightarrow> (b - 32) # bs)"

lemma cap_simps [simp]: "cap [] = []" "cap (b # bs) = (b - 32) # bs"
  by (simp_all add: cap_def)

lemma capitalize_word: "uppercases upper \<Longrightarrow> snake_word w \<Longrightarrow> capitalize upper w = cap w"
  by (cases w) (simp_all add: capitalize_def snake_word_def uppercases_def snake_letters char_len_def upper_ascii_def)

lemma snake_to_pascal_words:
  "uppercases upper \<Longrightarrow> snake_case s \<Longrightarrow> snake_to_pascal upper s = concat (map cap (split_char 95 s))"
  unfolding snake_to_pascal_def by (intro arg_cong[where f = concat] map_cong) (simp_all add: capitalize_word snake_case_def)

text \<open>What follows a word begins with a capital letter, which the rest of a word has none of.\<close>

lemma caps_start: "\<forall>w \<in> set ws. snake_word w \<Longrightarrow> takeWhile (\<lambda>b. \<not> in_range 65 90 b) (concat (map cap ws)) = []"
  by (cases ws) (auto simp: cap_def snake_word_def lower_letter_upper split: list.splits)

lemma caps_word:
  assumes "\<forall>w \<in> set ws. snake_word w" and "snake_word (b # bs)"
  shows "takeWhile (\<lambda>b. \<not> in_range 65 90 b) (bs @ concat (map cap ws)) = bs"
proof -
  have "\<forall>b \<in> set bs. \<not> in_range 65 90 b" using assms(2) snake_letters by (auto simp: snake_word_def)
  then show ?thesis using caps_start[OF assms(1)] by simp
qed

lemma caps_inject:
  "\<forall>w \<in> set ws. snake_word w \<Longrightarrow> \<forall>v \<in> set vs. snake_word v \<Longrightarrow> concat (map cap ws) = concat (map cap vs) \<Longrightarrow> ws = vs"
proof (induction ws arbitrary: vs)
  case Nil
  then show ?case by (cases vs) (auto simp: cap_def snake_word_def split: list.splits)
next
  case (Cons w ws)
  then obtain b bs where w: "w = b # bs" by (cases w) (auto simp: snake_word_def)
  with Cons.prems obtain v vs' where vs: "vs = v # vs'" by (cases vs) auto
  with Cons.prems obtain c cs where v: "v = c # cs" by (cases v) (auto simp: snake_word_def)
  have eq: "b - 32 = c - 32" "bs @ concat (map cap ws) = cs @ concat (map cap vs')"
    using Cons.prems(3) by (simp_all add: w vs v)
  have "bs = cs"
    using caps_word[of ws b bs] caps_word[of vs' c cs] Cons.prems(1,2) eq(2) by (simp add: w vs v)
  with eq Cons.IH[of vs'] Cons.prems(1,2) lower_letter_inject[OF eq(1)] show ?case by (simp add: w vs v)
qed

lemma snake_to_pascal_inject:
  assumes "uppercases upper" and "snake_case s" and "snake_case t"
  shows "snake_to_pascal upper s = snake_to_pascal upper t \<longleftrightarrow> s = t"
proof
  assume "snake_to_pascal upper s = snake_to_pascal upper t"
  then have "split_char 95 s = split_char 95 t"
    using assms by (intro caps_inject) (simp_all add: snake_to_pascal_words snake_case_def)
  then show "s = t" by (rule split_char_inject)
qed simp

lemma upper_ascii_inject:
  assumes "lower_letter b \<or> in_range 48 57 b \<or> b = 95" and "lower_letter c \<or> in_range 48 57 c \<or> c = 95"
    and "upper_ascii b = upper_ascii c"
  shows "b = c"
proof -
  have range: "in_range 65 90 (upper_ascii b) \<longleftrightarrow> lower_letter b" if "lower_letter b \<or> in_range 48 57 b \<or> b = 95" for b
    using that snake_letters lower_letter_upper by (auto simp: upper_ascii_def) (simp_all add: lower_letter_def in_range_def)
  show ?thesis
    using assms range[OF assms(1)] range[OF assms(2)] lower_letter_inject[of b c] by (auto simp: upper_ascii_def split: if_splits)
qed

lemma snake_to_screaming_inject:
  assumes upper: "uppercases upper" and s: "snake_case s" and t: "snake_case t"
  shows "snake_to_screaming upper s = snake_to_screaming upper t \<longleftrightarrow> s = t"
proof
  have ascii: "upper u = map upper_ascii u" if "snake_case u" for u
  proof -
    have "b < 0x80" if "b \<in> set u" for b
      using snake_case_bytes[OF \<open>snake_case u\<close> that] snake_letters(1,2)[of b] by (elim disjE) simp_all
    then show ?thesis using upper by (simp add: uppercases_def)
  qed
  have inj: "inj_on upper_ascii (set s \<union> set t)"
  proof (rule inj_onI)
    fix b c assume in_names: "b \<in> set s \<union> set t" "c \<in> set s \<union> set t" and eq: "upper_ascii b = upper_ascii c"
    show "b = c"
      by (rule upper_ascii_inject[OF _ _ eq]) (use in_names snake_case_bytes[OF s] snake_case_bytes[OF t] in blast)+
  qed
  assume "snake_to_screaming upper s = snake_to_screaming upper t"
  then show "s = t"
    using inj_on_map_eq_map[OF inj] by (simp add: snake_to_screaming_def ascii s t)
qed simp

lemma distinct_pascal:
  "uppercases upper \<Longrightarrow> \<forall>s \<in> set ns. snake_case s \<Longrightarrow> distinct (map (snake_to_pascal upper) ns) \<longleftrightarrow> distinct ns"
  by (auto simp: distinct_map inj_on_def snake_to_pascal_inject)

lemma distinct_screaming:
  "uppercases upper \<Longrightarrow> \<forall>s \<in> set ns. snake_case s \<Longrightarrow> distinct (map (snake_to_screaming upper) ns) \<longleftrightarrow> distinct ns"
  by (auto simp: distinct_map inj_on_def snake_to_screaming_inject)

lemma snake_case_no_sign: "snake_case s \<Longrightarrow> 35 \<notin> set s"
  using snake_case_bytes[of s 35] by (auto simp: lower_letter_def in_range_def)

lemma distinct_raw: "\<forall>s \<in> set ns. snake_case s \<Longrightarrow> distinct (map raw_ident ns) \<longleftrightarrow> distinct ns"
  by (auto simp: distinct_map inj_on_def raw_ident_inject snake_case_no_sign)

text \<open>A name of a type begins with a capital letter, the name of a module does not.\<close>

lemma pascal_start:
  assumes "uppercases upper" and "snake_case s"
  shows "snake_to_pascal upper s \<noteq> [] \<and> in_range 65 90 (hd (snake_to_pascal upper s))"
proof (cases "split_char 95 s")
  case (Cons w ws)
  with assms(2) have "snake_word w" by (simp add: snake_case_def)
  with Cons show ?thesis
    by (cases w) (auto simp: snake_to_pascal_words[OF assms] snake_word_def lower_letter_upper)
qed simp

lemma snake_case_start: "snake_case s \<Longrightarrow> s \<noteq> [] \<and> lower_letter (hd s)"
  by (cases s) (auto simp: snake_case_def snake_word_def split: list.splits if_splits)

lemma raw_ident_start: "snake_case s \<Longrightarrow> raw_ident s \<noteq> [] \<and> lower_letter (hd (raw_ident s))"
  using snake_case_start[of s] by (simp add: raw_ident_def lower_letter_def in_range_def)

lemma raw_not_pascal: "uppercases upper \<Longrightarrow> snake_case s \<Longrightarrow> snake_case t \<Longrightarrow> raw_ident s \<noteq> snake_to_pascal upper t"
  using pascal_start raw_ident_start snake_letters(3) by metis

text \<open>Names in another case are not told apart.\<close>

lemma pascal_collision:
  "snake_to_pascal (map upper_ascii) (ascii ''my_object'') = snake_to_pascal (map upper_ascii) (ascii ''myObject'')"
  by (simp add: snake_to_pascal_def capitalize_def char_len_def upper_ascii_def lower_letter_def in_range_def)

end
