(* ===== verification/Scanner_Generate.thy ===== *)
theory Scanner_Generate
  imports Scanner_Types
begin

text \<open>
  What the generator of \<open>hyprwire-scanner/src/generate.rs\<close> decides: for which targets code is written
  (\<open>Targets\<close>), which enums an attribute is for (\<open>type_path_matches\<close>), and which objects the handler of a
  server object must be able to handle (\<open>collect_transitive_returns\<close>): the ones its calls can create, and
  those that calls on these can create. The last is a search of a graph; it is proved to find exactly the
  objects that can be reached.
\<close>

section \<open>Targets\<close>

type_synonym targets = u8

definition target_client :: targets where "target_client = 1"
definition target_server :: targets where "target_server = 2"
definition target_all :: targets where "target_all = target_client OR target_server"

definition targets_contain :: "targets \<Rightarrow> targets \<Rightarrow> bool" where
  "targets_contain ts t \<longleftrightarrow> ts AND t = t"

lemma targets_contain_iff: "targets_contain ts t \<longleftrightarrow> (\<forall>n. bit t n \<longrightarrow> bit ts n)"
  unfolding targets_contain_def by (metis bit_and_iff bit_eqI)

definition targets_or :: "targets \<Rightarrow> targets \<Rightarrow> targets" where
  "targets_or a b = a OR b"

text \<open>Adding a target never takes one away.\<close>

lemma targets_contain_or:
  "targets_contain (targets_or a b) t \<longleftrightarrow> (\<forall>n. bit t n \<longrightarrow> bit a n \<or> bit b n)"
  "targets_contain a t \<Longrightarrow> targets_contain (targets_or a b) t"
  by (auto simp: targets_or_def targets_contain_iff bit_or_iff)

section \<open>Attributes\<close>

definition type_path_matches :: "str \<Rightarrow> str \<Rightarrow> bool" where
  "type_path_matches attribute_path full_path =
     (if attribute_path = ascii ''.'' then True
      else if take 1 attribute_path = ascii ''.'' then attribute_path = full_path
      else drop (length full_path - length attribute_path) full_path = attribute_path)"

lemma ends_with: "drop (length s - length t) s = t \<longleftrightarrow> (\<exists>u. s = u @ t)"
proof
  show "\<exists>u. s = u @ t" if "drop (length s - length t) s = t"
    using that by (metis append_take_drop_id)
qed auto

section \<open>The objects a call can create\<close>

definition returns_of :: "protocol \<Rightarrow> str \<Rightarrow> str list" where
  "returns_of p name =
     (case find_object_decl p name of
        Some obj \<Rightarrow> List.map_filter md_returns (od_c2s obj) | None \<Rightarrow> [])"

text \<open>The state of the search: the names seen, the queue and the result. One loop over an object's methods.\<close>

type_synonym search = "str set \<times> str list \<times> str list"

fun visit :: "str \<Rightarrow> search \<Rightarrow> search" where
  "visit name (visited, queue, result) =
     (if name \<in> visited then (visited, queue, result)
      else (insert name visited, queue @ [name], result @ [name]))"

definition visit_returns :: "protocol \<Rightarrow> str \<Rightarrow> search \<Rightarrow> search" where
  "visit_returns p name s = fold visit (returns_of p name) s"

text \<open>The visits add what is new, once, at the end of the queue and of the result.\<close>

lemma fold_visit:
  "\<exists>new. fold visit ns (visited, queue, result) = (visited \<union> set ns, queue @ new, result @ new) \<and>
     distinct new \<and> set new = set ns - visited"
proof (induction ns arbitrary: visited queue result)
  case (Cons n ns)
  show ?case
  proof (cases "n \<in> visited")
    case True
    then show ?thesis using Cons[of visited queue result] by (auto simp: insert_absorb)
  next
    case False
    obtain new where "fold visit ns (insert n visited, queue @ [n], result @ [n]) =
        (insert n visited \<union> set ns, queue @ [n] @ new, result @ [n] @ new)"
      "distinct new" "set new = set ns - insert n visited"
      using Cons[of "insert n visited" "queue @ [n]" "result @ [n]"] by auto
    with False show ?thesis by (intro exI[of _ "n # new"]) auto
  qed
qed simp

lemma visit_returns_new:
  obtains new where "visit_returns p name (visited, queue, result) =
      (visited \<union> set (returns_of p name), queue @ new, result @ new)"
    "distinct new" "set new = set (returns_of p name) - visited"
  using fold_visit[of "returns_of p name" visited queue result] that by (auto simp: visit_returns_def)

text \<open>The loop over the queue ends: each step sees a new name or shortens the queue.\<close>

definition return_names :: "protocol \<Rightarrow> str set" where
  "return_names p = (\<Union>obj \<in> set (pt_objects p). set (returns_of p (od_name obj)))"

lemma returns_of_names: "set (returns_of p name) \<subseteq> return_names p"
proof (cases "find_object_decl p name")
  case (Some obj)
  then have "obj \<in> set (pt_objects p)" "od_name obj = name"
    by (auto simp: find_object_decl_def find_Some_iff)
  then show ?thesis by (auto simp: return_names_def)
qed (simp add: returns_of_def)

lemma finite_return_names: "finite (return_names p)"
  by (simp add: return_names_def)

function search_loop :: "protocol \<Rightarrow> search \<Rightarrow> str list" where
  "search_loop p (visited, [], result) = result"
| "search_loop p (visited, current # queue, result) =
     search_loop p (visit_returns p current (visited, queue, result))"
  by pat_completeness auto
termination
proof (relation "measures [\<lambda>(p, visited, queue, result). card (return_names p - visited),
    \<lambda>(p, visited, queue, result). length queue]")
  fix p visited current queue result
  obtain new where v: "visit_returns p current (visited, queue, result) =
      (visited \<union> set (returns_of p current), queue @ new, result @ new)"
    "set new = set (returns_of p current) - visited"
    using visit_returns_new[of p current visited queue result] by metis
  show "((p, visit_returns p current (visited, queue, result)), p, visited, current # queue, result)
      \<in> measures [\<lambda>(p, visited, queue, result). card (return_names p - visited),
          \<lambda>(p, visited, queue, result). length queue]"
  proof (cases "new = []")
    case True
    with v(2) have "visited \<union> set (returns_of p current) = visited" by auto
    then show ?thesis unfolding v(1) True by simp
  next
    case False
    then have "hd new \<in> set new" by simp
    with v(2) have "hd new \<in> set (returns_of p current)" "hd new \<notin> visited" by simp_all
    with returns_of_names[of p current]
    have "return_names p - (visited \<union> set (returns_of p current)) \<subset> return_names p - visited"
      by (intro psubsetI) (auto 0 3)
    then have "card (return_names p - (visited \<union> set (returns_of p current))) < card (return_names p - visited)"
      by (intro psubset_card_mono) (simp_all add: finite_return_names)
    then show ?thesis unfolding v(1) by simp
  qed
qed simp

definition collect_transitive_returns :: "str \<Rightarrow> protocol \<Rightarrow> str list" where
  "collect_transitive_returns name p = search_loop p (visit_returns p name ({name}, [], []))"

text \<open>The union over all objects, each name once.\<close>

definition collect_all_transitive_returns :: "protocol \<Rightarrow> str list" where
  "collect_all_transitive_returns p =
     (case fold (\<lambda>obj. fold visit (collect_transitive_returns (od_name obj) p)) (pt_objects p) ({}, [], []) of
        (_, _, result) \<Rightarrow> result)"

section \<open>What the search finds\<close>

definition returns_rel :: "protocol \<Rightarrow> (str \<times> str) set" where
  "returns_rel p = {(a, b). b \<in> set (returns_of p a)}"

definition search_inv :: "protocol \<Rightarrow> str \<Rightarrow> search \<Rightarrow> bool" where
  "search_inv p origin s \<longleftrightarrow> (case s of (visited, queue, result) \<Rightarrow>
     visited = insert origin (set result) \<and> distinct result \<and> origin \<notin> set result \<and> set queue \<subseteq> set result \<and>
     (\<forall>n \<in> set result. (origin, n) \<in> (returns_rel p)\<^sup>+) \<and>
     (\<forall>n \<in> visited - set queue. set (returns_of p n) \<subseteq> visited))"

lemma search_inv_visit:
  assumes inv: "search_inv p origin (visited, current # queue, result)"
  shows "search_inv p origin (visit_returns p current (visited, queue, result))"
proof -
  obtain new where v: "visit_returns p current (visited, queue, result) =
      (visited \<union> set (returns_of p current), queue @ new, result @ new)"
    "distinct new" "set new = set (returns_of p current) - visited"
    using visit_returns_new[of p current visited queue result] .
  have cur: "(origin, current) \<in> (returns_rel p)\<^sup>+" using inv by (simp add: search_inv_def)
  have "(origin, n) \<in> (returns_rel p)\<^sup>+" if "n \<in> set new" for n
    using that v(3) cur by (auto simp: returns_rel_def intro: trancl_into_trancl)
  then show ?thesis
    using inv v unfolding search_inv_def by auto
qed

lemma search_loop_result:
  "search_inv p origin s \<Longrightarrow> distinct (search_loop p s) \<and>
     set (search_loop p s) = {n. (origin, n) \<in> (returns_rel p)\<^sup>+} - {origin}"
proof (induction p s rule: search_loop.induct)
  case (1 p visited result)
  then have closed: "\<forall>n \<in> insert origin (set result). set (returns_of p n) \<subseteq> insert origin (set result)"
    by (auto simp: search_inv_def)
  have "n \<in> insert origin (set result)" if "(origin, n) \<in> (returns_rel p)\<^sup>+" for n
    using that by (induction rule: trancl_induct) (use closed in \<open>auto simp: returns_rel_def\<close>)
  with 1 show ?case by (auto simp: search_inv_def)
next
  case (2 p visited current queue result)
  then show ?case using search_inv_visit by simp
qed

text \<open>C16: The search finds exactly what can be reached: the names \<open>collect_transitive_returns\<close> gives are, each
  once, the objects other than the given one that some sequence of calls, starting at it, can create.\<close>
theorem transitive_returns_reachable:
  "distinct (collect_transitive_returns name p) \<and>
   set (collect_transitive_returns name p) = {n. (name, n) \<in> (returns_rel p)\<^sup>+} - {name}"
proof -
  obtain new where v: "visit_returns p name ({name}, [], []) = ({name} \<union> set (returns_of p name), new, new)"
    "distinct new" "set new = set (returns_of p name) - {name}"
    using visit_returns_new[of p name "{name}" "[]" "[]"] by auto
  then have "search_inv p name (visit_returns p name ({name}, [], []))"
    by (auto simp: search_inv_def returns_rel_def)
  then show ?thesis unfolding collect_transitive_returns_def by (rule search_loop_result)
qed

lemma fold_visit_all:
  "set result = visited \<Longrightarrow> distinct result \<Longrightarrow>
     \<exists>queue' result'. fold (\<lambda>obj. fold visit (f obj)) objs (visited, queue, result) =
       (set result', queue', result') \<and> distinct result' \<and> set result' = visited \<union> (\<Union>obj \<in> set objs. set (f obj))"
proof (induction objs arbitrary: visited queue result)
  case (Cons obj objs)
  obtain new where new: "fold visit (f obj) (visited, queue, result) = (visited \<union> set (f obj), queue @ new, result @ new)"
    "distinct new" "set new = set (f obj) - visited"
    using fold_visit[of "f obj" visited queue result] by blast
  have "set (result @ new) = visited \<union> set (f obj)" "distinct (result @ new)"
    using Cons.prems new(2,3) by auto
  from Cons.IH[OF this, of "queue @ new"] new(1) show ?case by auto
qed auto

text \<open>The same for all objects of the protocol.\<close>

lemma all_transitive_returns:
  "distinct (collect_all_transitive_returns p) \<and> set (collect_all_transitive_returns p) =
     (\<Union>obj \<in> set (pt_objects p). set (collect_transitive_returns (od_name obj) p))"
  using fold_visit_all[of "[]" "{}" "\<lambda>obj. collect_transitive_returns (od_name obj) p" "pt_objects p" "[]"]
  by (auto simp: collect_all_transitive_returns_def)

end
