(* ===== verification/Scanner_Items.thy ===== *)
theory Scanner_Items
  imports Scanner_Names Scanner_Generate
begin

text \<open>
  The items of a generated file: what \<open>generate_spec\<close>, \<open>generate_server\<close> and \<open>generate_client\<close> of
  \<open>hyprwire-scanner/src/generate.rs\<close> declare, with the names, fields, types and parameters they compute. A piece
  of a \<open>quote!\<close> that is the same in every file is left out; what the code does when it runs is in
  \<open>Generated_Code\<close>. The names are compared with those of the description: Rust refuses two items with one name.
\<close>

section \<open>Types\<close>

text \<open>
  The types in declarations: \<open>RSpec\<close> is an enum of the module \<open>spec\<close>, \<open>RProxy\<close> the type of an object in its
  module, \<open>RVar\<close> a type parameter, \<open>RAsRefStr\<close> and \<open>RAsFd\<close> the \<open>impl\<close> types of parameters.
\<close>

datatype rust_type =
    RString | ROwnedFd | RI32 | RU32 | RF32 | RUnit | RSpec str | RProxy str str | RVec rust_type
  | RAsRefStr | RAsFd | RVar str | RSlice rust_type

fun event_field_type :: "(str \<Rightarrow> str) \<Rightarrow> arg_type \<Rightarrow> str option \<Rightarrow> rust_type" where
  "event_field_type upper TVarchar i = RString"
| "event_field_type upper TFd i = ROwnedFd"
| "event_field_type upper TInt i = RI32"
| "event_field_type upper TUint i = RU32"
| "event_field_type upper TEnum i = (case i of None \<Rightarrow> RUnit | Some interface \<Rightarrow> RSpec (snake_to_pascal upper interface))"
| "event_field_type upper TF32 i = RF32"
| "event_field_type upper TArrayVarchar i = RVec RString"
| "event_field_type upper TArrayFd i = RVec ROwnedFd"
| "event_field_type upper TArrayInt i = RVec RI32"
| "event_field_type upper TArrayUint i = RVec RU32"
| "event_field_type upper TArrayF32 i = RVec RF32"

fun send_param_type :: "(str \<Rightarrow> str) \<Rightarrow> arg_type \<Rightarrow> str option \<Rightarrow> rust_type" where
  "send_param_type upper TVarchar i = RAsRefStr"
| "send_param_type upper TFd i = RAsFd"
| "send_param_type upper TInt i = RI32"
| "send_param_type upper TUint i = RU32"
| "send_param_type upper TF32 i = RF32"
| "send_param_type upper TEnum i = (case i of None \<Rightarrow> RUnit | Some interface \<Rightarrow> RSpec (snake_to_pascal upper interface))"
| "send_param_type upper TArrayVarchar i = RSlice (RVar (ascii ''S''))"
| "send_param_type upper TArrayFd i = RSlice (RVar (ascii ''F''))"
| "send_param_type upper TArrayInt i = RSlice RI32"
| "send_param_type upper TArrayUint i = RSlice RU32"
| "send_param_type upper TArrayF32 i = RSlice RF32"

definition proxy_path :: "(str \<Rightarrow> str) \<Rightarrow> str \<Rightarrow> str \<times> str" where
  "proxy_path upper name = (raw_ident name, snake_to_pascal upper name)"

section \<open>Enums and specs\<close>

text \<open>An attribute that is no sequence of tokens becomes an error of the compiler. \<open>tokenize\<close> is the parser of \<open>proc_macro2\<close>.\<close>

datatype attribute_tokens = Tokens str | CompileError str

record parsed_attribute =
  ta_path :: str
  ta_tokens :: attribute_tokens

definition parse_type_attributes :: "(str \<Rightarrow> (str, str) res) \<Rightarrow> (str \<times> str) list \<Rightarrow> parsed_attribute list" where
  "parse_type_attributes tokenize attributes = map (\<lambda>(path, attribute).
     let path = trim path in
     \<lparr>ta_path = path,
      ta_tokens = (case tokenize attribute of
          Ok tokens \<Rightarrow> Tokens tokens
        | Err err \<Rightarrow> CompileError (ascii ''failed to parse type attribute for '' @ [39] @ path @ [39] @ ascii '': '' @ err)
        | Panic \<Rightarrow> CompileError [])\<rparr>) attributes"

record enum_item =
  ei_attributes :: "attribute_tokens list"
  ei_ident :: str
  ei_variants :: "(str \<times> u32) list"

definition write_enum :: "(str \<Rightarrow> str) \<Rightarrow> str \<Rightarrow> parsed_attribute list \<Rightarrow> enum_decl \<Rightarrow> enum_item" where
  "write_enum upper proto_name attributes e =
     \<lparr>ei_attributes = map ta_tokens
        (filter (\<lambda>a. type_path_matches (ta_path a) (ascii ''.'' @ proto_name @ ascii ''.'' @ en_name e)) attributes),
      ei_ident = snake_to_pascal upper (en_name e),
      ei_variants = map (\<lambda>v. (snake_to_pascal upper (nv_name v), nv_idx v)) (en_values e)\<rparr>"

record spec_item =
  si_struct :: str
  si_static :: str
  si_spec :: object_spec

record spec_module =
  sm_enums :: "enum_item list"
  sm_objects :: "spec_item list"
  sm_ident :: str

definition spec_items :: "(str \<Rightarrow> str) \<Rightarrow> protocol \<Rightarrow> parsed_attribute list \<Rightarrow> spec_module" where
  "spec_items upper p attributes =
     \<lparr>sm_enums = map (write_enum upper (pt_name p) attributes) (pt_enums p),
      sm_objects = map (\<lambda>obj. \<lparr>si_struct = snake_to_pascal upper (od_name obj) @ ascii ''Spec'',
        si_static = snake_to_screaming upper (od_name obj), si_spec = generate_object_spec obj\<rparr>) (pt_objects p),
      sm_ident = snake_to_pascal upper (pt_name p) @ ascii ''ProtocolSpec''\<rparr>"

section \<open>Objects\<close>

record variant_item =
  vr_docs :: "str list"
  vr_ident :: str
  vr_fields :: "(str \<times> rust_type) list option"

definition event_variant :: "(str \<Rightarrow> str) \<Rightarrow> bool \<Rightarrow> method_decl \<Rightarrow> variant_item" where
  "event_variant upper is_server m =
     (let returns_field = (case md_returns m of
            Some returned \<Rightarrow>
              if is_server then Some (raw_ident returned, case proxy_path upper returned of (i, t) \<Rightarrow> RProxy i t) else None
          | None \<Rightarrow> None);
          seq_field = (if md_returns m \<noteq> None \<and> \<not> is_server then Some (ascii ''seq'', RU32) else None);
          extra = (case returns_field of Some f \<Rightarrow> Some f | None \<Rightarrow> seq_field);
          arg_fields = map (\<lambda>a. (raw_ident (arg_name a), event_field_type upper (arg_type a) (arg_interface a))) (md_args m)
      in \<lparr>vr_docs = doc_attrs (description_doc_lines (md_description m)), vr_ident = snake_to_pascal upper (md_name m),
          vr_fields = (if md_args m = [] then map_option (\<lambda>f. [f]) extra
            else Some ((case extra of Some f \<Rightarrow> [f] | None \<Rightarrow> []) @ arg_fields))\<rparr>)"

definition write_event_enum :: "(str \<Rightarrow> str) \<Rightarrow> method_decl list \<Rightarrow> bool \<Rightarrow> variant_item list" where
  "write_event_enum upper ms is_server = map (event_variant upper is_server) ms"

text \<open>An arm of the dispatcher: the number it is for, and the variant it makes from the variables it has read.\<close>

record dispatch_arm =
  da_idx :: u32
  da_variant :: str
  da_fields :: "str list"

definition write_arm :: "(str \<Rightarrow> str) \<Rightarrow> bool \<Rightarrow> nat \<Rightarrow> method_decl \<Rightarrow> dispatch_arm" where
  "write_arm upper is_server idx m =
     \<lparr>da_idx = of_nat idx, da_variant = snake_to_pascal upper (md_name m),
      da_fields = (case md_returns m of
          Some returned \<Rightarrow> if is_server then [raw_ident returned] else [ascii ''seq''] | None \<Rightarrow> []) @
        map (raw_ident \<circ> arg_name) (md_args m)\<rparr>"

text \<open>A \<open>send_\<close> function. Its type parameters are \<open>S\<close> and \<open>F\<close>, and a handler of the returned type.\<close>

record send_fn =
  sn_docs :: "str list"
  sn_ident :: str
  sn_idx :: u32
  sn_generics :: "str list"
  sn_consumes :: bool
  sn_params :: "(str \<times> rust_type) list"
  sn_returns :: "(str \<times> str) option"

definition write_send_fn :: "(str \<Rightarrow> str) \<Rightarrow> nat \<Rightarrow> method_decl \<Rightarrow> send_fn" where
  "write_send_fn upper idx m =
     \<lparr>sn_docs = method_doc_attrs m (md_returns m \<noteq> None), sn_ident = ascii ''send_'' @ md_name m, sn_idx = of_nat idx,
      sn_generics = (if TArrayVarchar \<in> arg_type ` set (md_args m) then [ascii ''S''] else []) @
        (if TArrayFd \<in> arg_type ` set (md_args m) then [ascii ''F''] else []) @
        (if md_returns m \<noteq> None then [ascii ''D''] else []),
      sn_consumes = (md_returns m = None \<and> md_destructor m),
      sn_params = map (\<lambda>a. (raw_ident (arg_name a), send_param_type upper (arg_type a) (arg_interface a))) (md_args m),
      sn_returns = map_option (proxy_path upper) (md_returns m)\<rparr>"

record object_module =
  om_ident :: str
  om_docs :: "str list"
  om_type :: str
  om_protocol_impl :: "str option"
  om_event_docs :: str
  om_events :: "variant_item list"
  om_data :: str
  om_arms :: "dispatch_arm list"
  om_bounds :: "(str \<times> str) list"
  om_name :: str
  om_functions :: "str list"
  om_sends :: "send_fn list"

text \<open>What the modules of the two sides share. \<open>received\<close> are the methods that arrive.\<close>

definition object_items ::
    "(str \<Rightarrow> str) \<Rightarrow> bool \<Rightarrow> object_decl \<Rightarrow> method_decl list \<Rightarrow> (str \<times> str) list \<Rightarrow> send_fn list \<Rightarrow> object_module" where
  "object_items upper is_server obj received bounds sends =
     \<lparr>om_ident = raw_ident (od_name obj), om_docs = doc_attrs (description_doc_lines (od_description obj)),
      om_type = snake_to_pascal upper (od_name obj), om_protocol_impl = None,
      om_event_docs = ascii ''Incoming events for `'' @ raw_ident (od_name obj) @ ascii ''::'' @
        snake_to_pascal upper (od_name obj) @ ascii ''`.'',
      om_events = write_event_enum upper received is_server,
      om_data = snake_to_pascal upper (od_name obj) @ ascii ''ObjectData'',
      om_arms = map2 (write_arm upper is_server) [0..<length received] received,
      om_bounds = bounds, om_name = od_name obj,
      om_functions = (if is_server then [ascii ''new'', ascii ''error'', ascii ''client''] else [ascii ''new'']),
      om_sends = sends\<rparr>"

definition server_module :: "(str \<Rightarrow> str) \<Rightarrow> protocol \<Rightarrow> object_decl \<Rightarrow> object_module" where
  "server_module upper p obj =
     object_items upper True obj (od_c2s obj) (map (proxy_path upper) (collect_transitive_returns (od_name obj) p))
       (map2 (write_send_fn upper) [0..<length (od_s2c obj)] (od_s2c obj))"

definition client_module :: "(str \<Rightarrow> str) \<Rightarrow> protocol \<Rightarrow> object_decl \<Rightarrow> object_module" where
  "client_module upper p obj =
     (object_items upper False obj (od_s2c obj) []
       (map (\<lambda>(idx, m). write_send_fn upper idx m)
         (filter (\<lambda>(_, m). \<not> (md_destructor m \<and> md_args m = [])) (zip [0..<length (od_c2s obj)] (od_c2s obj)))))
       \<lparr>om_protocol_impl := Some (snake_to_pascal upper (pt_name p) @ ascii ''Impl'')\<rparr>"

section \<open>Files\<close>

record server_file =
  sf_modules :: "object_module list"
  sf_handler :: str
  sf_impl :: str
  sf_spec :: str
  sf_root :: "str \<times> str"
  sf_bounds :: "(str \<times> str) list"
  sf_binds :: "(str \<times> bool) list"

definition server_items :: "(str \<Rightarrow> str) \<Rightarrow> protocol \<Rightarrow> ('e, server_file) res" where
  "server_items upper p =
     (case pt_objects p of
        [] \<Rightarrow> Panic
      | root # rest \<Rightarrow> Ok
          \<lparr>sf_modules = map (server_module upper p) (pt_objects p),
           sf_handler = snake_to_pascal upper (pt_name p) @ ascii ''Handler'',
           sf_impl = snake_to_pascal upper (pt_name p) @ ascii ''Impl'',
           sf_spec = snake_to_pascal upper (pt_name p) @ ascii ''ProtocolSpec'',
           sf_root = proxy_path upper (od_name root),
           sf_bounds = map (proxy_path upper) (collect_all_transitive_returns p),
           sf_binds = (od_name root, True) # map (\<lambda>obj. (od_name obj, False)) rest\<rparr>)"

record client_file =
  cf_modules :: "object_module list"
  cf_impl :: str
  cf_spec :: str
  cf_name :: str

definition client_items :: "(str \<Rightarrow> str) \<Rightarrow> protocol \<Rightarrow> client_file" where
  "client_items upper p =
     \<lparr>cf_modules = map (client_module upper p) (pt_objects p),
      cf_impl = snake_to_pascal upper (pt_name p) @ ascii ''Impl'',
      cf_spec = snake_to_pascal upper (pt_name p) @ ascii ''ProtocolSpec'', cf_name = pt_name p\<rparr>"

record generated_file =
  gf_server :: "server_file option"
  gf_client :: "client_file option"
  gf_spec :: spec_module

text \<open>The items of \<open>generate\<close>, with the parsed attributes.\<close>

definition generated_items ::
    "(str \<Rightarrow> str) \<Rightarrow> protocol \<Rightarrow> targets \<Rightarrow> parsed_attribute list \<Rightarrow> ('e, generated_file) res" where
  "generated_items upper p ts attributes =
     bind_res (if targets_contain ts target_server then map_res id Some (server_items upper p) else Ok None) (\<lambda>server.
     Ok \<lparr>gf_server = server, gf_client = (if targets_contain ts target_client then Some (client_items upper p) else None),
         gf_spec = spec_items upper p attributes\<rparr>)"

section \<open>No name twice\<close>

text \<open>
  The names that must differ in a file, in every scope: types and statics of the module \<open>spec\<close>; the variants of an
  enum and their numbers; in \<open>server\<close> and \<open>client\<close> the modules, the imported \<open>rc\<close> and \<open>sync\<close>, and the
  types; in the module of an object its types, the variants and fields of its events, its functions and
  their parameters.
\<close>

definition enum_names_ok :: "enum_item \<Rightarrow> bool" where
  "enum_names_ok e \<longleftrightarrow> distinct (map fst (ei_variants e)) \<and> distinct (map snd (ei_variants e))"

definition spec_ok :: "spec_module \<Rightarrow> bool" where
  "spec_ok sp \<longleftrightarrow> distinct (map ei_ident (sm_enums sp) @ map si_struct (sm_objects sp) @ [sm_ident sp]) \<and>
     distinct (map si_static (sm_objects sp)) \<and> (\<forall>e \<in> set (sm_enums sp). enum_names_ok e)"

definition variant_fields :: "variant_item \<Rightarrow> str list" where
  "variant_fields v = (case vr_fields v of None \<Rightarrow> [] | Some fs \<Rightarrow> map fst fs)"

definition module_types :: "object_module \<Rightarrow> str list" where
  "module_types om = [om_type om, ascii ''Event'', om_data om] @
     (if om_protocol_impl om = None then [] else [ascii ''ProtocolImpl''])"

definition module_ok :: "object_module \<Rightarrow> bool" where
  "module_ok om \<longleftrightarrow> distinct (module_types om) \<and>
     distinct (map vr_ident (om_events om)) \<and> (\<forall>v \<in> set (om_events om). distinct (variant_fields v)) \<and>
     distinct (om_functions om @ map sn_ident (om_sends om)) \<and>
     (\<forall>f \<in> set (om_sends om). distinct (map fst (sn_params f)))"

definition modules_ok :: "object_module list \<Rightarrow> str list \<Rightarrow> bool" where
  "modules_ok oms types \<longleftrightarrow> distinct ([ascii ''rc'', ascii ''sync''] @ map om_ident oms @ types) \<and> (\<forall>om \<in> set oms. module_ok om)"

definition file_ok :: "generated_file \<Rightarrow> bool" where
  "file_ok gf \<longleftrightarrow> spec_ok (gf_spec gf) \<and>
     (\<forall>sf. gf_server gf = Some sf \<longrightarrow> modules_ok (sf_modules sf) [sf_handler sf, sf_impl sf]) \<and>
     (\<forall>cf. gf_client gf = Some cf \<longrightarrow> modules_ok (cf_modules cf) [cf_impl cf])"

text \<open>The same of the description.\<close>

definition method_fields :: "bool \<Rightarrow> method_decl \<Rightarrow> str list" where
  "method_fields is_server m = (case md_returns m of
       Some returned \<Rightarrow> if is_server then [returned] else [ascii ''seq''] | None \<Rightarrow> []) @ map arg_name (md_args m)"

definition methods_distinct :: "bool \<Rightarrow> method_decl list \<Rightarrow> method_decl list \<Rightarrow> bool" where
  "methods_distinct is_server received offered \<longleftrightarrow>
     distinct (map md_name received) \<and> (\<forall>m \<in> set received. distinct (method_fields is_server m)) \<and>
     distinct (map md_name offered) \<and> (\<forall>m \<in> set offered. distinct (map arg_name (md_args m)))"

definition sendable_methods :: "object_decl \<Rightarrow> method_decl list" where
  "sendable_methods obj = filter (\<lambda>m. \<not> (md_destructor m \<and> md_args m = [])) (od_c2s obj)"

definition description_distinct :: "bool \<Rightarrow> bool \<Rightarrow> protocol \<Rightarrow> bool" where
  "description_distinct server client p \<longleftrightarrow>
     distinct (map en_name (pt_enums p) @ map (\<lambda>obj. od_name obj @ ascii ''_spec'') (pt_objects p) @
       [pt_name p @ ascii ''_protocol_spec'']) \<and>
     (\<forall>e \<in> set (pt_enums p). distinct (map nv_name (en_values e)) \<and> distinct (map nv_idx (en_values e))) \<and>
     (server \<or> client \<longrightarrow> (\<forall>obj \<in> set (pt_objects p). od_name obj \<notin> {ascii ''rc'', ascii ''sync'', ascii ''event''})) \<and>
     (server \<longrightarrow> (\<forall>obj \<in> set (pt_objects p). methods_distinct True (od_c2s obj) (od_s2c obj))) \<and>
     (client \<longrightarrow> (\<forall>obj \<in> set (pt_objects p). od_name obj \<noteq> ascii ''protocol_impl'' \<and>
        methods_distinct False (od_s2c obj) (sendable_methods obj)))"

definition snake_method :: "method_decl \<Rightarrow> bool" where
  "snake_method m \<longleftrightarrow> snake_case (md_name m) \<and> (\<forall>a \<in> set (md_args m). snake_case (arg_name a)) \<and>
     (\<forall>r. md_returns m = Some r \<longrightarrow> snake_case r)"

definition snake_protocol :: "protocol \<Rightarrow> bool" where
  "snake_protocol p \<longleftrightarrow> snake_case (pt_name p) \<and>
     (\<forall>e \<in> set (pt_enums p). snake_case (en_name e) \<and> (\<forall>v \<in> set (en_values e). snake_case (nv_name v))) \<and>
     (\<forall>obj \<in> set (pt_objects p). snake_case (od_name obj) \<and> (\<forall>m \<in> set (od_c2s obj) \<union> set (od_s2c obj). snake_method m))"

section \<open>The names of a file and the names of its description\<close>

lemma literals_snake:
  "snake_case (ascii ''event'')" "snake_case (ascii ''spec'')" "snake_case (ascii ''protocol_impl'')"
  "snake_case (ascii ''protocol_spec'')" "snake_case (ascii ''object_data'')" "snake_case (ascii ''handler'')"
  "snake_case (ascii ''impl'')" "snake_case (ascii ''rc'')" "snake_case (ascii ''sync'')" "snake_case (ascii ''seq'')"
  by (simp_all add: snake_case_def snake_word_def lower_letter_def in_range_def)

lemma pascal_literals:
  assumes "uppercases upper"
  shows "snake_to_pascal upper (ascii ''event'') = ascii ''Event''"
    "snake_to_pascal upper (ascii ''protocol_impl'') = ascii ''ProtocolImpl''"
    "snake_to_pascal upper (ascii ''protocol_spec'') = ascii ''ProtocolSpec''"
    "snake_to_pascal upper (ascii ''spec'') = ascii ''Spec''"
    "snake_to_pascal upper (ascii ''object_data'') = ascii ''ObjectData''"
    "snake_to_pascal upper (ascii ''handler'') = ascii ''Handler''"
    "snake_to_pascal upper (ascii ''impl'') = ascii ''Impl''"
  by (simp_all add: snake_to_pascal_words[OF assms] literals_snake del: ascii_Cons) simp_all

lemma snake_suffix:
  assumes "uppercases upper"
  shows "snake_to_pascal upper s @ ascii ''Spec'' = snake_to_pascal upper (s @ ascii ''_spec'')"
    "snake_to_pascal upper s @ ascii ''ProtocolSpec'' = snake_to_pascal upper (s @ ascii ''_protocol_spec'')"
    "snake_to_pascal upper s @ ascii ''ObjectData'' = snake_to_pascal upper (s @ ascii ''_object_data'')"
    "snake_to_pascal upper s @ ascii ''Handler'' = snake_to_pascal upper (s @ ascii ''_handler'')"
    "snake_to_pascal upper s @ ascii ''Impl'' = snake_to_pascal upper (s @ ascii ''_impl'')"
  using snake_to_pascal_append[of upper s] pascal_literals[OF assms] by simp_all

lemma snake_case_suffix:
  "snake_case s \<Longrightarrow> snake_case (s @ ascii ''_spec'')" "snake_case s \<Longrightarrow> snake_case (s @ ascii ''_protocol_spec'')"
  "snake_case s \<Longrightarrow> snake_case (s @ ascii ''_object_data'')" "snake_case s \<Longrightarrow> snake_case (s @ ascii ''_handler'')"
  "snake_case s \<Longrightarrow> snake_case (s @ ascii ''_impl'')"
  using snake_case_append[of s] literals_snake by simp_all

lemma spec_ok_iff:
  assumes upper: "uppercases upper" and snake: "snake_protocol p"
  shows "spec_ok (spec_items upper p attributes) \<longleftrightarrow>
    distinct (map en_name (pt_enums p) @ map (\<lambda>obj. od_name obj @ ascii ''_spec'') (pt_objects p) @
      [pt_name p @ ascii ''_protocol_spec'']) \<and>
    (\<forall>e \<in> set (pt_enums p). distinct (map nv_name (en_values e)) \<and> distinct (map nv_idx (en_values e)))"
proof -
  let ?sp = "spec_items upper p attributes"
  let ?types = "map en_name (pt_enums p) @ map (\<lambda>obj. od_name obj @ ascii ''_spec'') (pt_objects p) @
    [pt_name p @ ascii ''_protocol_spec'']"
  have "map ei_ident (sm_enums ?sp) @ map si_struct (sm_objects ?sp) @ [sm_ident ?sp] = map (snake_to_pascal upper) ?types"
    by (simp add: spec_items_def write_enum_def snake_suffix[OF upper] del: ascii_Cons)
  moreover have "\<forall>s \<in> set ?types. snake_case s"
    using snake by (auto simp: snake_protocol_def snake_case_suffix simp del: ascii_Cons)
  ultimately have types: "distinct (map ei_ident (sm_enums ?sp) @ map si_struct (sm_objects ?sp) @ [sm_ident ?sp]) \<longleftrightarrow> distinct ?types"
    using distinct_pascal[OF upper] by metis
  have statics: "distinct (map si_static (sm_objects ?sp)) \<longleftrightarrow> distinct (map od_name (pt_objects p))"
    using distinct_screaming[OF upper, of "map od_name (pt_objects p)"] snake
    by (simp add: spec_items_def snake_protocol_def comp_def)
  have "distinct ?types \<Longrightarrow> distinct (map od_name (pt_objects p))" by (auto simp: distinct_map inj_on_def)
  moreover have "enum_names_ok (write_enum upper n attributes e) \<longleftrightarrow> distinct (map nv_name (en_values e)) \<and> distinct (map nv_idx (en_values e))"
    if "e \<in> set (pt_enums p)" for n e
    using distinct_pascal[OF upper, of "map nv_name (en_values e)"] snake that
    by (simp add: enum_names_ok_def write_enum_def snake_protocol_def comp_def)
  then have "(\<forall>e \<in> set (sm_enums ?sp). enum_names_ok e) \<longleftrightarrow>
      (\<forall>e \<in> set (pt_enums p). distinct (map nv_name (en_values e)) \<and> distinct (map nv_idx (en_values e)))"
    by (simp add: spec_items_def)
  ultimately show ?thesis unfolding spec_ok_def types statics by blast
qed

lemma variant_fields_event:
  "variant_fields (event_variant upper is_server m) = map raw_ident (method_fields is_server m)"
proof -
  have "raw_ident (ascii ''seq'') = ascii ''seq''" by (simp add: raw_ident_def reserved_def)
  then show ?thesis
    by (cases "md_returns m") (simp_all add: variant_fields_def event_variant_def method_fields_def proxy_path_def Let_def
        comp_def del: ascii_Cons)
qed

lemma vr_ident_event [simp]: "vr_ident (event_variant upper is_server m) = snake_to_pascal upper (md_name m)"
  by (simp add: event_variant_def Let_def)

lemma method_fields_snake: "snake_method m \<Longrightarrow> \<forall>s \<in> set (method_fields is_server m). snake_case s"
  using literals_snake by (auto simp: method_fields_def snake_method_def simp del: ascii_Cons split: option.splits)

lemma events_ok_iff:
  assumes "uppercases upper" and "\<forall>m \<in> set ms. snake_method m"
  shows "distinct (map vr_ident (write_event_enum upper ms is_server)) \<longleftrightarrow> distinct (map md_name ms)"
    and "(\<forall>v \<in> set (write_event_enum upper ms is_server). distinct (variant_fields v)) \<longleftrightarrow>
      (\<forall>m \<in> set ms. distinct (method_fields is_server m))"
proof -
  show "distinct (map vr_ident (write_event_enum upper ms is_server)) \<longleftrightarrow> distinct (map md_name ms)"
    using distinct_pascal[OF assms(1), of "map md_name ms"] assms(2)
    by (simp add: write_event_enum_def comp_def snake_method_def)
  show "(\<forall>v \<in> set (write_event_enum upper ms is_server). distinct (variant_fields v)) \<longleftrightarrow>
      (\<forall>m \<in> set ms. distinct (method_fields is_server m))"
    using distinct_raw[OF method_fields_snake] assms(2) by (simp add: write_event_enum_def variant_fields_event)
qed

text \<open>The constructor of an event in the dispatcher names the fields its variant has.\<close>

lemma arms_construct_events:
  "map da_variant (map2 (write_arm upper is_server) [0..<length ms] ms) = map vr_ident (write_event_enum upper ms is_server)"
  "map da_fields (map2 (write_arm upper is_server) [0..<length ms] ms) = map variant_fields (write_event_enum upper ms is_server)"
proof -
  show "map da_variant (map2 (write_arm upper is_server) [0..<length ms] ms) = map vr_ident (write_event_enum upper ms is_server)"
    by (rule nth_equalityI) (simp_all add: write_arm_def write_event_enum_def)
  have "raw_ident (ascii ''seq'') = ascii ''seq''" by (simp add: raw_ident_def reserved_def)
  then have fields: "da_fields (write_arm upper is_server i m) = map raw_ident (method_fields is_server m)" for i m
    by (cases "md_returns m") (simp_all add: write_arm_def method_fields_def del: ascii_Cons)
  show "map da_fields (map2 (write_arm upper is_server) [0..<length ms] ms) =
      map variant_fields (write_event_enum upper ms is_server)"
    by (rule nth_equalityI) (simp_all add: fields write_event_enum_def variant_fields_event)
qed

lemma sends_ok_iff:
  assumes "\<forall>m \<in> snd ` set ps. snake_method m"
    and funs: "funs \<in> {[ascii ''new'', ascii ''error'', ascii ''client''], [ascii ''new'']}"
  shows "distinct (funs @ map sn_ident (map (\<lambda>(i, m). write_send_fn upper i m) ps)) \<longleftrightarrow> distinct (map md_name (map snd ps))"
    and "(\<forall>f \<in> set (map (\<lambda>(i, m). write_send_fn upper i m) ps). distinct (map fst (sn_params f))) \<longleftrightarrow>
      (\<forall>m \<in> set (map snd ps). distinct (map arg_name (md_args m)))"
proof -
  have idents: "map sn_ident (map (\<lambda>(i, m). write_send_fn upper i m) ps) = map ((@) (ascii ''send_'')) (map md_name (map snd ps))"
    by (simp add: write_send_fn_def split: prod.split)
  have "distinct (funs @ map ((@) (ascii ''send_'')) ns) \<longleftrightarrow> distinct ns" for ns
    using funs by (auto simp: distinct_map inj_on_def)
  then show "distinct (funs @ map sn_ident (map (\<lambda>(i, m). write_send_fn upper i m) ps)) \<longleftrightarrow> distinct (map md_name (map snd ps))"
    unfolding idents .
  have "distinct (map fst (sn_params (write_send_fn upper i m))) \<longleftrightarrow> distinct (map arg_name (md_args m))" if "(i, m) \<in> set ps" for i m
    using distinct_raw[of "map arg_name (md_args m)"] assms(1) that
    by (fastforce simp: write_send_fn_def snake_method_def comp_def)
  then show "(\<forall>f \<in> set (map (\<lambda>(i, m). write_send_fn upper i m) ps). distinct (map fst (sn_params f))) \<longleftrightarrow>
      (\<forall>m \<in> set (map snd ps). distinct (map arg_name (md_args m)))"
    by fastforce
qed

lemma module_types_iff:
  assumes upper: "uppercases upper" and s: "snake_case s"
  shows "distinct [snake_to_pascal upper s, ascii ''Event'', snake_to_pascal upper s @ ascii ''ObjectData''] \<longleftrightarrow> s \<noteq> ascii ''event''"
    and "distinct [snake_to_pascal upper s, ascii ''Event'', snake_to_pascal upper s @ ascii ''ObjectData'', ascii ''ProtocolImpl''] \<longleftrightarrow>
      s \<noteq> ascii ''event'' \<and> s \<noteq> ascii ''protocol_impl''"
proof -
  let ?names3 = "[s, ascii ''event'', s @ ascii ''_object_data'']"
  let ?names4 = "?names3 @ [ascii ''protocol_impl'']"
  have "s @ ascii ''_object_data'' \<noteq> ascii ''event''" "s @ ascii ''_object_data'' \<noteq> ascii ''protocol_impl''"
    "ascii ''event'' \<noteq> ascii ''protocol_impl''" "s @ ascii ''_object_data'' \<noteq> s"
    by (simp_all add: append_eq_Cons_conv)
  then have names: "distinct ?names3 \<longleftrightarrow> s \<noteq> ascii ''event''"
    "distinct ?names4 \<longleftrightarrow> s \<noteq> ascii ''event'' \<and> s \<noteq> ascii ''protocol_impl''"
    by (auto simp del: ascii_Cons)
  have snake: "\<forall>s \<in> set ?names3. snake_case s" "\<forall>s \<in> set ?names4. snake_case s"
    using s literals_snake snake_case_suffix by (simp_all del: ascii_Cons)
  have "[snake_to_pascal upper s, ascii ''Event'', snake_to_pascal upper s @ ascii ''ObjectData''] = map (snake_to_pascal upper) ?names3"
    "[snake_to_pascal upper s, ascii ''Event'', snake_to_pascal upper s @ ascii ''ObjectData'', ascii ''ProtocolImpl''] =
      map (snake_to_pascal upper) ?names4"
    by (simp_all add: snake_suffix[OF upper] pascal_literals[OF upper] del: ascii_Cons)
  then show "distinct [snake_to_pascal upper s, ascii ''Event'', snake_to_pascal upper s @ ascii ''ObjectData''] \<longleftrightarrow> s \<noteq> ascii ''event''"
    "distinct [snake_to_pascal upper s, ascii ''Event'', snake_to_pascal upper s @ ascii ''ObjectData'', ascii ''ProtocolImpl''] \<longleftrightarrow>
      s \<noteq> ascii ''event'' \<and> s \<noteq> ascii ''protocol_impl''"
    by (simp_all only: names distinct_pascal[OF upper snake(1)] distinct_pascal[OF upper snake(2)])
qed

lemma server_module_ok_iff:
  assumes upper: "uppercases upper" and name: "snake_case (od_name obj)"
    and methods: "\<forall>m \<in> set (od_c2s obj) \<union> set (od_s2c obj). snake_method m"
  shows "module_ok (server_module upper p obj) \<longleftrightarrow>
    od_name obj \<noteq> ascii ''event'' \<and> methods_distinct True (od_c2s obj) (od_s2c obj)"
proof -
  have sends: "\<forall>m \<in> snd ` set (zip [0..<length (od_s2c obj)] (od_s2c obj)). snake_method m"
    using methods by (auto dest: set_zip_rightD)
  note events = events_ok_iff[OF upper, of "od_c2s obj" True]
  note calls = sends_ok_iff[OF sends, of "[ascii ''new'', ascii ''error'', ascii ''client'']" upper]
  show ?thesis
    unfolding module_ok_def methods_distinct_def
    using events calls module_types_iff(1)[OF upper name] methods
    by (simp add: server_module_def object_items_def module_types_def del: ascii_Cons)
qed

lemma client_module_ok_iff:
  assumes upper: "uppercases upper" and name: "snake_case (od_name obj)"
    and methods: "\<forall>m \<in> set (od_c2s obj) \<union> set (od_s2c obj). snake_method m"
  shows "module_ok (client_module upper p obj) \<longleftrightarrow> od_name obj \<noteq> ascii ''event'' \<and> od_name obj \<noteq> ascii ''protocol_impl'' \<and>
    methods_distinct False (od_s2c obj) (sendable_methods obj)"
proof -
  let ?offered = "filter (\<lambda>(_, m). \<not> (md_destructor m \<and> md_args m = [])) (zip [0..<length (od_c2s obj)] (od_c2s obj))"
  have offered: "map snd ?offered = sendable_methods obj"
  proof -
    have "sendable_methods obj = filter (\<lambda>m. \<not> (md_destructor m \<and> md_args m = [])) (map snd (zip [0..<length (od_c2s obj)] (od_c2s obj)))"
      by (simp add: sendable_methods_def)
    then show ?thesis by (simp only: filter_map comp_def split_def)
  qed
  then have "snd ` set ?offered = set (sendable_methods obj)" by (metis list.set_map)
  then have sends: "\<forall>m \<in> snd ` set ?offered. snake_method m" using methods by (auto simp: sendable_methods_def)
  note events = events_ok_iff[OF upper, of "od_s2c obj" False]
  note calls = sends_ok_iff[OF sends, of "[ascii ''new'']" upper, unfolded offered]
  show ?thesis
    unfolding module_ok_def methods_distinct_def
    using events calls module_types_iff(2)[OF upper name] methods
    by (simp add: client_module_def object_items_def module_types_def del: ascii_Cons)
qed

lemma module_names_iff:
  assumes upper: "uppercases upper" and names: "\<forall>s \<in> set ns. snake_case s" and types: "\<forall>s \<in> set ts. snake_case s"
  shows "distinct ([ascii ''rc'', ascii ''sync''] @ map raw_ident ns @ map (snake_to_pascal upper) ts) \<longleftrightarrow>
    distinct ns \<and> distinct ts \<and> ascii ''rc'' \<notin> set ns \<and> ascii ''sync'' \<notin> set ns"
proof -
  let ?ns = "[ascii ''rc'', ascii ''sync''] @ ns"
  have snake: "\<forall>s \<in> set ?ns. snake_case s" using names literals_snake by (simp del: ascii_Cons)
  have "[ascii ''rc'', ascii ''sync''] @ map raw_ident ns = map raw_ident ?ns" by (simp add: raw_ident_def reserved_def)
  moreover have "set (map raw_ident ?ns) \<inter> set (map (snake_to_pascal upper) ts) = {}"
    using raw_not_pascal[OF upper] snake types by fastforce
  moreover have "distinct ?ns \<longleftrightarrow> distinct ns \<and> ascii ''rc'' \<notin> set ns \<and> ascii ''sync'' \<notin> set ns"
    by auto
  ultimately show ?thesis
    using distinct_raw[OF snake] distinct_pascal[OF upper types] by (metis append_assoc distinct_append)
qed

lemma server_file_ok_iff:
  assumes upper: "uppercases upper" and snake: "snake_protocol p" and items: "server_items upper p = Ok sf"
  shows "modules_ok (sf_modules sf) [sf_handler sf, sf_impl sf] \<longleftrightarrow> distinct (map od_name (pt_objects p)) \<and>
    (\<forall>obj \<in> set (pt_objects p). od_name obj \<notin> {ascii ''rc'', ascii ''sync'', ascii ''event''} \<and>
       methods_distinct True (od_c2s obj) (od_s2c obj))"
proof -
  have sf: "sf_modules sf = map (server_module upper p) (pt_objects p)"
    "[sf_handler sf, sf_impl sf] = map (snake_to_pascal upper) [pt_name p @ ascii ''_handler'', pt_name p @ ascii ''_impl'']"
    using items by (auto simp: server_items_def snake_suffix[OF upper] simp del: ascii_Cons split: list.splits)
  have idents: "map om_ident (sf_modules sf) = map raw_ident (map od_name (pt_objects p))"
    by (simp add: sf server_module_def object_items_def)
  have types: "distinct [pt_name p @ ascii ''_handler'', pt_name p @ ascii ''_impl'']" by simp
  have names: "\<forall>s \<in> set [pt_name p @ ascii ''_handler'', pt_name p @ ascii ''_impl'']. snake_case s"
    "\<forall>s \<in> set (map od_name (pt_objects p)). snake_case s"
    using snake snake_case_suffix by (simp_all add: snake_protocol_def del: ascii_Cons)
  have "module_ok (server_module upper p obj) \<longleftrightarrow>
      od_name obj \<noteq> ascii ''event'' \<and> methods_distinct True (od_c2s obj) (od_s2c obj)" if "obj \<in> set (pt_objects p)" for obj
    using snake that by (intro server_module_ok_iff[OF upper]) (auto simp: snake_protocol_def)
  then have "(\<forall>om \<in> set (sf_modules sf). module_ok om) \<longleftrightarrow> (\<forall>obj \<in> set (pt_objects p).
      od_name obj \<noteq> ascii ''event'' \<and> methods_distinct True (od_c2s obj) (od_s2c obj))"
    by (simp add: sf(1) del: ascii_Cons)
  then show ?thesis
    unfolding modules_ok_def idents sf(2) module_names_iff[OF upper names(2,1)] using types
    by (auto simp: image_iff simp del: ascii_Cons)
qed

lemma client_file_ok_iff:
  assumes upper: "uppercases upper" and snake: "snake_protocol p"
  shows "modules_ok (cf_modules (client_items upper p)) [cf_impl (client_items upper p)] \<longleftrightarrow> distinct (map od_name (pt_objects p)) \<and>
    (\<forall>obj \<in> set (pt_objects p). od_name obj \<notin> {ascii ''rc'', ascii ''sync'', ascii ''event''} \<and>
       od_name obj \<noteq> ascii ''protocol_impl'' \<and> methods_distinct False (od_s2c obj) (sendable_methods obj))"
proof -
  let ?cf = "client_items upper p"
  have cf: "cf_modules ?cf = map (client_module upper p) (pt_objects p)"
    "[cf_impl ?cf] = map (snake_to_pascal upper) [pt_name p @ ascii ''_impl'']"
    by (simp_all add: client_items_def snake_suffix[OF upper] del: ascii_Cons)
  have idents: "map om_ident (cf_modules ?cf) = map raw_ident (map od_name (pt_objects p))"
    by (simp add: cf client_module_def object_items_def)
  have names: "\<forall>s \<in> set [pt_name p @ ascii ''_impl'']. snake_case s" "\<forall>s \<in> set (map od_name (pt_objects p)). snake_case s"
    using snake snake_case_suffix by (simp_all add: snake_protocol_def del: ascii_Cons)
  have "module_ok (client_module upper p obj) \<longleftrightarrow> od_name obj \<noteq> ascii ''event'' \<and>
      od_name obj \<noteq> ascii ''protocol_impl'' \<and> methods_distinct False (od_s2c obj) (sendable_methods obj)"
    if "obj \<in> set (pt_objects p)" for obj
    using snake that by (intro client_module_ok_iff[OF upper]) (auto simp: snake_protocol_def)
  then have "(\<forall>om \<in> set (cf_modules ?cf). module_ok om) \<longleftrightarrow> (\<forall>obj \<in> set (pt_objects p). od_name obj \<noteq> ascii ''event'' \<and>
      od_name obj \<noteq> ascii ''protocol_impl'' \<and> methods_distinct False (od_s2c obj) (sendable_methods obj))"
    by (simp add: cf(1) del: ascii_Cons)
  then show ?thesis
    unfolding modules_ok_def idents cf(2) module_names_iff[OF upper names(2,1)]
    by (auto simp: image_iff simp del: ascii_Cons)
qed

text \<open>C17: A generated file declares no name twice exactly when its description names nothing twice: for a protocol whose
  names are in snake case, in every scope of the generated modules the names of types, modules, variants, fields,
  functions and parameters are different if and only if the names of the description are different in
  theirs, no enum is called like an object or the protocol with \<open>_spec\<close> or \<open>_protocol_spec\<close> behind it, no object
  \<open>rc\<close>, \<open>sync\<close>, \<open>event\<close> or, for a client, \<open>protocol_impl\<close>, no argument of an event with a return type \<open>seq\<close>, and
  none of a request like the object it returns. Such descriptions the generator accepts, and their code does not compile.\<close>
theorem generated_names_distinct:
  assumes upper: "uppercases upper" and snake: "snake_protocol p"
    and items: "generated_items upper p ts attributes = (Ok gf :: ('e, generated_file) res)"
  shows "file_ok gf \<longleftrightarrow> description_distinct (targets_contain ts target_server) (targets_contain ts target_client) p"
proof -
  have spec: "gf_spec gf = spec_items upper p attributes"
    and client: "gf_client gf = (if targets_contain ts target_client then Some (client_items upper p) else None)"
    and server: "gf_server gf = None \<and> \<not> targets_contain ts target_server \<or>
      targets_contain ts target_server \<and> (\<exists>sf. gf_server gf = Some sf \<and> server_items upper p = (Ok sf :: ('e, server_file) res))"
    using items by (cases "server_items upper p :: ('e, server_file) res"; auto simp: generated_items_def bind_res_eq_Ok split: if_splits)+
  have objects: "distinct (map en_name (pt_enums p) @ map (\<lambda>obj. od_name obj @ ascii ''_spec'') (pt_objects p) @
      [pt_name p @ ascii ''_protocol_spec'']) \<Longrightarrow> distinct (map od_name (pt_objects p))"
    by (auto simp: distinct_map inj_on_def)
  show ?thesis
    unfolding file_ok_def spec spec_ok_iff[OF upper snake] description_distinct_def client
    using server server_file_ok_iff[OF upper snake] client_file_ok_iff[OF upper snake] objects
    by (auto simp del: ascii_Cons distinct_append)
qed

text \<open>A protocol with one object, whose name is the parameter, an enum and a method on either side.\<close>

definition example_named :: "str \<Rightarrow> protocol" where
  "example_named name =
     (let open_door = \<lparr>md_name = ascii ''open_door'', md_args = [\<lparr>arg_name = ascii ''width'', arg_type = TUint, arg_interface = None,
            arg_summary = None\<rparr>], md_returns = None, md_destructor = False, md_description = None\<rparr>;
          opened = open_door\<lparr>md_name := ascii ''opened''\<rparr>
      in \<lparr>pt_name = ascii ''house_v1'', pt_version = 1,
          pt_objects = [\<lparr>od_name = name, od_version = 1, od_c2s = [open_door], od_s2c = [opened], od_description = None\<rparr>],
          pt_enums = [\<lparr>en_name = ascii ''state'', en_values = [\<lparr>nv_name = ascii ''shut'', nv_idx = 0, nv_description = None\<rparr>]\<rparr>],
          pt_copyright = None\<rparr>)"

lemma uppercases_ascii: "uppercases (map upper_ascii)"
  by (simp add: uppercases_def)

lemma example_named_snake: "snake_case name \<Longrightarrow> snake_protocol (example_named name)"
  by (simp add: snake_protocol_def example_named_def snake_method_def snake_case_def snake_word_def lower_letter_def in_range_def
      Let_def)

lemma example_named_items: "\<exists>gf. generated_items (map upper_ascii) (example_named name) target_all [] = (Ok gf :: (error, _) res)"
  by (simp add: generated_items_def server_items_def example_named_def Let_def targets_contain_def target_all_def
      target_client_def target_server_def)

theorem generated_names_distinct_witness:
  "\<exists>gf gf'. generated_items (map upper_ascii) (example_named (ascii ''door'')) target_all [] = (Ok gf :: (error, _) res) \<and> file_ok gf \<and>
    generated_items (map upper_ascii) (example_named (ascii ''event'')) target_all [] = (Ok gf' :: (error, _) res) \<and> \<not> file_ok gf'"
proof -
  have targets: "targets_contain target_all target_server" "targets_contain target_all target_client"
    by (simp_all add: targets_contain_def target_all_def target_client_def target_server_def)
  have snake: "snake_protocol (example_named (ascii ''door''))" "snake_protocol (example_named (ascii ''event''))"
    by (intro example_named_snake; simp add: snake_case_def snake_word_def lower_letter_def in_range_def)+
  have "description_distinct True True (example_named (ascii ''door''))"
    by (simp add: description_distinct_def example_named_def Let_def methods_distinct_def method_fields_def sendable_methods_def)
  moreover have "\<not> description_distinct True True (example_named (ascii ''event''))"
    by (simp add: description_distinct_def example_named_def Let_def)
  moreover obtain gf gf' where "generated_items (map upper_ascii) (example_named (ascii ''door'')) target_all [] = (Ok gf :: (error, _) res)"
    "generated_items (map upper_ascii) (example_named (ascii ''event'')) target_all [] = (Ok gf' :: (error, _) res)"
    using example_named_items by blast
  ultimately show ?thesis
    using generated_names_distinct[OF uppercases_ascii snake(1)] generated_names_distinct[OF uppercases_ascii snake(2)] targets
    by (metis (full_types))
qed

end
