(* ===== verification/Example_Protocol.thy ===== *)
theory Example_Protocol
  imports Call_Order Trace_Properties Scanner_Items
begin

text \<open>
  The protocol of the examples, \<open>hyprwire/examples/protocols/protocol-v1.xml\<close>, as the scanner parses it, and the
  parts of the applications \<open>basic\<close>, \<open>calloop\<close> and \<open>fork\<close> that are the same: the events of its two types of objects
  on either side, and what the applications print for them.
\<close>

section \<open>The protocol\<close>

text \<open>The text of an element on a line of its own.\<close>

definition indented :: "nat \<Rightarrow> string \<Rightarrow> nat \<Rightarrow> str" where
  "indented n s k = 10 # replicate n 32 @ ascii s @ 10 # replicate k 32"

definition described :: "string \<Rightarrow> nat \<Rightarrow> string \<Rightarrow> nat \<Rightarrow> description option" where
  "described summary n s k = Some \<lparr>ds_summary = Some (ascii summary), ds_body = Some (indented n s k)\<rparr>"

definition message_arg :: "arg_type \<Rightarrow> str option \<Rightarrow> arg" where
  "message_arg t interface = \<lparr>arg_name = ascii ''message'', arg_type = t, arg_interface = interface,
     arg_summary = Some (ascii ''message'')\<rparr>"

definition message_method :: "string \<Rightarrow> string \<Rightarrow> string \<Rightarrow> arg_type \<Rightarrow> str option \<Rightarrow> method_decl" where
  "message_method name summary s t interface = \<lparr>md_name = ascii name, md_args = [message_arg t interface],
     md_returns = None, md_destructor = False, md_description = described summary 12 s 6\<rparr>"

definition make_object_method :: "string \<Rightarrow> method_decl" where
  "make_object_method s = \<lparr>md_name = ascii ''make_object'', md_args = [], md_returns = Some (ascii ''my_object_v1''),
     md_destructor = False, md_description = described ''Make a test object'' 12 s 6\<rparr>"

definition send_message_s2c :: method_decl where
  "send_message_s2c = message_method ''send_message'' ''Send a text message'' ''Sends a text message to the client'' TVarchar None"

definition send_message_c2s :: method_decl where
  "send_message_c2s = message_method ''send_message'' ''Send a text message'' ''Sends a text message to the server'' TVarchar None"

definition my_manager_v1 :: object_decl where
  "my_manager_v1 = \<lparr>od_name = ascii ''my_manager_v1'', od_version = 1,
     od_c2s = [send_message_c2s,
       message_method ''send_message_fd'' ''Send a text message'' ''Sends a fd message to the server'' TFd None,
       message_method ''send_message_array_fd'' ''Send a text message'' ''Sends a fd message to the server'' TArrayFd None,
       message_method ''send_message_array'' ''Send a text array message'' ''Sends an array message to the server''
         TArrayVarchar None,
       message_method ''send_message_array_uint'' ''Send an uint array message'' ''Sends an array message to the server''
         TArrayUint None,
       make_object_method ''Makes a test object''],
     od_s2c = [send_message_s2c,
       message_method ''recv_message_array_uint'' ''Receive an uint array message'' ''Receives an array message to the server''
         TArrayUint None],
     od_description = described ''manager object'' 6 ''This object is an example manager object for the protocol'' 4\<rparr>"

definition my_object_v1 :: object_decl where
  "my_object_v1 = \<lparr>od_name = ascii ''my_object_v1'', od_version = 1,
     od_c2s = [send_message_c2s,
       message_method ''send_enum'' ''Send an enum message'' ''Sends an enum message to the server'' TEnum
         (Some (ascii ''my_enum'')),
       \<lparr>md_name = ascii ''destroy'', md_args = [], md_returns = None, md_destructor = True,
        md_description = described ''Send a text message'' 12 ''Sends a text message to the server'' 6\<rparr>,
       make_object_method ''Makes a test object from a test object''],
     od_s2c = [send_message_s2c],
     od_description = described ''test object'' 6 ''This object is an example object for the protocol'' 4\<rparr>"

definition my_enum :: enum_decl where
  "my_enum = \<lparr>en_name = ascii ''my_enum'', en_values =
     [\<lparr>nv_name = ascii ''hello'', nv_idx = 0, nv_description = None\<rparr>,
      \<lparr>nv_name = ascii ''world'', nv_idx = 4, nv_description = None\<rparr>]\<rparr>"

definition my_error_enum :: enum_decl where
  "my_error_enum = \<lparr>en_name = ascii ''my_error_enum'', en_values =
     [\<lparr>nv_name = ascii ''oh_no'', nv_idx = 0, nv_description = None\<rparr>,
      \<lparr>nv_name = ascii ''error_important'', nv_idx = 1, nv_description = Some (ascii ''important error!!'')\<rparr>]\<rparr>"

definition test_protocol_v1 :: protocol where
  "test_protocol_v1 = \<lparr>pt_name = ascii ''test_protocol_v1'', pt_version = 1,
     pt_objects = [my_manager_v1, my_object_v1], pt_enums = [my_enum, my_error_enum],
     pt_copyright = Some (indented 4 ''I eat paint'' 2)\<rparr>"

text \<open>\<open>MyErrorEnum::ErrorImportant as u32\<close>, and \<open>MyEnum::World\<close>.\<close>

definition error_important :: u32 where
  "error_important = nv_idx (en_values my_error_enum ! 1)"

definition world :: u32 where
  "world = nv_idx (en_values my_enum ! 1)"

lemma not_first: "ascii ''my_object_v1'' \<noteq> ascii ''my_manager_v1''"
  by simp

lemma test_protocol_decls:
  "find_object_decl test_protocol_v1 (ascii ''my_manager_v1'') = Some my_manager_v1"
  "find_object_decl test_protocol_v1 (ascii ''my_object_v1'') = Some my_object_v1"
  by (simp_all add: find_object_decl_def test_protocol_v1_def my_manager_v1_def my_object_v1_def)

section \<open>The events on the server\<close>

text \<open>The generated \<open>Event\<close> of either type; a call that has other arguments does not reach it.\<close>

datatype manager_event =
    SendMessage str | SendMessageFd i32 | SendMessageArrayFd "i32 list" | SendMessageArray "str list"
  | SendMessageArrayUint "u32 list" | MakeObject nat

definition manager_event :: "gen_event \<Rightarrow> manager_event option" where
  "manager_event e =
     (if ge_method e = 0 then (case ge_args e of [VString message] \<Rightarrow> Some (SendMessage message) | _ \<Rightarrow> None)
      else if ge_method e = 1 then (case ge_args e of [VFd message] \<Rightarrow> Some (SendMessageFd message) | _ \<Rightarrow> None)
      else if ge_method e = 2 then (case ge_args e of [VFds message] \<Rightarrow> Some (SendMessageArrayFd message) | _ \<Rightarrow> None)
      else if ge_method e = 3 then (case ge_args e of [VStrings message] \<Rightarrow> Some (SendMessageArray message) | _ \<Rightarrow> None)
      else if ge_method e = 4 then (case ge_args e of [VUints message] \<Rightarrow> Some (SendMessageArrayUint message) | _ \<Rightarrow> None)
      else if ge_method e = 5 then map_option MakeObject (ge_returned e)
      else None)"

datatype object_event = ObjectSendMessage str | ObjectSendEnum u32 | ObjectDestroy | ObjectMakeObject nat

definition object_event :: "gen_event \<Rightarrow> object_event option" where
  "object_event e =
     (if ge_method e = 0 then (case ge_args e of [VString message] \<Rightarrow> Some (ObjectSendMessage message) | _ \<Rightarrow> None)
      else if ge_method e = 1 then (case ge_args e of [VEnum message] \<Rightarrow> Some (ObjectSendEnum message) | _ \<Rightarrow> None)
      else if ge_method e = 2 then Some ObjectDestroy
      else if ge_method e = 3 then map_option ObjectMakeObject (ge_returned e)
      else None)"

section \<open>What the server prints\<close>

text \<open>
  \<open>File::read\<close> into 64 bytes is an argument, \<open>contents\<close>, of the descriptor's number in this process, with no answer for an error; \<open>println!\<close> is taken to succeed.
  The text of an enum's value is the name of its variant; there is none for a number that is no value.
\<close>

definition file_text :: "(i32 \<Rightarrow> bytes option) \<Rightarrow> i32 \<Rightarrow> str" where
  "file_text contents fd = from_utf8_lossy (take 64 (case contents fd of Some bs \<Rightarrow> bs | None \<Rightarrow> []))"

definition fd_line :: "(i32 \<Rightarrow> bytes option) \<Rightarrow> string \<Rightarrow> i32 \<Rightarrow> str" where
  "fd_line contents s fd = ascii s @ show_i32 fd @ ascii '' with data: '' @ file_text contents fd"

definition manager_lines :: "(i32 \<Rightarrow> bytes option) \<Rightarrow> manager_event \<Rightarrow> str list" where
  "manager_lines contents ev =
     (case ev of
        SendMessage message \<Rightarrow> [ascii ''Recvd message: '' @ message]
      | SendMessageArrayFd message \<Rightarrow>
          (ascii ''Received '' @ show_nat (length message) @ ascii '' fds'') # map (fd_line contents ''fd '') message
      | SendMessageFd message \<Rightarrow> [fd_line contents ''Recvd fd '' message]
      | SendMessageArray message \<Rightarrow> [ascii ''Got array message: '' @ quoted (join message)]
      | SendMessageArrayUint message \<Rightarrow> [ascii ''Got uint array message: '' @ quoted (join (map show_u32 message))]
      | MakeObject _ \<Rightarrow> [])"

definition debug_enum :: "(str \<Rightarrow> str) \<Rightarrow> enum_decl \<Rightarrow> u32 \<Rightarrow> str option" where
  "debug_enum upper e n = map_option (\<lambda>v. snake_to_pascal upper (nv_name v)) (List.find (\<lambda>v. nv_idx v = n) (en_values e))"

section \<open>Handlers that do nothing\<close>

text \<open>\<open>delegate_noop!\<close> makes handlers: with \<open>ignore\<close> one that does nothing, without it one that is never to be called.\<close>

definition delegate_ignore :: "gen_event \<Rightarrow> 'd \<Rightarrow> (gen_data, 'd) prog" where
  "delegate_ignore e app = Finish"

definition delegate_unreachable :: "gen_event \<Rightarrow> 'd \<Rightarrow> (gen_data, 'd) prog" where
  "delegate_unreachable e app = Crash"

lemma ignored_calls:
  assumes "t < length (sv_objects w)" and "\<not> so_reading (sv_objects w ! t)"
  shows "receive_all (on_call delegate_ignore t) cs w = Some (Ok (), w)"
proof (induction cs)
  case (Cons c cs)
  have "(sv_objects w ! t)\<lparr>so_reading := False\<rparr> = sv_objects w ! t" using assms(2) by (cases "sv_objects w ! t") simp
  then have "(sv_objects w)[t := (sv_objects w ! t)\<lparr>so_reading := False\<rparr>] = sv_objects w" by (simp only: list_update_id)
  with assms(1) have "on_call delegate_ignore t c w = Some (Ok (), w)"
    by (simp add: on_call_def delegate_ignore_def upd_object_def)
  with Cons show ?case by simp
qed simp

lemma unreachable_call: "\<exists>w'. on_call delegate_unreachable t c w = Some (Panic, w')"
  by (simp add: on_call_def delegate_unreachable_def run.simps)

end
