(* ===== verification/Example_Basic.thy ===== *)
theory Example_Basic
  imports Example_Protocol
begin

text \<open>
  The example \<open>basic\<close>: the server's application, \<open>hyprwire/examples/basic/server.rs\<close>, and the calls its client makes,
  \<open>hyprwire/examples/basic/client.rs\<close>. The example \<open>calloop\<close> has the same handlers, but for two lines of \<open>bind\<close>.
  What a process prints is a list of lines in the state of its application; how a process id is printed is an
  argument, and so is \<open>to_uppercase\<close>, which the names of variants are made with.
\<close>

section \<open>The application\<close>

record basic_app =
  ba_printed :: "str list"
  ba_manager :: "nat option"
  ba_object :: "nat option"

definition basic_app_default :: basic_app where
  "basic_app_default = \<lparr>ba_printed = [], ba_manager = None, ba_object = None\<rparr>"

definition basic_print :: "str list \<Rightarrow> basic_app \<Rightarrow> basic_app" where
  "basic_print ls app = app\<lparr>ba_printed := ba_printed app @ ls\<rparr>"

definition basic_manager :: "(i32 \<Rightarrow> bytes option) \<Rightarrow> gen_event \<Rightarrow> basic_app \<Rightarrow> (gen_data, basic_app) prog" where
  "basic_manager contents e app =
     (case manager_event e of
        None \<Rightarrow> Finish
      | Some (MakeObject my_object) \<Rightarrow>
          server_send my_object 0 send_message_s2c [VString (ascii ''Hello object'')]
            (SetApp (app\<lparr>ba_object := Some my_object\<rparr>) Finish)
      | Some ev \<Rightarrow> SetApp (basic_print (manager_lines contents ev) app) Finish)"

definition basic_object :: "(str \<Rightarrow> str) \<Rightarrow> gen_event \<Rightarrow> basic_app \<Rightarrow> (gen_data, basic_app) prog" where
  "basic_object upper e app =
     (case object_event e of
        Some (ObjectSendMessage message) \<Rightarrow> SetApp (basic_print [ascii ''Object says hello: '' @ message] app) Finish
      | Some (ObjectSendEnum message) \<Rightarrow>
          (case debug_enum upper my_enum message of
             None \<Rightarrow> Crash
           | Some name \<Rightarrow>
               SetApp (basic_print [ascii ''Object sent enum: '' @ name, ascii ''Erroring out the client!''] app)
                 (RaiseError (ge_object e) error_important (ascii ''Important error occurred!'') Finish))
      | _ \<Rightarrow> Finish)"

text \<open>\<open>object.client().unwrap().creds().pid\<close> is printed first.\<close>

definition basic_bind :: "(i32 \<Rightarrow> str) \<Rightarrow> nat \<Rightarrow> (gen_data, basic_app) prog" where
  "basic_bind show_pid object =
     GetClient object (\<lambda>client. case client of
       None \<Rightarrow> Crash
     | Some client \<Rightarrow> ReadCreds (ch_creds client) (\<lambda>creds.
         GetApp (\<lambda>app. SetApp (basic_print [show_pid (cred_pid creds)] app)
        (GetClient object (\<lambda>_.
         GetApp (\<lambda>app. SetApp (basic_print [ascii ''Object bound XD''] app)
        (server_send object 0 send_message_s2c [VString (ascii ''Hello manager'')]
        (GetApp (\<lambda>app. SetApp (app\<lparr>ba_manager := Some object\<rparr>) Finish)))))))))"

definition basic_handlers ::
    "(i32 \<Rightarrow> bytes option) \<Rightarrow> (str \<Rightarrow> str) \<Rightarrow> str \<Rightarrow> gen_event \<Rightarrow> basic_app \<Rightarrow> (gen_data, basic_app) prog" where
  "basic_handlers contents upper name =
     (if name = ascii ''my_manager_v1'' then basic_manager contents else basic_object upper)"

definition basic_dispatcher :: "profile \<Rightarrow> (i32 \<Rightarrow> bytes option) \<Rightarrow> (str \<Rightarrow> str) \<Rightarrow> (gen_data, basic_app) dispatcher" where
  "basic_dispatcher pr contents upper = typed_dispatch pr test_protocol_v1 (basic_handlers contents upper)"

text \<open>The calls \<open>main\<close> of the client makes on the manager in a row, with the descriptors it has made.\<close>

definition basic_client_calls :: "i32 \<Rightarrow> i32 \<Rightarrow> i32 \<Rightarrow> gen_call list" where
  "basic_client_calls pipe1 pipe2 pipe3 =
     [(0, [VString (ascii ''Hello!'')]),
      (1, [VFd pipe1]),
      (2, [VFds [pipe2, pipe3]]),
      (3, [VStrings [ascii ''Hello'', ascii ''via'', ascii ''array!'']]),
      (3, [VStrings []]),
      (4, [VUints [69, 420, 1337]])]"

text \<open>Where both processes meet: \<open>env::var\<close> is an argument.\<close>

definition socket_path :: "(str \<Rightarrow> str option) \<Rightarrow> (error, str) res" where
  "socket_path env =
     (case env (ascii ''XDG_RUNTIME_DIR'') of None \<Rightarrow> Panic | Some runtime_dir \<Rightarrow> Ok (runtime_dir @ ascii ''/test-hw.sock''))"

text \<open>The server of \<open>calloop\<close>: the same handlers, and a \<open>bind\<close> that does not look at the client.\<close>

definition calloop_manager :: "(i32 \<Rightarrow> bytes option) \<Rightarrow> gen_event \<Rightarrow> basic_app \<Rightarrow> (gen_data, basic_app) prog" where
  "calloop_manager = basic_manager"

definition calloop_object :: "(str \<Rightarrow> str) \<Rightarrow> gen_event \<Rightarrow> basic_app \<Rightarrow> (gen_data, basic_app) prog" where
  "calloop_object = basic_object"

definition calloop_bind :: "nat \<Rightarrow> (gen_data, basic_app) prog" where
  "calloop_bind object =
     GetApp (\<lambda>app. SetApp (basic_print [ascii ''Object bound XD''] app)
    (server_send object 0 send_message_s2c [VString (ascii ''Hello manager'')]
    (GetApp (\<lambda>app. SetApp (app\<lparr>ba_manager := Some object\<rparr>) Finish))))"

section \<open>Calls on the manager\<close>

definition call_lines :: "(i32 \<Rightarrow> bytes option) \<Rightarrow> gen_call \<Rightarrow> str list" where
  "call_lines contents c =
     (case manager_event \<lparr>ge_object = 0, ge_method = fst c, ge_returned = None, ge_seq = None, ge_args = snd c\<rparr> of
        None \<Rightarrow> [] | Some ev \<Rightarrow> manager_lines contents ev)"

lemma basic_manager_plain:
  "basic_manager contents \<lparr>ge_object = t, ge_method = fst c, ge_returned = None, ge_seq = None, ge_args = snd c\<rparr> app =
     (case manager_event \<lparr>ge_object = 0, ge_method = fst c, ge_returned = None, ge_seq = None, ge_args = snd c\<rparr> of
        None \<Rightarrow> Finish | Some ev \<Rightarrow> SetApp (basic_print (manager_lines contents ev) app) Finish)"
  by (auto simp: basic_manager_def manager_event_def split: option.split list.split gen_value.split)

lemma run_SetApp: "run (SetApp d k) w = run k (w\<lparr>sv_app := d\<rparr>)"
  by (subst run.simps) simp

lemma reading_back:
  "t < length (sv_objects w) \<Longrightarrow> \<not> so_reading (sv_objects w ! t) \<Longrightarrow>
     upd_object t (\<lambda>obj. obj\<lparr>so_reading := False\<rparr>) ((upd_object t (\<lambda>obj. obj\<lparr>so_reading := True\<rparr>) w)\<lparr>sv_app := d\<rparr>) = w\<lparr>sv_app := d\<rparr>"
proof -
  assume t: "t < length (sv_objects w)" "\<not> so_reading (sv_objects w ! t)"
  have "(sv_objects w ! t)\<lparr>so_reading := False\<rparr> = sv_objects w ! t" using t(2) by (cases "sv_objects w ! t") simp
  then have "(sv_objects w)[t := (sv_objects w ! t)\<lparr>so_reading := False\<rparr>] = sv_objects w" by (simp only: list_update_id)
  with t(1) show ?thesis by (simp add: upd_object_def)
qed

lemma basic_prints_call:
  assumes "t < length (sv_objects w)" and "\<not> so_reading (sv_objects w ! t)"
  shows "on_call (basic_manager contents) t c w = Some (Ok (), w\<lparr>sv_app := basic_print (call_lines contents c) (sv_app w)\<rparr>)"
proof -
  have "basic_print [] (sv_app w) = sv_app w" by (simp add: basic_print_def)
  then show ?thesis
    using reading_back[OF assms, of "sv_app w"] reading_back[OF assms]
    by (auto simp: on_call_def basic_manager_plain call_lines_def run_SetApp upd_object_def split: option.split)
qed

lemma basic_prints_calls:
  assumes "t < length (sv_objects w)" and "\<not> so_reading (sv_objects w ! t)"
  shows "receive_all (on_call (basic_manager contents) t) cs w =
    Some (Ok (), w\<lparr>sv_app := basic_print (concat (map (call_lines contents) cs)) (sv_app w)\<rparr>)"
  using assms
proof (induction cs arbitrary: w)
  case (Cons c cs)
  then show ?case by (simp add: basic_prints_call) (simp add: basic_print_def)
qed (simp add: basic_print_def)

lemma client_calls_plain:
  "pipe1 \<noteq> - 1 \<Longrightarrow> pipe2 \<noteq> - 1 \<Longrightarrow> pipe3 \<noteq> - 1 \<Longrightarrow>
     \<forall>c \<in> set (basic_client_calls pipe1 pipe2 pipe3). plain_call my_manager_v1 c"
  by (simp add: basic_client_calls_def plain_call_def my_manager_v1_def message_method_def message_arg_def
      send_message_c2s_def isize_max_def)

section \<open>Properties\<close>

text \<open>The lines for the calls of the example's client, where its three pipes have the numbers \<open>q1\<close>, \<open>q2\<close> and \<open>q3\<close>.\<close>

lemma basic_client_lines:
  assumes "contents q1 = Some (ascii ''pipe!'')" and "contents q2 = Some (ascii ''o kurwa'')" and "contents q3 = Some (ascii ''bober!!'')"
  shows "concat (map (call_lines contents) (basic_client_calls q1 q2 q3)) =
     [ascii ''Recvd message: Hello!'',
      ascii ''Recvd fd '' @ show_i32 q1 @ ascii '' with data: pipe!'',
      ascii ''Received 2 fds'',
      ascii ''fd '' @ show_i32 q2 @ ascii '' with data: o kurwa'',
      ascii ''fd '' @ show_i32 q3 @ ascii '' with data: bober!!'',
      ascii ''Got array message: \"Hello, via, array!\"'',
      ascii ''Got array message: \"\"'',
      ascii ''Got uint array message: \"69, 420, 1337\"'']"
proof -
  have texts: "file_text contents q1 = ascii ''pipe!''" "file_text contents q2 = ascii ''o kurwa''" "file_text contents q3 = ascii ''bober!!''"
    unfolding file_text_def assms by code_simp+
  have calls: "call_lines contents (0, [VString s]) = [ascii ''Recvd message: '' @ s]"
    "call_lines contents (1, [VFd a]) = [fd_line contents ''Recvd fd '' a]"
    "call_lines contents (2, [VFds fds]) = (ascii ''Received '' @ show_nat (length fds) @ ascii '' fds'') # map (fd_line contents ''fd '') fds"
    "call_lines contents (3, [VStrings ss]) = [ascii ''Got array message: '' @ quoted (join ss)]"
    "call_lines contents (4, [VUints ws]) = [ascii ''Got uint array message: '' @ quoted (join (map show_u32 ws))]" for s a fds ss ws
    by (simp_all add: call_lines_def manager_event_def manager_lines_def)
  have lines: "ascii ''Recvd message: '' @ ascii ''Hello!'' = ascii ''Recvd message: Hello!''"
    "ascii '' with data: '' @ ascii ''pipe!'' = ascii '' with data: pipe!''"
    "ascii '' with data: '' @ ascii ''o kurwa'' = ascii '' with data: o kurwa''"
    "ascii '' with data: '' @ ascii ''bober!!'' = ascii '' with data: bober!!''"
    "ascii ''Received '' @ show_nat (length [q2, q3]) @ ascii '' fds'' = ascii ''Received 2 fds''"
    "ascii ''Got array message: '' @ quoted (join [ascii ''Hello'', ascii ''via'', ascii ''array!'']) = ascii ''Got array message: \"Hello, via, array!\"''"
    "ascii ''Got array message: '' @ quoted (join []) = ascii ''Got array message: \"\"''"
    "ascii ''Got uint array message: '' @ quoted (join [show_u32 69, show_u32 420, show_u32 1337]) = ascii ''Got uint array message: \"69, 420, 1337\"''"
    by code_simp+
  show ?thesis
    by (simp only: basic_client_calls_def list.map concat.simps calls lines fd_line_def texts append_Nil append_Cons append_Nil2)
qed

text \<open>C34: The server of the example prints what its client sent: when the client makes its six calls on its manager, with any
  three pipes, and the server, which knows the manager by the same id, reads the messages, in any number of reads that do not cut
  one, with any numbers for the three descriptors where they are received, then it prints exactly these eight lines, in this order,
  and does nothing else: the lines name the numbers that were received, and the texts the client wrote into the pipes.\<close>
theorem basic_prints:
  fixes cl :: "(gen_data, 'e) client" and sv :: "(gen_data, basic_app) server" and t r k :: nat
  assumes client: "r < length (cl_heap cl)" "co_spec (cl_heap cl ! r) = Some (generate_object_spec my_manager_v1)"
      "co_id (cl_heap cl ! r) = oid" "oid \<noteq> 0"
    and server: "serves k t oid my_manager_v1 sv" "\<not> so_reading (sv_objects sv ! t)"
    and pipes: "p1 \<noteq> - 1" "p2 \<noteq> - 1" "p3 \<noteq> - 1" and received: "q1 \<noteq> - 1" "q2 \<noteq> - 1" "q3 \<noteq> - 1"
    and contents: "contents q1 = Some (ascii ''pipe!'')" "contents q2 = Some (ascii ''o kurwa'')" "contents q3 = Some (ascii ''bober!!'')"
  shows "\<exists>cl'. run_client pr (client_calls r my_manager_v1 (basic_client_calls p1 p2 p3)) cl = Some (Ok (), cl') \<and>
    (\<forall>reads. concat reads = deliver_fds (sent (cl_conn cl) (cl_conn cl')) [q1, q2, q3] \<longrightarrow>
      (\<forall>ms \<in> set reads. length (stream_data ms) \<le> isize_max) \<longrightarrow>
      receive_all (server_reads pr' (basic_dispatcher pr' contents upper) k) reads sv =
        Some (Ok (), sv\<lparr>sv_app := (sv_app sv)\<lparr>ba_printed := ba_printed (sv_app sv) @
          [ascii ''Recvd message: Hello!'',
           ascii ''Recvd fd '' @ show_i32 q1 @ ascii '' with data: pipe!'',
           ascii ''Received 2 fds'',
           ascii ''fd '' @ show_i32 q2 @ ascii '' with data: o kurwa'',
           ascii ''fd '' @ show_i32 q3 @ ascii '' with data: bober!!'',
           ascii ''Got array message: \"Hello, via, array!\"'',
           ascii ''Got array message: \"\"'',
           ascii ''Got uint array message: \"69, 420, 1337\"'']\<rparr>\<rparr>))"
proof -
  have name: "od_name my_manager_v1 = ascii ''my_manager_v1''" by (simp add: my_manager_v1_def)
  then have "find_object_decl test_protocol_v1 (od_name my_manager_v1) = Some my_manager_v1"
    and "basic_handlers contents upper (od_name my_manager_v1) = basic_manager contents"
    by (simp_all only: test_protocol_decls basic_handlers_def if_True refl)
  note facts = this
  have same: "list_all2 same_call (basic_client_calls p1 p2 p3) (basic_client_calls q1 q2 q3)"
    and fds: "concat (map call_fds (basic_client_calls q1 q2 q3)) = [q1, q2, q3]"
    by (simp_all add: basic_client_calls_def same_call_def call_fds_def)
  obtain cl' where cl': "run_client pr (client_calls r my_manager_v1 (basic_client_calls p1 p2 p3)) cl = Some (Ok (), cl')"
    and reads: "\<forall>reads. concat reads = deliver_fds (sent (cl_conn cl) (cl_conn cl')) [q1, q2, q3] \<longrightarrow>
      (\<forall>ms \<in> set reads. length (stream_data ms) \<le> isize_max) \<longrightarrow>
      receive_all (server_reads pr' (basic_dispatcher pr' contents upper) k) reads sv =
        receive_all (on_call (basic_manager contents) t) (basic_client_calls q1 q2 q3) sv"
    unfolding basic_dispatcher_def
    by (rule calls_delivered[OF client server(1) facts(1) client_calls_plain[OF pipes] client_calls_plain[OF received] same,
        of pr pr' "basic_handlers contents upper", unfolded facts(2) fds])
  have "t < length (sv_objects sv)" using server(1) by (simp add: serves_def)
  note prints = basic_prints_calls[OF this server(2), of contents "basic_client_calls q1 q2 q3",
      unfolded basic_client_lines[OF contents] basic_print_def]
  show ?thesis by (intro exI conjI, rule cl', rule reads[unfolded prints])
qed

definition example_piped :: "i32 \<Rightarrow> bytes option" where
  "example_piped fd =
     (if fd = 9 then Some (ascii ''pipe!'') else if fd = 10 then Some (ascii ''o kurwa'')
      else if fd = 12 then Some (ascii ''bober!!'') else None)"

definition example_basic_client :: "object_decl \<Rightarrow> (gen_data, unit) client" where
  "example_basic_client decl = \<lparr>cl_impls = [generate_spec test_protocol_v1], cl_specs = [], cl_objects = [0],
     cl_heap = [(fresh_object (generate_object_spec decl) (pt_name test_protocol_v1) 1 1 0 1)\<lparr>co_id := 1\<rparr>],
     cl_handshake_done = True, cl_seq = 1, cl_conn = conn_new, cl_queues = [event_queue_new], cl_locked = False,
     cl_alive = True, cl_app = ()\<rparr>"

definition example_basic_server :: "object_decl \<Rightarrow> basic_app \<Rightarrow> (gen_data, basic_app) server" where
  "example_basic_server decl app = \<lparr>sv_impls = [\<lparr>im_spec = generate_spec test_protocol_v1, im_objects = []\<rparr>],
     sv_objects = [\<lparr>so_client = 0, so_spec = Some (generate_object_spec decl), so_destroyed = False,
       so_data = Some \<lparr>gd_object = 0, gd_name = od_name decl\<rparr>, so_reading = False, so_id = 1, so_version = 1,
       so_seq = 1, so_protocol_name = pt_name test_protocol_v1\<rparr>],
     sv_client_heap = [(server_client_new 1 None)\<lparr>sc_objects := [0], sc_max_id := 2\<rparr>], sv_clients = [0],
     sv_listener = False, sv_next_client_id = 2, sv_app = app\<rparr>"

lemma example_basic_states:
  "serves 0 0 1 decl (example_basic_server decl app)" "0 < length (cl_heap (example_basic_client decl))"
  "co_spec (cl_heap (example_basic_client decl) ! 0) = Some (generate_object_spec decl)"
  "co_id (cl_heap (example_basic_client decl) ! 0) = 1" "c_out (cl_conn (example_basic_client decl)) = []"
  "\<not> so_reading (sv_objects (example_basic_server decl app) ! 0)"
proof -
  have "server_inv (example_basic_server decl app)"
    by (simp add: server_inv_def views_ok_def objects_view_def clients_view_def client_ok_def ids_of_def count_ids_def
        example_basic_server_def server_client_new_def)
  then show "serves 0 0 1 decl (example_basic_server decl app)"
    by (simp add: serves_def find_object_def example_basic_server_def server_client_new_def)
qed (simp_all add: example_basic_client_def example_basic_server_def fresh_object_def conn_new_def)

lemma varint_small: "n < 128 \<Longrightarrow> encode_var_int n var_int_buf = Ok [of_nat n]"
  by (subst encode_var_int_varint) (simp_all add: usize_bound_def varint.simps var_int_buf_def)

text \<open>The bytes of these calls.\<close>

lemma basic_wire_calls:
  fixes ns
  defines "call \<equiv> wire_call False (method_specs (od_c2s my_manager_v1)) 1 1 ns"
    and "head \<equiv> (\<lambda>i. [100, 34, 1, 0, 0, 0, 16, i, 0, 0, 0])"
  shows
  "call 0 [ArgVarchar (ascii ''Hello!'')] = Ok (CallMessage False 0 (head 0 @ 32 # 6 # ascii ''Hello!'' @ [0]) [])"
  "call 1 [ArgFd 5] = Ok (CallMessage False 0 (head 1 @ [64, 0]) [5])"
  "call 2 [ArgFdArray [6, 7]] = Ok (CallMessage False 0 (head 2 @ [33, 64, 2, 0]) [6, 7])"
  "call 3 [ArgVarcharArray [ascii ''Hello'', ascii ''via'', ascii ''array!'']] = Ok (CallMessage False 0
     (head 3 @ 33 # 32 # 3 # 5 # ascii ''Hello'' @ 3 # ascii ''via'' @ 6 # ascii ''array!'' @ [0]) [])"
  "call 3 [ArgVarcharArray []] = Ok (CallMessage False 0 (head 3 @ [33, 32, 0, 0]) [])"
  "call 4 [ArgUintArray [69, 420, 1337]] =
     Ok (CallMessage False 0 (head 4 @ [33, 16, 3, 69, 0, 0, 0, 164, 1, 0, 0, 57, 5, 0, 0, 0]) [])"
  by (simp_all add: call_def head_def wire_call_def method_specs_nth write_method_spec_def my_manager_v1_def message_method_def
      message_arg_def send_message_c2s_def Let_def to_le_bytes_def magic_try_from_def words_bytes_def varint_small)

lemma basic_client_sends:
  assumes "cl_heap cl = cl_heap (example_basic_client my_manager_v1)" and "unat i < 5"
    and "wire_call False (method_specs (od_c2s my_manager_v1)) 1 1 (if cl_alive cl then Some (cl_seq cl + 1) else None) i
      (build_call_args (md_args (od_c2s my_manager_v1 ! unat i)) vs) = Ok (CallMessage False 0 data fds)"
  shows "run_client pr (client_send 0 i (od_c2s my_manager_v1 ! unat i) vs k) cl =
    run_client pr (k None) (upd_cconn (send_message (MGeneric (generic_message_new data fds))) cl)"
proof -
  have "unat i \<in> {0, 1, 2, 3, 4}" using assms(2) by auto
  then have "md_returns (od_c2s my_manager_v1 ! unat i) = None" "\<not> md_destructor (od_c2s my_manager_v1 ! unat i)"
    "returns_type (method_specs (od_c2s my_manager_v1) ! unat i) = []"
    by (auto simp: my_manager_v1_def message_method_def send_message_c2s_def method_specs_nth write_method_spec_def)
  then show ?thesis
    by (intro client_sends_message)
      (use assms(1,3) in \<open>simp_all add: example_basic_client_def fresh_object_def client_methods_out_def generate_object_spec_def\<close>)
qed

lemma basic_client_sends_all:
  assumes "list_all2 (\<lambda>c d. unat (fst c) < 5 \<and> (\<forall>ns. wire_call False (method_specs (od_c2s my_manager_v1)) 1 1 ns (fst c)
      (build_call_args (md_args (od_c2s my_manager_v1 ! unat (fst c))) (snd c)) = Ok (CallMessage False 0 (fst d) (snd d)))) cs ds"
    and "cl_heap cl = cl_heap (example_basic_client my_manager_v1)"
  shows "\<exists>cl'. run_client pr (client_calls 0 my_manager_v1 cs) cl = Some (Ok (), cl') \<and>
    c_out (cl_conn cl') = c_out (cl_conn cl) @ map (\<lambda>d. MGeneric (generic_message_new (fst d) (snd d))) ds"
  using assms
proof (induction cs ds arbitrary: cl rule: list_all2_induct)
  case (Cons c cs d ds)
  let ?cl = "upd_cconn (send_message (MGeneric (generic_message_new (fst d) (snd d)))) cl"
  have "run_client pr (client_calls 0 my_manager_v1 (c # cs)) cl = run_client pr (client_calls 0 my_manager_v1 cs) ?cl"
    unfolding client_calls.simps using Cons.hyps(1) by (intro basic_client_sends[OF Cons.prems]) simp_all
  moreover have "cl_heap ?cl = cl_heap (example_basic_client my_manager_v1)" using Cons.prems by simp
  ultimately show ?case using Cons.IH[of ?cl] by auto
qed simp

lemma basic_calls_sent:
  "\<exists>cl'. run_client pr (client_calls 0 my_manager_v1 (basic_client_calls 5 6 7)) (example_basic_client my_manager_v1) = Some (Ok (), cl') \<and>
     length (stream_data (sent (cl_conn (example_basic_client my_manager_v1)) (cl_conn cl'))) \<le> isize_max"
proof -
  have args: "build_call_args (md_args (od_c2s my_manager_v1 ! 0)) [VString s] = [ArgVarchar s]"
    "build_call_args (md_args (od_c2s my_manager_v1 ! Suc 0)) [VFd fd] = [ArgFd fd]"
    "build_call_args (md_args (od_c2s my_manager_v1 ! 2)) [VFds fds] = [ArgFdArray fds]"
    "build_call_args (md_args (od_c2s my_manager_v1 ! 3)) [VStrings ss] = [ArgVarcharArray ss]"
    "build_call_args (md_args (od_c2s my_manager_v1 ! 4)) [VUints ws] = [ArgUintArray ws]" for s fd fds ss ws
    by (simp_all add: build_call_args_def my_manager_v1_def message_method_def message_arg_def send_message_c2s_def)
  let ?head = "\<lambda>i. [100, 34, 1, 0, 0, 0, 16, i, 0, 0, 0] :: bytes"
  let ?ds = "[(?head 0 @ 32 # 6 # ascii ''Hello!'' @ [0], []), (?head 1 @ [64, 0], [5]), (?head 2 @ [33, 64, 2, 0], [6, 7]),
      (?head 3 @ 33 # 32 # 3 # 5 # ascii ''Hello'' @ 3 # ascii ''via'' @ 6 # ascii ''array!'' @ [0], []),
      (?head 3 @ [33, 32, 0, 0], []), (?head 4 @ [33, 16, 3, 69, 0, 0, 0, 164, 1, 0, 0, 57, 5, 0, 0, 0], [])] :: (bytes \<times> i32 list) list"
  have "list_all2 (\<lambda>c d. unat (fst c) < 5 \<and> (\<forall>ns. wire_call False (method_specs (od_c2s my_manager_v1)) 1 1 ns (fst c)
      (build_call_args (md_args (od_c2s my_manager_v1 ! unat (fst c))) (snd c)) = Ok (CallMessage False 0 (fst d) (snd d))))
      (basic_client_calls 5 6 7) ?ds"
    using basic_wire_calls by (simp add: basic_client_calls_def args del: ascii_Cons)
  from basic_client_sends_all[OF this refl, of pr] show ?thesis
    by (auto simp: sent_def example_basic_states stream_data_def generic_message_new_def isize_max_def)
qed

text \<open>The pipes are 5, 6 and 7 in the client, 9, 10 and 12 in the server.\<close>

theorem basic_prints_witness:
  "\<exists>cl'. run_client Debug (client_calls 0 my_manager_v1 (basic_client_calls 5 6 7))
       (example_basic_client my_manager_v1) = Some (Ok (), cl') \<and>
     map_option (ba_printed \<circ> sv_app \<circ> snd) (receive_all
         (server_reads Release (basic_dispatcher Release example_piped id) 0)
         [deliver_fds (sent (cl_conn (example_basic_client my_manager_v1)) (cl_conn cl')) [9, 10, 12]]
         (example_basic_server my_manager_v1 basic_app_default)) =
       Some [ascii ''Recvd message: Hello!'', ascii ''Recvd fd '' @ show_i32 9 @ ascii '' with data: pipe!'', ascii ''Received 2 fds'',
         ascii ''fd '' @ show_i32 10 @ ascii '' with data: o kurwa'', ascii ''fd '' @ show_i32 12 @ ascii '' with data: bober!!'',
         ascii ''Got array message: \"Hello, via, array!\"'', ascii ''Got array message: \"\"'',
         ascii ''Got uint array message: \"69, 420, 1337\"'']"
proof -
  let ?cl = "example_basic_client my_manager_v1" and ?sv = "example_basic_server my_manager_v1 basic_app_default"
  obtain cl1 where cl1: "run_client Debug (client_calls 0 my_manager_v1 (basic_client_calls 5 6 7)) ?cl = Some (Ok (), cl1)"
    and len: "length (stream_data (sent (cl_conn ?cl) (cl_conn cl1))) \<le> isize_max"
    using basic_calls_sent by blast
  have pipes: "(5 :: i32) \<noteq> - 1" "(6 :: i32) \<noteq> - 1" "(7 :: i32) \<noteq> - 1" "(9 :: i32) \<noteq> - 1" "(10 :: i32) \<noteq> - 1" "(12 :: i32) \<noteq> - 1"
    by simp_all
  have contents: "example_piped 9 = Some (ascii ''pipe!'')" "example_piped 10 = Some (ascii ''o kurwa'')"
    "example_piped 12 = Some (ascii ''bober!!'')" by (simp_all add: example_piped_def del: ascii_Cons)
  obtain cl' where cl': "run_client Debug (client_calls 0 my_manager_v1 (basic_client_calls 5 6 7)) ?cl = Some (Ok (), cl')"
    and reads: "\<forall>reads. concat reads = deliver_fds (sent (cl_conn ?cl) (cl_conn cl')) [9, 10, 12] \<longrightarrow>
      (\<forall>ms \<in> set reads. length (stream_data ms) \<le> isize_max) \<longrightarrow>
      receive_all (server_reads Release (basic_dispatcher Release example_piped id) 0) reads ?sv =
        Some (Ok (), ?sv\<lparr>sv_app := (sv_app ?sv)\<lparr>ba_printed := ba_printed (sv_app ?sv) @
          [ascii ''Recvd message: Hello!'', ascii ''Recvd fd '' @ show_i32 9 @ ascii '' with data: pipe!'', ascii ''Received 2 fds'',
           ascii ''fd '' @ show_i32 10 @ ascii '' with data: o kurwa'', ascii ''fd '' @ show_i32 12 @ ascii '' with data: bober!!'',
           ascii ''Got array message: \"Hello, via, array!\"'', ascii ''Got array message: \"\"'',
           ascii ''Got uint array message: \"69, 420, 1337\"'']\<rparr>\<rparr>)"
    using basic_prints[OF example_basic_states(2,3,4) one_neq_zero example_basic_states(1,6) pipes contents,
      of Debug Release id basic_app_default] by blast
  have "cl' = cl1" using cl' cl1 by simp
  with len have "length (stream_data (deliver_fds (sent (cl_conn ?cl) (cl_conn cl')) [9, 10, 12])) \<le> isize_max"
    by (simp add: stream_data_delivered)
  with reads[rule_format, of "[deliver_fds (sent (cl_conn ?cl) (cl_conn cl')) [9, 10, 12]]"] cl' show ?thesis
    by (simp add: basic_app_default_def example_basic_server_def del: ascii_Cons)
qed

end
