(* ===== verification/Example_Ends.thy ===== *)
theory Example_Ends
  imports Example_Basic
begin

text \<open>
  How the example \<open>basic\<close> begins and ends: its server binds the manager, if it knows the credentials of the client; and
  an enum sent on an object ends the connection on both sides.
\<close>

section \<open>Sending from the server\<close>

lemma run_RaiseError:
  "r < length (sv_objects w) \<Longrightarrow> server_error r i msg w = Ok w' \<Longrightarrow> run (RaiseError r i msg k) w = run k w'"
  by (subst run.simps) simp

lemma run_GetApp: "run (GetApp k) w = run (k (sv_app w)) w"
  by (subst run.simps) simp

lemma run_GetClient: "r < length (sv_objects w) \<Longrightarrow> run (GetClient r k) w = run (k (object_client r w)) w"
  by (subst run.simps) simp

lemma run_ReadCreds:
  "c < length (sv_client_heap w) \<Longrightarrow> run (ReadCreds c k) w =
     (case sc_creds (sv_client_heap w ! c) of None \<Rightarrow> Some (Panic, w) | Some cred \<Rightarrow> run (k cred) w)"
  by (subst run.simps) (simp add: creds_def split: option.split)

lemma server_sends_plain:
  fixes w :: "(gen_data, 'd) server" and r :: nat
  defines "obj \<equiv> sv_objects w ! r"
  assumes r: "r < length (sv_objects w)" "\<not> so_destroyed obj" "so_spec obj = Some (generate_object_spec decl)"
    and m: "unat i < length (od_s2c decl)" "od_s2c decl ! unat i = m" "args_fit (md_args m) vs" "md_returns m = None"
      "\<not> md_destructor m"
  obtains data where "run (server_send r i m vs k) w =
      run k (upd_conn (so_client obj) (send_message (MGeneric (generic_message_new data (concat (map value_fds vs))))) w)"
    "arrives data (concat (map value_fds vs)) (so_id obj) i (reads_call m 0 vs)"
    "\<forall>pr. generic_sendable pr (generic_message_new data (concat (map value_fds vs)))"
    "wire_call True (method_specs (od_s2c decl)) (so_id obj) (so_version obj) None i (build_call_args (md_args m) vs) =
      Ok (CallMessage False 0 data (concat (map value_fds vs)))"
proof -
  have out: "server_methods_out obj = method_specs (od_s2c decl)"
    by (simp add: server_methods_out_def r(3) generate_object_spec_def)
  have seq: "call_seq (write_method_spec (unat i) (od_s2c decl ! unat i)) None = 0" by (simp add: call_seq_def)
  have "md_returns (od_s2c decl ! unat i) \<noteq> Some []" "md_returns (od_s2c decl ! unat i) = None"
    using m by simp_all
  from generated_message[OF m(1) m(3)[folded m(2)] this, of True "so_id obj" "so_version obj" None] m(2,5)
  obtain data where call: "wire_call True (method_specs (od_s2c decl)) (so_id obj) (so_version obj) None i
      (build_call_args (md_args m) vs) = Ok (CallMessage False 0 data (concat (map value_fds vs)))"
    and arrives: "arrives data (concat (map value_fds vs)) (so_id obj) i (reads_call m 0 vs)"
    and sendable: "\<And>pr. generic_sendable pr (generic_message_new data (concat (map value_fds vs)))"
    unfolding seq by auto
  have "server_call r i (build_call_args (md_args m) vs) w =
      Ok (0, upd_conn (so_client obj) (send_message (MGeneric (generic_message_new data (concat (map value_fds vs))))) w)"
    using r(2) call by (simp add: server_call_def out Let_def flip: obj_def)
  with r(1) have "run (server_send r i m vs k) w =
      run k (upd_conn (so_client obj) (send_message (MGeneric (generic_message_new data (concat (map value_fds vs))))) w)"
    unfolding server_send_def by (subst run.simps) simp
  then show thesis using arrives sendable call that by blast
qed

lemma sent_then: "sent c c' = m # ms \<Longrightarrow> sent c (send_message g c') = m # ms @ [g]"
proof -
  assume "sent c c' = m # ms"
  then have "length (c_out c) < length (c_out c')" by (metis drop_eq_Nil2 leI list.distinct(1) sent_def)
  with \<open>sent c c' = m # ms\<close> show ?thesis by (simp add: sent_def)
qed

section \<open>Binding the manager\<close>

text \<open>C33: The server of the example binds a manager if it knows its client's credentials: when it reads a request to bind
  the protocol, it creates the object; if the credentials are known, it prints the process id and a line, greets the
  client on the object and keeps it; if they are not, which is so for a client that binds before it says
  hello, \<open>creds()\<close> panics and takes the server down.\<close>
theorem basic_bind_outcome:
  fixes sv :: "(gen_data, basic_app) server" and k :: nat
  defines "c \<equiv> sv_client_heap sv ! k" and "r \<equiv> length (sv_objects sv)"
  assumes impl: "find_impl (sv_impls sv) (pt_name test_protocol_v1) = Some im"
      "generate_server test_protocol_v1 (basic_bind show_pid) = Ok im"
    and m: "bind_protocol_new (pt_name test_protocol_v1) s version = Ok m" "version \<noteq> 0"
    and k: "k < length (sv_client_heap sv)" "sc_alive c"
  shows "(case sc_creds c of
      None \<Rightarrow> (\<exists>w. server_reads pr disp k [MBindProtocol m] sv = Some (Panic, w))
    | Some cred \<Rightarrow> (\<exists>w data. server_reads pr disp k [MBindProtocol m] sv = Some (Ok (), w) \<and>
        sv_app w = (basic_print [show_pid (cred_pid cred), ascii ''Object bound XD''] (sv_app sv))\<lparr>ba_manager := Some r\<rparr> \<and>
        sent (conn_at k sv) (conn_at k w) =
          [MNewObject (new_object_new s (sc_max_id c)), MGeneric (generic_message_new data [])] \<and>
        arrives data [] (sc_max_id c) 0 (reads_call send_message_s2c 0 [VString (ascii ''Hello manager'')])))"
proof -
  have name: "utf8_valid (pt_name test_protocol_v1)" "length (pt_name test_protocol_v1) \<le> 2 ^ 62"
    by (simp_all add: test_protocol_v1_def)
  have objs: "pt_objects test_protocol_v1 = [my_manager_v1, my_object_v1]" by (simp add: test_protocol_v1_def)
  obtain sv1 where reads: "server_reads pr disp k [MBindProtocol m] sv = run (basic_bind show_pid r) sv1"
    and sent: "sent (conn_at k sv) (conn_at k sv1) = [MNewObject (new_object_new s (sc_max_id c))]"
    and objects: "sv_objects sv1 = sv_objects sv @ [\<lparr>so_client = k, so_spec = Some (generate_object_spec my_manager_v1),
      so_destroyed = False, so_data = Some \<lparr>gd_object = r, gd_name = od_name my_manager_v1\<rparr>, so_reading = False,
      so_id = sc_max_id c, so_version = version, so_seq = s, so_protocol_name = pt_name test_protocol_v1\<rparr>]"
    and heap: "length (sv_client_heap sv1) = length (sv_client_heap sv)" "sv_app sv1 = sv_app sv"
      "sc_creds (sv_client_heap sv1 ! k) = sc_creds c" "sc_alive (sv_client_heap sv1 ! k)"
    using generated_binds[OF impl objs m(1) name m(2) k(1), of pr disp] k(2) unfolding c_def r_def by metis
  have new: "r < length (sv_objects sv1)" "sv_objects sv1 ! r = \<lparr>so_client = k, so_spec = Some (generate_object_spec my_manager_v1),
      so_destroyed = False, so_data = Some \<lparr>gd_object = r, gd_name = od_name my_manager_v1\<rparr>, so_reading = False,
      so_id = sc_max_id c, so_version = version, so_seq = s, so_protocol_name = pt_name test_protocol_v1\<rparr>"
    by (simp_all add: objects r_def)
  have "object_client r sv1 = Some \<lparr>ch_id = sc_id (sv_client_heap sv1 ! k), ch_creds = k\<rparr>"
    using heap(4) new(2) by (simp add: object_client_def)
  then have bind: "run (basic_bind show_pid r) sv1 = (case sc_creds c of None \<Rightarrow> Some (Panic, sv1) | Some cred \<Rightarrow>
      run (server_send r 0 send_message_s2c [VString (ascii ''Hello manager'')]
        (GetApp (\<lambda>app. SetApp (app\<lparr>ba_manager := Some r\<rparr>) Finish)))
      (sv1\<lparr>sv_app := basic_print [show_pid (cred_pid cred), ascii ''Object bound XD''] (sv_app sv)\<rparr>))"
    using new(1) heap k(1)
    by (simp add: basic_bind_def run_GetClient run_ReadCreds run_GetApp run_SetApp basic_print_def split: option.split)
  show ?thesis
  proof (cases "sc_creds c")
    case None
    with reads bind show ?thesis by simp
  next
    case (Some cred)
    let ?w = "sv1\<lparr>sv_app := basic_print [show_pid (cred_pid cred), ascii ''Object bound XD''] (sv_app sv)\<rparr>"
    have hello: "unat (0 :: u32) < length (od_s2c my_manager_v1)" "od_s2c my_manager_v1 ! unat (0 :: u32) = send_message_s2c"
      "args_fit (md_args send_message_s2c) [VString (ascii ''Hello manager'')]" "md_returns send_message_s2c = None"
      "\<not> md_destructor send_message_s2c"
      by (simp_all add: my_manager_v1_def send_message_s2c_def message_method_def message_arg_def isize_max_def)
    have obj: "sv_objects ?w ! r = sv_objects sv1 ! r" by simp
    obtain data where send: "run (server_send r 0 send_message_s2c [VString (ascii ''Hello manager'')]
        (GetApp (\<lambda>app. SetApp (app\<lparr>ba_manager := Some r\<rparr>) Finish))) ?w =
      run (GetApp (\<lambda>app. SetApp (app\<lparr>ba_manager := Some r\<rparr>) Finish))
        (upd_conn k (send_message (MGeneric (generic_message_new data []))) ?w)"
      and arrives: "arrives data [] (sc_max_id c) 0 (reads_call send_message_s2c 0 [VString (ascii ''Hello manager'')])"
      using server_sends_plain[of r ?w my_manager_v1 0 send_message_s2c "[VString (ascii ''Hello manager'')]"
          "GetApp (\<lambda>app. SetApp (app\<lparr>ba_manager := Some r\<rparr>) Finish)", OF _ _ _ hello] new by auto
    have "conn_at k (upd_conn k (send_message (MGeneric (generic_message_new data []))) ?w) =
        send_message (MGeneric (generic_message_new data [])) (conn_at k sv1)"
      using heap(1) k(1) by (simp add: conn_at_def upd_conn_def upd_client_def)
    from sent_then[OF sent, of "MGeneric (generic_message_new data [])"] this
    have "sent (conn_at k sv) (conn_at k (upd_conn k (send_message (MGeneric (generic_message_new data []))) ?w)) =
        [MNewObject (new_object_new s (sc_max_id c)), MGeneric (generic_message_new data [])]" by simp
    moreover have "server_reads pr disp k [MBindProtocol m] sv = Some (Ok (),
        (upd_conn k (send_message (MGeneric (generic_message_new data []))) ?w)
          \<lparr>sv_app := (basic_print [show_pid (cred_pid cred), ascii ''Object bound XD''] (sv_app sv))\<lparr>ba_manager := Some r\<rparr>\<rparr>)"
      using reads bind Some send by (simp add: run_GetApp run_SetApp upd_conn_def upd_client_def)
    moreover have "conn_at k (w\<lparr>sv_app := d\<rparr>) = conn_at k w" for w :: "(gen_data, basic_app) server" and d
      by (simp add: conn_at_def)
    ultimately show ?thesis using Some arrives by (simp del: ascii_Cons) blast
  qed
qed

definition example_basic_impl :: "(gen_data, basic_app) server_impl" where
  "example_basic_impl = \<lparr>im_spec = generate_spec test_protocol_v1,
     im_objects = [(ascii ''my_manager_v1'', \<lambda>r. write_new_fn (ascii ''my_manager_v1'') r (basic_bind show_i32 r)),
       (ascii ''my_object_v1'', \<lambda>_. Finish)]\<rparr>"

definition example_unbound :: "ucred option \<Rightarrow> (gen_data, basic_app) server" where
  "example_unbound cred = \<lparr>sv_impls = [example_basic_impl], sv_objects = [],
     sv_client_heap = [(server_client_new 1 None)\<lparr>sc_creds := cred\<rparr>], sv_clients = [0], sv_listener = False,
     sv_next_client_id = 2, sv_app = basic_app_default\<rparr>"

text \<open>A client that has not said hello, and one that has.\<close>

theorem basic_bind_outcome_witness:
  "\<exists>m. bind_protocol_new (ascii ''test_protocol_v1'') 7 1 = Ok m \<and>
     (\<exists>w. server_reads Debug (basic_dispatcher Debug example_piped id) 0 [MBindProtocol m] (example_unbound None) = Some (Panic, w)) \<and>
     (\<exists>w. server_reads Debug (basic_dispatcher Debug example_piped id) 0 [MBindProtocol m]
         (example_unbound (Some \<lparr>cred_pid = 42, cred_uid = 0, cred_gid = 0\<rparr>)) = Some (Ok (), w) \<and>
       ba_printed (sv_app w) = [ascii ''42'', ascii ''Object bound XD''] \<and> ba_manager (sv_app w) = Some 0)"
proof -
  have name: "pt_name test_protocol_v1 = ascii ''test_protocol_v1''" by (simp add: test_protocol_v1_def del: ascii_Cons)
  obtain m where m: "bind_protocol_new (ascii ''test_protocol_v1'') 7 1 = Ok m"
    by (simp add: bind_protocol_new_def usize_bound_def)
  have impl: "find_impl (sv_impls (example_unbound cred)) (pt_name test_protocol_v1) = Some example_basic_impl"
    "generate_server test_protocol_v1 (basic_bind show_i32) = Ok example_basic_impl" for cred
    by (simp_all add: find_impl_def example_unbound_def example_basic_impl_def generate_spec_def generate_server_def
        test_protocol_v1_def my_manager_v1_def my_object_v1_def del: ascii_Cons)
  have state: "0 < length (sv_client_heap (example_unbound cred))" "sc_alive (sv_client_heap (example_unbound cred) ! 0)"
    "sc_creds (sv_client_heap (example_unbound cred) ! 0) = cred" "length (sv_objects (example_unbound cred)) = 0"
    "sv_app (example_unbound cred) = basic_app_default" for cred
    by (simp_all add: example_unbound_def server_client_new_def)
  have pid: "show_i32 42 = ascii ''42''" by code_simp
  note outcome = basic_bind_outcome[OF impl m[folded name] _ state(1,2), of Debug "basic_dispatcher Debug example_piped id",
      unfolded state]
  from outcome[of None] have "\<exists>w. server_reads Debug (basic_dispatcher Debug example_piped id) 0 [MBindProtocol m]
      (example_unbound None) = Some (Panic, w)" by simp
  moreover have "\<exists>w. server_reads Debug (basic_dispatcher Debug example_piped id) 0 [MBindProtocol m]
      (example_unbound (Some \<lparr>cred_pid = 42, cred_uid = 0, cred_gid = 0\<rparr>)) = Some (Ok (), w) \<and>
       ba_printed (sv_app w) = [ascii ''42'', ascii ''Object bound XD''] \<and> ba_manager (sv_app w) = Some 0"
    using outcome[of "Some \<lparr>cred_pid = 42, cred_uid = 0, cred_gid = 0\<rparr>"]
    by (auto simp: basic_print_def basic_app_default_def pid simp del: ascii_Cons)
  ultimately show ?thesis using m by blast
qed

section \<open>An enum on an object\<close>

text \<open>A handler that stores a state and raises an error on the object of the call.\<close>

lemma error_call:
  fixes w :: "(gen_data, 'd) server" and t k :: nat
  defines "obj \<equiv> sv_objects w ! t"
  assumes t: "t < length (sv_objects w)" "\<not> so_destroyed obj" and k: "so_client obj = k" "k < length (sv_client_heap w)"
    and handler: "handler \<lparr>ge_object = t, ge_method = fst c, ge_returned = None, ge_seq = None, ge_args = snd c\<rparr> (sv_app w) =
      SetApp app (RaiseError t code msg Finish)"
    and f: "fatal_protocol_error_new (so_id obj) code msg = Ok f"
  obtains w' where "on_call handler t c w = Some (Ok (), w')" "sv_app w' = app"
    "conn_at k w' = set_error (send_message (MFatal f) (conn_at k w))"
proof -
  let ?w = "(upd_object t (\<lambda>obj. obj\<lparr>so_reading := True\<rparr>) w)\<lparr>sv_app := app\<rparr>"
  let ?w1 = "upd_conn k (set_error \<circ> send_message (MFatal f)) ?w"
  have "sv_objects ?w ! t = obj\<lparr>so_reading := True\<rparr>" using t(1) by (simp add: upd_object_def obj_def)
  then have "server_error t code msg ?w = Ok ?w1"
    using t(2) f k(1) by (simp add: server_error_def Let_def)
  moreover have "t < length (sv_objects ?w)" using t(1) by simp
  ultimately have "on_call handler t c w = Some (Ok (), upd_object t (\<lambda>obj. obj\<lparr>so_reading := False\<rparr>) ?w1)"
    by (simp add: on_call_def handler run_SetApp run_RaiseError upd_object_def[of t _ w])
  moreover have "conn_at k (upd_object t (\<lambda>obj. obj\<lparr>so_reading := False\<rparr>) ?w1) = set_error (send_message (MFatal f) (conn_at k w))"
    using k(2) by (simp add: conn_at_def upd_conn_def upd_client_def upd_object_def)
  moreover have "sv_app (upd_object t (\<lambda>obj. obj\<lparr>so_reading := False\<rparr>) ?w1) = app"
    by (simp add: upd_object_def upd_conn_def upd_client_def)
  ultimately show thesis using that by blast
qed

text \<open>Errors with a short message can be sent.\<close>

lemma client_reads_fatal:
  assumes f: "fatal_protocol_error_new i code msg = Ok f" and msg: "utf8_valid msg" "length msg \<le> 1000"
  shows "client_reads pr disp q [MFatal f] w = Some (Ok (), upd_cconn set_error w)"
proof -
  have fields: "fatal_object_id f = i" "fatal_error_id f = code" "fatal_error_msg f = msg"
    using f by (auto simp: fatal_protocol_error_new_def bind_res_eq_Ok)
  then have "fatal_built f" using f msg by (simp add: fatal_built_def isize_max_def)
  moreover have "length (fatal_data f) \<le> isize_max"
    using f msg(2) varint_length_10[of "length msg"]
    by (auto simp: fatal_protocol_error_new_def fatal_bytes_def bind_res_eq_Ok encode_var_int_varint usize_bound_def
        isize_max_def split: if_splits)
  ultimately show ?thesis by (subst client_reads_one) (simp_all add: client_receive_def)
qed

text \<open>\<open>"Important error occurred!"\<close>.\<close>

definition important :: str where
  "important = ascii ''Important error occurred!''"

lemma important_msg: "utf8_valid important" "length important \<le> 1000" "length important < usize_bound"
  by (simp_all add: important_def usize_bound_def)

text \<open>An enum ends the connection: when a client of the example sends a value of the enum on an object, the server
  prints its name, sends a fatal error with the code of an important error and the object's id, and marks the connection as
  broken; and the client, reading the error, marks its own.\<close>
theorem basic_enum_ends:
  fixes cl :: "(gen_data, 'e) client" and sv :: "(gen_data, basic_app) server" and t r k :: nat and n :: u32
  assumes client: "r < length (cl_heap cl)" "co_spec (cl_heap cl ! r) = Some (generate_object_spec my_object_v1)"
      "co_id (cl_heap cl ! r) = oid" "oid \<noteq> 0"
    and server: "serves k t oid my_object_v1 sv" "\<not> so_destroyed (sv_objects sv ! t)"
    and n: "debug_enum upper my_enum n = Some name"
  shows "\<exists>cl' m. run_client pr (client_calls r my_object_v1 [(1, [VEnum n])]) cl = Some (Ok (), cl') \<and>
    sent (cl_conn cl) (cl_conn cl') = [m] \<and>
    (length (message_data m) \<le> isize_max \<longrightarrow>
      (\<exists>sv' f cl''. server_reads pr' (basic_dispatcher pr' contents upper) k [m] sv = Some (Ok (), sv') \<and>
        ba_printed (sv_app sv') = ba_printed (sv_app sv) @ [ascii ''Object sent enum: '' @ name, ascii ''Erroring out the client!''] \<and>
        sent (conn_at k sv) (conn_at k sv') = [MFatal f] \<and> c_error (conn_at k sv') \<and>
        fatal_protocol_error_new oid error_important important = Ok f \<and>
        client_reads pr cdisp q [MFatal f] cl' = Some (Ok (), cl'') \<and> c_error (cl_conn cl'')))"
proof -
  have decl: "find_object_decl test_protocol_v1 (od_name my_object_v1) = Some my_object_v1"
    and handler: "basic_handlers contents upper (od_name my_object_v1) = basic_object upper"
    using test_protocol_decls(2) not_first by (simp_all add: my_object_v1_def basic_handlers_def del: ascii_Cons)
  have calls: "\<forall>c \<in> set [(1, [VEnum n])]. plain_call my_object_v1 c"
    by (simp add: plain_call_def my_object_v1_def message_method_def message_arg_def)
  obtain cl' where cl': "run_client pr (client_calls r my_object_v1 [(1, [VEnum n])]) cl = Some (Ok (), cl')"
    and one: "length (sent (cl_conn cl) (cl_conn cl')) = length [(1 :: u32, [VEnum n])]"
    and reads: "\<forall>reads. concat reads = sent (cl_conn cl) (cl_conn cl') \<longrightarrow>
      (\<forall>ms \<in> set reads. length (stream_data ms) \<le> isize_max) \<longrightarrow>
      receive_all (server_reads pr' (basic_dispatcher pr' contents upper) k) reads sv =
        receive_all (on_call (basic_object upper) t) [(1, [VEnum n])] sv"
    unfolding basic_dispatcher_def
    by (rule calls_arrive[OF client server(1) decl calls, of pr pr' "basic_handlers contents upper", unfolded handler])
  obtain m where m: "sent (cl_conn cl) (cl_conn cl') = [m]" using one by (auto simp: length_Suc_conv)
  have at: "t < length (sv_objects sv)" "k < length (sv_client_heap sv)" "so_id (sv_objects sv ! t) = oid"
      "so_client (sv_objects sv ! t) = k"
    using server(1) server_inv_table(2)[of sv k t] find_object_SomeD[of k oid sv t] by (simp_all add: serves_def)
  obtain f where f: "fatal_protocol_error_new oid error_important important = Ok f"
    using fatal_new_Ok[OF important_msg(3)] by blast
  let ?app = "basic_print [ascii ''Object sent enum: '' @ name, ascii ''Erroring out the client!''] (sv_app sv)"
  have "basic_object upper \<lparr>ge_object = t, ge_method = fst (1 :: u32, [VEnum n]), ge_returned = None, ge_seq = None,
      ge_args = snd (1 :: u32, [VEnum n])\<rparr> (sv_app sv) = SetApp ?app (RaiseError t error_important important Finish)"
    by (simp add: basic_object_def object_event_def n important_def)
  from error_call[where handler = "basic_object upper" and c = "(1, [VEnum n])" and f = f, OF at(1) server(2) at(4,2) this] f obtain sv' where sv':
    "on_call (basic_object upper) t (1, [VEnum n]) sv = Some (Ok (), sv')" "sv_app sv' = ?app"
    "conn_at k sv' = set_error (send_message (MFatal f) (conn_at k sv))"
    unfolding at(3) by blast
  have "server_reads pr' (basic_dispatcher pr' contents upper) k [m] sv = Some (Ok (), sv')"
    if "length (message_data m) \<le> isize_max"
    using reads[rule_format, of "[[m]]"] that m sv'(1) by (auto simp: bind_eff_Some)
  moreover have "client_reads pr cdisp q [MFatal f] cl' = Some (Ok (), upd_cconn set_error cl')"
    by (rule client_reads_fatal[OF f important_msg(1,2)])
  moreover have "ba_printed (sv_app sv') = ba_printed (sv_app sv) @
      [ascii ''Object sent enum: '' @ name, ascii ''Erroring out the client!'']"
    by (simp add: sv'(2) basic_print_def)
  moreover have "sent (conn_at k sv) (conn_at k sv') = [MFatal f]" "c_error (conn_at k sv')"
    by (simp_all add: sv'(3) sent_def set_error_def)
  moreover have "c_error (cl_conn (upd_cconn set_error cl'))" by (simp add: set_error_def)
  ultimately show ?thesis using cl' m f by blast
qed

theorem basic_enum_ends_witness:
  "\<exists>cl' m f sv' cl''. run_client Debug (client_calls 0 my_object_v1 [(1, [VEnum world])]) (example_basic_client my_object_v1) =
      Some (Ok (), cl') \<and>
    sent (cl_conn (example_basic_client my_object_v1)) (cl_conn cl') = [m] \<and>
    server_reads Debug (basic_dispatcher Debug example_piped (map upper_ascii)) 0 [m] (example_basic_server my_object_v1 basic_app_default) =
      Some (Ok (), sv') \<and>
    ba_printed (sv_app sv') = [ascii ''Object sent enum: World'', ascii ''Erroring out the client!''] \<and>
    fatal_protocol_error_new 1 1 important = Ok f \<and>
    client_reads Debug (\<lambda>_ _ _ _ _. CFinish) 0 [MFatal f] cl' = Some (Ok (), cl'') \<and> c_error (cl_conn cl'')"
proof -
  have n: "debug_enum (map upper_ascii) my_enum world = Some (ascii ''World'')" "error_important = 1" "world = 4"
    by code_simp+
  let ?g = "generic_message_new [100, 34, 1, 0, 0, 0, 16, 1, 0, 0, 0, 16, 4, 0, 0, 0, 0] []" and ?cl = "example_basic_client my_object_v1"
  have "run_client Debug (client_send 0 1 (od_c2s my_object_v1 ! 1) [VEnum 4] (\<lambda>_. CFinish)) ?cl =
      run_client Debug CFinish (upd_cconn (send_message (MGeneric ?g)) ?cl)"
    by (rule client_sends_message)
      (simp_all add: example_basic_client_def fresh_object_def client_methods_out_def generate_object_spec_def method_specs_nth
        wire_call_def write_method_spec_def my_object_v1_def message_method_def message_arg_def Let_def to_le_bytes_def
        magic_try_from_def build_call_args_def)
  then have run: "run_client Debug (client_calls 0 my_object_v1 [(1, [VEnum 4])]) ?cl =
      Some (Ok (), upd_cconn (send_message (MGeneric ?g)) ?cl)" by simp
  have "\<not> so_destroyed (sv_objects (example_basic_server my_object_v1 basic_app_default) ! 0)"
    by (simp add: example_basic_server_def)
  note ends = basic_enum_ends[OF example_basic_states(2,3,4) one_neq_zero example_basic_states(1) this n(1),
      of Debug Debug example_piped "\<lambda>_ _ _ _ _. CFinish" 0, unfolded n(2)]
  then obtain cl' m where cl': "run_client Debug (client_calls 0 my_object_v1 [(1, [VEnum world])]) (example_basic_client my_object_v1) =
      Some (Ok (), cl')" and m: "sent (cl_conn (example_basic_client my_object_v1)) (cl_conn cl') = [m]"
    and reads: "length (message_data m) \<le> isize_max \<longrightarrow> (\<exists>sv' f cl''.
        server_reads Debug (basic_dispatcher Debug example_piped (map upper_ascii)) 0 [m]
          (example_basic_server my_object_v1 basic_app_default) = Some (Ok (), sv') \<and>
        ba_printed (sv_app sv') = ba_printed (sv_app (example_basic_server my_object_v1 basic_app_default)) @
          [ascii ''Object sent enum: '' @ ascii ''World'', ascii ''Erroring out the client!''] \<and>
        fatal_protocol_error_new 1 1 important = Ok f \<and>
        client_reads Debug (\<lambda>_ _ _ _ _. CFinish) 0 [MFatal f] cl' = Some (Ok (), cl'') \<and> c_error (cl_conn cl''))"
    by blast
  have "length (message_data m) \<le> isize_max"
    using run cl' m by (auto simp: n(3) isize_max_def generic_message_new_def)
  moreover have "ba_printed (sv_app (example_basic_server my_object_v1 basic_app_default)) = []"
    by (simp add: example_basic_server_def basic_app_default_def)
  moreover have "ascii ''Object sent enum: '' @ ascii ''World'' = ascii ''Object sent enum: World''" by simp
  ultimately show ?thesis using cl' m reads by (simp del: ascii_Cons) blast
qed

end
