(* ===== verification/Example_Fork.thy ===== *)
theory Example_Fork
  imports Example_Ends
begin

text \<open>
  The example \<open>fork\<close>, \<open>hyprwire/examples/fork/main.rs\<close>: the applications of its two processes, and how they end each
  other. The client's handlers of \<open>basic\<close> and \<open>calloop\<close>, which only print, are here as well.
\<close>

section \<open>Events on the client\<close>

datatype manager_client_event = ClientSendMessage str | RecvMessageArrayUint "u32 list"

definition manager_client_event :: "gen_event \<Rightarrow> manager_client_event option" where
  "manager_client_event e =
     (if ge_method e = 0 then (case ge_args e of [VString message] \<Rightarrow> Some (ClientSendMessage message) | _ \<Rightarrow> None)
      else if ge_method e = 1 then (case ge_args e of [VUints message] \<Rightarrow> Some (RecvMessageArrayUint message) | _ \<Rightarrow> None)
      else None)"

definition object_client_event :: "gen_event \<Rightarrow> str option" where
  "object_client_event e =
     (if ge_method e = 0 then (case ge_args e of [VString message] \<Rightarrow> Some message | _ \<Rightarrow> None) else None)"

text \<open>What every client of the examples prints; the text of a vector is its elements in brackets.\<close>

definition manager_client_line :: "manager_client_event \<Rightarrow> str" where
  "manager_client_line ev =
     (case ev of
        ClientSendMessage message \<Rightarrow> ascii ''Server says '' @ message
      | RecvMessageArrayUint message \<Rightarrow>
          ascii ''Server sent uint array '' @ ascii ''['' @ join (map show_u32 message) @ ascii '']'')"

definition object_client_line :: "str \<Rightarrow> str" where
  "object_client_line message = ascii ''Server says on object '' @ message"

text \<open>The application of the clients of \<open>basic\<close> and \<open>calloop\<close> is empty but for what it prints.\<close>

definition basic_client_manager :: "gen_event \<Rightarrow> str list \<Rightarrow> (gen_data, str list) cprog" where
  "basic_client_manager e app =
     (case manager_client_event e of None \<Rightarrow> CFinish | Some ev \<Rightarrow> CSetApp (app @ [manager_client_line ev]) CFinish)"

definition basic_client_object :: "gen_event \<Rightarrow> str list \<Rightarrow> (gen_data, str list) cprog" where
  "basic_client_object e app =
     (case object_client_event e of None \<Rightarrow> CFinish | Some message \<Rightarrow> CSetApp (app @ [object_client_line message]) CFinish)"

section \<open>The server of fork\<close>

record fork_app =
  fa_quit :: bool
  fa_printed :: "str list"
  fa_manager :: "nat option"
  fa_objects :: "nat list"

definition fork_print :: "str list \<Rightarrow> fork_app \<Rightarrow> fork_app" where
  "fork_print ls app = app\<lparr>fa_printed := fa_printed app @ ls\<rparr>"

definition fork_made :: "nat \<Rightarrow> fork_app \<Rightarrow> (gen_data, fork_app) prog" where
  "fork_made my_object app =
     server_send my_object 0 send_message_s2c [VString (ascii ''Hello object'')]
       (SetApp (app\<lparr>fa_objects := fa_objects app @ [my_object]\<rparr>) Finish)"

definition fork_manager :: "(i32 \<Rightarrow> bytes option) \<Rightarrow> gen_event \<Rightarrow> fork_app \<Rightarrow> (gen_data, fork_app) prog" where
  "fork_manager contents e app =
     (case manager_event e of
        None \<Rightarrow> Finish
      | Some (MakeObject my_object) \<Rightarrow> fork_made my_object app
      | Some ev \<Rightarrow> SetApp (fork_print (manager_lines contents ev) app) Finish)"

definition fork_object :: "(str \<Rightarrow> str) \<Rightarrow> gen_event \<Rightarrow> fork_app \<Rightarrow> (gen_data, fork_app) prog" where
  "fork_object upper e app =
     (case object_event e of
        Some (ObjectSendMessage message) \<Rightarrow> SetApp (fork_print [ascii ''Object says hello: '' @ message] app) Finish
      | Some (ObjectSendEnum message) \<Rightarrow>
          (case debug_enum upper my_enum message of
             None \<Rightarrow> Crash
           | Some name \<Rightarrow>
               SetApp ((fork_print [ascii ''Object sent enum: '' @ name, ascii ''Erroring out the client!''] app)\<lparr>fa_quit := True\<rparr>)
                 (RaiseError (ge_object e) error_important (ascii ''Important error occurred!'') Finish))
      | Some (ObjectMakeObject my_object) \<Rightarrow> fork_made my_object app
      | _ \<Rightarrow> Finish)"

definition fork_bind :: "nat \<Rightarrow> (gen_data, fork_app) prog" where
  "fork_bind object =
     GetApp (\<lambda>app. SetApp (fork_print [ascii ''Object bound XD''] app)
    (server_send object 0 send_message_s2c [VString (ascii ''Hello manager'')]
    (GetApp (\<lambda>app. SetApp (app\<lparr>fa_manager := Some object\<rparr>) Finish))))"

definition fork_handlers ::
    "(i32 \<Rightarrow> bytes option) \<Rightarrow> (str \<Rightarrow> str) \<Rightarrow> str \<Rightarrow> gen_event \<Rightarrow> fork_app \<Rightarrow> (gen_data, fork_app) prog" where
  "fork_handlers contents upper name =
     (if name = ascii ''my_manager_v1'' then fork_manager contents else fork_object upper)"

definition fork_dispatcher :: "profile \<Rightarrow> (i32 \<Rightarrow> bytes option) \<Rightarrow> (str \<Rightarrow> str) \<Rightarrow> (gen_data, fork_app) dispatcher" where
  "fork_dispatcher pr contents upper = typed_dispatch pr test_protocol_v1 (fork_handlers contents upper)"

section \<open>The client of fork\<close>

record fork_client_app =
  fc_quit :: bool
  fc_printed :: "str list"
  fc_object :: "nat option"
  fc_object2 :: "nat option"

definition fork_client_manager :: "gen_event \<Rightarrow> fork_client_app \<Rightarrow> (gen_data, fork_client_app) cprog" where
  "fork_client_manager e app =
     (case manager_client_event e of
        None \<Rightarrow> CFinish
      | Some ev \<Rightarrow> CSetApp (app\<lparr>fc_printed := fc_printed app @ [manager_client_line ev]\<rparr>) CFinish)"

text \<open>Proxies are equal if they are of the same object.\<close>

definition fork_client_object :: "gen_event \<Rightarrow> fork_client_app \<Rightarrow> (gen_data, fork_client_app) cprog" where
  "fork_client_object e app =
     (case object_client_event e of
        None \<Rightarrow> CFinish
      | Some message \<Rightarrow>
          let app = app\<lparr>fc_printed := fc_printed app @ [object_client_line message]\<rparr>;
              quit = CSetApp (app\<lparr>fc_quit := True\<rparr>) CFinish
          in CSetApp app
            (if fc_object2 app = Some (ge_object e) then
               (case fc_object app of
                  Some object \<Rightarrow> client_send object 1 (od_c2s my_object_v1 ! 1) [VEnum world] (\<lambda>_. quit)
                | None \<Rightarrow> quit)
             else CFinish))"

definition client_typed_dispatch ::
    "profile \<Rightarrow> protocol \<Rightarrow> (str \<Rightarrow> gen_event \<Rightarrow> 'd \<Rightarrow> (gen_data, 'd) cprog) \<Rightarrow> (gen_data, 'd) client_dispatcher" where
  "client_typed_dispatch pr p handlers h = client_dispatch pr p (handlers (gd_name h)) h"

definition fork_client_handlers :: "str \<Rightarrow> gen_event \<Rightarrow> fork_client_app \<Rightarrow> (gen_data, fork_client_app) cprog" where
  "fork_client_handlers name =
     (if name = ascii ''my_manager_v1'' then fork_client_manager else fork_client_object)"

definition fork_client_dispatcher :: "profile \<Rightarrow> (gen_data, fork_client_app) client_dispatcher" where
  "fork_client_dispatcher pr = client_typed_dispatch pr test_protocol_v1 fork_client_handlers"

text \<open>
  The part of the client's \<open>main\<close> that uses the objects, from the first call to the loop: the calls on the manager, then an
  object, one that this object makes, and a message on either. A call that makes no object ends it with an error.
\<close>

definition fork_client_calls :: "i32 \<Rightarrow> i32 \<Rightarrow> i32 \<Rightarrow> gen_call list" where
  "fork_client_calls pipe1 pipe2 pipe3 =
     [(0, [VString (ascii ''Hello!'')]),
      (1, [VFd pipe1]),
      (2, [VFds [pipe2, pipe3]]),
      (3, [VStrings [ascii ''Hello'', ascii ''via'', ascii ''array!'']]),
      (3, [VStrings []]),
      (4, [VUints [69, 420, 2137]])]"

definition fork_client_objects :: "nat \<Rightarrow> fork_client_app \<Rightarrow> (gen_data, fork_client_app) cprog" where
  "fork_client_objects manager app =
     client_send manager 5 (od_c2s my_manager_v1 ! 5) [] (\<lambda>obj. case obj of
       None \<Rightarrow> CFinish
     | Some object \<Rightarrow> client_send object 3 (od_c2s my_object_v1 ! 3) [] (\<lambda>obj. case obj of
         None \<Rightarrow> CFinish
       | Some object2 \<Rightarrow> CHold object (CHold object2
           (CSetApp (app\<lparr>fc_object := Some object, fc_object2 := Some object2\<rparr>)
           (client_send object 0 send_message_c2s [VString (ascii ''Hello from object'')] (\<lambda>_.
            client_send object2 0 send_message_c2s [VString (ascii ''Hello from object2'')] (\<lambda>_. CFinish)))))))"

section \<open>A client takes an event\<close>

text \<open>An event without a return type that is no destructor, for a handler that leaves the objects as they are.\<close>

lemma client_takes_event:
  fixes w :: "(gen_data, 'd) client" and r :: nat
  assumes obj: "object_for_id oid w = Some r" "r < length (cl_heap w)" "co_spec (cl_heap w ! r) = Some (generate_object_spec decl)"
      "co_data (cl_heap w ! r) = Some \<lparr>gd_object = r, gd_name = od_name decl\<rparr>"
    and decl: "find_object_decl p (od_name decl) = Some decl" "unat i < length (od_s2c decl)" "od_s2c decl ! unat i = m"
      "md_returns m = None" "\<not> md_destructor m"
    and msg: "gm_object msg = oid" "gm_method msg = i" "data_span msg = Ok span" "reads_call m 0 vs pr span (gm_fds msg)"
    and handler: "\<And>w1. cl_heap w1 = cl_heap (upd_cobj r (\<lambda>obj. obj\<lparr>co_reading := True\<rparr>) (hold_object r w)) \<Longrightarrow>
      cl_conn w1 = cl_conn w \<Longrightarrow>
      \<exists>w2. run_client pr (handlers (od_name decl)
          \<lparr>ge_object = r, ge_method = i, ge_returned = None, ge_seq = None, ge_args = vs\<rparr> (cl_app w)) w1 = Some (Ok (), w2) \<and>
        cl_heap w2 = cl_heap w1 \<and> cl_objects w2 = cl_objects w1 \<and> P (cl_app w2) (cl_conn w2)"
  obtains w' where "client_on_generic pr (client_typed_dispatch pr p handlers) msg w = Some (Ok (), w')"
    "P (cl_app w') (cl_conn w')"
proof -
  let ?w1 = "upd_cobj r (\<lambda>obj. obj\<lparr>co_reading := True\<rparr>) (hold_object r w)"
  obtain w2 where w2: "run_client pr (handlers (od_name decl)
      \<lparr>ge_object = r, ge_method = i, ge_returned = None, ge_seq = None, ge_args = vs\<rparr> (cl_app w)) ?w1 = Some (Ok (), w2)"
    "cl_heap w2 = cl_heap ?w1" "cl_objects w2 = cl_objects ?w1" "P (cl_app w2) (cl_conn w2)"
    using handler[of ?w1] by (auto simp: upd_cobj_def hold_object_def)
  let ?w3 = "upd_cobj r (\<lambda>obj. obj\<lparr>co_reading := False\<rparr>) w2"
  let ?w4 = "upd_cobj r (\<lambda>obj. obj\<lparr>co_refs := co_refs obj - 1\<rparr>) ?w3"
  have held: "cl_app (hold_object r w) = cl_app w" "co_data (cl_heap (hold_object r w) ! r) = co_data (cl_heap w ! r)"
    using obj(2) by (simp_all add: hold_object_def upd_cobj_def)
  have "client_typed_dispatch pr p handlers \<lparr>gd_object = r, gd_name = od_name decl\<rparr> i span (gm_fds msg) (cl_app w) =
      handlers (od_name decl) \<lparr>ge_object = r, ge_method = i, ge_returned = None, ge_seq = None, ge_args = vs\<rparr> (cl_app w)"
    using decl msg(4) by (simp add: client_typed_dispatch_def client_dispatch_def client_dispatch_arm_def get_def reads_call_def)
  with w2(1) obj(4) have dispatch: "client_object_dispatch pr (client_typed_dispatch pr p handlers) r i span (gm_fds msg)
      (hold_object r w) = Some (Ok (), ?w3)"
    by (simp add: client_object_dispatch_def held)
  have "co_spec (cl_heap ?w3 ! r) = Some (generate_object_spec decl)"
    using obj(2,3) w2(2) by (simp add: upd_cobj_def hold_object_def)
  then have no_destructor: "\<not> client_is_destructor (cl_heap ?w3 ! r) i"
    using decl by (simp add: client_is_destructor_def get_def generate_object_spec_def method_specs_nth write_method_spec_def)
  have "r \<in> set (cl_objects ?w4)"
    using obj(1) w2(3) by (auto simp: object_for_id_def find_Some_iff upd_cobj_def hold_object_def)
  then have "release_object pr r ?w3 = Some (Ok (), ?w4)" by (simp add: release_object_def Let_def)
  then have "client_on_generic pr (client_typed_dispatch pr p handlers) msg w = Some (Ok (), ?w4)"
    using obj(1) msg(1-3) dispatch no_destructor by (simp add: client_on_generic_def lift_res_def Let_def)
  moreover have "P (cl_app ?w4) (cl_conn ?w4)" using w2(4) by (simp add: upd_cobj_def)
  ultimately show thesis using that by blast
qed

section \<open>How the processes end\<close>

lemma greeting_bytes:
  "wire_call True (method_specs (od_s2c my_object_v1)) oid version None 0
      (build_call_args (md_args send_message_s2c) [VString (ascii ''Hello object'')]) = Ok (CallMessage False 0 data fds) \<Longrightarrow>
     length data \<le> isize_max"
  by (auto simp: wire_call_def method_specs_nth write_method_spec_def my_object_v1_def send_message_s2c_def message_method_def
      message_arg_def Let_def to_le_bytes_def magic_try_from_def build_call_args_def varint_small isize_max_def)

lemma enum_bytes:
  "wire_call False (method_specs (od_c2s my_object_v1)) oid version ns 1
      (build_call_args (md_args (od_c2s my_object_v1 ! unat (1 :: u32))) [VEnum n]) = Ok (CallMessage False 0 data fds) \<Longrightarrow>
     length data \<le> isize_max"
  by (auto simp: wire_call_def method_specs_nth write_method_spec_def my_object_v1_def message_method_def
      message_arg_def Let_def to_le_bytes_def magic_try_from_def build_call_args_def isize_max_def)

lemma serves_conn: "serves k t oid decl w \<Longrightarrow> (\<And>c. talks c (f c)) \<Longrightarrow> serves k t oid decl (upd_conn j f w)"
proof -
  assume w: "serves k t oid decl w" and f: "\<And>c. talks c (f c)"
  have "inv_step w (upd_conn j f w)" using f by (rule ids.R_conn)
  moreover have "sc_objects (sv_client_heap (upd_conn j f w) ! k) = sc_objects (sv_client_heap w ! k)"
    by (cases "j < length (sv_client_heap w)") (auto simp: upd_conn_def upd_client_def nth_list_update list_update_beyond)
  ultimately show ?thesis using w by (simp add: serves_def find_object_def inv_step_def)
qed

text \<open>What the server of the example does when it greets an object, and with an enum that comes back.\<close>

lemma fork_greets:
  fixes sv :: "(gen_data, fork_app) server" and t k :: nat
  assumes server: "serves k t oid my_object_v1 sv" "\<not> so_destroyed (sv_objects sv ! t)"
  obtains g where "run (server_send t 0 send_message_s2c [VString (ascii ''Hello object'')] Finish) sv =
      Some (Ok (), upd_conn k (send_message (MGeneric g)) sv)"
    "\<forall>pr. generic_sendable pr g" "length (gm_data g) \<le> isize_max"
    "arrives (gm_data g) (gm_fds g) oid 0 (reads_call send_message_s2c 0 [VString (ascii ''Hello object'')])"
    "g = generic_message_new (gm_data g) (gm_fds g)"
proof -
  have hello: "unat (0 :: u32) < length (od_s2c my_object_v1)" "od_s2c my_object_v1 ! unat (0 :: u32) = send_message_s2c"
    "args_fit (md_args send_message_s2c) [VString (ascii ''Hello object'')]" "md_returns send_message_s2c = None"
    "\<not> md_destructor send_message_s2c"
    by (simp_all add: my_object_v1_def send_message_s2c_def message_method_def message_arg_def isize_max_def)
  have at: "t < length (sv_objects sv)" "so_spec (sv_objects sv ! t) = Some (generate_object_spec my_object_v1)"
    "so_id (sv_objects sv ! t) = oid" "so_client (sv_objects sv ! t) = k"
    using server(1) server_inv_table(2)[of sv k t] find_object_SomeD[of k oid sv t] by (simp_all add: serves_def)
  obtain data where "run (server_send t 0 send_message_s2c [VString (ascii ''Hello object'')] Finish) sv =
      Some (Ok (), upd_conn k (send_message (MGeneric (generic_message_new data []))) sv)"
    "arrives data [] oid 0 (reads_call send_message_s2c 0 [VString (ascii ''Hello object'')])"
    "\<forall>pr. generic_sendable pr (generic_message_new data [])"
    and call: "wire_call True (method_specs (od_s2c my_object_v1)) oid (so_version (sv_objects sv ! t)) None 0
      (build_call_args (md_args send_message_s2c) [VString (ascii ''Hello object'')]) = Ok (CallMessage False 0 data [])"
    using server_sends_plain[of t sv my_object_v1 0 send_message_s2c "[VString (ascii ''Hello object'')]" Finish,
        OF at(1) server(2) at(2) hello] unfolding at by (auto simp del: ascii_Cons)
  with greeting_bytes[OF call] show thesis by (intro that[of "generic_message_new data []"]) (simp_all add: generic_message_new_def del: ascii_Cons)
qed

lemma fork_takes_enum:
  fixes sv :: "(gen_data, fork_app) server" and t k :: nat
  assumes server: "serves k t oid my_object_v1 sv" "\<not> so_destroyed (sv_objects sv ! t)"
    and g: "carries oid my_object_v1 g (1, [VEnum n])" "length (gm_data g) \<le> isize_max" "debug_enum upper my_enum n = Some name"
  obtains sv' f where "server_reads pr (fork_dispatcher pr contents upper) k [MGeneric g] sv = Some (Ok (), sv')"
    "fa_quit (sv_app sv')" "sent (conn_at k sv) (conn_at k sv') = [MFatal f]"
    "fatal_object_id f = oid" "fatal_error_id f = error_important"
proof -
  have at: "t < length (sv_objects sv)" "k < length (sv_client_heap sv)" "so_id (sv_objects sv ! t) = oid"
      "so_client (sv_objects sv ! t) = k"
    using server(1) server_inv_table(2)[of sv k t] find_object_SomeD[of k oid sv t] by (simp_all add: serves_def)
  have decl: "find_object_decl test_protocol_v1 (od_name my_object_v1) = Some my_object_v1"
    and handler: "fork_handlers contents upper (od_name my_object_v1) = fork_object upper"
    using test_protocol_decls(2) not_first by (simp_all add: my_object_v1_def fork_handlers_def del: ascii_Cons)
  have plain: "\<forall>c \<in> set [(1 :: u32, [VEnum n])]. plain_call my_object_v1 c"
    by (simp add: plain_call_def my_object_v1_def message_method_def message_arg_def)
  obtain f where f: "fatal_protocol_error_new oid error_important important = Ok f"
    and fields: "fatal_object_id f = oid" "fatal_error_id f = error_important"
    using fatal_new_Ok[OF important_msg(3)] by blast
  let ?app = "(fork_print [ascii ''Object sent enum: '' @ name, ascii ''Erroring out the client!''] (sv_app sv))\<lparr>fa_quit := True\<rparr>"
  have "fork_object upper \<lparr>ge_object = t, ge_method = fst (1 :: u32, [VEnum n]), ge_returned = None, ge_seq = None,
      ge_args = snd (1 :: u32, [VEnum n])\<rparr> (sv_app sv) = SetApp ?app (RaiseError t error_important important Finish)"
    by (simp add: fork_object_def object_event_def g(3) important_def)
  from error_call[where handler = "fork_object upper" and c = "(1, [VEnum n])" and f = f, OF at(1) server(2) at(4,2) this] f
  obtain sv' where sv': "on_call (fork_object upper) t (1, [VEnum n]) sv = Some (Ok (), sv')" "sv_app sv' = ?app"
    "conn_at k sv' = set_error (send_message (MFatal f) (conn_at k sv))"
    unfolding at(3) by blast
  have "receive_all (server_receive pr (fork_dispatcher pr contents upper) k) [MGeneric g] sv =
      receive_all (on_call (fork_object upper) t) [(1, [VEnum n])] sv"
    unfolding fork_dispatcher_def
    using received_calls[OF server(1) decl plain, of "[g]" pr "fork_handlers contents upper"] g(1,2) handler by simp
  then have "server_receive pr (fork_dispatcher pr contents upper) k (MGeneric g) sv = Some (Ok (), sv')"
    using sv'(1) by (auto simp: bind_eff_Some)
  then have "server_reads pr (fork_dispatcher pr contents upper) k [MGeneric g] sv = Some (Ok (), sv')"
    using g(1,2) by (subst server_reads_one) (auto simp: carries_def generic_message_new_def)
  moreover have "sent (conn_at k sv) (conn_at k sv') = [MFatal f]" by (simp add: sv'(3) sent_def set_error_def)
  ultimately show thesis using that sv'(2) fields by simp
qed

text \<open>What the client of the example does with a greeting of its second object.\<close>

lemma fork_client_greeted:
  fixes cl :: "(gen_data, fork_client_app) client" and r1 r2 :: nat
  assumes obj1: "r1 < length (cl_heap cl)" "co_spec (cl_heap cl ! r1) = Some (generate_object_spec my_object_v1)"
      "co_id (cl_heap cl ! r1) = i1" "i1 \<noteq> 0"
    and obj2: "object_for_id i2 cl = Some r2" "r2 < length (cl_heap cl)"
      "co_spec (cl_heap cl ! r2) = Some (generate_object_spec my_object_v1)"
      "co_data (cl_heap cl ! r2) = Some \<lparr>gd_object = r2, gd_name = od_name my_object_v1\<rparr>"
    and app: "fc_object (cl_app cl) = Some r1" "fc_object2 (cl_app cl) = Some r2"
    and g: "\<forall>pr. generic_sendable pr g" "length (gm_data g) \<le> isize_max" "g = generic_message_new (gm_data g) (gm_fds g)"
      "arrives (gm_data g) (gm_fds g) i2 0 (reads_call send_message_s2c 0 [VString s])"
  obtains cl' g' where "client_reads pr (fork_client_dispatcher pr) q [MGeneric g] cl = Some (Ok (), cl')"
    "cl_app cl' = (cl_app cl)\<lparr>fc_printed := fc_printed (cl_app cl) @ [object_client_line s], fc_quit := True\<rparr>"
    "sent (cl_conn cl) (cl_conn cl') = [MGeneric g']" "carries i1 my_object_v1 g' (1, [VEnum world])"
    "length (gm_data g') \<le> isize_max"
proof -
  define P where "P = (\<lambda>(a :: fork_client_app) c. \<exists>g'. a = (cl_app cl)\<lparr>fc_printed := fc_printed (cl_app cl) @ [object_client_line s],
      fc_quit := True\<rparr> \<and> c = send_message (MGeneric g') (cl_conn cl) \<and> carries i1 my_object_v1 g' (1, [VEnum world]) \<and>
      length (gm_data g') \<le> isize_max)"
  let ?e = "\<lparr>ge_object = r2, ge_method = 0, ge_returned = None, ge_seq = None, ge_args = [VString s]\<rparr>"
  have decl: "find_object_decl test_protocol_v1 (od_name my_object_v1) = Some my_object_v1"
    and handler: "fork_client_handlers (od_name my_object_v1) = fork_client_object"
    using test_protocol_decls(2) not_first by (simp_all add: my_object_v1_def fork_client_handlers_def del: ascii_Cons)
  have m: "unat (0 :: u32) < length (od_s2c my_object_v1)" "od_s2c my_object_v1 ! unat (0 :: u32) = send_message_s2c"
    "md_returns send_message_s2c = None" "\<not> md_destructor send_message_s2c"
    by (simp_all add: my_object_v1_def send_message_s2c_def message_method_def)
  have plain: "plain_call my_object_v1 (1, [VEnum world])"
    by (simp add: plain_call_def my_object_v1_def message_method_def message_arg_def)
  have runs: "\<exists>w2. run_client pr (fork_client_handlers (od_name my_object_v1) ?e (cl_app cl)) w1 = Some (Ok (), w2) \<and>
      cl_heap w2 = cl_heap w1 \<and> cl_objects w2 = cl_objects w1 \<and> P (cl_app w2) (cl_conn w2)"
    if w1: "cl_heap w1 = cl_heap (upd_cobj r2 (\<lambda>obj. obj\<lparr>co_reading := True\<rparr>) (hold_object r2 cl))" "cl_conn w1 = cl_conn cl" for w1
  proof -
    let ?app = "(cl_app cl)\<lparr>fc_printed := fc_printed (cl_app cl) @ [object_client_line s]\<rparr>"
    let ?quit = "CSetApp (?app\<lparr>fc_quit := True\<rparr>) CFinish :: (gen_data, fork_client_app) cprog"
    have handled: "fork_client_object ?e (cl_app cl) =
        CSetApp ?app (client_send r1 1 (od_c2s my_object_v1 ! 1) [VEnum world] (\<lambda>_. ?quit))"
      using app by (simp add: fork_client_object_def object_client_event_def Let_def)
    have at: "r1 < length (cl_heap (w1\<lparr>cl_app := ?app\<rparr>))"
      "co_spec (cl_heap (w1\<lparr>cl_app := ?app\<rparr>) ! r1) = Some (generate_object_spec my_object_v1)"
      "co_id (cl_heap (w1\<lparr>cl_app := ?app\<rparr>) ! r1) = i1"
      using obj1 obj2(2) w1(1) by (auto simp: upd_cobj_def hold_object_def nth_list_update)
    obtain g' where g': "carries i1 my_object_v1 g' (1, [VEnum world])"
      and send: "run_client pr (client_send r1 1 (od_c2s my_object_v1 ! 1) [VEnum world] (\<lambda>_. ?quit)) (w1\<lparr>cl_app := ?app\<rparr>) =
        run_client pr ?quit (upd_cconn (send_message (MGeneric g')) (w1\<lparr>cl_app := ?app\<rparr>))"
      and call: "\<exists>ns. wire_call False (method_specs (od_c2s my_object_v1)) i1 (co_version (cl_heap w1 ! r1)) ns 1
        (build_call_args (md_args (od_c2s my_object_v1 ! unat (1 :: u32))) [VEnum world]) = Ok (CallMessage False 0 (gm_data g') (gm_fds g'))"
      using client_sends_plain[OF plain at obj1(4), of pr "\<lambda>_. ?quit"] by auto
    have len: "length (gm_data g') \<le> isize_max" using call enum_bytes by blast
    show ?thesis
      unfolding handler handled run_client.simps send
      using g' len w1(2) by (auto simp: P_def upd_cconn_def)
  qed
  obtain span where msg: "gm_object (received pr g) = i2" "gm_method (received pr g) = 0" "data_span (received pr g) = Ok span"
    "reads_call send_message_s2c 0 [VString s] pr span (gm_fds (received pr g))"
    using arrives_received[OF g(4,2), of pr thesis] g(3) by metis
  obtain cl' where cl': "client_on_generic pr (fork_client_dispatcher pr) (received pr g) cl = Some (Ok (), cl')"
    "P (cl_app cl') (cl_conn cl')"
    unfolding fork_client_dispatcher_def
    by (rule client_takes_event[where P = P and handlers = fork_client_handlers and pr = pr,
          OF obj2 decl m msg runs])
  have "client_reads pr (fork_client_dispatcher pr) q [MGeneric g] cl = Some (Ok (), cl')"
    using g(1,2) cl'(1) by (subst client_reads_one) (simp_all add: client_receive_def)
  with cl'(2) show thesis by (auto simp: P_def intro: that)
qed

text \<open>C23: The processes of the example end each other: when the server greets the client's second object, the client, reading
  it, prints the greeting, sends an enum on its first object and leaves its loop; and the server, reading this,
  leaves its loop too, with an important error for the first object sent to the client.\<close>
theorem fork_ends:
  fixes cl :: "(gen_data, fork_client_app) client" and sv :: "(gen_data, fork_app) server" and r1 r2 t1 t2 k :: nat
  assumes obj1: "r1 < length (cl_heap cl)" "co_spec (cl_heap cl ! r1) = Some (generate_object_spec my_object_v1)"
      "co_id (cl_heap cl ! r1) = i1" "i1 \<noteq> 0" "fc_object (cl_app cl) = Some r1"
    and obj2: "object_for_id i2 cl = Some r2" "r2 < length (cl_heap cl)"
      "co_spec (cl_heap cl ! r2) = Some (generate_object_spec my_object_v1)"
      "co_data (cl_heap cl ! r2) = Some \<lparr>gd_object = r2, gd_name = od_name my_object_v1\<rparr>" "fc_object2 (cl_app cl) = Some r2"
    and server: "serves k t1 i1 my_object_v1 sv" "\<not> so_destroyed (sv_objects sv ! t1)"
      "serves k t2 i2 my_object_v1 sv" "\<not> so_destroyed (sv_objects sv ! t2)"
  shows "\<exists>sv1 m1 cl1 m2 sv2 f.
    run (server_send t2 0 send_message_s2c [VString (ascii ''Hello object'')] Finish) sv = Some (Ok (), sv1) \<and>
    sent (conn_at k sv) (conn_at k sv1) = [m1] \<and>
    client_reads pr (fork_client_dispatcher pr) q [m1] cl = Some (Ok (), cl1) \<and>
    fc_printed (cl_app cl1) = fc_printed (cl_app cl) @ [ascii ''Server says on object Hello object''] \<and> fc_quit (cl_app cl1) \<and>
    sent (cl_conn cl) (cl_conn cl1) = [m2] \<and>
    server_reads pr' (fork_dispatcher pr' contents upper) k [m2] sv1 = Some (Ok (), sv2) \<and>
    fa_quit (sv_app sv2) \<and> sent (conn_at k sv1) (conn_at k sv2) = [MFatal f] \<and>
    fatal_object_id f = i1 \<and> fatal_error_id f = error_important"
proof -
  obtain g where greets: "run (server_send t2 0 send_message_s2c [VString (ascii ''Hello object'')] Finish) sv =
      Some (Ok (), upd_conn k (send_message (MGeneric g)) sv)"
    and g: "\<forall>pr. generic_sendable pr g" "length (gm_data g) \<le> isize_max" "g = generic_message_new (gm_data g) (gm_fds g)"
      "arrives (gm_data g) (gm_fds g) i2 0 (reads_call send_message_s2c 0 [VString (ascii ''Hello object'')])"
    using fork_greets[OF server(3,4)] by metis
  let ?sv1 = "upd_conn k (send_message (MGeneric g)) sv"
  have sent: "sent (conn_at k sv) (conn_at k ?sv1) = [MGeneric g]"
    using server(3) by (simp add: conn_at_send serves_def)
  obtain cl1 g' where client: "client_reads pr (fork_client_dispatcher pr) q [MGeneric g] cl = Some (Ok (), cl1)"
    "cl_app cl1 = (cl_app cl)\<lparr>fc_printed := fc_printed (cl_app cl) @ [object_client_line (ascii ''Hello object'')], fc_quit := True\<rparr>"
    "sent (cl_conn cl) (cl_conn cl1) = [MGeneric g']" and g': "carries i1 my_object_v1 g' (1, [VEnum world])"
    "length (gm_data g') \<le> isize_max"
    by (rule fork_client_greeted[OF obj1(1-4) obj2(1-4) obj1(5) obj2(5) g])
  have name: "debug_enum upper my_enum world = Some (snake_to_pascal upper (ascii ''world''))"
    by (simp add: debug_enum_def my_enum_def world_def)
  have talks: "talks c (send_message (MGeneric g) c)" for c by simp
  have still: "serves k t1 i1 my_object_v1 ?sv1" "\<not> so_destroyed (sv_objects ?sv1 ! t1)"
    using serves_conn[OF server(1) talks] server(2) by simp_all
  obtain sv2 f where "server_reads pr' (fork_dispatcher pr' contents upper) k [MGeneric g'] ?sv1 = Some (Ok (), sv2)"
    "fa_quit (sv_app sv2)" "sent (conn_at k ?sv1) (conn_at k sv2) = [MFatal f]" "fatal_object_id f = i1"
    "fatal_error_id f = error_important"
    by (rule fork_takes_enum[OF still g' name])
  moreover have "fc_printed (cl_app cl1) = fc_printed (cl_app cl) @ [ascii ''Server says on object Hello object'']"
    by (simp add: client(2) object_client_line_def)
  moreover have "fc_quit (cl_app cl1)" by (simp add: client(2))
  ultimately show ?thesis using greets sent client(1,3) by blast
qed

definition example_fork_client :: "(gen_data, fork_client_app) client" where
  "example_fork_client = (let obj = (\<lambda>r. (fresh_object (generate_object_spec my_object_v1) (pt_name test_protocol_v1) 1
         (of_nat r + 2) 0 1)\<lparr>co_id := of_nat r + 2, co_data := Some \<lparr>gd_object = r, gd_name = od_name my_object_v1\<rparr>\<rparr>)
     in \<lparr>cl_impls = [generate_spec test_protocol_v1], cl_specs = [], cl_objects = [0, 1], cl_heap = [obj 0, obj 1],
       cl_handshake_done = True, cl_seq = 3, cl_conn = conn_new, cl_queues = [event_queue_new], cl_locked = False,
       cl_alive = True, cl_app = \<lparr>fc_quit = False, fc_printed = [], fc_object = Some 0, fc_object2 = Some 1\<rparr>\<rparr>)"

definition example_fork_server :: "(gen_data, fork_app) server" where
  "example_fork_server = (let obj = (\<lambda>r decl. \<lparr>so_client = 0, so_spec = Some (generate_object_spec decl), so_destroyed = False,
       so_data = Some \<lparr>gd_object = r, gd_name = od_name decl\<rparr>, so_reading = False, so_id = of_nat r + 1, so_version = 1,
       so_seq = of_nat r + 1, so_protocol_name = pt_name test_protocol_v1\<rparr>)
     in \<lparr>sv_impls = [\<lparr>im_spec = generate_spec test_protocol_v1, im_objects = []\<rparr>],
       sv_objects = [obj 0 my_manager_v1, obj 1 my_object_v1, obj 2 my_object_v1],
       sv_client_heap = [(server_client_new 1 None)\<lparr>sc_objects := [0, 1, 2], sc_max_id := 4\<rparr>], sv_clients = [0],
       sv_listener = False, sv_next_client_id = 2,
       sv_app = \<lparr>fa_quit = False, fa_printed = [], fa_manager = Some 0, fa_objects = [1, 2]\<rparr>\<rparr>)"

lemma example_fork_serves:
  "serves 0 1 2 my_object_v1 example_fork_server" "serves 0 2 3 my_object_v1 example_fork_server"
proof -
  have "server_inv example_fork_server"
    by (simp add: server_inv_def views_ok_def objects_view_def clients_view_def client_ok_def ids_of_def count_ids_def
        example_fork_server_def server_client_new_def Let_def)
  then show "serves 0 1 2 my_object_v1 example_fork_server" "serves 0 2 3 my_object_v1 example_fork_server"
    by (simp_all add: serves_def find_object_def example_fork_server_def server_client_new_def Let_def)
qed

theorem fork_ends_witness:
  "\<exists>sv1 m1 cl1 m2 sv2.
    run (server_send 2 0 send_message_s2c [VString (ascii ''Hello object'')] Finish) example_fork_server = Some (Ok (), sv1) \<and>
    sent (conn_at 0 example_fork_server) (conn_at 0 sv1) = [m1] \<and>
    client_reads Debug (fork_client_dispatcher Debug) 0 [m1] example_fork_client = Some (Ok (), cl1) \<and>
    fc_printed (cl_app cl1) = [ascii ''Server says on object Hello object''] \<and> fc_quit (cl_app cl1) \<and>
    sent (cl_conn example_fork_client) (cl_conn cl1) = [m2] \<and>
    server_reads Release (fork_dispatcher Release example_piped id) 0 [m2] sv1 = Some (Ok (), sv2) \<and> fa_quit (sv_app sv2)"
proof -
  have client: "0 < length (cl_heap example_fork_client)" "1 < length (cl_heap example_fork_client)"
    "co_spec (cl_heap example_fork_client ! 0) = Some (generate_object_spec my_object_v1)"
    "co_spec (cl_heap example_fork_client ! 1) = Some (generate_object_spec my_object_v1)"
    "co_id (cl_heap example_fork_client ! 0) = 2" "object_for_id 3 example_fork_client = Some 1"
    "co_data (cl_heap example_fork_client ! 1) = Some \<lparr>gd_object = 1, gd_name = od_name my_object_v1\<rparr>"
    "fc_object (cl_app example_fork_client) = Some 0" "fc_object2 (cl_app example_fork_client) = Some 1"
    "fc_printed (cl_app example_fork_client) = []" "(2 :: u32) \<noteq> 0"
    by (simp_all add: example_fork_client_def fresh_object_def object_for_id_def Let_def)
  have server: "\<not> so_destroyed (sv_objects example_fork_server ! 1)" "\<not> so_destroyed (sv_objects example_fork_server ! 2)"
    by (simp_all add: example_fork_server_def Let_def)
  from fork_ends[OF client(1,3,5,11,8,6,2,4,7,9) example_fork_serves(1) server(1) example_fork_serves(2) server(2),
      of Debug 0 Release example_piped id, unfolded client(10) append_Nil]
  show ?thesis by blast
qed

end
