(* ===== verification/Server_Listen.thy ===== *)
theory Server_Listen
  imports Server_Loop
begin

text \<open>
  Opening a server on a path: \<open>ServerSocket::bind\<close> of \<open>hyprwire/src/server/server_socket.rs\<close>. The file
  system is a map from paths to nodes of any kind; what the kernel answers to each call is an argument
  (\<open>listen_os\<close>). A path that exists is taken over when nothing answers a connection to it.
\<close>

section \<open>The code\<close>

text \<open>The kinds of an I/O error the code distinguishes.\<close>

datatype io_kind = ConnectionRefused | AddrInUse | OtherIo

text \<open>
  What the kernel answers: whether \<open>Poller::new\<close> and \<open>fs::exists\<close> succeed; to a connection to a node, with
  \<open>None\<close> if it is accepted; whether \<open>remove_file\<close> succeeds; the node \<open>UnixListener::bind\<close> makes, if it can;
  and whether \<open>set_nonblocking\<close> and \<open>poller.add\<close> succeed.
\<close>

record 'n listen_os =
  lo_poller :: bool
  lo_exists :: bool
  lo_connect :: "'n \<Rightarrow> io_kind option"
  lo_remove :: bool
  lo_listen :: "'n option"
  lo_nonblocking :: bool
  lo_add :: bool

text \<open>The part of \<open>bind\<close> before the listener: what becomes of a node that is in the way.\<close>

definition clear_path ::
    "'n listen_os \<Rightarrow> str \<Rightarrow> (str \<rightharpoonup> 'n) \<Rightarrow> (io_kind, unit) res \<times> (str \<rightharpoonup> 'n)" where
  "clear_path os path fs =
     (case fs path of
        None \<Rightarrow> (Ok (), fs)
      | Some node \<Rightarrow>
          (case lo_connect os node of
             None \<Rightarrow> (Err AddrInUse, fs)
           | Some e \<Rightarrow>
               if e \<noteq> ConnectionRefused then (Err e, fs)
               else if lo_remove os then (Ok (), fs(path := None))
               else (Err OtherIo, fs)))"

text \<open>The node of the listener stays when a later call fails.\<close>

definition server_bind ::
    "'n listen_os \<Rightarrow> str \<Rightarrow> 'd \<Rightarrow> (str \<rightharpoonup> 'n) \<Rightarrow> (io_kind, ('h, 'd) server) res \<times> (str \<rightharpoonup> 'n)" where
  "server_bind os path app fs =
     (if \<not> lo_poller os \<or> \<not> lo_exists os then (Err OtherIo, fs)
      else
        let (cleared, fs) = clear_path os path fs
        in case cleared of
             Ok _ \<Rightarrow>
               (case lo_listen os of
                  None \<Rightarrow> (Err OtherIo, fs)
                | Some node \<Rightarrow>
                    (if lo_nonblocking os \<and> lo_add os then Ok (server_new True app) else Err OtherIo,
                     fs(path \<mapsto> node)))
           | Err e \<Rightarrow> (Err e, fs)
           | Panic \<Rightarrow> (Panic, fs))"

section \<open>What is taken over\<close>

lemma clear_path_other: "p \<noteq> path \<Longrightarrow> snd (clear_path os path fs) p = fs p"
  by (simp add: clear_path_def split: option.split)

lemma clear_path_Ok:
  "fst (clear_path os path fs) = Ok () \<longleftrightarrow>
     (case fs path of None \<Rightarrow> True | Some node \<Rightarrow> lo_connect os node = Some ConnectionRefused \<and> lo_remove os)"
  "snd (clear_path os path fs) =
     (if fst (clear_path os path fs) = Ok () then fs(path := None) else fs)"
  "fst (clear_path os path fs) \<noteq> Panic"
  by (auto simp: clear_path_def fun_upd_idem split: option.split)

text \<open>C35: \<open>bind\<close> takes a path over exactly when nothing listens there: if it succeeds, either there was nothing at the
  path, or what was there refused a connection and was removed, whatever it was, and now the path is the
  new listener's and the server is empty; if something at the path accepts a connection, or fails it in any
  other way, \<open>bind\<close> fails and the path keeps what it had. All other paths are left alone in any case, and with a system that
  grants its calls \<open>bind\<close> succeeds on a path that is free or refuses.\<close>
theorem server_bind_outcome:
  fixes sv :: "('h, 'd) server" and fs fs' :: "str \<rightharpoonup> 'n"
  assumes bind: "server_bind os path app fs = (res, fs')"
  shows "(\<forall>p. p \<noteq> path \<longrightarrow> fs' p = fs p) \<and> res \<noteq> Panic \<and>
    (\<forall>sv. res = Ok sv \<longrightarrow> sv = server_new True app \<and> fs' path = lo_listen os \<and> fs' path \<noteq> None \<and>
       (\<forall>node. fs path = Some node \<longrightarrow> lo_connect os node = Some ConnectionRefused)) \<and>
    (\<forall>node. fs path = Some node \<longrightarrow> lo_connect os node \<noteq> Some ConnectionRefused \<longrightarrow>
       (\<exists>e. res = Err e) \<and> fs' = fs) \<and>
    ((\<forall>node. fs path = Some node \<longrightarrow> lo_connect os node = Some ConnectionRefused \<and> lo_remove os) \<longrightarrow>
       lo_poller os \<longrightarrow> lo_exists os \<longrightarrow> lo_listen os \<noteq> None \<longrightarrow> lo_nonblocking os \<longrightarrow> lo_add os \<longrightarrow>
       res = Ok (server_new True app))"
proof (cases "lo_poller os \<and> lo_exists os")
  case False
  with bind show ?thesis by (auto simp: server_bind_def)
next
  case True
  obtain cleared fs1 where c: "clear_path os path fs = (cleared, fs1)" by fastforce
  have other: "fs1 p = fs p" if "p \<noteq> path" for p using clear_path_other[OF that, of os fs] c by simp
  note cleared = clear_path_Ok[of os path fs, unfolded c fst_conv snd_conv]
  have b: "(res, fs') = (case cleared of
      Ok _ \<Rightarrow> (case lo_listen os of
          None \<Rightarrow> (Err OtherIo, fs1)
        | Some node \<Rightarrow> (if lo_nonblocking os \<and> lo_add os then Ok (server_new True app) else Err OtherIo, fs1(path \<mapsto> node)))
    | Err e \<Rightarrow> (Err e, fs1) | Panic \<Rightarrow> (Panic, fs1))"
    using bind True by (simp add: server_bind_def c)
  show ?thesis
  proof (cases cleared)
    case (Ok u)
    then have Ok': "cleared = Ok ()" by simp
    with cleared b other show ?thesis by (auto split: option.splits if_splits)
  next
    case (Err e)
    with cleared b other show ?thesis by (auto split: option.splits)
  qed (use cleared in simp)
qed

text \<open>A path that a file is at, which refuses connections: the file is replaced.\<close>

definition example_os :: "str listen_os" where
  "example_os = \<lparr>lo_poller = True, lo_exists = True, lo_connect = (\<lambda>_. Some ConnectionRefused), lo_remove = True,
     lo_listen = Some (ascii ''socket''), lo_nonblocking = True, lo_add = True\<rparr>"

theorem server_bind_outcome_witness:
  "\<exists>fs'. server_bind example_os (ascii ''/tmp/notes'') () [ascii ''/tmp/notes'' \<mapsto> ascii ''my notes''] =
      (Ok (server_new True () :: (unit, unit) server), fs') \<and>
    fs' (ascii ''/tmp/notes'') = Some (ascii ''socket'') \<and> fs' (ascii ''/tmp/other'') = None"
proof -
  obtain res :: "(io_kind, (unit, unit) server) res" and fs' where
    bind: "server_bind example_os (ascii ''/tmp/notes'') () [ascii ''/tmp/notes'' \<mapsto> ascii ''my notes''] = (res, fs')"
    by fastforce
  note outcome = server_bind_outcome[OF bind]
  have ok: "res = Ok (server_new True ())"
    by (rule outcome[THEN conjunct2, THEN conjunct2, THEN conjunct2, THEN conjunct2, rule_format])
      (simp_all add: example_os_def)
  then have "fs' (ascii ''/tmp/notes'') = Some (ascii ''socket'')"
    using outcome by (simp only: example_os_def listen_os.select_convs)
  moreover have "ascii ''/tmp/other'' \<noteq> ascii ''/tmp/notes''" by simp
  then have "fs' (ascii ''/tmp/other'') = None"
    using outcome[THEN conjunct1] by (simp del: ascii_Cons)
  ultimately show ?thesis using bind ok by simp
qed

end
