(* ===== verification/Example_Main.thy ===== *)
theory Example_Main
  imports Example_Fork Server_Listen
begin

text \<open>
  The \<open>main\<close> functions of the examples, from the operations of the library. The answers of the operating system
  are arguments as before, one list for each call that waits; where it is used up the call does not return. A socket
  or descriptor the examples make is an argument too. \<open>unwrap\<close> turns an error into a panic. An application
  that ends before it has a socket has no state. What is logged or printed on the error stream is left out.
\<close>

definition unwrap :: "('e, 'a, 'w) eff \<Rightarrow> ('f, 'a, 'w) eff" where
  "unwrap m = map_option (\<lambda>(r, w). (case r of Ok x \<Rightarrow> Ok x | _ \<Rightarrow> Panic, w)) m"

lemma unwrap_Ok [simp]: "unwrap m = Some (Ok x, w) \<longleftrightarrow> m = Some (Ok x, w)"
  by (cases m) (auto simp: unwrap_def split: res.splits)

lemma unwrap_no_Err [simp]: "unwrap m \<noteq> Some (Err e, w)"
  by (cases m) (auto simp: unwrap_def split: res.splits)

definition opened :: "('e, 'a, 'w) eff \<Rightarrow> ('e, 'a, 'w option) eff" where
  "opened m = map_option (\<lambda>(r, w). (r, Some w)) m"

section \<open>The servers\<close>

text \<open>\<open>while step().is_ok() {}\<close>\<close>

fun while_ok :: "('r \<Rightarrow> 'w \<Rightarrow> ('e, unit, 'w) eff) \<Rightarrow> 'r list \<Rightarrow> 'w \<Rightarrow> ('f, unit, 'w) eff" where
  "while_ok step [] w = None"
| "while_ok step (rnd # rnds) w =
     (case step rnd w of
        None \<Rightarrow> None
      | Some (Ok _, w) \<Rightarrow> while_ok step rnds w
      | Some (Err e, w) \<Rightarrow> Some (Ok (), w)
      | Some (Panic, w) \<Rightarrow> Some (Panic, w))"

definition basic_server_main ::
    "profile \<Rightarrow> (i32 \<Rightarrow> bytes option) \<Rightarrow> (str \<Rightarrow> str) \<Rightarrow> (i32 \<Rightarrow> str) \<Rightarrow> (str \<Rightarrow> str option) \<Rightarrow> 'n listen_os \<Rightarrow>
       poll_event list option list list \<Rightarrow> (str \<rightharpoonup> 'n) \<Rightarrow>
       (hw_error, unit, (gen_data, basic_app) server option) eff \<times> (str \<rightharpoonup> 'n)" where
  "basic_server_main pr contents upper show_pid env os rounds fs =
     (case socket_path env of
        Ok path \<Rightarrow>
          (case (server_bind os path basic_app_default fs, generate_server test_protocol_v1 (basic_bind show_pid)) of
             ((Ok sock, fs), Ok im) \<Rightarrow>
               (opened (while_ok (dispatch_events pr (basic_dispatcher pr contents upper)) rounds (add_implementation im sock)), fs)
           | ((_, fs), _) \<Rightarrow> (Some (Panic, None), fs))
      | _ \<Rightarrow> (Some (Panic, None), fs))"

text \<open>The server of \<open>calloop\<close> up to its loop.\<close>

definition calloop_server_main ::
    "(str \<Rightarrow> str option) \<Rightarrow> 'n listen_os \<Rightarrow> (str \<rightharpoonup> 'n) \<Rightarrow> (hw_error, (gen_data, basic_app) server) res \<times> (str \<rightharpoonup> 'n)" where
  "calloop_server_main env os fs =
     (case socket_path env of
        Ok path \<Rightarrow>
          (case (server_bind os path basic_app_default fs, generate_server test_protocol_v1 calloop_bind) of
             ((Ok sock, fs), Ok im) \<Rightarrow> (Ok (add_implementation im sock), fs)
           | ((_, fs), _) \<Rightarrow> (Panic, fs))
      | _ \<Rightarrow> (Panic, fs))"

text \<open>The source \<open>calloop\<close> runs when the socket is readable; whatever the result, the loop goes on.\<close>

definition calloop_ready ::
    "profile \<Rightarrow> (i32 \<Rightarrow> bytes option) \<Rightarrow> (str \<Rightarrow> str) \<Rightarrow> poll_event list option list \<Rightarrow>
       (gen_data, basic_app) server \<Rightarrow> (hw_error, unit, (gen_data, basic_app) server) eff" where
  "calloop_ready pr contents upper waits w =
     map_option (\<lambda>(r, w). (case r of Panic \<Rightarrow> Panic | _ \<Rightarrow> Ok (), w)) (dispatch_events pr (basic_dispatcher pr contents upper) waits w)"

definition fork_app_default :: fork_app where
  "fork_app_default = \<lparr>fa_quit = False, fa_printed = [], fa_manager = None, fa_objects = []\<rparr>"

definition fork_server_main ::
    "profile \<Rightarrow> (i32 \<Rightarrow> bytes option) \<Rightarrow> (str \<Rightarrow> str) \<Rightarrow> bool \<Rightarrow> bool \<Rightarrow> ucred option \<Rightarrow> poll_event list option list list \<Rightarrow>
       (hw_error, unit, (gen_data, fork_app) server option) eff" where
  "fork_server_main pr contents upper poller added peer rounds =
     (if \<not> poller then Some (Err Io, None)
      else case generate_server test_protocol_v1 fork_bind of
        Ok im \<Rightarrow>
          opened (bind_eff (add_client pr added peer (add_implementation im (server_new False fork_app_default))) (\<lambda>_.
            wait_while (\<lambda>w. \<not> fa_quit (sv_app w)) (dispatch_events pr (fork_dispatcher pr contents upper)) rounds))
      | _ \<Rightarrow> Some (Panic, None))"

section \<open>The clients\<close>

definition basic_client_handlers :: "str \<Rightarrow> gen_event \<Rightarrow> str list \<Rightarrow> (gen_data, str list) cprog" where
  "basic_client_handlers name = (if name = ascii ''my_manager_v1'' then basic_client_manager else basic_client_object)"

definition basic_client_dispatcher :: "profile \<Rightarrow> (gen_data, str list) client_dispatcher" where
  "basic_client_dispatcher pr = client_typed_dispatch pr test_protocol_v1 basic_client_handlers"

text \<open>\<open>Client::bind\<close> for the manager: the data is that of its type, on the object that is made.\<close>

definition bind_manager ::
    "profile \<Rightarrow> (gen_data, 'd) client_dispatcher \<Rightarrow> nat \<Rightarrow> u32 \<Rightarrow> poll_round list \<Rightarrow> (gen_data, 'd) client \<Rightarrow>
       (hw_error, nat, (gen_data, 'd) client) eff" where
  "bind_manager pr disp q version rounds w =
     client_bind pr disp q (generate_spec test_protocol_v1)
       \<lparr>gd_object = length (cl_heap w), gd_name = od_name my_manager_v1\<rparr> version rounds w"

definition supported_line :: "u32 \<Rightarrow> str" where
  "supported_line v = ascii ''test protocol supported at version '' @ show_u32 v @ ascii ''. Binding.''"

definition pipe_line :: "i32 \<Rightarrow> str" where
  "pipe_line fd = ascii ''Will send fd '' @ show_i32 fd"

definition client_print :: "str list \<Rightarrow> (gen_data, str list) client \<Rightarrow> (gen_data, str list) client" where
  "client_print ls w = w\<lparr>cl_app := cl_app w @ ls\<rparr>"

definition basic_client_object_calls :: "nat \<Rightarrow> (gen_data, str list) cprog" where
  "basic_client_object_calls manager =
     client_send manager 5 (od_c2s my_manager_v1 ! 5) [] (\<lambda>obj. case obj of
       None \<Rightarrow> CCrash
     | Some object \<Rightarrow>
         client_send object 0 send_message_c2s [VString (ascii ''Hello on object'')] (\<lambda>_.
         client_send object 1 (od_c2s my_object_v1 ! 1) [VEnum world] (\<lambda>_. CFinish)))"

text \<open>From the new socket to the first object; the rounds of the handshake and of \<open>bind\<close>.\<close>

definition basic_client_bound ::
    "profile \<Rightarrow> poll_round list \<Rightarrow> poll_round list \<Rightarrow> i32 \<Rightarrow> (gen_data, str list) client \<Rightarrow>
       (hw_error, nat \<times> nat, (gen_data, str list) client) eff" where
  "basic_client_bound pr hs bs pipe1 w =
     (let disp = basic_client_dispatcher pr;
          (q, w) = new_event_queue w;
          w = client_add_implementation (generate_spec test_protocol_v1) w
      in bind_eff (unwrap (wait_for_handshake pr disp q hs w)) (\<lambda>_ w.
         case client_get_spec (generate_spec test_protocol_v1) w of
           None \<Rightarrow> Some (Panic, w)
         | Some server_spec \<Rightarrow>
             bind_eff (unwrap (bind_manager pr disp q (spec_ver server_spec) bs
                 (client_print [supported_line (spec_ver server_spec)] w))) (\<lambda>manager w.
               Some (Ok (q, manager), client_print [ascii ''Bound!'', pipe_line pipe1] w))))"

text \<open>The calls up to the loop; the rounds of the round trip.\<close>

definition basic_client_session ::
    "profile \<Rightarrow> poll_round list \<Rightarrow> i32 \<Rightarrow> i32 \<Rightarrow> i32 \<Rightarrow> nat \<Rightarrow> nat \<Rightarrow> (gen_data, str list) client \<Rightarrow>
       (hw_error, unit, (gen_data, str list) client) eff" where
  "basic_client_session pr ts pipe1 pipe2 pipe3 q manager w =
     bind_eff (no_error (run_client pr (client_calls manager my_manager_v1 (basic_client_calls pipe1 pipe2 pipe3)) w)) (\<lambda>_ w.
     bind_eff (unwrap (roundtrip pr (basic_client_dispatcher pr) q ts w)) (\<lambda>_ w.
       no_error (run_client pr (basic_client_object_calls manager) w)))"

definition basic_client_main ::
    "profile \<Rightarrow> (str \<Rightarrow> str option) \<Rightarrow> bool \<Rightarrow> bool \<Rightarrow> bool \<Rightarrow> poll_round list \<Rightarrow> poll_round list \<Rightarrow> poll_round list \<Rightarrow>
       poll_round list \<Rightarrow> i32 \<Rightarrow> i32 \<Rightarrow> i32 \<Rightarrow> (hw_error, unit, (gen_data, str list) client option) eff" where
  "basic_client_main pr env connected nonblocking polled hs bs ts ls pipe1 pipe2 pipe3 =
     (case socket_path env of
        Ok path \<Rightarrow>
          (case client_connect connected nonblocking polled [] of
             Ok w \<Rightarrow>
               opened (bind_eff (basic_client_bound pr hs bs pipe1 w) (\<lambda>(q, manager) w.
                 bind_eff (basic_client_session pr ts pipe1 pipe2 pipe3 q manager w) (\<lambda>_.
                   while_ok (client_dispatch_events pr (basic_client_dispatcher pr) q True) ls)))
           | _ \<Rightarrow> Some (Panic, None))
      | _ \<Rightarrow> Some (Panic, None))"

text \<open>
  The client of \<open>calloop\<close> is the same up to the loop, which it is given with its event queue; it stops when its source
  fails.
\<close>

definition calloop_client_main ::
    "profile \<Rightarrow> (str \<Rightarrow> str option) \<Rightarrow> bool \<Rightarrow> bool \<Rightarrow> bool \<Rightarrow> poll_round list \<Rightarrow> poll_round list \<Rightarrow> poll_round list \<Rightarrow>
       i32 \<Rightarrow> i32 \<Rightarrow> i32 \<Rightarrow> (hw_error, nat, (gen_data, str list) client option) eff" where
  "calloop_client_main pr env connected nonblocking polled hs bs ts pipe1 pipe2 pipe3 =
     (case socket_path env of
        Ok path \<Rightarrow>
          (case client_connect connected nonblocking polled [] of
             Ok w \<Rightarrow>
               opened (bind_eff (basic_client_bound pr hs bs pipe1 w) (\<lambda>(q, manager) w.
                 bind_eff (basic_client_session pr ts pipe1 pipe2 pipe3 q manager w) (\<lambda>_ w. Some (Ok q, w))))
           | _ \<Rightarrow> Some (Panic, None))
      | _ \<Rightarrow> Some (Panic, None))"

definition calloop_client_ready ::
    "profile \<Rightarrow> nat \<Rightarrow> poll_round \<Rightarrow> (gen_data, str list) client \<Rightarrow> (hw_error, bool, (gen_data, str list) client) eff" where
  "calloop_client_ready pr q rnd w =
     map_option (\<lambda>(r, w). (case r of Ok _ \<Rightarrow> Ok False | Err _ \<Rightarrow> Ok True | Panic \<Rightarrow> Panic, w))
       (client_dispatch_events pr (basic_client_dispatcher pr) q False rnd w)"

definition calloop_client_manager :: "gen_event \<Rightarrow> str list \<Rightarrow> (gen_data, str list) cprog" where
  "calloop_client_manager = basic_client_manager"

definition calloop_client_object :: "gen_event \<Rightarrow> str list \<Rightarrow> (gen_data, str list) cprog" where
  "calloop_client_object = basic_client_object"

section \<open>The client of fork\<close>

definition fork_client_app_default :: fork_client_app where
  "fork_client_app_default = \<lparr>fc_quit = False, fc_printed = [], fc_object = None, fc_object2 = None\<rparr>"

definition fork_client_print :: "str list \<Rightarrow> (gen_data, fork_client_app) client \<Rightarrow> (gen_data, fork_client_app) client" where
  "fork_client_print ls w = w\<lparr>cl_app := (cl_app w)\<lparr>fc_printed := fc_printed (cl_app w) @ ls\<rparr>\<rparr>"

text \<open>The loop ends with the first error, too; the round trip after it may fail.\<close>

fun quit_loop ::
    "profile \<Rightarrow> nat \<Rightarrow> poll_round list \<Rightarrow> (gen_data, fork_client_app) client \<Rightarrow>
       (hw_error, unit, (gen_data, fork_client_app) client) eff" where
  "quit_loop pr q rounds w =
     (if fc_quit (cl_app w) then Some (Ok (), w)
      else case rounds of
        [] \<Rightarrow> None
      | rnd # rnds \<Rightarrow>
          (case client_dispatch_events pr (fork_client_dispatcher pr) q True rnd w of
             None \<Rightarrow> None
           | Some (Ok _, w) \<Rightarrow> quit_loop pr q rnds w
           | Some (Err e, w) \<Rightarrow> Some (Ok (), w)
           | Some (Panic, w) \<Rightarrow> Some (Panic, w)))"

declare quit_loop.simps [simp del]

definition ignored :: "('e, unit, 'w) eff \<Rightarrow> ('e, unit, 'w) eff" where
  "ignored m = map_option (\<lambda>(r, w). (case r of Panic \<Rightarrow> Panic | _ \<Rightarrow> Ok (), w)) m"

definition fork_client_bound ::
    "profile \<Rightarrow> poll_round list \<Rightarrow> poll_round list \<Rightarrow> i32 \<Rightarrow> (gen_data, fork_client_app) client \<Rightarrow>
       (hw_error, nat \<times> nat, (gen_data, fork_client_app) client) eff" where
  "fork_client_bound pr hs bs pipe1 w =
     (let disp = fork_client_dispatcher pr;
          (q, w) = new_event_queue w;
          w = client_add_implementation (generate_spec test_protocol_v1) w
      in bind_eff (wait_for_handshake pr disp q hs w) (\<lambda>_ w.
         let w = fork_client_print [ascii ''OK!''] w in
         case client_get_spec (generate_spec test_protocol_v1) w of
           None \<Rightarrow> Some (Err (ProtocolViolation NoSpec), w)
         | Some spec \<Rightarrow>
             bind_eff (bind_manager pr disp q (spec_ver spec) bs (fork_client_print [supported_line (spec_ver spec)] w)) (\<lambda>manager w.
               Some (Ok (q, manager), fork_client_print [ascii ''Bound!'', pipe_line pipe1] w))))"

definition fork_client_session ::
    "profile \<Rightarrow> poll_round list \<Rightarrow> poll_round list \<Rightarrow> i32 \<Rightarrow> i32 \<Rightarrow> i32 \<Rightarrow> nat \<Rightarrow> nat \<Rightarrow> (gen_data, fork_client_app) client \<Rightarrow>
       (hw_error, unit, (gen_data, fork_client_app) client) eff" where
  "fork_client_session pr ls ts pipe1 pipe2 pipe3 q manager w =
     bind_eff (no_error (run_client pr (client_calls manager my_manager_v1 (fork_client_calls pipe1 pipe2 pipe3)) w)) (\<lambda>_ w.
     bind_eff (no_error (run_client pr (fork_client_objects manager (cl_app w)) w)) (\<lambda>_ w.
       if fc_object2 (cl_app w) = None then Some (Err ConnectionClosed, w)
       else bind_eff (quit_loop pr q ls w) (\<lambda>_ w. ignored (roundtrip pr (fork_client_dispatcher pr) q ts w))))"

definition fork_client_main ::
    "profile \<Rightarrow> bool \<Rightarrow> bool \<Rightarrow> poll_round list \<Rightarrow> poll_round list \<Rightarrow> poll_round list \<Rightarrow> poll_round list \<Rightarrow> i32 \<Rightarrow> i32 \<Rightarrow> i32 \<Rightarrow>
       (hw_error, unit, (gen_data, fork_client_app) client option) eff" where
  "fork_client_main pr nonblocking polled hs bs ls ts pipe1 pipe2 pipe3 =
     (case client_from_fd nonblocking polled fork_client_app_default of
        Ok w \<Rightarrow>
          opened (bind_eff (fork_client_bound pr hs bs pipe1 w) (\<lambda>(q, manager).
            fork_client_session pr ls ts pipe1 pipe2 pipe3 q manager))
      | Err e \<Rightarrow> Some (Err e, None)
      | Panic \<Rightarrow> Some (Panic, None))"

section \<open>How they end\<close>

lemma while_ok_no_Err: "while_ok step rounds w \<noteq> Some (Err e, w')"
  by (induction step rounds w rule: while_ok.induct) (auto split: option.splits res.splits)

lemma basic_server_main_ends: "fst (basic_server_main pr contents upper show_pid env os rounds fs) \<noteq> Some (Err e, w)"
  by (auto simp: basic_server_main_def opened_def while_ok_no_Err split: res.splits prod.splits option.splits)

lemma wait_while_Ok: "wait_while running step rounds w = Some (Ok (), w') \<Longrightarrow> \<not> running w'"
proof (induction rounds arbitrary: w)
  case Nil
  then show ?case by (subst (asm) wait_while.simps) (auto split: if_splits)
next
  case (Cons rnd rounds)
  then show ?case by (subst (asm) wait_while.simps) (auto simp: bind_eff_Some split: if_splits)
qed

lemma opened_Some: "opened m = Some (r, x) \<longleftrightarrow> (\<exists>w. m = Some (r, w) \<and> x = Some w)"
  by (cases m) (auto simp: opened_def)

text \<open>The server of \<open>fork\<close> leaves its loop without an error only when an object has been sent the enum.\<close>

lemma fork_server_main_quits:
  "fork_server_main pr contents upper poller added peer rounds = Some (Ok (), x) \<Longrightarrow> \<exists>w. x = Some w \<and> fa_quit (sv_app w)"
  by (auto simp: fork_server_main_def opened_Some bind_eff_Some dest!: wait_while_Ok split: if_splits res.splits)

section \<open>What the client has said\<close>

text \<open>\<open>Client::bind\<close> returns an object of the first type of the protocol, with an id.\<close>

lemma client_bind_made:
  fixes w w' :: "('h, 'd) client"
  assumes bind: "client_bind pr disp q proto h v rounds w = Some (Ok r, w')" and objects: "spec_objects proto = ospec # rest"
  shows "r < length (cl_heap w')" "co_spec (cl_heap w' ! r) = Some ospec" "co_id (cl_heap w' ! r) \<noteq> 0"
proof -
  from bind obtain spec r0 w1 where spec: "client_get_spec proto w = Some spec"
    and made: "client_bind_protocol pr q spec v w = Some (Ok r0, w1)"
    and rest: "(case wait_for_object pr disp q r0 rounds (client_set_data r0 h (hold_object r0 w1)) of
        None \<Rightarrow> None
      | Some (Ok _, w) \<Rightarrow> bind_eff (no_error (release_object pr r0 w)) (\<lambda>_ w. Some (Ok r0, w))
      | Some (Err e, w) \<Rightarrow> bind_failed pr r0 e w
      | Some (Panic, w) \<Rightarrow> Some (Panic, w)) = Some (Ok r, w')"
    unfolding client_bind_def Let_def by (auto simp: bind_eff_Some split: option.splits)
  from rest obtain w2 where waited: "wait_for_object pr disp q r0 rounds (client_set_data r0 h (hold_object r0 w1)) = Some (Ok (), w2)"
    and released: "no_error (release_object pr r0 w2) = Some (Ok (), w')" and r: "r0 = r"
    by (cases "wait_for_object pr disp q r0 rounds (client_set_data r0 h (hold_object r0 w1))")
      (auto simp: bind_failed_def bind_eff_Some split: res.splits)
  let ?w1 = "client_set_data r h (hold_object r w1)"
  from spec objects have "spec_objects spec = ospec # rest"
    by (auto simp: client_get_spec_def split: option.splits)
  with made r have w1: "r < length (cl_heap w1)" "co_spec (cl_heap w1 ! r) = Some ospec"
    by (auto simp: client_bind_protocol_def bind_eff_Some Let_def push_object_def fresh_object_def upd_cconn_def take_seq_def
        lift_res_def split: if_splits res.splits)
  then have "r < length (cl_heap ?w1)" "co_spec (cl_heap ?w1 ! r) = Some ospec"
    by (simp_all add: client_set_data_def hold_object_def upd_cobj_def)
  moreover have "history_le ?w1 w2"
    using keeps_Ok[OF client_history.binding.keeps_wait_for_object] waited[unfolded r] by auto
  ultimately have w2: "r < length (cl_heap w2)" "co_spec (cl_heap w2 ! r) = Some ospec"
    by (auto simp: history_le_def cobj_evolves_def cobj_le_def)
  have "co_id (cl_heap w2 ! r) \<noteq> 0"
    using waited[unfolded r] by (auto simp: wait_for_object_def bind_eff_Some dest!: wait_while_Ok split: if_splits)
  moreover have "ids_kept w2 w'"
    using keeps_Ok[OF keeps_no_error[OF callback_ids.keeps_release]] released[unfolded r] by auto
  ultimately show "r < length (cl_heap w')" "co_spec (cl_heap w' ! r) = Some ospec" "co_id (cl_heap w' ! r) \<noteq> 0"
    using w2 by (auto simp: ids_kept_def cobj_le_def)
qed

lemma basic_client_bound_manager:
  assumes "basic_client_bound pr hs bs pipe1 w = Some (Ok (q, r), w')"
  shows "r < length (cl_heap w')" "co_spec (cl_heap w' ! r) = Some (generate_object_spec my_manager_v1)" "co_id (cl_heap w' ! r) \<noteq> 0"
proof -
  from assms have "\<exists>v w1 w2. bind_manager pr (basic_client_dispatcher pr) q v bs w1 = Some (Ok r, w2) \<and>
      w' = client_print [ascii ''Bound!'', pipe_line pipe1] w2"
    unfolding basic_client_bound_def Let_def
    by (auto simp: bind_eff_Some simp del: ascii_Cons split: prod.splits option.splits) blast
  then obtain v w1 w2 where
    "bind_manager pr (basic_client_dispatcher pr) q v bs w1 = Some (Ok r, w2)"
    and w': "w' = client_print [ascii ''Bound!'', pipe_line pipe1] w2" by blast
  note client_bind_made[OF this(1)[unfolded bind_manager_def], of "generate_object_spec my_manager_v1"]
  then show "r < length (cl_heap w')" "co_spec (cl_heap w' ! r) = Some (generate_object_spec my_manager_v1)"
    "co_id (cl_heap w' ! r) \<noteq> 0"
    by (simp_all add: w' client_print_def generate_spec_def test_protocol_v1_def)
qed

lemma no_error_Ok: "no_error m = Some (Ok x, w) \<longleftrightarrow> m = Some (Ok x, w)"
  by (cases m) (auto simp: no_error_def split: res.splits)

lemma basic_client_session_says:
  assumes session: "basic_client_session pr ts pipe1 pipe2 pipe3 q r w = Some (Ok (), w')"
    and obj: "r < length (cl_heap w)" "co_spec (cl_heap w ! r) = Some (generate_object_spec my_manager_v1)" "co_id (cl_heap w ! r) \<noteq> 0"
    and pipes: "pipe1 \<noteq> - 1" "pipe2 \<noteq> - 1" "pipe3 \<noteq> - 1"
  shows "\<exists>gs more. c_out (cl_conn w') = c_out (cl_conn w) @ map MGeneric gs @ more \<and>
    list_all2 (carries (co_id (cl_heap w ! r)) my_manager_v1) gs (basic_client_calls pipe1 pipe2 pipe3)"
proof -
  obtain w1 gs where calls: "run_client pr (client_calls r my_manager_v1 (basic_client_calls pipe1 pipe2 pipe3)) w = Some (Ok (), w1)"
    "c_out (cl_conn w1) = c_out (cl_conn w) @ map MGeneric gs"
    "list_all2 (carries (co_id (cl_heap w ! r)) my_manager_v1) gs (basic_client_calls pipe1 pipe2 pipe3)"
    using client_sends_calls[OF client_calls_plain[OF pipes] obj(1,2) refl obj(3)] by metis
  with session obtain w2 where rt: "roundtrip pr (basic_client_dispatcher pr) q ts w1 = Some (Ok (), w2)"
    and last: "run_client pr (basic_client_object_calls r) w2 = Some (Ok (), w')"
    by (auto simp: basic_client_session_def bind_eff_Some no_error_Ok)
  have "history_le w1 w2" "history_le w2 w'"
    using keeps_Ok[OF client_history.binding.keeps_roundtrip rt] keeps_Ok[OF client_history.keeps_run_client last] by simp_all
  then have "history_le w1 w'" by (rule history_le_trans)
  then obtain more where "c_out (cl_conn w') = c_out (cl_conn w1) @ more" by (auto simp: history_le_def conn_le_def)
  with calls(2,3) show ?thesis by auto
qed

text \<open>
  Whatever the server and the kernel answer: a client of \<open>calloop\<close> that gets to its loop has made its calls on the manager, in
  order, with nothing between them; and so has one of \<open>basic\<close> that leaves its loop.
\<close>

definition has_called :: "(gen_data, str list) client \<Rightarrow> gen_call list \<Rightarrow> bool" where
  "has_called w cs \<longleftrightarrow> (\<exists>oid before gs more. c_out (cl_conn w) = before @ map MGeneric gs @ more \<and>
     list_all2 (carries oid my_manager_v1) gs cs)"

lemma has_called_later: "has_called w cs \<Longrightarrow> history_le w w' \<Longrightarrow> has_called w' cs"
  by (fastforce simp: has_called_def history_le_def conn_le_def)

lemma basic_client_says:
  assumes "basic_client_bound pr hs bs pipe1 w = Some (Ok (q, r), w1)"
    and "basic_client_session pr ts pipe1 pipe2 pipe3 q r w1 = Some (Ok (), w2)"
    and pipes: "pipe1 \<noteq> - 1" "pipe2 \<noteq> - 1" "pipe3 \<noteq> - 1"
  shows "has_called w2 (basic_client_calls pipe1 pipe2 pipe3)"
  using basic_client_session_says[OF assms(2) basic_client_bound_manager[OF assms(1)] pipes] unfolding has_called_def by blast

theorem calloop_client_says:
  assumes "calloop_client_main pr env connected nonblocking polled hs bs ts pipe1 pipe2 pipe3 = Some (Ok q, Some w)"
    and "pipe1 \<noteq> - 1" "pipe2 \<noteq> - 1" "pipe3 \<noteq> - 1"
  shows "has_called w (basic_client_calls pipe1 pipe2 pipe3)"
  using assms basic_client_says[OF _ _ assms(2-4)]
  by (fastforce simp: calloop_client_main_def opened_Some bind_eff_Some split: res.splits)

lemma while_ok_keeps:
  "(\<And>rnd w. keeps history_le w (step rnd w)) \<Longrightarrow> keeps history_le w (while_ok step rounds w)"
proof (induction rounds arbitrary: w)
  case (Cons rnd rounds)
  note step = Cons.prems[of w rnd] and later = Cons.IH[OF Cons.prems]
  show ?case
    using step later
    by (auto simp: keeps_def split: option.splits res.splits intro: history_le_trans)
qed simp

theorem basic_client_main_says:
  assumes main: "basic_client_main pr env connected nonblocking polled hs bs ts ls pipe1 pipe2 pipe3 = Some (Ok (), Some w)"
    and pipes: "pipe1 \<noteq> - 1" "pipe2 \<noteq> - 1" "pipe3 \<noteq> - 1"
  shows "has_called w (basic_client_calls pipe1 pipe2 pipe3)"
proof -
  from main obtain w0 q r w1 w2 where "basic_client_bound pr hs bs pipe1 w0 = Some (Ok (q, r), w1)"
    "basic_client_session pr ts pipe1 pipe2 pipe3 q r w1 = Some (Ok (), w2)"
    and rest: "while_ok (client_dispatch_events pr (basic_client_dispatcher pr) q True) ls w2 = Some (Ok () :: (hw_error, unit) res, w)"
    by (auto simp: basic_client_main_def opened_Some bind_eff_Some split: res.splits)
  from basic_client_says[OF this(1,2) pipes] have "has_called w2 (basic_client_calls pipe1 pipe2 pipe3)" .
  moreover have "history_le w2 w"
    using keeps_Ok[OF while_ok_keeps rest] client_history.binding.keeps_client_dispatch_events[OF TrueI] by blast
  ultimately show ?thesis by (rule has_called_later)
qed

end
