(* ===== verification/Error_Text.thy ===== *)
theory Error_Text
  imports Connection
begin

text \<open>
  The texts of errors: \<open>Display\<close> of \<open>hyprwire-core/src/message/error.rs\<close> and \<open>hyprwire/src/error.rs\<close>, and \<open>source\<close>. How an error
  of the operating system is printed is an argument.
\<close>

primrec show_error :: "error \<Rightarrow> str" where
  "show_error UnexpectedEof = ascii ''unexpected end of message data''"
| "show_error InvalidMessageType = ascii ''invalid message type''"
| "show_error InvalidFieldType = ascii ''invalid field type''"
| "show_error InvalidVarInt = ascii ''invalid variable-length integer''"
| "show_error MalformedMessage = ascii ''malformed message''"
| "show_error TooManyVersions = ascii ''handshake advertised more than 256 versions''"
| "show_error TooManyProtocols = ascii ''handshake listed more than 2048 protocols''"
| "show_error ArrayTooLong = ascii ''array field exceeds maximum length''"
| "show_error InvalidVersion = ascii ''version number is out of range''"
| "show_error InvalidMessage = ascii ''message type is not valid in this connection role''"
| "show_error VersionNegotiationFailed = ascii ''no common protocol version found''"
| "show_error NoSpec = ascii ''no spec registered for object''"
| "show_error InvalidMethod = ascii ''method index out of range for interface''"
| "show_error InvalidParameter = ascii ''method argument type or value is invalid''"

primrec show_hw_error :: "str \<Rightarrow> hw_error \<Rightarrow> str" where
  "show_hw_error io ConnectionClosed = ascii ''connection closed''"
| "show_hw_error io ProtocolNotFound = ascii ''server does not advertise the requested protocol''"
| "show_hw_error io HandshakeTimeout = ascii ''handshake timed out''"
| "show_hw_error io VersionNegotiation = ascii ''version negotiation failed: no common protocol version''"
| "show_hw_error io (VersionOutOfRange requested limit) =
     ascii ''requested version '' @ show_u32 requested @ ascii '' exceeds spec maximum '' @ show_u32 limit"
| "show_hw_error io (ProtocolViolation e) = ascii ''protocol violation: '' @ show_error e"
| "show_hw_error io Io = ascii ''I/O error: '' @ io"

text \<open>\<open>source\<close>, for the errors of the protocol; that of an I/O error is the operating system's.\<close>

primrec hw_error_source :: "hw_error \<Rightarrow> error option" where
  "hw_error_source (ProtocolViolation e) = Some e"
| "hw_error_source ConnectionClosed = None"
| "hw_error_source HandshakeTimeout = None"
| "hw_error_source VersionNegotiation = None"
| "hw_error_source ProtocolNotFound = None"
| "hw_error_source (VersionOutOfRange requested limit) = None"
| "hw_error_source Io = None"

text \<open>The text tells the errors of the protocol apart, and an error that was converted still names its cause.\<close>

lemma show_error_inj: "show_error e = show_error e' \<longleftrightarrow> e = e'"
  by (cases e; cases e'; simp)

lemma converted_text: "show_hw_error io (hw_error_from e) = (if e = VersionNegotiationFailed
    then ascii ''version negotiation failed: '' @ ascii ''no common protocol version'' else ascii ''protocol violation: '' @ show_error e)"
  by (simp add: hw_error_from_def)

end
