(* ===== verification/Agreement.thy ===== *)
theory Agreement
  imports Exchange
begin

text \<open>
  What the two sides of a connection agree on in every state, however their steps interleave. The server keeps that
  what it has announced on a connection is exactly the list of the objects of that client, in the order of
  their creation (\<open>announced_ok\<close>). A client knows no id but from an announcement it has read (\<open>ids_known\<close>).
  A run of the client is followed with the messages it has read so far; when these are the first ones the
  server has sent, the two have the same objects.
\<close>

section \<open>What the server has announced\<close>

definition origins :: "('h, 'd) server \<Rightarrow> (nat \<times> u32 \<times> u32) list" where
  "origins w = map (\<lambda>obj. (so_client obj, so_seq obj, so_id obj)) (sv_objects w)"

definition announced_lists :: "('h, 'd) server \<Rightarrow> (u32 \<times> u32) list list" where
  "announced_lists w = map (\<lambda>c. announcements (c_out (sc_conn c))) (sv_client_heap w)"

definition announced_views :: "(nat \<times> u32 \<times> u32) list \<Rightarrow> (u32 \<times> u32) list list \<Rightarrow> bool" where
  "announced_views ov cv \<longleftrightarrow> (\<forall>x \<in> set ov. fst x < length cv) \<and>
     (\<forall>k < length cv. cv ! k = map snd (filter (\<lambda>x. fst x = k) ov))"

definition announced_ok :: "('h, 'd) server \<Rightarrow> bool" where
  "announced_ok w \<longleftrightarrow> announced_views (origins w) (announced_lists w)"

definition announced_step :: "('h, 'd) server \<Rightarrow> ('h, 'd) server \<Rightarrow> bool" where
  "announced_step w w' \<longleftrightarrow> inv_step w w' \<and> (announced_ok w \<longrightarrow> announced_ok w')"

lemma announced_views_push: "announced_views ov cv \<Longrightarrow> announced_views ov (cv @ [[]])"
  by (fastforce simp: announced_views_def nth_append less_Suc_eq filter_empty_conv)

lemma announced_views_create:
  "announced_views ov cv \<Longrightarrow> k < length cv \<Longrightarrow> announced_views (ov @ [(k, x)]) (cv[k := cv ! k @ [x]])"
  by (auto simp: announced_views_def nth_list_update)

lemma origins_update: "object_le (sv_objects w ! r) (f (sv_objects w ! r)) \<Longrightarrow> origins (upd_object r f w) = origins w"
  unfolding origins_def upd_object_def by (auto simp: object_le_def intro!: map_same_update)

lemma announced_update:
  "talks (sc_conn (sv_client_heap w ! k)) (sc_conn (g (sv_client_heap w ! k))) \<Longrightarrow> announced_lists (upd_client k g w) = announced_lists w"
  unfolding announced_lists_def upd_client_def by (auto simp: talks_def intro!: map_same_update)

lemma announced_ok_create:
  assumes ok: "announced_ok w" and k: "k < length (sv_client_heap w)"
  shows "announced_ok (snd (client_create_object k protocol name version seq w))"
proof -
  let ?w = "snd (client_create_object k protocol name version seq w)"
  let ?x = "(seq, sc_max_id (sv_client_heap w ! k))"
  have "origins ?w = origins w @ [(k, ?x)]"
    by (simp add: origins_def client_create_object_def Let_def upd_client_def)
  moreover have "announced_lists ?w = (announced_lists w)[k := announced_lists w ! k @ [?x]]"
    using k by (simp add: announced_lists_def client_create_object_def Let_def upd_client_def map_update new_object_new_def)
  moreover have "k < length (announced_lists w)" using k by (simp add: announced_lists_def)
  ultimately show ?thesis
    using announced_views_create ok by (simp add: announced_ok_def)
qed

interpretation announcing: socket_relation announced_step
proof
  show "announced_step w w" for w :: "('a, 'b) server"
    by (simp add: announced_step_def ids.R_refl)
  show "announced_step a c" if "announced_step a b" "announced_step b c" for a b c :: "('a, 'b) server"
    using that by (auto simp: announced_step_def intro: ids.R_trans)
  show "announced_step w (w\<lparr>sv_app := d\<rparr>)" for w :: "('a, 'b) server" and d
    by (simp add: announced_step_def ids.R_app announced_ok_def origins_def announced_lists_def)
  show "announced_step w (upd_object r f w)" if "\<And>obj. object_le obj (f obj)" for f r and w :: "('a, 'b) server"
    using ids.R_object[OF that] origins_update[of w r f] that
    by (simp add: announced_step_def announced_ok_def) (simp add: announced_lists_def upd_object_def)
  show "announced_step w (upd_client k g w)" if "\<And>c. client_le c (g c)" for g k and w :: "('a, 'b) server"
    using ids.R_client[OF that] announced_update[of w k g] that
    by (simp add: announced_step_def announced_ok_def client_le_def) (simp add: origins_def upd_client_def)
  show "announced_step w (snd (client_create_object k protocol name version seq w))"
    if "k < length (sv_client_heap w) \<or> (\<exists>r < length (sv_objects w). so_client (sv_objects w ! r) = k)"
    for k protocol name version seq and w :: "('a, 'b) server"
  proof -
    have "announced_ok (snd (client_create_object k protocol name version seq w))" if ok: "announced_ok w"
    proof (rule announced_ok_create[OF ok])
      show "k < length (sv_client_heap w)"
        using \<open>k < length (sv_client_heap w) \<or> _\<close> ok
        by (auto simp: announced_ok_def announced_views_def origins_def announced_lists_def)
    qed
    with ids.R_create[OF that] show ?thesis by (simp add: announced_step_def)
  qed
  show "length (sv_client_heap w) \<le> length (sv_client_heap w')" if "announced_step w w'" for w w' :: "('a, 'b) server"
    using that ids.R_heap by (auto simp: announced_step_def)
  show "announced_step w w'" if "push_client pr peer w = Ok (i, w')" for pr peer i and w w' :: "('a, 'b) server"
    using that ids.R_push[OF that] announced_views_push
    by (auto simp: announced_step_def announced_ok_def push_client_def Let_def bind_res_eq_Ok origins_def
        announced_lists_def server_client_new_def conn_new_def)
  show "announced_step w (w\<lparr>sv_clients := ks\<rparr>)" if "set ks \<subseteq> set (sv_clients w)" for ks and w :: "('a, 'b) server"
    using ids.R_clients[OF that] by (simp add: announced_step_def announced_ok_def origins_def announced_lists_def)
  show "announced_step w (add_implementation im w)" for im and w :: "('a, 'b) server"
    using ids.R_impls[of w im]
    by (simp add: announced_step_def announced_ok_def origins_def announced_lists_def add_implementation_def)
  show "clients_ok w'" if "announced_step w w'" "clients_ok w" for w w' :: "('a, 'b) server"
    using that ids.R_clients_ok by (auto simp: announced_step_def)
  show "announced_step w (upd_client k (\<lambda>c. c\<lparr>sc_alive := False\<rparr>) w)"
    "announced_step w (upd_client k (\<lambda>c. c\<lparr>sc_scheduled_roundtrip_seq := s\<rparr>) w)" for k s and w :: "('a, 'b) server"
    using ids.R_bury[of w k] announced_update[of w k "\<lambda>c. c\<lparr>sc_alive := False\<rparr>"]
      ids.R_due[of w k s] announced_update[of w k "\<lambda>c. c\<lparr>sc_scheduled_roundtrip_seq := s\<rparr>"]
    by (simp_all add: announced_step_def announced_ok_def) (simp_all add: origins_def upd_client_def)
qed

lemma server_step_announced:
  assumes "server_step pr disp w w'" and "clients_ok w"
  shows "announced_step w w'"
  using assms
proof cases
  case (implement im)
  then show ?thesis using announcing.R_impls by simp
next
  case (add ok peer r)
  then show ?thesis using keepsD[OF announcing.keeps_add_client] by blast
next
  case (remove i r)
  then show ?thesis using keepsD[OF announcing.keeps_remove_client] by blast
next
  case (app p)
  then show ?thesis using keepsD[OF announcing.keeps_run] by blast
next
  case (dispatch waits r)
  then show ?thesis using keepsD[OF announcing.keeps_dispatch_events[OF assms(2)]] by blast
qed

lemma server_reachable_announced: "server_reachable pr disp w \<Longrightarrow> announced_ok w"
proof (induction rule: server_reachable.induct)
  case (start listening app)
  show ?case
    by (simp add: server_new_def announced_ok_def announced_views_def origins_def announced_lists_def)
next
  case (step w w')
  then show ?case
    using server_step_announced[of pr disp w w'] server_reachable_inv[of pr disp w] by (simp add: announced_step_def)
qed

section \<open>What the client knows\<close>

definition ids_known :: "(u32 \<times> u32) set \<Rightarrow> ('h, 'd) client \<Rightarrow> bool" where
  "ids_known A w \<longleftrightarrow> (\<forall>obj \<in> set (cl_heap w). co_id obj \<noteq> 0 \<longrightarrow> (co_seq obj, co_id obj) \<in> A)"

definition known_step :: "(u32 \<times> u32) set \<Rightarrow> ('h, 'd) client \<Rightarrow> ('h, 'd) client \<Rightarrow> bool" where
  "known_step A w w' \<longleftrightarrow> (ids_known A w \<longrightarrow> ids_known A w')"

text \<open>The messages the answers of the system are, if they are any.\<close>

definition reads_messages :: "profile \<Rightarrow> message list \<Rightarrow> recv_answer list \<Rightarrow> bool" where
  "reads_messages pr ms answers \<longleftrightarrow>
     (\<forall>m \<in> set ms. sendable pr m) \<and> length (stream_data ms) \<le> isize_max \<and>
     (\<forall>raw. read_from_socket answers = Some raw \<longrightarrow> raw_data raw = stream_data ms \<and> raw_fds raw = stream_fds ms)"

definition announces_in :: "(u32 \<times> u32) set \<Rightarrow> profile \<Rightarrow> recv_answer list \<Rightarrow> bool" where
  "announces_in A pr answers \<longleftrightarrow> (\<exists>ms. reads_messages pr ms answers \<and> set (announcements ms) \<subseteq> A)"

lemma ids_known_update:
  assumes "ids_known A w"
    and "r < length (cl_heap w) \<Longrightarrow> co_id (f (cl_heap w ! r)) = 0 \<or> (co_seq (f (cl_heap w ! r)), co_id (f (cl_heap w ! r))) \<in> A"
  shows "ids_known A (upd_cobj r f w)"
  using assms unfolding ids_known_def upd_cobj_def
  by (cases "r < length (cl_heap w)") (auto dest!: set_update_subset_insert[THEN subsetD] simp: list_update_beyond)

interpretation knowing: callback_relation "known_step A" pr for A pr
proof
  show "known_step A w (upd_cobj r f w)" if "\<And>obj. cobj_le obj (f obj)" for r f and w :: "('a, 'b) client"
    unfolding known_step_def
  proof (intro impI ids_known_update)
    assume "ids_known A w" "r < length (cl_heap w)"
    then show "co_id (f (cl_heap w ! r)) = 0 \<or> (co_seq (f (cl_heap w ! r)), co_id (f (cl_heap w ! r))) \<in> A"
      using that[of "cl_heap w ! r"] by (auto simp: ids_known_def cobj_le_def)
  qed
qed (auto simp: known_step_def ids_known_def upd_queue_def upd_cconn_def take_seq_def push_object_def fresh_object_def)

lemma keeps_known_receive:
  assumes "set (announcements [m]) \<subseteq> A"
  shows "keeps (known_step A) w (client_receive pr disp q m w)"
proof (cases m)
  case (MNewObject n)
  have "ids_known A (on_seq (new_seq n) (new_id n) w)" if known: "ids_known A w"
  proof (cases "object_for_seq (new_seq n) w")
    case (Some r)
    then have "co_seq (cl_heap w ! r) = new_seq n" by (auto simp: object_for_seq_def dest: find_SomeD)
    with Some known assms MNewObject show ?thesis
      by (auto simp: on_seq_def intro!: ids_known_update)
  qed (simp add: on_seq_def known)
  with MNewObject show ?thesis by (simp add: client_receive_def knowing.keeps_Some_R known_step_def)
next
  case (MGeneric g)
  then show ?thesis by (simp add: client_receive_def knowing.keeps_client_on_generic)
next
  case (MHandshakeProtocols hp)
  then show ?thesis
    by (simp add: client_receive_def knowing.keeps_Some_R known_step_def ids_known_def server_specs_def)
next
  case (MRoundtripDone d)
  then show ?thesis by (simp add: client_receive_def knowing.keeps_Some_R known_step_def ids_known_def upd_queue_def)
qed (auto simp: client_receive_def intro!: knowing.keeps_Some_R knowing.R_send knowing.R_error)

lemma keeps_known_receive_all:
  "set (announcements ms) \<subseteq> A \<Longrightarrow> keeps (known_step A) w (receive_all (client_receive pr disp q) ms w)"
proof (induction ms arbitrary: w)
  case (Cons m ms)
  then have "set (announcements [m]) \<subseteq> A" "set (announcements ms) \<subseteq> A"
    by (auto simp: announcements_fold[of m ms])
  with Cons.IH show ?case by (auto intro!: knowing.keeps_trans keeps_known_receive)
qed (simp add: knowing.keeps_done)

interpretation knowing: binding_relation "known_step A" pr "announces_in A pr" for A pr
proof
  show "keeps (known_step A) w (client_handle_message pr disp q (raw_data raw) (raw_fds raw) 0 w)"
    if "announces_in A pr answers" "read_from_socket answers = Some raw" for answers raw disp q and w :: "('a, 'b) client"
    using that keeps_known_receive_all client_stream.loop_stream[of _ pr disp q w]
    by (auto simp: announces_in_def reads_messages_def)
qed (auto simp: known_step_def ids_known_def push_object_def take_seq_def fresh_object_def)

section \<open>A run of the client with what it has read\<close>

text \<open>
  The steps of \<open>client_step\<close>; the third argument is the messages read since the start, in order. Every round
  of a step reads whole messages within the receiver's limits, or nothing.
\<close>

abbreviation rounds_read :: "profile \<Rightarrow> message list list \<Rightarrow> poll_round list \<Rightarrow> bool" where
  "rounds_read pr \<equiv> list_all2 (\<lambda>ms rnd. reads_messages pr ms (pl_recv rnd))"

inductive client_run :: "profile \<Rightarrow> ('h, 'd) client_dispatcher \<Rightarrow> message list \<Rightarrow> ('h, 'd) client \<Rightarrow> bool"
  for pr disp where
  start: "client_run pr disp [] (client_new app)"
| implement: "client_run pr disp ms w \<Longrightarrow> client_run pr disp ms (client_add_implementation im w)"
| queue: "client_run pr disp ms w \<Longrightarrow> client_run pr disp ms (snd (new_event_queue w))"
| app: "client_run pr disp ms w \<Longrightarrow> run_client pr p w = Some (Ok (), w') \<Longrightarrow> client_run pr disp ms w'"
| dispatch: "client_run pr disp ms w \<Longrightarrow> client_dispatch_events pr disp q block rnd w = Some (r, w') \<Longrightarrow>
    r \<noteq> Panic \<Longrightarrow> reads_messages pr new (pl_recv rnd) \<Longrightarrow> client_run pr disp (ms @ new) w'"
| roundtrip: "client_run pr disp ms w \<Longrightarrow> roundtrip pr disp q rounds w = Some (r, w') \<Longrightarrow>
    r \<noteq> Panic \<Longrightarrow> rounds_read pr new rounds \<Longrightarrow> client_run pr disp (ms @ concat new) w'"
| handshake: "client_run pr disp ms w \<Longrightarrow> wait_for_handshake pr disp q rounds w = Some (r, w') \<Longrightarrow>
    r \<noteq> Panic \<Longrightarrow> rounds_read pr new rounds \<Longrightarrow> client_run pr disp (ms @ concat new) w'"
| bind: "client_run pr disp ms w \<Longrightarrow> client_bind pr disp q proto h version rounds w = Some (x, w') \<Longrightarrow>
    x \<noteq> Panic \<Longrightarrow> rounds_read pr new rounds \<Longrightarrow> client_run pr disp (ms @ concat new) w'"
| drop_queue: "client_run pr disp ms w \<Longrightarrow> client_run pr disp ms (upd_queue q (\<lambda>eq. eq\<lparr>eq_alive := False\<rparr>) w)"
| drop_client: "client_run pr disp ms w \<Longrightarrow> client_run pr disp ms (w\<lparr>cl_alive := False\<rparr>)"

lemma client_run_reachable: "client_run pr disp ms w \<Longrightarrow> client_reachable pr disp w"
  by (induction rule: client_run.induct) (blast intro: client_reachable.intros client_step.intros)+

lemma ids_known_mono: "ids_known A w \<Longrightarrow> A \<subseteq> B \<Longrightarrow> ids_known B w"
  by (auto simp: ids_known_def)

lemma rounds_announce:
  assumes "rounds_read pr new rounds" and "set (announcements (concat new)) \<subseteq> A"
  shows "\<forall>rnd \<in> set rounds. announces_in A pr (pl_recv rnd)"
  using assms by (induction new rounds rule: list_all2_induct) (auto simp: announces_in_def)

lemma client_run_known: "client_run pr disp ms w \<Longrightarrow> ids_known (set (announcements ms)) w"
proof (induction rule: client_run.induct)
  case (app ms w p w')
  then show ?case using keepsD[OF knowing.keeps_run_client app.hyps(2)] by (simp add: known_step_def)
next
  case (dispatch ms w q block rnd r w' new)
  let ?A = "set (announcements (ms @ new))"
  have "ids_known ?A w" using dispatch.IH by (rule ids_known_mono) auto
  moreover have "announces_in ?A pr (pl_recv rnd)" using dispatch.hyps(4) by (auto simp: announces_in_def)
  ultimately show ?case
    using keepsD[OF knowing.keeps_client_dispatch_events dispatch.hyps(2,3), of ?A] by (simp add: known_step_def)
next
  case (roundtrip ms w q rounds r w' new)
  let ?A = "set (announcements (ms @ concat new))"
  have "ids_known ?A w" using roundtrip.IH by (rule ids_known_mono) auto
  moreover have "\<forall>rnd \<in> set rounds. announces_in ?A pr (pl_recv rnd)" using roundtrip.hyps(4) by (rule rounds_announce) auto
  ultimately show ?case
    using keepsD[OF knowing.keeps_roundtrip roundtrip.hyps(2,3), of ?A] by (simp add: known_step_def)
next
  case (handshake ms w q rounds r w' new)
  let ?A = "set (announcements (ms @ concat new))"
  have "ids_known ?A w" using handshake.IH by (rule ids_known_mono) auto
  moreover have "\<forall>rnd \<in> set rounds. announces_in ?A pr (pl_recv rnd)" using handshake.hyps(4) by (rule rounds_announce) auto
  ultimately show ?case
    using keepsD[OF knowing.keeps_wait_for_handshake handshake.hyps(2,3), of ?A] by (simp add: known_step_def)
next
  case (bind ms w q proto h version rounds x w' new)
  let ?A = "set (announcements (ms @ concat new))"
  have "ids_known ?A w" using bind.IH by (rule ids_known_mono) auto
  moreover have "\<forall>rnd \<in> set rounds. announces_in ?A pr (pl_recv rnd)" using bind.hyps(4) by (rule rounds_announce) auto
  ultimately show ?case
    using keepsD[OF knowing.keeps_client_bind bind.hyps(2,3), of ?A] by (simp add: known_step_def)
qed (simp_all add: ids_known_def client_new_def client_add_implementation_def new_event_queue_def upd_queue_def)

section \<open>The agreement\<close>

text \<open>All objects a client has had, those that are gone included, have different ids.\<close>

lemma object_by_id:
  assumes inv: "server_inv w" and k: "k < length (sv_client_heap w)" and few: "created k w < 2 ^ 32"
    and t: "t < length (sv_objects w)" "so_client (sv_objects w ! t) = k"
    and t': "t' < length (sv_objects w)" "so_client (sv_objects w ! t') = k"
    and eq: "so_id (sv_objects w ! t) = so_id (sv_objects w ! t')"
  shows "t = t'"
proof -
  let ?ks = "filter (\<lambda>t. so_client (sv_objects w ! t) = k) [0..<length (sv_objects w)]"
  have "client_ok (objects_view w) k (clients_view w ! k)"
    using inv k by (simp add: server_inv_def views_ok_def clients_view_def)
  moreover have "length (ids_of (objects_view w) k) < 2 ^ 32"
    using few by (simp add: ids_of_def objects_view_def created_def filter_map comp_def)
  ultimately have "distinct (ids_of (objects_view w) k)"
    using distinct_count_ids by (metis client_ok_def)
  moreover have "filter (\<lambda>obj. so_client obj = k) (sv_objects w) = map ((!) (sv_objects w)) ?ks"
    by (subst map_nth[of "sv_objects w", symmetric]) (simp add: filter_map comp_def)
  then have "ids_of (objects_view w) k = map (\<lambda>t. so_id (sv_objects w ! t)) ?ks"
    by (simp add: ids_of_def objects_view_def filter_map comp_def)
  ultimately have "inj_on (\<lambda>t. so_id (sv_objects w ! t)) (set ?ks)" by (simp add: distinct_map)
  with t t' eq show ?thesis by (auto dest: inj_onD)
qed

lemma announced_object:
  assumes "announced_ok w" and "k < length (sv_client_heap w)"
    and "(s, i) \<in> set (announcements (c_out (conn_at k w)))"
  obtains t where "t < length (sv_objects w)" "so_client (sv_objects w ! t) = k"
    "so_seq (sv_objects w ! t) = s" "so_id (sv_objects w ! t) = i"
proof -
  have "announcements (c_out (conn_at k w)) = map snd (filter (\<lambda>x. fst x = k) (origins w))"
    using assms(1,2) by (simp add: announced_ok_def announced_views_def announced_lists_def conn_at_def)
  with assms(3) have "(k, s, i) \<in> set (origins w)" by auto
  then obtain obj where "obj \<in> set (sv_objects w)" "so_client obj = k" "so_seq obj = s" "so_id obj = i"
    by (auto simp: origins_def)
  with that show thesis by (auto simp: in_set_conv_nth)
qed

lemma found_object:
  assumes "server_inv w" and "k < length (sv_client_heap w)" and "find_object k i w = Some t"
  shows "t < length (sv_objects w)" "so_client (sv_objects w ! t) = k" "so_id (sv_objects w ! t) = i"
proof -
  from assms(3) have t: "t \<in> set (sc_objects (sv_client_heap w ! k))" "so_id (sv_objects w ! t) = i"
    by (auto simp: find_object_def dest: find_SomeD)
  moreover have "client_ok (objects_view w) k (clients_view w ! k)" "snd (clients_view w ! k) = sc_objects (sv_client_heap w ! k)"
    using assms(1,2) by (simp_all add: server_inv_def views_ok_def clients_view_def)
  ultimately have "t < length (objects_view w)" "fst (objects_view w ! t) = k" by (auto simp: client_ok_def)
  with t(2) show "t < length (sv_objects w)" "so_client (sv_objects w ! t) = k" "so_id (sv_objects w ! t) = i"
    by (simp_all add: objects_view_def)
qed

text \<open>C9: The server announces every object once: in every reachable state of a server, whatever its clients send and
  its callbacks do, the announcements on a connection are exactly the sequence numbers and ids of the
  objects created for this client, in the order of their creation.\<close>
theorem announces_objects:
  assumes "server_reachable pr disp w" and "k < length (sv_client_heap w)"
  shows "announcements (c_out (sc_conn (sv_client_heap w ! k))) =
    map (\<lambda>obj. (so_seq obj, so_id obj)) (filter (\<lambda>obj. so_client obj = k) (sv_objects w))"
proof -
  have "announced_views (origins w) (announced_lists w)"
    using server_reachable_announced[OF assms(1)] by (simp add: announced_ok_def)
  then have "announced_lists w ! k = map snd (filter (\<lambda>x. fst x = k) (origins w))"
    using assms(2) by (simp add: announced_views_def announced_lists_def)
  with assms(2) show ?thesis
    by (simp add: announced_lists_def origins_def filter_map comp_def)
qed

text \<open>C3: The two sides agree on the objects in every state: let a client, built with overflow checks, have run in any
  way and read the first messages a server has sent on its connection, and let the server have
  run in any way, while fewer than \<open>2 ^ 32\<close> objects were created for the client. Then every object of the client that has an
  id stands for exactly one object the server created for this client: the one with that id, which also has
  the same sequence number. No other object of the client has the id, and a call that arrives
  with the id reaches that object or, if it is gone, none.\<close>
theorem sides_agree:
  fixes cl :: "('g, 'e) client" and sv :: "('h, 'd) server" and r :: nat
  defines "cobj \<equiv> cl_heap cl ! r"
  assumes run: "client_run Debug cdisp ms cl" and reach: "server_reachable pr sdisp sv"
    and k: "k < length (sv_client_heap sv)" and few: "created k sv < 2 ^ 32"
    and read: "c_out (conn_at k sv) = ms @ rest"
    and r: "r < length (cl_heap cl)" and id: "co_id cobj \<noteq> 0"
  shows "\<exists>t < length (sv_objects sv). so_client (sv_objects sv ! t) = k \<and> so_id (sv_objects sv ! t) = co_id cobj \<and>
    so_seq (sv_objects sv ! t) = co_seq cobj \<and>
    (\<forall>t' < length (sv_objects sv). so_client (sv_objects sv ! t') = k \<and> so_id (sv_objects sv ! t') = co_id cobj \<longrightarrow> t' = t) \<and>
    (\<forall>r' < length (cl_heap cl). co_id (cl_heap cl ! r') = co_id cobj \<longrightarrow> r' = r) \<and>
    find_object k (co_id cobj) sv \<in> {None, Some t}"
proof -
  have sv: "server_inv sv" "announced_ok sv"
    using server_reachable_inv[OF reach] server_reachable_announced[OF reach] by simp_all
  note unique = object_by_id[OF sv(1) k few]
  have known: "\<exists>t < length (sv_objects sv). so_client (sv_objects sv ! t) = k \<and>
      so_seq (sv_objects sv ! t) = co_seq (cl_heap cl ! r') \<and> so_id (sv_objects sv ! t) = co_id (cl_heap cl ! r')"
    if "r' < length (cl_heap cl)" "co_id (cl_heap cl ! r') \<noteq> 0" for r'
  proof -
    have "(co_seq (cl_heap cl ! r'), co_id (cl_heap cl ! r')) \<in> set (announcements (c_out (conn_at k sv)))"
      using client_run_known[OF run] that by (auto simp: ids_known_def read)
    from announced_object[OF sv(2) k this] show ?thesis by blast
  qed
  from known[OF r] id obtain t where t: "t < length (sv_objects sv)" "so_client (sv_objects sv ! t) = k"
    "so_seq (sv_objects sv ! t) = co_seq cobj" "so_id (sv_objects sv ! t) = co_id cobj"
    unfolding cobj_def by blast
  have ids: "r' = r" if r': "r' < length (cl_heap cl)" "co_id (cl_heap cl ! r') = co_id cobj" for r'
  proof -
    obtain t' where t': "t' < length (sv_objects sv)" "so_client (sv_objects sv ! t') = k"
      "so_seq (sv_objects sv ! t') = co_seq (cl_heap cl ! r')" "so_id (sv_objects sv ! t') = co_id (cl_heap cl ! r')"
      using known[OF r'(1)] r'(2) id by auto
    then have "t' = t" using unique[OF t'(1,2) t(1,2)] t(4) r'(2) by simp
    then have "co_seq (cl_heap cl ! r') = co_seq (cl_heap cl ! r)" using t'(3) t(3) by (simp add: cobj_def)
    moreover have "distinct (map co_seq (cl_heap cl))"
      using client_reachable_inv[OF client_run_reachable[OF run]] by (simp add: client_inv_def strict_sorted_iff)
    ultimately show ?thesis using r r'(1) by (simp add: distinct_conv_nth) blast
  qed
  have only: "t' = t" if "t' < length (sv_objects sv)" "so_client (sv_objects sv ! t') = k"
    "so_id (sv_objects sv ! t') = co_id cobj" for t'
    using unique[OF that(1,2) t(1,2)] that(3) t(4) by simp
  have found: "find_object k (co_id cobj) sv \<in> {None, Some t}"
  proof (cases "find_object k (co_id cobj) sv")
    case (Some t')
    then show ?thesis using found_object[OF sv(1) k Some] unique t by auto
  qed simp
  show ?thesis
    by (rule exI[of _ t], intro conjI allI impI t found) ((elim conjE)?, rule only ids, assumption+)+
qed

section \<open>Witnesses\<close>

text \<open>A server that reads an acknowledgement and a bind in one dispatch, and the client that reads its answers.\<close>

lemma dispatch_events_one:
  assumes ms: "\<forall>m \<in> set ms. sendable pr m" "stream_data ms \<noteq> []" "length (stream_data ms) < buffer_size"
    and key: "key \<noteq> 0" "find_client (of_nat key) w = Some k"
    and receive: "receive_all (server_receive pr disp k) ms w = Some (Ok (), w')"
    and w': "sc_scheduled_roundtrip_seq (sv_client_heap w' ! k) = 0" "\<not> c_error (sc_conn (sv_client_heap w' ! k))"
  shows "dispatch_events pr disp [Some [\<lparr>ev_key = key, ev_accept = AcceptError,
    ev_recv = [Received (stream_data ms) (stream_fds ms)], ev_modify_ok = True\<rparr>]] w = Some (Ok (), w')"
proof -
  have "length (stream_data ms) \<le> isize_max" using ms(3) by (simp add: buffer_size_def isize_max_def)
  with server_stream.loop_stream[OF ms(1), of disp k w] receive w' ms(2)
  have "dispatch_client pr disp k [Received (stream_data ms) (stream_fds ms)] w = Some (Ok (), w')"
    by (simp add: dispatch_client_def read_one[OF ms(2,3)])
  with key w'(2) show ?thesis by (simp add: dispatch_pending_def no_error_def)
qed

definition example_announcement :: handshake_protocols where
  "example_announcement = \<lparr>hsp_protocols = [ascii ''demo@1''],
     hsp_data = handshake_protocols_bytes (varint 1) (varint (length (ascii ''demo@1'')) @ ascii ''demo@1'')\<rparr>"

definition example_bind :: bind_protocol where
  "example_bind = \<lparr>bind_seq = 1, bind_version = 1, bind_name = ascii ''demo'',
     bind_data = bind_bytes (varint (length (ascii ''demo''))) 1 (ascii ''demo'') 1\<rparr>"

lemma example_messages:
  "handshake_protocols_new [ascii ''demo@1''] = Ok example_announcement"
  "bind_protocol_new (ascii ''demo'') 1 1 = Ok example_bind"
  "sendable pr (MHandshakeProtocols example_announcement)" "sendable pr (MBindProtocol example_bind)"
  "length (hsp_data example_announcement) < 100" "length (bind_data example_bind) < 100"
proof -
  show new: "handshake_protocols_new [ascii ''demo@1''] = Ok example_announcement"
    by (simp add: handshake_protocols_new_eq usize_bound_def example_announcement_def)
  show bind: "bind_protocol_new (ascii ''demo'') 1 1 = Ok example_bind"
    by (simp add: bind_protocol_new_def usize_bound_def example_bind_def)
  show "length (hsp_data example_announcement) < 100"
    using varint_length_10[of 1] varint_length_10[of "length (ascii ''demo@1'')"]
    by (simp add: example_announcement_def handshake_protocols_bytes_def usize_bound_def)
  show size: "length (bind_data example_bind) < 100"
    using bind_message_fields(4)[OF bind] by simp
  show "sendable pr (MHandshakeProtocols example_announcement)"
    using new by (simp add: handshake_protocols_built_def example_announcement_def isize_max_def)
  show "sendable pr (MBindProtocol example_bind)"
    using bind size by (simp add: bind_built_def example_bind_def isize_max_def)
qed

definition example_serving :: "(unit, unit) server" where
  "example_serving = example_server\<lparr>
     sv_objects := [\<lparr>so_client = 0, so_spec = Some example_object, so_destroyed = False, so_data = None,
       so_reading = False, so_id = 1, so_version = 1, so_seq = 1, so_protocol_name = ascii ''demo''\<rparr>],
     sv_client_heap := [(server_client_new 1 None)\<lparr>sc_version := 1, sc_max_id := 2, sc_objects := [0],
       sc_conn := conn_new\<lparr>c_out := [MHandshakeProtocols example_announcement, MNewObject (new_object_new 1 1)]\<rparr>\<rparr>]\<rparr>"

lemma example_serving_reachable: "server_reachable Debug example_dispatcher example_serving"
proof (rule server_reachable.step[OF example_reachable server_step.dispatch])
  let ?ms = "[MHandshakeAck (handshake_ack_new 1), MBindProtocol example_bind]"
  show "dispatch_events Debug example_dispatcher [Some [\<lparr>ev_key = 1, ev_accept = AcceptError,
    ev_recv = [Received (stream_data ?ms) (stream_fds ?ms)], ev_modify_ok = True\<rparr>]] example_server = Some (Ok (), example_serving)"
  proof (rule dispatch_events_one)
    show "receive_all (server_receive Debug example_dispatcher 0) ?ms example_server = Some (Ok (), example_serving)"
    proof -
      have names: "map (announced \<circ> im_spec) (sv_impls example_server) = [ascii ''demo@1'']"
        by (simp add: example_server_def example_impl_def announced_def show_u32_def show_nat.simps[of "Suc 0"] digit_def)
      let ?w = "upd_conn 0 (send_message (MHandshakeProtocols example_announcement))
        (upd_client 0 (\<lambda>c. c\<lparr>sc_version := 1\<rparr>) example_server)"
      have "client_create_object 0 (ascii ''demo'') [] 1 1 ?w = (0, example_serving)"
        by (simp add: client_create_object_def Let_def upd_conn_def upd_client_def example_server_def find_spec_def
            find_impl_def example_impl_def example_serving_def server_client_new_def conn_new_def send_message_def)
      moreover have "sv_impls example_serving = [example_impl]" by (simp add: example_serving_def example_server_def)
      ultimately show ?thesis using example_messages(1) names
        by (simp add: server_receive_def lift_res_def example_bind_def handshake_ack_new_def del: ascii_Cons)
    qed
  qed (use example_messages in \<open>simp_all add: buffer_size_def handshake_ack_new_def find_client_def example_server_def
      server_client_new_def example_serving_def conn_new_def\<close>)
qed simp

definition example_binder :: "(unit, unit) client" where
  "example_binder = (client_new ())\<lparr>cl_specs := [\<lparr>adv_name = ascii ''demo'', adv_version = 1\<rparr>],
     cl_handshake_done := True, cl_queues := [event_queue_new]\<rparr>"

definition example_bound_client :: "(unit, unit) client" where
  "example_bound_client = example_binder\<lparr>cl_objects := [0], cl_seq := 1,
     cl_heap := [(fresh_object example_root (ascii ''demo'') 1 1 0 1)\<lparr>co_id := 1, co_data := Some ()\<rparr>],
     cl_conn := send_message (MBindProtocol example_bind) (cl_conn example_binder)\<rparr>"

lemma quiet_round_reads:
  assumes "sendable pr m" and "length (message_data m) < buffer_size"
  shows "reads_messages pr [m] (pl_recv (quiet_round [m]))"
proof -
  have "message_data m \<noteq> []" using sendable_head[OF assms(1)] by auto
  from read_one[OF this assms(2)] assms show ?thesis
    by (simp add: reads_messages_def quiet_round_def buffer_size_def isize_max_def)
qed

lemma example_binder_run:
  "client_run Debug example_callbacks [MHandshakeProtocols example_announcement] example_binder"
proof -
  let ?m = "MHandshakeProtocols example_announcement"
  let ?w = "snd (new_event_queue (client_new ())) :: (unit, unit) client"
  let ?locked = "upd_queue 0 (\<lambda>eq. eq\<lparr>eq_locked := True\<rparr>)"
  have run: "client_run Debug example_callbacks [] ?w"
    by (rule client_run.queue[OF client_run.start])
  have m: "sendable Debug ?m" "length (message_data ?m) < buffer_size"
    using example_messages(3)[of Debug] example_messages(5) by (simp_all add: buffer_size_def)
  have "parse_spec (ascii ''demo@1'') = Some \<lparr>adv_name = ascii ''demo'', adv_version = 1\<rparr>"
    by (simp add: parse_spec_def parse_u32_def digit_value_def)
  then have "client_receive Debug example_callbacks 0 ?m (?locked ?w) = Some (Ok (), ?locked example_binder)"
    by (simp add: client_receive_def server_specs_def example_announcement_def List.map_filter_def example_binder_def
        client_new_def new_event_queue_def upd_queue_def del: ascii_Cons)
  from dispatch_reading[OF m this]
  have "client_dispatch_events Debug example_callbacks 0 True (quiet_round [?m]) ?w = Some (Ok (), example_binder)"
    by (simp add: client_dispatch_events_def with_queue_def settled_def example_binder_def client_new_def
        new_event_queue_def upd_queue_def event_queue_new_def conn_new_def)
  from client_run.dispatch[OF run this _ quiet_round_reads[OF m]] show ?thesis by simp
qed

lemma example_binds:
  "client_bind Debug example_callbacks 0 example_protocol () 1 [quiet_round [MNewObject (new_object_new 1 1)]] example_binder =
     Some (Ok 0, example_bound_client)"
proof -
  let ?m = "MNewObject (new_object_new 1 1)"
  let ?rounds = "[quiet_round [?m]]"
  have m: "sendable Debug ?m" "length (message_data ?m) < buffer_size"
    by (auto simp: buffer_size_def new_object_new_def)
  let ?obj = "(fresh_object example_root (ascii ''demo'') 1 1 0 2)\<lparr>co_data := Some ()\<rparr>"
  let ?w = "\<lambda>obj. example_bound_client\<lparr>cl_heap := [obj]\<rparr>"
  let ?locked = "upd_queue 0 (\<lambda>eq. eq\<lparr>eq_locked := True\<rparr>)"
  have state: "cl_queues example_binder = [event_queue_new]" "cl_heap example_binder = []" "cl_objects example_binder = []"
    "cl_seq example_binder = 0" "\<not> cl_locked example_binder" "\<not> c_error (cl_conn example_binder)"
    "cl_specs example_binder = [\<lparr>adv_name = ascii ''demo'', adv_version = 1\<rparr>]"
    by (simp_all add: example_binder_def client_new_def conn_new_def)
  have spec: "example_protocol\<lparr>spec_ver := 1\<rparr> = example_protocol" "spec_name example_protocol = ascii ''demo''"
    "spec_ver example_protocol = 1" "spec_objects example_protocol = [example_root, example_child]"
    by (simp_all add: example_protocol_def)
  have "client_bind_protocol Debug 0 example_protocol 1 example_binder =
      Some (Ok 0, ?w (fresh_object example_root (ascii ''demo'') 1 1 0 1))"
    using example_messages(2) by (simp add: client_bind_protocol_def spec state next_seq_def succ_u32_def lift_res_def
        bind_protocol_message_def push_object_def take_seq_def upd_cconn_def example_bound_client_def Let_def del: ascii_Cons)
  moreover have "client_set_data 0 () (hold_object 0 (?w (fresh_object example_root (ascii ''demo'') 1 1 0 1))) = ?w ?obj"
    by (simp add: client_set_data_def hold_object_def upd_cobj_def fresh_object_def)
  moreover have "client_receive Debug example_callbacks 0 ?m (?locked (?w ?obj)) = Some (Ok (), ?locked (?w (?obj\<lparr>co_id := 1\<rparr>)))"
    by (simp add: client_receive_def new_object_new_def on_seq_def object_for_seq_def upd_queue_def upd_cobj_def
        example_bound_client_def fresh_object_def)
  from dispatch_reading[OF m this]
  have "client_dispatch_events Debug example_callbacks 0 True (quiet_round [?m]) (?w ?obj) = Some (Ok (), ?w (?obj\<lparr>co_id := 1\<rparr>))"
    using state by (simp add: client_dispatch_events_def with_queue_def settled_def example_bound_client_def
        upd_queue_def event_queue_new_def fresh_object_def)
  then have "wait_for_object Debug example_callbacks 0 0 ?rounds (?w ?obj) = Some (Ok (), ?w (?obj\<lparr>co_id := 1\<rparr>))"
    using state by (simp add: wait_for_object_def wait_while.simps example_bound_client_def fresh_object_def)
  moreover have "release_object Debug 0 (?w (?obj\<lparr>co_id := 1\<rparr>)) = Some (Ok (), example_bound_client)"
    by (simp add: release_object_def upd_cobj_def fresh_object_def example_bound_client_def)
  ultimately show ?thesis
    using state by (simp add: client_bind_def client_get_spec_def get_spec_def spec no_error_def Let_def)
qed

lemma example_bound_run:
  "client_run Debug example_callbacks [MHandshakeProtocols example_announcement, MNewObject (new_object_new 1 1)]
     example_bound_client"
proof -
  let ?m = "MNewObject (new_object_new 1 1)"
  let ?rounds = "[quiet_round [?m]]"
  have m: "sendable Debug ?m" "length (message_data ?m) < buffer_size"
    by (auto simp: buffer_size_def new_object_new_def)
  have "rounds_read Debug [[?m]] ?rounds" using quiet_round_reads[OF m] by simp
  with example_binds have "client_run Debug example_callbacks ([MHandshakeProtocols example_announcement] @ concat [[?m]])
      example_bound_client"
    by (intro client_run.bind[OF example_binder_run]) auto
  then show ?thesis by simp
qed

theorem sides_agree_witness:
  "\<exists>t < length (sv_objects example_serving). so_client (sv_objects example_serving ! t) = 0 \<and>
     so_id (sv_objects example_serving ! t) = co_id (cl_heap example_bound_client ! 0) \<and>
     so_seq (sv_objects example_serving ! t) = co_seq (cl_heap example_bound_client ! 0)"
proof -
  have "0 < length (sv_client_heap example_serving)" "created 0 example_serving < 2 ^ 32"
    and "c_out (conn_at 0 example_serving) =
      [MHandshakeProtocols example_announcement, MNewObject (new_object_new 1 1)] @ []"
    and "0 < length (cl_heap example_bound_client)" "co_id (cl_heap example_bound_client ! 0) \<noteq> 0"
    by (simp_all add: example_serving_def created_def conn_at_def example_bound_client_def)
  from sides_agree[OF example_bound_run example_serving_reachable this] show ?thesis by blast
qed

theorem announces_objects_witness:
  "announcements (c_out (sc_conn (sv_client_heap example_serving ! 0))) = [(1, 1)]"
  using announces_objects[OF example_serving_reachable, of 0] by (simp add: example_serving_def)

section \<open>Numbers of either side\<close>

text \<open>C2: The ids the server gives out identify a client's objects: in every state an application can
  reach, with any traffic, callbacks and answers of the system, the objects in a client's table have
  pairwise different ids, none of them 0, as long as fewer than \<open>2 ^ 32\<close> objects were created for the client.\<close>
theorem server_object_ids:
  assumes "server_reachable pr disp w" and "k < length (sv_client_heap w)" and "created k w < 2 ^ 32"
  shows "distinct (live_ids k w) \<and> 0 \<notin> set (live_ids k w)"
  using server_reachable_inv[OF assms(1)] assms(2,3) server_inv_live_ids by blast

text \<open>The application creates a second object for the client.\<close>

theorem server_object_ids_witness:
  "\<exists>w. run (CreateObject 0 (ascii ''root'') 2 (\<lambda>_. Finish)) example_serving = Some (Ok (), w) \<and>
     live_ids 0 w = [1, 2] \<and> distinct (live_ids 0 w) \<and> 0 \<notin> set (live_ids 0 w)"
proof -
  obtain w where w: "run (CreateObject 0 (ascii ''root'') 2 (\<lambda>_. Finish)) example_serving = Some (Ok (), w)"
    "live_ids 0 w = [1, 2]" "created 0 w = 2" "length (sv_client_heap w) = 1"
    by (simp add: run.simps object_create_object_def client_create_object_def Let_def upd_client_def example_serving_def
        example_server_def find_spec_def find_impl_def example_impl_def on_bind_def server_client_new_def conn_new_def
        live_ids_def created_def del: ascii_Cons)
  have "server_reachable Debug example_dispatcher w"
    by (rule server_reachable.step[OF example_serving_reachable server_step.app[OF w(1)]])
  with server_object_ids[of Debug example_dispatcher w 0] w show ?thesis by simp
qed

text \<open>C21: In every state an application can reach with a client built with overflow checks, with any server, callbacks and answers of the
  system, each object in the client's table has a sequence number other than 0 that leads back to this object
  alone: what a reply or a waiting message is meant for is never in doubt.\<close>
theorem client_sequence_numbers:
  assumes "client_reachable Debug disp w"
  shows "distinct (cl_objects w) \<and>
    (\<forall>r \<in> set (cl_objects w). r < length (cl_heap w) \<and> co_seq (cl_heap w ! r) \<noteq> 0 \<and>
       object_for_seq (co_seq (cl_heap w ! r)) w = Some r)"
proof -
  note inv = client_reachable_inv[OF assms]
  have "co_seq (cl_heap w ! r) \<noteq> 0" if "r < length (cl_heap w)" for r
  proof -
    have "\<forall>obj \<in> set (cl_heap w). 0 < co_seq obj" using inv by (simp add: client_inv_def)
    with nth_mem[OF that] have "0 < co_seq (cl_heap w ! r)" by blast
    then show ?thesis by auto
  qed
  with inv client_inv_object_for_seq[OF inv] show ?thesis
    by (simp add: client_inv_def strict_sorted_iff)
qed

text \<open>The client calls a method that makes a second object.\<close>

theorem client_sequence_numbers_witness:
  "\<exists>w. client_call Debug 0 0 [] (client_add_implementation example_protocol example_bound_client) = Some (Ok 2, w) \<and>
     cl_objects w = [0, 1] \<and> co_seq (cl_heap w ! 0) = 1 \<and> object_for_seq 1 w = Some 0 \<and>
     co_seq (cl_heap w ! 1) = 2 \<and> object_for_seq 2 w = Some 1"
proof -
  let ?w = "client_add_implementation example_protocol example_bound_client"
  have "map_option (\<lambda>(r, w). (r, cl_objects w, map co_seq (cl_heap w))) (client_call Debug 0 0 [] ?w) = Some (Ok 2, [0, 1], [1, 2])"
    by code_simp
  then obtain w where w: "client_call Debug 0 0 [] ?w = Some (Ok 2, w)" "cl_objects w = [0, 1]" "map co_seq (cl_heap w) = [1, 2]"
    by auto
  from w(3) have seqs: "co_seq (cl_heap w ! 0) = 1" "co_seq (cl_heap w ! 1) = 2"
    by (auto simp: map_eq_Cons_conv)
  have run: "run_client Debug (CCall 0 0 [] (\<lambda>_. CFinish)) ?w = Some (Ok (), w)"
    by (simp add: w(1)) (simp add: client_add_implementation_def example_bound_client_def)
  have "client_reachable Debug example_callbacks w"
    by (rule client_run_reachable[OF client_run.app[OF client_run.implement[OF example_bound_run] run]])
  from conjunct2[OF client_sequence_numbers[OF this]] w(1,2) seqs show ?thesis by auto
qed

end
