(* ===== verification/Callback_Lock.thy ===== *)
theory Callback_Lock
  imports Exchange
begin

text \<open>
  Callbacks and the lock of the event queue. \<open>EventQueue::dispatch_events\<close> holds the lock of the queue while it reads, and so
  while callbacks run; \<open>WireObject::call\<close> takes it for an object that has no id yet. The two meet when a callback
  calls a method on an object it has just made.
\<close>

text \<open>
  A callback comes to a call on an object of the queue \<open>q\<close> that has no id: its operations up to that call return, and
  the arguments of the call are those of the method.
\<close>

inductive comes_to_call :: "profile \<Rightarrow> nat \<Rightarrow> ('h, 'd) cprog \<Rightarrow> ('h, 'd) client \<Rightarrow> bool" for pr q where
  now: "r < length (cl_heap w) \<Longrightarrow> co_id (cl_heap w ! r) = 0 \<Longrightarrow> co_queue (cl_heap w ! r) = q \<Longrightarrow> eq_alive (cl_queues w ! q) \<Longrightarrow>
    wire_call False (client_methods_out (cl_heap w ! r)) 0 (co_version (cl_heap w ! r))
      (if cl_alive w then Some (cl_seq w + 1) else None) i args = Ok (CallMessage d s data fds) \<Longrightarrow>
    (cl_alive w \<Longrightarrow> seq_left pr w) \<Longrightarrow> comes_to_call pr q (CCall r i args k) w"
| call: "r < length (cl_heap w) \<Longrightarrow> client_call pr r i args w = Some (Ok v, w') \<Longrightarrow> comes_to_call pr q (k v) w' \<Longrightarrow>
    comes_to_call pr q (CCall r i args k) w"
| app: "comes_to_call pr q k (w\<lparr>cl_app := d\<rparr>) \<Longrightarrow> comes_to_call pr q (CSetApp d k) w"
| data: "r < length (cl_heap w) \<Longrightarrow> \<not> co_reading (cl_heap w ! r) \<Longrightarrow> comes_to_call pr q k (client_set_data r h w) \<Longrightarrow>
    comes_to_call pr q (CSetData r h k) w"
| seq: "comes_to_call pr q (k (object_for_seq s w)) (hold_found (object_for_seq s w) w) \<Longrightarrow>
    comes_to_call pr q (CObjectForSeq s k) w"
| id: "comes_to_call pr q (k (object_for_id i w)) (hold_found (object_for_id i w) w) \<Longrightarrow>
    comes_to_call pr q (CObjectForId i k) w"
| hold: "r < length (cl_heap w) \<Longrightarrow> comes_to_call pr q k (hold_object r w) \<Longrightarrow> comes_to_call pr q (CHold r k) w"
| release: "r < length (cl_heap w) \<Longrightarrow> 0 < co_refs (cl_heap w ! r) \<Longrightarrow> release_object pr r w = Some (Ok (), w') \<Longrightarrow>
    comes_to_call pr q k w' \<Longrightarrow> comes_to_call pr q (CRelease r k) w"

lemma locked_kept: "queue_kept q w w' \<Longrightarrow> eq_locked (cl_queues w ! q) \<Longrightarrow> eq_locked (cl_queues w' ! q)"
  by (simp add: queue_kept_def queue_le_def)

lemma comes_to_call_blocks:
  "comes_to_call pr q p w \<Longrightarrow> eq_locked (cl_queues w ! q) \<Longrightarrow> run_client pr p w = None"
proof (induction rule: comes_to_call.induct)
  case (now r w i args d s data fds k)
  have "client_call pr r i args w = None" by (rule call_takes_lock) (use now in auto)
  with now.hyps(1) show ?case by simp
next
  case (call r w i args v w' k)
  with locked_kept[OF keeps_Ok[OF queue_held.keeps_client_call call.hyps(2)]] show ?case by simp
next
  case (data r w k h)
  then show ?case by (simp add: client_set_data_def upd_cobj_def)
next
  case (seq k s w)
  then show ?case by (simp add: hold_found_def hold_object_def upd_cobj_def split: option.splits)
next
  case (id k i w)
  then show ?case by (simp add: hold_found_def hold_object_def upd_cobj_def split: option.splits)
next
  case (hold r w k)
  then show ?case by (simp add: hold_object_def upd_cobj_def)
next
  case (release r w w' k)
  with locked_kept[OF keeps_Ok[OF queue_held.keeps_release release.hyps(3)]] show ?case by simp
qed simp

text \<open>C28: A callback that calls a method on an object without an id, of the event queue that is being dispatched, never
  returns, and neither does \<open>dispatch_events\<close>: if a read brings messages one of which is an event whose callback comes to a
  call on an object of the same event queue that is still waiting for its id, then the thread waits for the lock it holds itself, whatever came before the event and whatever
  the callback did before the call.\<close>
theorem call_in_callback_deadlocks:
  fixes w :: "('h, 'd) client" and q r :: nat
  assumes q: "q < length (cl_queues w)" and ok: "\<not> c_error (cl_conn w)"
    and collected: "collect_orphaned_objects pr (upd_queue q (\<lambda>eq. eq\<lparr>eq_locked := True\<rparr>) w) = Some (Ok (), w1)"
    and round: "pl_wait rnd = Some True" "pl_modify_ok rnd"
      "read_from_socket (pl_recv rnd) =
         Some \<lparr>raw_data = stream_data (ms @ MGeneric g # later), raw_fds = stream_fds (ms @ MGeneric g # later)\<rparr>"
    and stream: "\<forall>m \<in> set (ms @ MGeneric g # later). sendable pr m" "length (stream_data (ms @ MGeneric g # later)) \<le> isize_max"
    and before: "receive_all (client_receive pr disp q) ms w1 = Some (Ok (), w2)"
    and obj: "object_for_id (gm_object (received pr g)) w2 = Some r" "co_data (cl_heap w2 ! r) = Some h"
      "data_span (received pr g) = Ok span"
    and callback: "comes_to_call pr q (disp h (gm_method (received pr g)) span (gm_fds (received pr g)) (cl_app w2))
      (upd_cobj r (\<lambda>obj. obj\<lparr>co_reading := True\<rparr>) (hold_object r w2))"
  shows "client_dispatch_events pr disp q block rnd w = None"
proof -
  let ?locked = "upd_queue q (\<lambda>eq. eq\<lparr>eq_locked := True\<rparr>) w"
  have "eq_locked (cl_queues ?locked ! q)" using q by (simp add: upd_queue_def)
  then have "eq_locked (cl_queues w1 ! q)"
    using locked_kept[OF keeps_Ok[OF queue_held.keeps_retain collected[unfolded collect_orphaned_objects_def]]] by simp
  then have "eq_locked (cl_queues w2 ! q)" by (rule locked_kept[OF keeps_Ok[OF queue_held.keeps_receive_all before]])
  then have "run_client pr (disp h (gm_method (received pr g)) span (gm_fds (received pr g)) (cl_app w2))
      (upd_cobj r (\<lambda>obj. obj\<lparr>co_reading := True\<rparr>) (hold_object r w2)) = None"
    by (intro comes_to_call_blocks[OF callback]) (simp add: upd_cobj_def hold_object_def)
  moreover have "co_data (cl_heap (hold_object r w2) ! r) = Some h"
    using obj(2) by (cases "r < length (cl_heap w2)") (simp_all add: hold_object_def upd_cobj_def linorder_not_less list_update_beyond)
  moreover have "cl_app (hold_object r w2) = cl_app w2" by (simp add: hold_object_def upd_cobj_def)
  ultimately have "client_object_dispatch pr disp r (gm_method (received pr g)) span (gm_fds (received pr g)) (hold_object r w2) = None"
    by (simp add: client_object_dispatch_def)
  then have "client_receive pr disp q (MGeneric g) w2 = None"
    by (simp add: client_receive_def client_on_generic_def obj(1,3) lift_res_def Let_def)
  then have "receive_all (client_receive pr disp q) (ms @ MGeneric g # later) w1 = None"
    by (simp add: receive_all_append before)
  then have "client_handle_message pr disp q (stream_data (ms @ MGeneric g # later)) (stream_fds (ms @ MGeneric g # later)) 0 w1 = None"
    by (simp only: client_stream.loop_stream[OF stream])
  moreover have "stream_data (ms @ MGeneric g # later) \<noteq> []"
    using sendable_head[of pr "MGeneric g"] stream(1) by (auto simp: stream_data_def)
  ultimately have "receive_events pr disp q (pl_recv rnd) w1 = None"
    by (simp add: receive_events_def round(3) handle_or_disconnect_def)
  moreover have "\<not> c_error (cl_conn ?locked)" using ok by (simp add: upd_queue_def)
  ultimately have "dispatch_events_inner pr disp q block rnd ?locked = None"
    by (simp add: dispatch_events_inner_def collected no_error_def round(1,2))
  then show ?thesis by (simp add: client_dispatch_events_def with_queue_def)
qed

text \<open>The callback of an event makes an object and calls a method on it.\<close>

definition example_chain :: "(unit, unit) client_dispatcher" where
  "example_chain h i data fds app =
     CCall 0 0 [] (\<lambda>s. CObjectForSeq s (\<lambda>x. case x of None \<Rightarrow> CFinish | Some n \<Rightarrow> CCall n 0 [] (\<lambda>_. CFinish)))"

definition example_listener :: "(unit, unit) client" where
  "example_listener = upd_cobj 0 (\<lambda>obj. obj\<lparr>co_data := Some ()\<rparr>) (example_client 7 1)"

definition example_event :: generic_message where
  "example_event = generic_message_new (generic_bytes 7 0 []) []"

definition example_event_round :: poll_round where
  "example_event_round = \<lparr>pl_wait = Some True, pl_modify_ok = True, pl_recv = [Received (generic_bytes 7 0 []) []]\<rparr>"

lemma example_event_read:
  "generic_sendable Debug example_event" "gm_object (received Debug example_event) = 7"
  "data_span (received Debug example_event) = Ok [0]"
proof -
  have "fields_rep Debug [] []" by simp
  then show "generic_sendable Debug example_event"
    unfolding generic_sendable_def example_event_def
    by (intro exI[of _ 7] exI[of _ 0] exI[of _ "[]"]) (simp add: generic_message_new_def)
  have "cursor_at (generic_bytes 7 0 []) 0 (generic_bytes 7 0 [] @ [])"
    using cursor_start[of "generic_bytes 7 0 []"] by (simp add: isize_max_def)
  from generic_from_bytes_fwd[OF \<open>fields_rep Debug [] []\<close> this, of "[]"]
  have "received Debug example_event = generic_parsed 7 0 [] [] []"
    by (simp add: received_def example_event_def generic_message_new_def)
  then show "gm_object (received Debug example_event) = 7" "data_span (received Debug example_event) = Ok [0]"
    by (simp_all add: data_span_parsed) (simp add: generic_parsed_def)
qed

lemma example_chain_comes:
  defines "w \<equiv> upd_cobj 0 (\<lambda>obj. obj\<lparr>co_reading := True\<rparr>) (hold_object 0
    (upd_queue 0 (\<lambda>eq. eq\<lparr>eq_locked := True\<rparr>) example_listener))"
  shows "comes_to_call Debug 0 (example_chain () i data fds ()) w"
proof -
  have "map_option (\<lambda>(r, w'). (r, object_for_seq 2 w', cl_heap w' ! 1, length (cl_heap w'), cl_alive w', cl_seq w', eq_alive (cl_queues w' ! 0)))
      (client_call Debug 0 0 [] w) =
    Some (Ok 2, Some 1, fresh_object example_child (ascii ''demo'') 0 2 0 0, 2, True, 2, True)"
    unfolding w_def by code_simp
  then obtain w' where made: "client_call Debug 0 0 [] w = Some (Ok 2, w')" "object_for_seq 2 w' = Some 1"
    "cl_heap w' ! 1 = fresh_object example_child (ascii ''demo'') 0 2 0 0" "length (cl_heap w') = 2" "cl_alive w'" "cl_seq w' = 2"
    "eq_alive (cl_queues w' ! 0)"
    by auto
  let ?w = "hold_object 1 w'"
  have held: "cl_heap ?w ! 1 = (fresh_object example_child (ascii ''demo'') 0 2 0 1)" "length (cl_heap ?w) = 2" "cl_alive ?w"
    "cl_seq ?w = 2" "eq_alive (cl_queues ?w ! 0)"
    using made by (simp_all add: hold_object_def upd_cobj_def fresh_object_def)
  have "wire_call False (client_methods_out (cl_heap ?w ! 1)) 0 (co_version (cl_heap ?w ! 1))
      (if cl_alive ?w then Some (cl_seq ?w + 1) else None) 0 [] =
    Ok (CallMessage True 0 (message_type_u8 GenericProtocolMessage # magic_u8 TypeObject #
       to_le_bytes 0 @ magic_u8 TypeUint # to_le_bytes 0 @ [magic_u8 End]) [])"
    unfolding held by (simp add: wire_call_def Let_def fresh_object_def client_methods_out_def example_child_def example_destructor_def)
  then have "comes_to_call Debug 0 (CCall 1 0 [] (\<lambda>_. CFinish)) ?w"
    by (rule comes_to_call.now[rotated 4]) (simp_all add: held held[unfolded One_nat_def] fresh_object_def seq_left_def)
  then have "comes_to_call Debug 0 (CObjectForSeq 2 (\<lambda>x. case x of None \<Rightarrow> CFinish | Some n \<Rightarrow> CCall n 0 [] (\<lambda>_. CFinish))) w'"
    by (intro comes_to_call.seq) (simp add: made(2) hold_found_def)
  then show ?thesis
    unfolding example_chain_def
    by (rule comes_to_call.call[OF _ made(1), rotated])
      (simp add: w_def example_listener_def example_client_def upd_cobj_def upd_queue_def hold_object_def)
qed

theorem call_in_callback_deadlocks_witness:
  "client_dispatch_events Debug example_chain 0 True example_event_round example_listener = None"
proof (rule call_in_callback_deadlocks[where ms = "[]" and later = "[]" and g = example_event and r = 0])
  let ?locked = "upd_queue 0 (\<lambda>eq. eq\<lparr>eq_locked := True\<rparr>) example_listener"
  have "settled 0 ?locked"
    by (simp add: settled_def example_listener_def example_client_def upd_cobj_def upd_queue_def fresh_object_def conn_new_def
        event_queue_new_def)
  then show "collect_orphaned_objects Debug ?locked = Some (Ok (), ?locked)" by (rule collect_settled)
  show "receive_all (client_receive Debug example_chain 0) [] ?locked = Some (Ok (), ?locked)" by simp
  show "object_for_id (gm_object (received Debug example_event)) ?locked = Some 0"
    by (simp add: example_event_read object_for_id_def example_listener_def example_client_def upd_cobj_def upd_queue_def)
  show "data_span (received Debug example_event) = Ok [0]" by (rule example_event_read)
  show "co_data (cl_heap ?locked ! 0) = Some ()"
    by (simp add: example_listener_def example_client_def upd_cobj_def upd_queue_def)
  show "comes_to_call Debug 0 (example_chain () (gm_method (received Debug example_event)) [0]
      (gm_fds (received Debug example_event)) (cl_app ?locked)) (upd_cobj 0 (\<lambda>obj. obj\<lparr>co_reading := True\<rparr>) (hold_object 0 ?locked))"
    using example_chain_comes by simp
qed (use example_event_read(1) in \<open>simp_all add: example_listener_def example_client_def upd_cobj_def example_event_round_def
    stream_data_def stream_fds_def example_event_def generic_message_new_def read_from_socket_def buffer_size_def
    conn_new_def isize_max_def\<close>)

end
