(* ===== verification/Server_Isolation.thy ===== *)
theory Server_Isolation
  imports Server_Properties Generated_Code
begin

text \<open>
  What a client can do to the others. The clients of a server share its protocols and the state of the application,
  and a callback can use any object it has a reference to. This theory is about callbacks that use objects of
  one client only: then nothing a client sends, well-formed or not, reaches another client.
\<close>

section \<open>Callbacks that stay with one client\<close>

text \<open>
  \<open>confined about p A\<close>: the callback \<open>p\<close> uses only the objects \<open>A\<close> and those it creates, and installs data on
  them that is about such objects. \<open>about\<close> gives the objects the data of an object refers to.
\<close>

primrec confined :: "('h \<Rightarrow> nat set) \<Rightarrow> ('h, 'd) prog \<Rightarrow> nat set \<Rightarrow> bool" where
  "confined about Finish A \<longleftrightarrow> True"
| "confined about Crash A \<longleftrightarrow> True"
| "confined about (GetApp k) A \<longleftrightarrow> (\<forall>d. confined about (k d) A)"
| "confined about (SetApp d k) A \<longleftrightarrow> confined about k A"
| "confined about (Call r i args k) A \<longleftrightarrow> r \<in> A \<and> (\<forall>v. confined about (k v) A)"
| "confined about (RaiseError r i msg k) A \<longleftrightarrow> r \<in> A \<and> confined about k A"
| "confined about (CreateObject r name seq k) A \<longleftrightarrow>
     r \<in> A \<and> confined about (k None) A \<and> (\<forall>new. confined about (k (Some new)) (insert new A))"
| "confined about (SetData r h k) A \<longleftrightarrow> r \<in> A \<and> about h \<subseteq> A \<and> confined about k A"
| "confined about (GetClient r k) A \<longleftrightarrow> r \<in> A \<and> (\<forall>c. confined about (k c) A)"
| "confined about (ReadCreds c k) A \<longleftrightarrow> (\<forall>cred. confined about (k cred) A)"

definition confined_impls :: "('h \<Rightarrow> nat set) \<Rightarrow> ('h, 'd) server_impl list \<Rightarrow> bool" where
  "confined_impls about ims \<longleftrightarrow> (\<forall>im \<in> set ims. \<forall>(n, callback) \<in> set (im_objects im). \<forall>r. confined about (callback r) {r})"

definition confined_dispatcher :: "('h \<Rightarrow> nat set) \<Rightarrow> ('h, 'd) dispatcher \<Rightarrow> bool" where
  "confined_dispatcher about disp \<longleftrightarrow> (\<forall>h i data fds app. confined about (disp h i data fds app) (about h))"

lemma confined_mono: "confined about p A \<Longrightarrow> A \<subseteq> B \<Longrightarrow> confined about p B"
proof (induction p arbitrary: A B)
  case (CreateObject r name seq k)
  have "confined about (k (Some new)) (insert new B)" for new
  proof (rule CreateObject.IH[OF rangeI])
    show "confined about (k (Some new)) (insert new A)" using CreateObject.prems(1) by simp
    show "insert new A \<subseteq> insert new B" using CreateObject.prems(2) by auto
  qed
  with CreateObject show ?case by auto
next
  case (Call r i args k)
  then show ?case by simp (blast intro: Call.IH[OF rangeI])
next
  case (GetApp k)
  then show ?case by simp (blast intro: GetApp.IH[OF rangeI])
next
  case (GetClient r k)
  then show ?case by simp (blast intro: GetClient.IH[OF rangeI])
next
  case (ReadCreds c k)
  then show ?case by simp (blast intro: ReadCreds.IH[OF rangeI])
qed auto

lemma confined_on_bind: "confined_impls about (sv_impls w) \<Longrightarrow> confined about (on_bind r w) {r}"
proof -
  assume impls: "confined_impls about (sv_impls w)"
  have "confined about (callback r) {r}"
    if "find_impl (sv_impls w) protocol = Some im" "List.find P (im_objects im) = Some (n, callback)" for protocol im P n callback
  proof -
    have "im \<in> set (sv_impls w)" using that(1) by (auto simp: find_impl_def find_Some_iff)
    moreover have "(n, callback) \<in> set (im_objects im)" using that(2) by (auto simp: find_Some_iff)
    ultimately show ?thesis using impls by (fastforce simp: confined_impls_def)
  qed
  then show ?thesis by (auto simp: on_bind_def Let_def split: option.split)
qed

section \<open>The objects of a client\<close>

definition own :: "nat \<Rightarrow> ('h, 'd) server \<Rightarrow> nat set" where
  "own k w = {r. r < length (sv_objects w) \<and> so_client (sv_objects w ! r) = k}"

text \<open>All that is not of client \<open>k\<close> stays as it is, and only objects of this client are new.\<close>

definition undisturbed :: "nat \<Rightarrow> ('h, 'd) server \<Rightarrow> ('h, 'd) server \<Rightarrow> bool" where
  "undisturbed k w w' \<longleftrightarrow> sv_impls w' = sv_impls w \<and> sv_clients w' = sv_clients w \<and> sv_listener w' = sv_listener w \<and>
     sv_next_client_id w' = sv_next_client_id w \<and> length (sv_client_heap w') = length (sv_client_heap w) \<and>
     (\<forall>j. j \<noteq> k \<longrightarrow> sv_client_heap w' ! j = sv_client_heap w ! j \<and> own j w' = own j w) \<and>
     own k w \<subseteq> own k w' \<and>
     (\<forall>r < length (sv_objects w). so_client (sv_objects w ! r) \<noteq> k \<longrightarrow> sv_objects w' ! r = sv_objects w ! r)"

text \<open>The table of the client and the data of its objects refer to objects of the client.\<close>

definition keeps_apart :: "('h \<Rightarrow> nat set) \<Rightarrow> nat \<Rightarrow> ('h, 'd) server \<Rightarrow> bool" where
  "keeps_apart about k w \<longleftrightarrow> k < length (sv_client_heap w) \<and> set (sc_objects (sv_client_heap w ! k)) \<subseteq> own k w \<and>
     (\<forall>r \<in> own k w. \<forall>h. so_data (sv_objects w ! r) = Some h \<longrightarrow> about h \<subseteq> own k w)"

definition separate :: "('h \<Rightarrow> nat set) \<Rightarrow> nat \<Rightarrow> ('h, 'd) server \<Rightarrow> ('h, 'd) server \<Rightarrow> bool" where
  "separate about k w w' \<longleftrightarrow> undisturbed k w w' \<and> (keeps_apart about k w \<longrightarrow> keeps_apart about k w')"

lemma undisturbed_trans: "undisturbed k w1 w2 \<Longrightarrow> undisturbed k w2 w3 \<Longrightarrow> undisturbed k w1 w3"
proof -
  assume steps: "undisturbed k w1 w2" "undisturbed k w2 w3"
  have "sv_objects w3 ! r = sv_objects w1 ! r"
    if r: "r < length (sv_objects w1)" "so_client (sv_objects w1 ! r) \<noteq> k" for r
  proof -
    have "r \<in> own (so_client (sv_objects w1 ! r)) w2" using steps(1) r by (auto simp: undisturbed_def own_def)
    then show ?thesis using steps r by (auto simp: undisturbed_def own_def)
  qed
  moreover have "own k w1 \<subseteq> own k w3" using steps unfolding undisturbed_def by blast
  ultimately show ?thesis using steps unfolding undisturbed_def by simp
qed

lemma undisturbed_refl: "undisturbed k w w"
  by (simp add: undisturbed_def)

interpretation separation: step_relation "separate about k"
  for about :: "'h \<Rightarrow> nat set" and k :: nat
  by unfold_locales (simp add: separate_def undisturbed_refl, unfold separate_def, blast intro: undisturbed_trans)

section \<open>The steps\<close>

lemma separate_own: "separate about k w w' \<Longrightarrow> own k w \<subseteq> own k w'"
  by (simp add: separate_def undisturbed_def)

lemma separate_apart: "separate about k w w' \<Longrightarrow> keeps_apart about k w \<Longrightarrow> keeps_apart about k w'"
  by (simp add: separate_def)

lemma separate_impls: "separate about k w w' \<Longrightarrow> sv_impls w' = sv_impls w"
  by (simp add: separate_def undisturbed_def)

lemma separate_app: "separate about k w (w\<lparr>sv_app := d\<rparr>)"
  by (simp add: separate_def undisturbed_def own_def keeps_apart_def)

lemma separate_client:
  assumes "\<And>c. set (sc_objects (g c)) \<subseteq> set (sc_objects c)"
  shows "separate about k w (upd_client k g w)"
proof -
  have own: "own j (upd_client k g w) = own j w" for j by (simp add: own_def upd_client_def)
  have "set (sc_objects (g (sv_client_heap w ! k))) \<subseteq> own k w" if "set (sc_objects (sv_client_heap w ! k)) \<subseteq> own k w"
    using assms that by blast
  then show ?thesis by (simp add: separate_def undisturbed_def keeps_apart_def own) (simp add: upd_client_def)
qed

lemma separate_conn: "separate about k w (upd_conn k f w)"
  unfolding upd_conn_def by (rule separate_client) simp

lemma separate_object:
  assumes r: "r \<in> own k w" and f: "so_client (f (sv_objects w ! r)) = k"
    and data: "\<And>h. so_data (f (sv_objects w ! r)) = Some h \<Longrightarrow> so_data (sv_objects w ! r) = Some h \<or> about h \<subseteq> own k w"
  shows "separate about k w (upd_object r f w)"
proof -
  have own: "own j (upd_object r f w) = own j w" for j
    using r f by (auto simp: own_def upd_object_def nth_list_update)
  have "about h \<subseteq> own k w"
    if "keeps_apart about k w" "t \<in> own k w" "so_data (sv_objects (upd_object r f w) ! t) = Some h" for t h
    using that data r by (cases "t = r") (auto simp: keeps_apart_def upd_object_def own_def)
  moreover have "sv_objects (upd_object r f w) ! t = sv_objects w ! t" if "so_client (sv_objects w ! t) \<noteq> k" for t
    using that r by (cases "t = r") (auto simp: upd_object_def own_def)
  ultimately show ?thesis
    by (simp add: separate_def undisturbed_def keeps_apart_def own) (simp add: upd_object_def)
qed

lemma separate_mark: "r \<in> own k w \<Longrightarrow> separate about k w (mark_destroyed r w)"
  unfolding mark_destroyed_def by (rule separate_object) (auto simp: own_def)

lemma separate_reading: "r \<in> own k w \<Longrightarrow> separate about k w (upd_object r (\<lambda>obj. obj\<lparr>so_reading := b\<rparr>) w)"
  by (rule separate_object) (auto simp: own_def)

lemma separate_data: "r \<in> own k w \<Longrightarrow> about h \<subseteq> own k w \<Longrightarrow> separate about k w (set_object_data r h w)"
  unfolding set_object_data_def by (rule separate_object) (auto simp: own_def)

lemma separate_create:
  assumes create: "client_create_object k protocol name version seq w = (new, w')"
  shows "separate about k w w'" and "new \<in> own k w'"
proof -
  let ?obj = "\<lparr>so_client = k, so_spec = find_spec (sv_impls w) protocol name, so_destroyed = False,
    so_data = None, so_reading = False, so_id = sc_max_id (sv_client_heap w ! k), so_version = version, so_seq = seq,
    so_protocol_name = protocol\<rparr>"
  have w': "new = length (sv_objects w)" "sv_objects w' = sv_objects w @ [?obj]"
    using create by (auto simp: client_create_object_def Let_def upd_client_def)
  have own: "own j w' = (if j = k then insert new (own j w) else own j w)" for j
    by (auto simp: own_def w' nth_append split: if_splits)
  then show "new \<in> own k w'" by simp
  have "undisturbed k w w'"
    using create by (auto simp: undisturbed_def own) (auto simp: client_create_object_def Let_def upd_client_def nth_append)
  moreover have "keeps_apart about k w'" if "keeps_apart about k w"
  proof -
    have "set (sc_objects (sv_client_heap w' ! k)) \<subseteq> insert new (own k w)"
      using create that by (auto simp: client_create_object_def Let_def upd_client_def keeps_apart_def)
    moreover have "k < length (sv_client_heap w')"
      using create that by (auto simp: client_create_object_def Let_def upd_client_def keeps_apart_def)
    moreover have "about h \<subseteq> own k w'" if "t \<in> own k w'" "so_data (sv_objects w' ! t) = Some h" for t h
    proof -
      have "t \<in> own k w \<and> so_data (sv_objects w ! t) = Some h" using that by (auto simp: own w' nth_append own_def split: if_splits)
      with \<open>keeps_apart about k w\<close> show ?thesis by (auto simp: keeps_apart_def own)
    qed
    ultimately show ?thesis unfolding keeps_apart_def by (simp add: own)
  qed
  ultimately show "separate about k w w'" by (simp add: separate_def)
qed

text \<open>What a callback needs to stay apart: the state, and that its objects are among those of the client.\<close>

definition ready :: "('h \<Rightarrow> nat set) \<Rightarrow> nat \<Rightarrow> ('h, 'd) server \<Rightarrow> bool" where
  "ready about k w \<longleftrightarrow> keeps_apart about k w \<and> confined_impls about (sv_impls w)"

lemma separate_ready: "separate about k w w' \<Longrightarrow> ready about k w \<Longrightarrow> ready about k w'"
  by (simp add: ready_def separate_apart separate_impls)

lemma separate_server_error:
  "server_error r i msg w = Ok w' \<Longrightarrow> r \<in> own k w \<Longrightarrow> separate about k w w'"
  by (auto simp: server_error_def Let_def bind_res_eq_Ok own_def separation.R_refl separate_conn split: if_splits)

lemma separate_server_call:
  assumes call: "server_call r i args w = Ok (v, w')" and r: "r \<in> own k w"
  shows "separate about k w w'"
proof -
  have "separate about k w (upd_conn j f (if d then mark_destroyed r w else w))" if "j = k" for j f d
    using separate_mark[OF r] that by (auto intro: separation.R_trans separate_conn)
  moreover have "so_client (sv_objects w ! r) = k" using r by (simp add: own_def)
  ultimately show ?thesis
    by (cases rule: server_call_cases[OF call]) (simp_all add: separation.R_refl separate_server_error[OF _ r])
qed

lemma separate_object_create:
  assumes create: "object_create_object r name seq w = Some (new, w')" and r: "r \<in> own k w"
  shows "separate about k w w'" and "new \<in> own k w'"
proof -
  have "client_create_object k (so_protocol_name (sv_objects w ! r)) name (so_version (sv_objects w ! r)) seq w = (new, w')"
    using create r by (auto simp: object_create_object_def Let_def own_def split: if_splits)
  from separate_create[OF this] show "separate about k w w'" "new \<in> own k w'" .
qed

lemma own_set: "r \<in> A \<Longrightarrow> A \<subseteq> own k w \<Longrightarrow> r \<in> own k w"
  by blast

lemma separate_keeps:
  assumes "separate about k w w'" and "keeps (separate about k) w' m"
  shows "keeps (separate about k) w m"
  using assms by (rule separation.keeps_after)

lemma keeps_run_separate:
  fixes w :: "('h, 'd) server"
  assumes "ready about k w" and "confined about p A" and "A \<subseteq> own k w"
  shows "keeps (separate about k) w (run p w)"
proof -
  let ?P = "\<lambda>p w y. \<forall>A. ready about k w \<longrightarrow> confined about p A \<longrightarrow> A \<subseteq> own k w \<longrightarrow>
    fst y \<noteq> Panic \<longrightarrow> separate about k w (snd y)"
  have "?P p w y" if "run p w = Some y" for y
  proof (rule run.raw_induct[where P = ?P, OF _ that], intro allI impI)
    fix run' :: "('h, 'd) prog \<Rightarrow> ('h, 'd) server \<Rightarrow> (error, unit, ('h, 'd) server) eff" 
      and p :: "('h, 'd) prog" and w :: "('h, 'd) server" and y A
    assume hyp: "\<And>p w y. run' p w = Some y \<Longrightarrow> ?P p w y"
    assume ready: "ready about k w" and p: "confined about p A" and A: "A \<subseteq> own k w"
    have IH: "keeps (separate about k) w' (run' p w')" if "ready about k w'" "confined about p B" "B \<subseteq> own k w'"
      for p and w' :: "('h, 'd) server" and B
      using hyp[of p w'] that by (auto simp: keeps_def)
    have go_on: "keeps (separate about k) w (run' p w')" if "separate about k w w'" "confined about p A" for p w'
      using separate_keeps[OF that(1) IH[OF separate_ready[OF that(1) ready] that(2)]] A separate_own[OF that(1)] by blast
    let ?body = "case p of
        Finish \<Rightarrow> Some (Ok (), w)
      | Crash \<Rightarrow> Some (Panic, w)
      | GetApp k \<Rightarrow> run' (k (sv_app w)) w
      | SetApp d k \<Rightarrow> run' k (w\<lparr>sv_app := d\<rparr>)
      | Call r i args k \<Rightarrow>
          (if r < length (sv_objects w) then
             (case server_call r i args w of Ok (v, w') \<Rightarrow> run' (k v) w' | _ \<Rightarrow> Some (Panic, w))
           else Some (Panic, w))
      | RaiseError r i msg k \<Rightarrow>
          (if r < length (sv_objects w) then
             (case server_error r i msg w of Ok w' \<Rightarrow> run' k w' | _ \<Rightarrow> Some (Panic, w))
           else Some (Panic, w))
      | CreateObject r name seq k \<Rightarrow>
          (if r < length (sv_objects w) then
             (case object_create_object r name seq w of
                None \<Rightarrow> run' (k None) w
              | Some (new, w') \<Rightarrow>
                  bind_eff (run' (on_bind new w') w') (\<lambda>_ w''. run' (k (Some new)) w''))
           else Some (Panic, w))
      | SetData r h k \<Rightarrow>
          (if r < length (sv_objects w) then
             (if so_reading (sv_objects w ! r) then None else run' k (set_object_data r h w))
           else Some (Panic, w))
      | GetClient r k \<Rightarrow>
          (if r < length (sv_objects w) then run' (k (object_client r w)) w else Some (Panic, w))
      | ReadCreds c k \<Rightarrow>
          (if c < length (sv_client_heap w) then
             (case creds (sv_client_heap w ! c) of Ok cred \<Rightarrow> run' (k cred) w | _ \<Rightarrow> Some (Panic, w))
           else Some (Panic, w))"
    assume "?body = Some y" and "fst y \<noteq> Panic"
    moreover have "keeps (separate about k) w ?body"
    proof (cases p)
      case (SetApp d q)
      with p go_on[OF separate_app] show ?thesis by simp
    next
      case (Call r i args q)
      with p A show ?thesis
        by (auto simp: separation.keeps_Panic split: res.splits intro!: go_on separate_server_call)
    next
      case (RaiseError r i msg q)
      with p A show ?thesis
        by (auto simp: separation.keeps_Panic split: res.splits intro!: go_on separate_server_error)
    next
      case (SetData r h q)
      with p A show ?thesis
        by (auto simp: separation.keeps_Panic intro!: go_on separate_data)
    next
      case (GetApp q)
      with p show ?thesis by (auto intro!: go_on[OF separation.R_refl])
    next
      case (GetClient r q)
      with p show ?thesis by (auto simp: separation.keeps_Panic intro!: go_on[OF separation.R_refl])
    next
      case (ReadCreds c q)
      with p show ?thesis
        by (auto simp: separation.keeps_Panic split: res.splits intro!: go_on[OF separation.R_refl])
    next
      case (CreateObject r name seq q)
      have r: "r \<in> own k w" using p A CreateObject by auto
      have "keeps (separate about k) w (bind_eff (run' (on_bind new w') w') (\<lambda>_ w''. run' (q (Some new)) w''))"
        if create: "object_create_object r name seq w = Some (new, w')" for new w'
      proof (rule separate_keeps[OF separate_object_create(1)[OF create r]], rule separation.keeps_trans)
        note new = separate_object_create(1)[OF create r, of about] separate_object_create(2)[OF create r]
        note ready' = separate_ready[OF new(1) ready]
        show "keeps (separate about k) w' (run' (on_bind new w') w')"
          using confined_on_bind[of about w' new] ready' new(2) by (intro IH[OF ready']) (auto simp: ready_def)
        fix x w'' assume w'': "separate about k w' w''"
        have "insert new A \<subseteq> own k w''" using new A separate_own[OF new(1)] separate_own[OF w''] by blast
        then show "keeps (separate about k) w'' (run' (q (Some new)) w'')"
          using p CreateObject by (intro IH[OF separate_ready[OF w'' ready']]) auto
      qed
      with CreateObject p show ?thesis
        by (auto simp: separation.keeps_Panic split: option.splits intro!: go_on[OF separation.R_refl])
    qed (simp_all add: separation.keeps_Panic separation.keeps_Some_R separation.R_refl)
    ultimately show "separate about k w (snd y)" by (cases y) (simp add: keeps_def)
  qed
  with assms show ?thesis by (auto simp: keeps_def)
qed

section \<open>Dispatching a client\<close>

lemma keeps_object_dispatch_separate:
  assumes ready: "ready about k w" and disp: "confined_dispatcher about disp" and r: "r \<in> own k w"
  shows "keeps (separate about k) w (object_dispatch disp r i data fds w)"
proof (cases "so_data (sv_objects w ! r)")
  case None
  then show ?thesis by (simp add: object_dispatch_def separation.keeps_Some_R separation.R_refl)
next
  case (Some h)
  note reading = separate_reading[OF r, of about True]
  have own: "about h \<subseteq> own k w" using ready r Some by (auto simp: ready_def keeps_apart_def)
  have "keeps (separate about k) w (run (disp h i data fds (sv_app w)) (upd_object r (\<lambda>obj. obj\<lparr>so_reading := True\<rparr>) w))"
    using disp own separate_own[OF reading]
    by (intro separate_keeps[OF reading keeps_run_separate[OF separate_ready[OF reading ready], where A = "about h"]])
      (auto simp: confined_dispatcher_def)
  then show ?thesis
    using Some r
    by (auto simp: object_dispatch_def intro!: separation.keeps_trans separation.keeps_Some_R separate_reading dest!: separate_own)
qed

lemma separate_destroy: "separate about k w (destroy_object k i w)"
  unfolding destroy_object_def by (rule separate_client) auto

lemma separate_found: "keeps_apart about k w \<Longrightarrow> find_object k i w = Some r \<Longrightarrow> r \<in> own k w"
  by (auto simp: find_object_def find_Some_iff keeps_apart_def)

lemma keeps_on_generic_separate:
  assumes ready: "ready about k w" and disp: "confined_dispatcher about disp"
  shows "keeps (separate about k) w (on_generic disp k msg w)"
proof (cases "find_object k (gm_object msg) w")
  case None
  then show ?thesis
    by (auto simp: on_generic_def intro!: separation.keeps_trans separation.keeps_lift_R separation.keeps_Some_R separate_conn)
next
  case (Some r)
  have r: "r \<in> own k w" using separate_found[of about, OF _ Some] ready by (simp add: ready_def)
  have dispatch: "keeps (separate about k) w' (object_dispatch disp r i data fds w')" if "separate about k w w'" for w' i data fds
    using separate_ready[OF that ready] disp separate_own[OF that] r by (intro keeps_object_dispatch_separate) auto
  have "separate about k w' (mark_destroyed r w')"
    "separate about k w' (destroy_object (so_client (sv_objects w' ! r)) i (mark_destroyed r w'))" if "separate about k w w'" for w' i
  proof -
    have own: "r \<in> own k w'" using separate_own[OF that] r by blast
    then have "so_client (sv_objects w' ! r) = k" by (simp add: own_def)
    with own show "separate about k w' (mark_destroyed r w')"
      "separate about k w' (destroy_object (so_client (sv_objects w' ! r)) i (mark_destroyed r w'))"
      by (auto intro: separate_mark separation.R_trans[OF separate_mark separate_destroy])
  qed
  with Some show ?thesis
    by (auto simp: on_generic_def Let_def separation.R_refl
        intro!: separation.keeps_trans separation.keeps_lift_R dispatch separation.keeps_Some_R intro: separation.R_trans)
qed

lemma keeps_server_message_separate:
  assumes ready: "ready about k w" and disp: "confined_dispatcher about disp"
  shows "keeps (separate about k) w (server_message pr disp k t data fds needle w)"
proof (cases t)
  case Sup
  have first: "separate about k w' (dispatch_first_poll k w')" for w' :: "('a, 'b) server"
    unfolding dispatch_first_poll_def by (rule separate_client) simp
  show ?thesis
    unfolding Sup server_message_def Let_def message_type.case
    by (rule separation.keeps_trans[OF separation.keeps_lift_R], rule separate_keeps[OF first],
        rule separation.keeps_trans[OF separation.keeps_lift_R], rule separation.keeps_Some_R, rule separate_conn)
next
  case BindProtocol
  have "keeps (separate about k) w' (case client_create_object k (bind_name msg) [] (bind_version msg) (bind_seq msg) w' of
      (new, w) \<Rightarrow> bind_eff (run (on_bind new w) w) (\<lambda>_ w. Some (Ok (length (bind_data msg), fds), w)))"
    if w': "separate about k w w'" for msg w'
  proof -
    obtain new w1 where create: "client_create_object k (bind_name msg) [] (bind_version msg) (bind_seq msg) w' = (new, w1)"
      by fastforce
    have "ready about k w1" using separate_ready[OF separate_create(1)[OF create] separate_ready[OF w' ready]] .
    moreover have "confined about (on_bind new w1) {new}" using confined_on_bind calculation by (auto simp: ready_def)
    ultimately show ?thesis
      unfolding create prod.case using separate_create(2)[OF create]
      by (intro separate_keeps[OF separate_create(1)[OF create]] separation.keeps_trans keeps_run_separate separation.keeps_Some_R
          separation.R_refl) auto
  qed
  with BindProtocol show ?thesis
    by (auto simp: server_message_def intro!: separation.keeps_trans[OF separation.keeps_lift_R])
next
  case HandshakeAck
  have "separate about k w' (upd_client k (\<lambda>c. c\<lparr>sc_version := v\<rparr>) w')" for w' v by (rule separate_client) simp
  with HandshakeAck show ?thesis
    by (auto simp: server_message_def Let_def intro!: separation.keeps_trans[OF separation.keeps_lift_R]
        separation.keeps_Some_R separate_conn intro: separate_keeps)
next
  case GenericProtocolMessage
  have "keeps (separate about k) w (Option.bind (generic_from_bytes pr data fds needle) (\<lambda>r. lift_res r w))"
    by (cases "generic_from_bytes pr data fds needle") (simp_all add: separation.keeps_lift_R)
  with GenericProtocolMessage show ?thesis
    by (auto simp: server_message_def intro!: separation.keeps_trans separation.keeps_Some_R separation.R_refl
        keeps_on_generic_separate[OF separate_ready[OF _ ready] disp])
next
  case RoundtripRequest
  then show ?thesis
    by (auto simp: server_message_def intro!: separation.keeps_trans separation.keeps_lift_R separation.keeps_Some_R separate_client)
qed (simp_all add: server_message_def wrong_role_def separation.keeps_Some_R separate_conn)

lemma keeps_handle_message_separate:
  fixes w :: "('h, 'd) server"
  assumes "ready about k w" and "confined_dispatcher about disp"
  shows "keeps (separate about k) w (server_handle_message pr disp k data fds needle w)"
proof -
  let ?P = "\<lambda>pr disp j data fds needle w y. j = k \<longrightarrow> ready about k w \<longrightarrow> confined_dispatcher about disp \<longrightarrow>
    fst y \<noteq> Panic \<longrightarrow> separate about k w (snd y)"
  have "?P pr disp k data fds needle w y" if "server_handle_message pr disp k data fds needle w = Some y" for y
  proof (rule server_handle_message.raw_induct[where P = ?P, OF _ that], intro impI)
    fix loop :: "profile \<Rightarrow> ('h, 'd) dispatcher \<Rightarrow> nat \<Rightarrow> bytes \<Rightarrow> i32 list \<Rightarrow> usize \<Rightarrow>
        ('h, 'd) server \<Rightarrow> (error, unit, ('h, 'd) server) eff"
      and pr and disp :: "('h, 'd) dispatcher" and j data fds needle and w :: "('h, 'd) server" and y
    assume hyp: "\<And>pr disp j data fds needle w y. loop pr disp j data fds needle w = Some y \<Longrightarrow>
      ?P pr disp j data fds needle w y"
    assume j: "j = k" and ready: "ready about k w" and disp: "confined_dispatcher about disp"
    have IH: "keeps (separate about k) w' (loop pr disp k data fds needle w')" if "ready about k w'" for data fds needle w'
      using hyp[of pr disp k data fds needle w'] that disp by (auto simp: keeps_def)
    let ?body = "if needle < length data then
        (case message_type_try_from (data ! needle) of
           Ok t \<Rightarrow>
             bind_eff (server_message pr disp j t data fds needle w) (\<lambda>x w.
             bind_eff (lift_res (uadd pr needle (fst x)) w) (\<lambda>needle' w.
               loop pr disp j data (snd x) needle' w))
         | _ \<Rightarrow> Some (Err InvalidMessage, w))
      else if fds \<noteq> [] then Some (Err MalformedMessage, w)
      else Some (Ok (), w)"
    assume "?body = Some y" and "fst y \<noteq> Panic"
    moreover have "keeps (separate about k) w ?body"
      using ready disp unfolding j
      by (auto split: res.splits intro!: separation.keeps_Some_R separation.R_refl separation.keeps_trans
          keeps_server_message_separate separation.keeps_lift_R IH dest: separate_ready)
    ultimately show "separate about k w (snd y)" by (cases y) (simp add: keeps_def)
  qed
  with assms show ?thesis by (auto simp: keeps_def)
qed

lemma keeps_fail_separate: "keeps (separate about k) w (fail_client k msg w)"
  unfolding fail_client_def
  by (intro separation.keeps_trans separation.keeps_lift_R separation.keeps_Some_R separate_conn)

lemma keeps_dispatch_separate:
  assumes ready: "ready about k w" and disp: "confined_dispatcher about disp"
  shows "keeps (separate about k) w (dispatch_client pr disp k answers w)"
proof (cases "read_from_socket answers")
  case None
  then show ?thesis by (simp add: dispatch_client_def keeps_fail_separate)
next
  case (Some raw)
  note handle = keeps_handle_message_separate[OF ready disp, of pr "raw_data raw" "raw_fds raw" 0]
  have ack: "separate about k w' (upd_client k (\<lambda>c. c\<lparr>sc_scheduled_roundtrip_seq := 0\<rparr>)
      (upd_conn k (send_message (MRoundtripDone m)) w'))" for m w'
    by (rule separation.R_trans[OF separate_conn separate_client]) simp
  show ?thesis
  proof (cases "raw_data raw = []")
    case True
    with Some show ?thesis by (simp add: dispatch_client_def separation.keeps_Some_R separate_conn)
  next
    case False
    show ?thesis
    proof (cases "server_handle_message pr disp k (raw_data raw) (raw_fds raw) 0 w")
      case None
      with Some False show ?thesis by (simp add: dispatch_client_def)
    next
      case res: (Some y)
      obtain r w' where y: "y = (r, w')" by fastforce
      have "separate about k w w'" if "r \<noteq> Panic" using handle res y that by (simp add: keeps_def)
      then show ?thesis
        using Some False res y
        by (cases r) (auto simp: dispatch_client_def Let_def separation.keeps_Panic
            intro!: separation.keeps_Some_R separate_keeps[OF _ keeps_fail_separate] intro: separation.R_trans[OF _ ack])
    qed
  qed
qed

text \<open>
  Generated code stays with one client if its handlers use only the proxies they are given: the object of the event
  and the one that was made for it.
\<close>

definition confined_handler :: "(gen_event \<Rightarrow> 'd \<Rightarrow> (gen_data, 'd) prog) \<Rightarrow> bool" where
  "confined_handler handler \<longleftrightarrow>
     (\<forall>ev app. confined (\<lambda>h. {gd_object h}) (handler ev app) (insert (ge_object ev) (set_option (ge_returned ev))))"

lemma generated_dispatch_confined:
  assumes "confined_handler handler"
  shows "confined_dispatcher (\<lambda>h. {gd_object h}) (server_dispatch pr p handler)"
proof -
  have event: "confined (\<lambda>h. {gd_object h}) (handler \<lparr>ge_object = r, ge_method = i, ge_returned = new, ge_seq = None, ge_args = vs\<rparr> app) A"
    if "insert r (set_option new) \<subseteq> A" for r i new vs app A
  proof (rule confined_mono[OF _ that])
    let ?ev = "\<lparr>ge_object = r, ge_method = i, ge_returned = new, ge_seq = None, ge_args = vs\<rparr>"
    have "confined (\<lambda>h. {gd_object h}) (handler ?ev app) (insert (ge_object ?ev) (set_option (ge_returned ?ev)))"
      using assms unfolding confined_handler_def by blast
    then show "confined (\<lambda>h. {gd_object h}) (handler ?ev app) (insert r (set_option new))" by simp
  qed
  have arm: "confined (\<lambda>h. {gd_object h}) (server_dispatch_arm pr handler r i m data fds app) {r}" for r i m data fds app
    by (auto simp: server_dispatch_arm_def Let_def write_new_fn_def intro!: event split: option.split res.split prod.split)
  then show ?thesis
    by (auto simp: confined_dispatcher_def server_dispatch_def split: option.split)
qed

lemma generated_server_confined:
  assumes "generate_server p bind = Ok im" and "\<And>r. confined (\<lambda>h. {gd_object h}) (bind r) {r}"
  shows "confined_impls (\<lambda>h. {gd_object h}) [im]"
  using assms by (auto simp: generate_server_def confined_impls_def write_new_fn_def split: list.splits)

text \<open>Burying a client: the destructors of its objects run.\<close>

lemma keeps_disconnect_separate:
  assumes "ready about k w" and disp: "confined_dispatcher about disp" and "set rs \<subseteq> own k w"
  shows "keeps (separate about k) w (disconnect_loop disp rs w)"
  using assms(1,3)
proof (induction rs arbitrary: w)
  case (Cons r rs)
  have "keeps (separate about k) w (destroy_for_disconnect disp r w)"
    using Cons.prems disp unfolding destroy_for_disconnect_def Let_def
    by (auto split: option.splits intro!: separation.keeps_trans keeps_object_dispatch_separate separation.keeps_Some_R
        separate_mark separation.R_refl dest!: separate_own)
  then show ?case
    using Cons.prems by (auto intro!: separation.keeps_trans Cons.IH dest: separate_ready separate_own)
qed (simp add: separation.keeps_Some_R separation.R_refl)

lemma keeps_destroy_separate:
  assumes "ready about k w" and "confined_dispatcher about disp"
  shows "keeps (separate about k) w (destroy_objects_for_disconnect disp k w)"
proof -
  have "set (rev (sc_objects (sv_client_heap w ! k))) \<subseteq> own k w" using assms(1) by (simp add: ready_def keeps_apart_def)
  from keeps_disconnect_separate[OF assms this] show ?thesis
    unfolding destroy_objects_for_disconnect_def
    by (intro separation.keeps_trans separation.keeps_Some_R) (auto intro: separate_client)
qed

text \<open>C5: A client cannot disturb another: if the callbacks of the application, called for an object of a client, use only
  objects of this client, then whatever the client sends - malformed messages, wrong numbers, requests for other
  protocols - and also when its connection has ended and its objects are destroyed, no other client's state,
  connection and messages change, no object of another client changes, and none is made for one; and the callbacks stay
  apart in the next call.\<close>
theorem clients_isolated:
  fixes w w' :: "('h, 'd) server"
  assumes apart: "keeps_apart about k w" and impls: "confined_impls about (sv_impls w)"
    and disp: "confined_dispatcher about disp"
    and ran: "dispatch_client pr disp k answers w = Some (res, w') \<or> destroy_objects_for_disconnect disp k w = Some (res, w')"
    and no_panic: "res \<noteq> Panic"
  shows "(\<forall>j. j \<noteq> k \<longrightarrow> sv_client_heap w' ! j = sv_client_heap w ! j \<and> own j w' = own j w \<and>
      (\<forall>r \<in> own j w. sv_objects w' ! r = sv_objects w ! r)) \<and>
    sv_impls w' = sv_impls w \<and> sv_clients w' = sv_clients w \<and> length (sv_client_heap w') = length (sv_client_heap w) \<and>
    keeps_apart about k w'"
proof -
  have ready: "ready about k w" using apart impls by (simp add: ready_def)
  have "separate about k w w'"
    using ran keepsD[OF keeps_dispatch_separate[OF ready disp] _ no_panic] keepsD[OF keeps_destroy_separate[OF ready disp] _ no_panic]
    by blast
  with apart show ?thesis by (auto simp: separate_def undisturbed_def own_def)
qed

text \<open>Two clients with an object each. The data of an object is its reference, and the callbacks call the object.\<close>

definition example_caller :: "(nat, unit) dispatcher" where
  "example_caller r i data fds app = Call r 0 [] (\<lambda>_. Finish)"

definition example_pair :: "(nat, unit) server" where
  "example_pair =
     (let obj = \<lparr>so_client = 0, so_spec = None, so_destroyed = False, so_data = Some 0, so_reading = False, so_id = 1,
            so_version = 1, so_seq = 1, so_protocol_name = ascii ''demo''\<rparr>
      in \<lparr>sv_impls = [], sv_objects = [obj, obj\<lparr>so_client := 1, so_data := Some 1\<rparr>],
          sv_client_heap = [(server_client_new 1 None)\<lparr>sc_objects := [0], sc_max_id := 2\<rparr>,
            (server_client_new 2 None)\<lparr>sc_objects := [1], sc_max_id := 2\<rparr>],
          sv_clients = [0, 1], sv_listener = False, sv_next_client_id = 3, sv_app = ()\<rparr>)"

theorem clients_isolated_witness:
  "\<exists>w'. dispatch_client Debug example_caller 0 [Received [0] []] example_pair = Some (Ok (), w') \<and>
    c_error (sc_conn (sv_client_heap w' ! 0)) \<and> sv_client_heap w' ! 1 = sv_client_heap example_pair ! 1 \<and>
    sv_objects w' ! 1 = sv_objects example_pair ! 1"
proof -
  let ?msg = "ascii ''fatal: failed to handle message on wire''"
  have "length ?msg < usize_bound" by (simp add: ascii_def usize_bound_def)
  from fatal_new_Ok[OF this, of 0 "- 1"] obtain fatal where fatal: "fatal_protocol_error_new 0 (- 1) ?msg = Ok fatal" by blast
  have "read_from_socket [Received [0] []] = Some \<lparr>raw_data = [0], raw_fds = []\<rparr>"
    by (simp add: read_from_socket_def buffer_size_def)
  moreover have "server_handle_message Debug example_caller 0 [0] [] 0 example_pair = Some (Err InvalidMessage, example_pair)"
    by (subst server_handle_message.simps) (simp add: message_type_try_from_def)
  ultimately have ran: "dispatch_client Debug example_caller 0 [Received [0] []] example_pair =
      Some (Ok (), upd_conn 0 (shutdown_conn \<circ> set_error \<circ> send_message (MFatal fatal)) example_pair)"
    by (simp add: dispatch_client_def fail_client_def fatal lift_res_def del: ascii_Cons)
  have own: "own 0 example_pair = {0}" "own 1 example_pair = {1}"
    by (auto simp: own_def example_pair_def Let_def less_Suc_eq)
  have apart: "keeps_apart (\<lambda>r. {r}) 0 example_pair"
    by (simp add: keeps_apart_def own) (simp add: example_pair_def Let_def)
  have impls: "confined_impls (\<lambda>r. {r}) (sv_impls example_pair)" by (simp add: confined_impls_def example_pair_def Let_def)
  have disp: "confined_dispatcher (\<lambda>r. {r}) example_caller" by (simp add: confined_dispatcher_def example_caller_def)
  note isolated = clients_isolated[OF apart impls disp disjI1[OF ran], THEN conjunct1, rule_format, of 1]
  have "c_error (sc_conn (sv_client_heap (upd_conn 0 (shutdown_conn \<circ> set_error \<circ> send_message (MFatal fatal)) example_pair) ! 0))"
    by (simp add: upd_conn_def upd_client_def example_pair_def Let_def)
  with ran isolated own show ?thesis by (intro exI conjI) (assumption | simp)+
qed

end
