(* ===== verification/Scanner_Compile.thy ===== *)
theory Scanner_Compile
  imports Scanner_Items
begin

text \<open>
  The build script's entry point, \<open>hyprwire-scanner/src/compile.rs\<close>: it reads descriptions, generates a file for
  each and writes it under the name of the protocol. The file system maps paths to contents, the environment
  is a map, and what cargo reads from the standard output is a list of lines.

  The XML reader is the parameter of \<open>Scanner_Parse\<close>, started on a text by \<open>tc_start\<close>. How the items of a file are
  built and printed as text is a parameter too (\<open>tc_print\<close>, \<open>None\<close> when \<open>format_ident\<close> refuses a name), and so are
  \<open>to_uppercase\<close> and the tokens of attributes; the items are \<open>generated_items\<close>, the head of the file is \<open>file_head\<close>.
  A write fails as a whole or not at all (\<open>tc_writable\<close>).
\<close>

section \<open>The code\<close>

record builder =
  bl_out_dir :: "str option"
  bl_targets :: targets
  bl_type_attributes :: "(str \<times> str) list"

definition configure :: builder where
  "configure = \<lparr>bl_out_dir = None, bl_targets = target_all, bl_type_attributes = []\<rparr>"

definition out_dir :: "str \<Rightarrow> builder \<Rightarrow> builder" where
  "out_dir path b = b\<lparr>bl_out_dir := Some path\<rparr>"

definition with_targets :: "targets \<Rightarrow> builder \<Rightarrow> builder" where
  "with_targets ts b = b\<lparr>bl_targets := ts\<rparr>"

definition type_attribute :: "str \<Rightarrow> str \<Rightarrow> builder \<Rightarrow> builder" where
  "type_attribute path attribute b = b\<lparr>bl_type_attributes := bl_type_attributes b @ [(path, attribute)]\<rparr>"

text \<open>\<open>Path::join\<close> of the standard library: an absolute path replaces the base.\<close>

definition join_path :: "str \<Rightarrow> str \<Rightarrow> str" where
  "join_path base p =
     (if take 1 p = ascii ''/'' then p
      else if base = [] \<or> last base = 47 then base @ p
      else base @ ascii ''/'' @ p)"

datatype compile_error =
    NoOutDir | NoManifestDir | ReadFailed str | ParseFailed str scan_error | WriteFailed str

record 'r toolchain =
  tc_xml :: "'r xml_reader"
  tc_start :: "str \<Rightarrow> 'r"
  tc_upper :: "str \<Rightarrow> str"
  tc_tokenize :: "str \<Rightarrow> (str, str) res"
  tc_print :: "generated_file \<Rightarrow> str option"
  tc_version :: str
  tc_writable :: "str \<Rightarrow> bool"

type_synonym build_state = "(str \<rightharpoonup> bytes) \<times> str list"

definition generate :: "'r toolchain \<Rightarrow> protocol \<Rightarrow> targets \<Rightarrow> (str \<times> str) list \<Rightarrow> (compile_error, str) res" where
  "generate tc p ts attributes =
     bind_res (generated_items (tc_upper tc) p ts (parse_type_attributes (tc_tokenize tc) attributes)) (\<lambda>items.
     case tc_print tc items of
       None \<Rightarrow> Panic
     | Some body \<Rightarrow> Ok (file_head (tc_version tc) p @ body))"

text \<open>\<open>fs::read_to_string\<close> fails for text that is not UTF-8.\<close>

definition read_to_string :: "(str \<rightharpoonup> bytes) \<Rightarrow> str \<Rightarrow> (compile_error, str) res" where
  "read_to_string fs path =
     (case fs path of
        Some text \<Rightarrow> if utf8_valid text then Ok text else Err (ReadFailed path)
      | None \<Rightarrow> Err (ReadFailed path))"

definition parse_file ::
    "'r toolchain \<Rightarrow> str \<Rightarrow> str \<Rightarrow> build_state \<Rightarrow> (compile_error, protocol, build_state) eff" where
  "parse_file tc path text st =
     map_option (\<lambda>(r, _). (case r of Ok p \<Rightarrow> Ok p | Err e \<Rightarrow> Err (ParseFailed path e) | Panic \<Rightarrow> Panic, st))
       (parse_protocol (tc_xml tc) (tc_start tc text))"

definition out_path :: "str \<Rightarrow> protocol \<Rightarrow> str" where
  "out_path dir p = join_path dir (pt_name p @ ascii ''.rs'')"

definition compile_one ::
    "'r toolchain \<Rightarrow> builder \<Rightarrow> str \<Rightarrow> str \<Rightarrow> str \<Rightarrow> build_state \<Rightarrow> (compile_error, unit, build_state) eff" where
  "compile_one tc b dir manifest_dir proto st =
     (let path = join_path manifest_dir proto in
      bind_eff (lift_res (read_to_string (fst st) path) st) (\<lambda>text st.
      bind_eff (parse_file tc path text st) (\<lambda>p st.
      bind_eff (lift_res (generate tc p (bl_targets b) (bl_type_attributes b)) st) (\<lambda>code (fs, out).
        let target = out_path dir p in
        if \<not> tc_writable tc target then Some (Err (WriteFailed target), fs, out)
        else Some (Ok (), fs(target \<mapsto> code), out @ [ascii ''cargo::rerun-if-changed='' @ path])))))"

fun compile_protos ::
    "'r toolchain \<Rightarrow> builder \<Rightarrow> str \<Rightarrow> str \<Rightarrow> str list \<Rightarrow> build_state \<Rightarrow> (compile_error, unit, build_state) eff" where
  "compile_protos tc b dir manifest_dir [] st = Some (Ok (), st)"
| "compile_protos tc b dir manifest_dir (proto # protos) st =
     bind_eff (compile_one tc b dir manifest_dir proto st) (\<lambda>_ st. compile_protos tc b dir manifest_dir protos st)"

definition compile ::
    "'r toolchain \<Rightarrow> (str \<rightharpoonup> str) \<Rightarrow> builder \<Rightarrow> str list \<Rightarrow> build_state \<Rightarrow> (compile_error, unit, build_state) eff" where
  "compile tc env b protos st =
     (case (case bl_out_dir b of Some dir \<Rightarrow> Some dir | None \<Rightarrow> env (ascii ''OUT_DIR'')) of
        None \<Rightarrow> Some (Err NoOutDir, st)
      | Some dir \<Rightarrow>
          (case env (ascii ''CARGO_MANIFEST_DIR'') of
             None \<Rightarrow> Some (Err NoManifestDir, st)
           | Some manifest_dir \<Rightarrow> compile_protos tc b dir manifest_dir protos st))"

section \<open>What is written\<close>

text \<open>A description that is read as a protocol for which code is generated.\<close>

definition describes ::
    "'r toolchain \<Rightarrow> builder \<Rightarrow> (str \<rightharpoonup> bytes) \<Rightarrow> str \<Rightarrow> protocol \<Rightarrow> str \<Rightarrow> bool" where
  "describes tc b fs path p code \<longleftrightarrow> (\<exists>text r. fs path = Some text \<and> utf8_valid text \<and>
     parse_protocol (tc_xml tc) (tc_start tc text) = Some (Ok p, r) \<and>
     generate tc p (bl_targets b) (bl_type_attributes b) = Ok code)"

lemma compile_one_described:
  assumes "describes tc b (fst st) (join_path manifest_dir proto) p code" and "tc_writable tc (out_path dir p)"
  shows "compile_one tc b dir manifest_dir proto st =
    Some (Ok (), (fst st)(out_path dir p \<mapsto> code), snd st @ [ascii ''cargo::rerun-if-changed='' @ join_path manifest_dir proto])"
  using assms
  by (auto simp: describes_def compile_one_def Let_def read_to_string_def parse_file_def lift_res_def
      simp del: ascii_Cons split: prod.split)

lemma describes_other:
  "path \<noteq> target \<Longrightarrow> describes tc b (fs(target \<mapsto> code)) path = describes tc b fs path"
  by (simp add: describes_def fun_eq_iff)

text \<open>The files after a build: the outputs one after the other.\<close>

definition write_outputs :: "str \<Rightarrow> (protocol \<times> str) list \<Rightarrow> (str \<rightharpoonup> bytes) \<Rightarrow> (str \<rightharpoonup> bytes)" where
  "write_outputs dir outs fs = fold (\<lambda>(p, code) fs. fs(out_path dir p \<mapsto> code)) outs fs"

lemma write_outputs_simps [simp]:
  "write_outputs dir [] fs = fs"
  "write_outputs dir ((p, code) # outs) fs = write_outputs dir outs (fs(out_path dir p \<mapsto> code))"
  by (simp_all add: write_outputs_def)

lemma write_outputs_last:
  "write_outputs dir outs fs path =
     (case List.find (\<lambda>(p, _). out_path dir p = path) (rev outs) of Some (_, code) \<Rightarrow> Some code | None \<Rightarrow> fs path)"
proof (induction outs rule: rev_induct)
  case (snoc x outs)
  then show ?case by (cases x) (simp add: write_outputs_def)
qed simp

lemma compile_protos_described:
  assumes "list_all2 (\<lambda>proto (p, code). describes tc b (fst st) (join_path manifest_dir proto) p code) protos outs"
    and "\<forall>(p, _) \<in> set outs. tc_writable tc (out_path dir p) \<and> (\<forall>proto \<in> set protos. join_path manifest_dir proto \<noteq> out_path dir p)"
  shows "compile_protos tc b dir manifest_dir protos st = Some (Ok (), write_outputs dir outs (fst st),
    snd st @ map (\<lambda>proto. ascii ''cargo::rerun-if-changed='' @ join_path manifest_dir proto) protos)"
  using assms
proof (induction protos arbitrary: outs st)
  case (Cons proto protos)
  then obtain p code outs' where outs: "outs = (p, code) # outs'"
    and first: "describes tc b (fst st) (join_path manifest_dir proto) p code"
    and others: "list_all2 (\<lambda>proto (p, code). describes tc b (fst st) (join_path manifest_dir proto) p code) protos outs'"
    by (auto simp: list_all2_Cons1)
  let ?st = "((fst st)(out_path dir p \<mapsto> code), snd st @ [ascii ''cargo::rerun-if-changed='' @ join_path manifest_dir proto])"
  have "compile_one tc b dir manifest_dir proto st = Some (Ok (), ?st)"
    using Cons.prems(2) outs by (intro compile_one_described first) simp
  moreover have "list_all2 (\<lambda>proto (p, code). describes tc b (fst ?st) (join_path manifest_dir proto) p code) protos outs'"
    using others Cons.prems(2) outs by (auto simp: describes_other list_all2_conv_all_nth)
  moreover have "\<forall>(p, _) \<in> set outs'. tc_writable tc (out_path dir p) \<and>
      (\<forall>proto \<in> set protos. join_path manifest_dir proto \<noteq> out_path dir p)"
    using Cons.prems(2) outs by auto
  ultimately show ?case
    using Cons.IH[of ?st outs'] outs by (simp del: ascii_Cons fun_upd_apply)
qed (simp add: write_outputs_def)

text \<open>C18: The build writes what the descriptions say: if every file that is named can be read and parsed and code can be
  generated for it, the outputs can be written and are none of the inputs, then \<open>compile\<close> succeeds, tells cargo of every
  input, and changes no file but the outputs; every output holds the code generated for the last description that
  goes to its path. Two descriptions of protocols with the same name have one output, and the first is lost.\<close>
theorem compile_outcome:
  assumes dir: "(case bl_out_dir b of Some dir \<Rightarrow> Some dir | None \<Rightarrow> env (ascii ''OUT_DIR'')) = Some dir"
    and manifest: "env (ascii ''CARGO_MANIFEST_DIR'') = Some manifest_dir"
    and described: "list_all2 (\<lambda>proto (p, code). describes tc b fs (join_path manifest_dir proto) p code) protos outs"
    and outputs: "\<forall>(p, _) \<in> set outs. tc_writable tc (out_path dir p) \<and>
      (\<forall>proto \<in> set protos. join_path manifest_dir proto \<noteq> out_path dir p)"
  shows "\<exists>fs'. compile tc env b protos (fs, out) = Some (Ok (), fs',
      out @ map (\<lambda>proto. ascii ''cargo::rerun-if-changed='' @ join_path manifest_dir proto) protos) \<and>
    (\<forall>path. fs' path = (case List.find (\<lambda>(p, _). out_path dir p = path) (rev outs) of
       Some (_, code) \<Rightarrow> Some code | None \<Rightarrow> fs path))"
  using compile_protos_described[of tc b "(fs, out)" manifest_dir protos outs dir] described outputs
  by (simp add: compile_def dir manifest write_outputs_last del: ascii_Cons)

text \<open>Two files that describe protocols of the same name.\<close>

definition example_toolchain :: "str toolchain" where
  "example_toolchain = \<lparr>tc_xml = \<lparr>xr_event = (\<lambda>r. Some (XEof, r)), xr_to_end = (\<lambda>_ r. Some r)\<rparr>, tc_start = (\<lambda>text. text),
     tc_upper = map upper_ascii, tc_tokenize = (\<lambda>s. Ok s), tc_print = (\<lambda>_. Some (ascii ''mod spec;'')), tc_version = ascii ''1'', tc_writable = (\<lambda>_. True)\<rparr>"

definition example_builder :: builder where
  "example_builder = with_targets target_client (out_dir (ascii ''/out'') configure)"

theorem compile_outcome_witness:
  "\<exists>fs'. compile example_toolchain [ascii ''CARGO_MANIFEST_DIR'' \<mapsto> ascii ''/src''] example_builder [ascii ''a.xml'', ascii ''b.xml'']
      ([ascii ''/src/a.xml'' \<mapsto> [], ascii ''/src/b.xml'' \<mapsto> []], []) =
      Some (Ok (), fs', map (\<lambda>proto. ascii ''cargo::rerun-if-changed='' @ join_path (ascii ''/src'') proto)
        [ascii ''a.xml'', ascii ''b.xml'']) \<and>
    fs' (ascii ''/src/a.xml'') = Some []"
proof -
  let ?fs = "[ascii ''/src/a.xml'' \<mapsto> [], ascii ''/src/b.xml'' \<mapsto> []] :: str \<rightharpoonup> bytes"
  let ?env = "[ascii ''CARGO_MANIFEST_DIR'' \<mapsto> ascii ''/src''] :: str \<rightharpoonup> str"
  let ?code = "file_head (ascii ''1'') no_protocol @ ascii ''mod spec;''"
  let ?protos = "[ascii ''a.xml'', ascii ''b.xml'']" and ?outs = "[(no_protocol, ?code), (no_protocol, ?code)]"
  have paths: "join_path (ascii ''/src'') (ascii ''a.xml'') = ascii ''/src/a.xml''"
    "join_path (ascii ''/src'') (ascii ''b.xml'') = ascii ''/src/b.xml''"
    "out_path (ascii ''/out'') no_protocol = ascii ''/out/.rs''"
    by (simp_all add: join_path_def out_path_def no_protocol_def)
  have "parse_protocol (tc_xml example_toolchain) s = (\<lambda>r. Some (Ok no_protocol, r)) s" for s
    by (simp add: parse_protocol_def protocol_loop.simps read_event_def example_toolchain_def)
  moreover have "generate example_toolchain no_protocol (bl_targets example_builder) (bl_type_attributes example_builder) = Ok ?code"
    by (simp add: generate_def example_toolchain_def example_builder_def with_targets_def out_dir_def configure_def
        targets_contain_def target_client_def target_server_def generated_items_def)
  ultimately have described: "describes example_toolchain example_builder ?fs path no_protocol ?code"
    if "?fs path = Some []" for path
    using that by (simp add: describes_def example_toolchain_def)
  have other: "(ascii ''/out/.rs'' = ascii ''/src/a.xml'') = False" by simp
  have a: "?fs (ascii ''/src/a.xml'') = Some []" and b: "?fs (ascii ''/src/b.xml'') = Some []" by simp_all
  have "list_all2 (\<lambda>proto (p, code). describes example_toolchain example_builder ?fs (join_path (ascii ''/src'') proto) p code)
      ?protos ?outs"
    using described[OF a] described[OF b] by (simp add: paths del: ascii_Cons fun_upd_apply)
  moreover have "(case bl_out_dir example_builder of Some dir \<Rightarrow> Some dir | None \<Rightarrow> ?env (ascii ''OUT_DIR'')) = Some (ascii ''/out'')"
    and "?env (ascii ''CARGO_MANIFEST_DIR'') = Some (ascii ''/src'')"
    by (simp_all add: example_builder_def with_targets_def out_dir_def configure_def)
  moreover have "\<forall>(p, _) \<in> set ?outs. tc_writable example_toolchain (out_path (ascii ''/out'') p) \<and>
      (\<forall>proto \<in> set ?protos. join_path (ascii ''/src'') proto \<noteq> out_path (ascii ''/out'') p)"
    by (simp add: paths example_toolchain_def del: ascii_Cons) simp
  ultimately obtain fs' where "compile example_toolchain ?env example_builder ?protos (?fs, []) = Some (Ok (), fs',
      [] @ map (\<lambda>proto. ascii ''cargo::rerun-if-changed='' @ join_path (ascii ''/src'') proto) ?protos)"
    and "fs' (ascii ''/src/a.xml'') =
      (case List.find (\<lambda>(p, _). out_path (ascii ''/out'') p = ascii ''/src/a.xml'') (rev ?outs) of
         Some (_, code) \<Rightarrow> Some code | None \<Rightarrow> ?fs (ascii ''/src/a.xml''))"
    using compile_outcome[where b = example_builder and env = ?env and dir = "ascii ''/out''" and manifest_dir = "ascii ''/src''"
        and tc = example_toolchain and fs = ?fs and protos = ?protos and outs = ?outs and out = "[]"]
    by blast
  then have "fs' (ascii ''/src/a.xml'') = Some []" and "compile example_toolchain ?env example_builder ?protos (?fs, []) =
      Some (Ok (), fs', map (\<lambda>proto. ascii ''cargo::rerun-if-changed='' @ join_path (ascii ''/src'') proto) ?protos)"
    by (simp_all only: rev.simps append.simps List.find.simps split_conv paths a if_False option.case other)
  then show ?thesis by blast
qed

end
