(* ===== verification/Scanner_Properties.thy ===== *)
theory Scanner_Properties
  imports Scanner_Parse
begin

text \<open>
  What the scanner reads. A protocol in its usual form, as a sequence of events (\<open>protocol_events\<close>), is read
  back as it is; a value of an enum that is written as a full element ends the list of values.

  \<open>consumes xr es f g\<close>: whenever the reader's next events are \<open>es\<close>, the computation \<open>f\<close> goes on as \<open>g\<close> after
  them. The loops of the parser are read in steps of this form.
\<close>

section \<open>Reading events\<close>

fun delivers :: "'r xml_reader \<Rightarrow> 'r \<Rightarrow> xml_event list \<Rightarrow> 'r \<Rightarrow> bool" where
  "delivers xr r [] r' \<longleftrightarrow> r' = r"
| "delivers xr r (e # es) r' \<longleftrightarrow> (\<exists>r1. xr_event xr r = Some (e, r1) \<and> delivers xr r1 es r')"

lemma delivers_append: "delivers xr r (es @ es') r' \<longleftrightarrow> (\<exists>r1. delivers xr r es r1 \<and> delivers xr r1 es' r')"
  by (induction es arbitrary: r) auto

definition consumes :: "'r xml_reader \<Rightarrow> xml_event list \<Rightarrow> ('r \<Rightarrow> 'a) \<Rightarrow> ('r \<Rightarrow> 'a) \<Rightarrow> bool" where
  "consumes xr es f g \<longleftrightarrow> (\<forall>r r'. delivers xr r es r' \<longrightarrow> f r = g r')"

named_theorems consume_intros

lemma consumes_Nil: "consumes xr [] f f"
  by (simp add: consumes_def)

lemma consumes_append: "consumes xr es f g \<Longrightarrow> consumes xr es' g h \<Longrightarrow> consumes xr (es @ es') f h"
  by (auto simp: consumes_def delivers_append)

lemma consumes_Cons: "consumes xr [e] f g \<Longrightarrow> consumes xr es g h \<Longrightarrow> consumes xr (e # es) f h"
  using consumes_append[of xr "[e]" f g es h] by simp

lemma consumes_event:
  assumes "\<And>r. f r = bind_eff (read_event xr r) h"
  shows "consumes xr [e] f (h e)"
  unfolding consumes_def
proof (intro allI impI)
  fix r r' assume "delivers xr r [e] r'"
  then have "xr_event xr r = Some (e, r')" by auto
  then show "f r = h e r'" unfolding assms[of r] by (simp add: read_event_def)
qed

lemma consumes_bind:
  "consumes xr es f (\<lambda>r. Some (Ok x, r)) \<Longrightarrow> consumes xr es (\<lambda>r. bind_eff (f r) k) (k x)"
  by (simp add: consumes_def)

lemma consumes_map:
  "consumes xr es f (\<lambda>r. Some (Ok x, r)) \<Longrightarrow> (\<And>r. g r = bind_eff (f r) (\<lambda>x r. Some (Ok (h x), r))) \<Longrightarrow> h x = y \<Longrightarrow>
     consumes xr es g (\<lambda>r. Some (Ok y, r))"
  by (simp add: consumes_def)

lemma consumes_fold:
  "(\<And>x acc. x \<in> set xs \<Longrightarrow> consumes xr (ev x) (F acc) (F (step x acc))) \<Longrightarrow>
     consumes xr (concat (map ev xs)) (F acc) (F (fold step xs acc))"
proof (induction xs arbitrary: acc)
  case (Cons x xs)
  have "consumes xr (concat (map ev xs)) (F (step x acc)) (F (fold step xs (step x acc)))"
    by (rule Cons.IH) (simp add: Cons.prems)
  with Cons.prems show ?case by (auto intro: consumes_append)
qed (simp add: consumes_Nil)

section \<open>Protocols as events\<close>

definition opt_attr :: "string \<Rightarrow> str option \<Rightarrow> xml_attrs" where
  "opt_attr key v = (case v of Some v \<Rightarrow> [Some (ascii key, v)] | None \<Rightarrow> [])"

primrec type_name :: "arg_type \<Rightarrow> str" where
  "type_name TVarchar = ascii ''varchar''"
| "type_name TFd = ascii ''fd''"
| "type_name TUint = ascii ''uint''"
| "type_name TInt = ascii ''int''"
| "type_name TF32 = ascii ''f32''"
| "type_name TEnum = ascii ''enum''"
| "type_name TArrayVarchar = ascii ''array varchar''"
| "type_name TArrayFd = ascii ''array fd''"
| "type_name TArrayUint = ascii ''array uint''"
| "type_name TArrayInt = ascii ''array int''"
| "type_name TArrayF32 = ascii ''array f32''"

definition arg_attrs :: "arg \<Rightarrow> xml_attrs" where
  "arg_attrs a = Some (ascii ''name'', arg_name a) # Some (ascii ''type'', type_name (arg_type a)) #
     opt_attr ''interface'' (arg_interface a) @ opt_attr ''summary'' (arg_summary a)"

definition body_events :: "str option \<Rightarrow> xml_event list" where
  "body_events body = (case body of Some b \<Rightarrow> [XText (Some b)] | None \<Rightarrow> [])"

definition description_events :: "description option \<Rightarrow> xml_event list" where
  "description_events d = (case d of
     Some d \<Rightarrow> XStart (ascii ''description'') (opt_attr ''summary'' (ds_summary d)) #
       body_events (ds_body d) @ [XEnd (ascii ''description'')]
   | None \<Rightarrow> [])"

definition method_events :: "str \<Rightarrow> method_decl \<Rightarrow> xml_event list" where
  "method_events tag m =
     XStart tag (Some (ascii ''name'', md_name m) #
       (if md_destructor m then [Some (ascii ''destructor'', ascii ''true'')] else [])) #
     description_events (md_description m) @
     concat (map (\<lambda>a. [XEmpty (ascii ''arg'') (arg_attrs a)]) (md_args m)) @
     (case md_returns m of Some r \<Rightarrow> [XEmpty (ascii ''returns'') [Some (ascii ''iface'', r)]] | None \<Rightarrow> []) @
     [XEnd tag]"

definition object_events :: "object_decl \<Rightarrow> xml_event list" where
  "object_events obj =
     XStart (ascii ''object'') [Some (ascii ''name'', od_name obj), Some (ascii ''version'', show_u32 (od_version obj))] #
     description_events (od_description obj) @
     concat (map (method_events (ascii ''c2s'')) (od_c2s obj)) @
     concat (map (method_events (ascii ''s2c'')) (od_s2c obj)) @ [XEnd (ascii ''object'')]"

definition value_attrs :: "enum_value \<Rightarrow> xml_attrs" where
  "value_attrs v = Some (ascii ''idx'', show_u32 (nv_idx v)) # Some (ascii ''name'', nv_name v) #
     opt_attr ''description'' (nv_description v)"

definition enum_events :: "enum_decl \<Rightarrow> xml_event list" where
  "enum_events en =
     XStart (ascii ''enum'') [Some (ascii ''name'', en_name en)] #
     concat (map (\<lambda>v. [XEmpty (ascii ''value'') (value_attrs v)]) (en_values en)) @ [XEnd (ascii ''enum'')]"

definition protocol_events :: "protocol \<Rightarrow> xml_event list" where
  "protocol_events p =
     XStart (ascii ''protocol'') [Some (ascii ''name'', pt_name p), Some (ascii ''version'', show_u32 (pt_version p))] #
     (case pt_copyright p of
        Some text \<Rightarrow> [XStart (ascii ''copyright'') [], XText (Some text), XEnd (ascii ''copyright'')] | None \<Rightarrow> []) @
     concat (map object_events (pt_objects p)) @ concat (map enum_events (pt_enums p)) @
     [XEnd (ascii ''protocol''), XEof]"

text \<open>Protocols that can be written: text is UTF-8, an enum names its interface, a body is not blank.\<close>

definition opt_ok :: "str option \<Rightarrow> bool" where
  "opt_ok s \<longleftrightarrow> (case s of Some s \<Rightarrow> utf8_valid s | None \<Rightarrow> True)"

definition body_ok :: "str option \<Rightarrow> bool" where
  "body_ok s \<longleftrightarrow> (case s of Some s \<Rightarrow> utf8_valid s \<and> \<not> blank s | None \<Rightarrow> True)"

definition description_ok :: "description option \<Rightarrow> bool" where
  "description_ok d \<longleftrightarrow> (case d of Some d \<Rightarrow> opt_ok (ds_summary d) \<and> body_ok (ds_body d) | None \<Rightarrow> True)"

definition arg_ok :: "arg \<Rightarrow> bool" where
  "arg_ok a \<longleftrightarrow> utf8_valid (arg_name a) \<and> opt_ok (arg_interface a) \<and> opt_ok (arg_summary a) \<and>
     (arg_type a = TEnum \<longrightarrow> arg_interface a \<noteq> None)"

definition method_ok :: "method_decl \<Rightarrow> bool" where
  "method_ok m \<longleftrightarrow> utf8_valid (md_name m) \<and> (\<forall>a \<in> set (md_args m). arg_ok a) \<and> opt_ok (md_returns m) \<and>
     description_ok (md_description m)"

definition object_ok :: "object_decl \<Rightarrow> bool" where
  "object_ok obj \<longleftrightarrow> utf8_valid (od_name obj) \<and> (\<forall>m \<in> set (od_c2s obj) \<union> set (od_s2c obj). method_ok m) \<and>
     description_ok (od_description obj)"

definition enum_ok :: "enum_decl \<Rightarrow> bool" where
  "enum_ok en \<longleftrightarrow> utf8_valid (en_name en) \<and>
     (\<forall>v \<in> set (en_values en). utf8_valid (nv_name v) \<and> opt_ok (nv_description v))"

definition protocol_ok :: "protocol \<Rightarrow> bool" where
  "protocol_ok p \<longleftrightarrow> utf8_valid (pt_name p) \<and> body_ok (pt_copyright p) \<and>
     (\<forall>obj \<in> set (pt_objects p). object_ok obj) \<and> (\<forall>en \<in> set (pt_enums p). enum_ok en)"

section \<open>Attributes are found\<close>

lemma attr_str_simps [simp]:
  "attr_str [] key = None"
  "attr_str (Some (k, v) # attrs) key = (if k = key then Some (from_utf8_lossy v) else attr_str attrs key)"
  "attr_str (opt_attr n ov @ attrs) key =
     (if ascii n = key \<and> ov \<noteq> None then map_option from_utf8_lossy ov else attr_str attrs key)"
  "attr_str (opt_attr n ov) key = (if ascii n = key then map_option from_utf8_lossy ov else None)"
  by (auto simp: attr_str_def opt_attr_def map_filter_simps split: option.split)

lemma opt_ok_lossy [simp]: "opt_ok v \<Longrightarrow> map_option from_utf8_lossy v = v"
  by (cases v) (simp_all add: opt_ok_def from_utf8_lossy_valid)

lemma parse_arg_type_name [simp]: "parse_arg_type (type_name t) = Ok t"
  by (cases t) (simp_all add: parse_arg_type_def)

lemma type_name_utf8 [simp]: "utf8_valid (type_name t)"
  by (cases t) simp_all

lemma parse_arg_attrs: "arg_ok a \<Longrightarrow> parse_arg (arg_attrs a) = Ok a"
  by (simp add: arg_ok_def parse_arg_def arg_attrs_def attr_required_def from_utf8_lossy_valid Let_def)

lemma attr_number_show:
  "attr_str attrs key = Some (show_u32 n) \<Longrightarrow> attr_number attrs key = Ok n"
  by (simp add: attr_number_def attr_required_def)

lemma parse_value_attrs:
  "utf8_valid (nv_name v) \<Longrightarrow> opt_ok (nv_description v) \<Longrightarrow> parse_value (value_attrs v) = Ok v"
  by (simp add: parse_value_def value_attrs_def attr_required_def from_utf8_lossy_valid attr_number_show)

section \<open>The loops read their parts\<close>

lemma read_text_consumes:
  "consumes xr (body_events body @ [XEnd tag]) (read_text_to_end xr tag [])
    (\<lambda>r. Some (Ok (case body of Some b \<Rightarrow> b | None \<Rightarrow> []), r))"
proof (cases body)
  case None
  then show ?thesis
    using consumes_event[OF read_text_to_end.simps, of xr "XEnd tag" tag "[]"] by (simp add: body_events_def)
next
  case (Some b)
  have "consumes xr [XText (Some b)] (read_text_to_end xr tag []) (read_text_to_end xr tag b)"
    using consumes_event[OF read_text_to_end.simps, of xr "XText (Some b)" tag "[]"] by (simp add: lift_res_def)
  moreover have "consumes xr [XEnd tag] (read_text_to_end xr tag b) (\<lambda>r. Some (Ok b, r))"
    using consumes_event[OF read_text_to_end.simps, of xr "XEnd tag" tag b] by simp
  ultimately show ?thesis using Some by (auto simp: body_events_def intro: consumes_Cons)
qed

lemma description_consumes:
  assumes "description_ok (Some d)"
  shows "consumes xr (body_events (ds_body d) @ [XEnd tag])
    (parse_description xr tag (opt_attr ''summary'' (ds_summary d))) (\<lambda>r. Some (Ok d, r))"
proof -
  have "\<lparr>ds_summary = attr_str (opt_attr ''summary'' (ds_summary d)) (ascii ''summary''),
      ds_body = (if blank (case ds_body d of Some b \<Rightarrow> b | None \<Rightarrow> []) then None
        else Some (case ds_body d of Some b \<Rightarrow> b | None \<Rightarrow> []))\<rparr> = d"
    using assms by (cases "ds_body d") (simp_all add: description_ok_def body_ok_def)
  with consumes_bind[OF read_text_consumes, of xr "ds_body d" tag "\<lambda>body r. Some (Ok \<lparr>ds_summary =
      attr_str (opt_attr ''summary'' (ds_summary d)) (ascii ''summary''),
      ds_body = (if blank body then None else Some body)\<rparr>, r)"]
  show ?thesis unfolding parse_description_def by simp
qed

lemma method_description:
  assumes "description_ok d"
  shows "consumes xr (description_events d) (method_loop xr no_parts) (method_loop xr (no_parts\<lparr>mp_description := d\<rparr>))"
proof (cases d)
  case (Some d')
  have "consumes xr [XStart (ascii ''description'') attrs] (method_loop xr no_parts)
      (\<lambda>r. bind_eff (parse_description xr (ascii ''description'') attrs r)
        (\<lambda>d r. method_loop xr (no_parts\<lparr>mp_description := Some d\<rparr>) r))" for attrs
    using consumes_event[OF method_loop.simps, of xr "XStart (ascii ''description'') attrs" no_parts] by simp
  from consumes_Cons[OF this consumes_bind[OF description_consumes]] assms Some
  show ?thesis by (simp add: description_events_def)
qed (simp add: description_events_def no_parts_def consumes_Nil)

lemma method_args:
  assumes "\<forall>a \<in> set as. arg_ok a"
  shows "consumes xr (concat (map (\<lambda>a. [XEmpty (ascii ''arg'') (arg_attrs a)]) as)) (method_loop xr ps)
    (method_loop xr (ps\<lparr>mp_args := mp_args ps @ as\<rparr>))"
proof -
  have "consumes xr [XEmpty (ascii ''arg'') (arg_attrs a)] (method_loop xr ps) (method_loop xr (add_arg a ps))"
    if "arg_ok a" for a ps
    using consumes_event[OF method_loop.simps, of xr "XEmpty (ascii ''arg'') (arg_attrs a)" ps]
      parse_arg_attrs[OF that] by (simp add: lift_res_def)
  then have "consumes xr (concat (map (\<lambda>a. [XEmpty (ascii ''arg'') (arg_attrs a)]) as)) (method_loop xr ps)
      (method_loop xr (fold add_arg as ps))"
    using assms by (intro consumes_fold) blast
  moreover have "fold add_arg as ps = ps\<lparr>mp_args := mp_args ps @ as\<rparr>"
    by (induction as arbitrary: ps) (simp_all add: add_arg_def)
  ultimately show ?thesis by simp
qed

lemma method_end: "consumes xr [XEnd tag] (method_loop xr ps) (\<lambda>r. Some (Ok ps, r))"
  using consumes_event[OF method_loop.simps, of xr "XEnd tag" ps] by simp

lemma method_returns:
  assumes "opt_ok ret" and "mp_returns ps = None"
  shows "consumes xr (case ret of Some r \<Rightarrow> [XEmpty (ascii ''returns'') [Some (ascii ''iface'', r)]] | None \<Rightarrow> [])
    (method_loop xr ps) (method_loop xr (ps\<lparr>mp_returns := ret\<rparr>))"
proof (cases ret)
  case None
  with assms(2) have "ps\<lparr>mp_returns := ret\<rparr> = ps" by simp
  with None show ?thesis by (simp add: consumes_Nil)
next
  case (Some r)
  with assms consumes_event[OF method_loop.simps, of xr "XEmpty (ascii ''returns'') [Some (ascii ''iface'', r)]" ps]
  show ?thesis by (simp add: lift_res_def attr_required_def from_utf8_lossy_valid opt_ok_def)
qed

text \<open>A method, after its start tag.\<close>

abbreviation method_attrs :: "method_decl \<Rightarrow> xml_attrs" where
  "method_attrs m \<equiv> Some (ascii ''name'', md_name m) #
     (if md_destructor m then [Some (ascii ''destructor'', ascii ''true'')] else [])"

lemma method_consumes:
  assumes m: "method_ok m"
  shows "consumes xr (tl (method_events tag m)) (parse_method xr (method_attrs m)) (\<lambda>r. Some (Ok m, r))"
proof -
  let ?parts = "\<lparr>mp_args = md_args m, mp_returns = md_returns m, mp_description = md_description m\<rparr>"
  have "consumes xr (tl (method_events tag m)) (method_loop xr no_parts) (\<lambda>r. Some (Ok ?parts, r))"
    unfolding method_events_def list.sel
  proof (intro consumes_append)
    show "consumes xr (description_events (md_description m)) (method_loop xr no_parts)
        (method_loop xr (no_parts\<lparr>mp_description := md_description m\<rparr>))"
      using m by (intro method_description) (simp add: method_ok_def)
    show "consumes xr (concat (map (\<lambda>a. [XEmpty (ascii ''arg'') (arg_attrs a)]) (md_args m)))
        (method_loop xr (no_parts\<lparr>mp_description := md_description m\<rparr>))
        (method_loop xr (no_parts\<lparr>mp_description := md_description m, mp_args := md_args m\<rparr>))"
      using method_args[of "md_args m" xr "no_parts\<lparr>mp_description := md_description m\<rparr>"] m
      by (simp add: method_ok_def no_parts_def)
    show "consumes xr (case md_returns m of Some r \<Rightarrow> [XEmpty (ascii ''returns'') [Some (ascii ''iface'', r)]] | None \<Rightarrow> [])
        (method_loop xr (no_parts\<lparr>mp_description := md_description m, mp_args := md_args m\<rparr>)) (method_loop xr ?parts)"
      using method_returns[of "md_returns m" "no_parts\<lparr>mp_description := md_description m, mp_args := md_args m\<rparr>" xr] m
      by (simp add: method_ok_def no_parts_def)
  qed (rule method_end)
  then show ?thesis
    by (rule consumes_map[where h = "\<lambda>ps. \<lparr>md_name = md_name m, md_args = mp_args ps, md_returns = mp_returns ps,
        md_destructor = md_destructor m, md_description = mp_description ps\<rparr>"])
      (use m in \<open>simp_all add: parse_method_def lift_res_def attr_required_def method_ok_def from_utf8_lossy_valid\<close>)
qed

text \<open>An object, after its start tag.\<close>

lemma object_description:
  assumes "description_ok d"
  shows "consumes xr (description_events d) (object_loop xr no_object_parts)
    (object_loop xr (no_object_parts\<lparr>op_description := d\<rparr>))"
proof (cases d)
  case (Some d')
  have "consumes xr [XStart (ascii ''description'') attrs] (object_loop xr no_object_parts)
      (\<lambda>r. bind_eff (parse_description xr (ascii ''description'') attrs r)
        (\<lambda>d r. object_loop xr (no_object_parts\<lparr>op_description := Some d\<rparr>) r))" for attrs
    using consumes_event[OF object_loop.simps, of xr "XStart (ascii ''description'') attrs" no_object_parts] by simp
  from consumes_Cons[OF this consumes_bind[OF description_consumes]] assms Some
  show ?thesis by (simp add: description_events_def)
qed (simp add: description_events_def no_object_parts_def consumes_Nil)

lemma method_events_Cons: "method_events tag m = XStart tag (method_attrs m) # tl (method_events tag m)"
  by (simp add: method_events_def)

lemma object_methods:
  assumes "\<forall>m \<in> set ms. method_ok m"
  shows "consumes xr (concat (map (method_events (ascii ''c2s'')) ms)) (object_loop xr ps)
      (object_loop xr (ps\<lparr>op_c2s := op_c2s ps @ ms\<rparr>))"
    and "consumes xr (concat (map (method_events (ascii ''s2c'')) ms)) (object_loop xr ps)
      (object_loop xr (ps\<lparr>op_s2c := op_s2c ps @ ms\<rparr>))"
proof -
  let ?c = "\<lambda>m ps. ps\<lparr>op_c2s := op_c2s ps @ [m]\<rparr>" and ?s = "\<lambda>m ps. ps\<lparr>op_s2c := op_s2c ps @ [m]\<rparr>"
  have start: "consumes xr [XStart (ascii ''c2s'') attrs] (object_loop xr ps)
      (\<lambda>r. bind_eff (parse_method xr attrs r) (\<lambda>m r. object_loop xr (?c m ps) r))"
    "consumes xr [XStart (ascii ''s2c'') attrs] (object_loop xr ps)
      (\<lambda>r. bind_eff (parse_method xr attrs r) (\<lambda>m r. object_loop xr (?s m ps) r))" for attrs ps
    using consumes_event[OF object_loop.simps, of xr "XStart (ascii ''c2s'') attrs" ps]
      consumes_event[OF object_loop.simps, of xr "XStart (ascii ''s2c'') attrs" ps] by simp_all
  have one: "consumes xr (method_events (ascii ''c2s'') m) (object_loop xr ps) (object_loop xr (?c m ps))"
    "consumes xr (method_events (ascii ''s2c'') m) (object_loop xr ps) (object_loop xr (?s m ps))"
    if "method_ok m" for m ps
    using consumes_Cons[OF start(1) consumes_bind[OF method_consumes[OF that]]]
      consumes_Cons[OF start(2) consumes_bind[OF method_consumes[OF that]]]
    by (metis method_events_Cons)+
  have folds: "fold ?c ms ps = ps\<lparr>op_c2s := op_c2s ps @ ms\<rparr>" "fold ?s ms ps = ps\<lparr>op_s2c := op_s2c ps @ ms\<rparr>"
    by (induction ms arbitrary: ps) simp_all
  show "consumes xr (concat (map (method_events (ascii ''c2s'')) ms)) (object_loop xr ps)
      (object_loop xr (ps\<lparr>op_c2s := op_c2s ps @ ms\<rparr>))"
    unfolding folds(1)[symmetric] using assms one(1) by (intro consumes_fold) blast
  show "consumes xr (concat (map (method_events (ascii ''s2c'')) ms)) (object_loop xr ps)
      (object_loop xr (ps\<lparr>op_s2c := op_s2c ps @ ms\<rparr>))"
    unfolding folds(2)[symmetric] using assms one(2) by (intro consumes_fold) blast
qed

lemma object_end: "consumes xr [XEnd tag] (object_loop xr ps) (\<lambda>r. Some (Ok ps, r))"
  using consumes_event[OF object_loop.simps, of xr "XEnd tag" ps] by simp

abbreviation object_attrs :: "object_decl \<Rightarrow> xml_attrs" where
  "object_attrs obj \<equiv>
     [Some (ascii ''name'', od_name obj), Some (ascii ''version'', show_u32 (od_version obj))]"

lemma object_consumes:
  assumes obj: "object_ok obj"
  shows "consumes xr (tl (object_events obj)) (parse_object xr (object_attrs obj)) (\<lambda>r. Some (Ok obj, r))"
proof -
  let ?parts = "\<lparr>op_c2s = od_c2s obj, op_s2c = od_s2c obj, op_description = od_description obj\<rparr>"
  have "consumes xr (tl (object_events obj)) (object_loop xr no_object_parts) (\<lambda>r. Some (Ok ?parts, r))"
    unfolding object_events_def list.sel
  proof (intro consumes_append)
    show "consumes xr (description_events (od_description obj)) (object_loop xr no_object_parts)
        (object_loop xr (no_object_parts\<lparr>op_description := od_description obj\<rparr>))"
      using obj by (intro object_description) (simp add: object_ok_def)
    show "consumes xr (concat (map (method_events (ascii ''c2s'')) (od_c2s obj)))
        (object_loop xr (no_object_parts\<lparr>op_description := od_description obj\<rparr>))
        (object_loop xr (no_object_parts\<lparr>op_description := od_description obj, op_c2s := od_c2s obj\<rparr>))"
      using object_methods(1)[of "od_c2s obj" xr "no_object_parts\<lparr>op_description := od_description obj\<rparr>"] obj
      by (simp add: object_ok_def no_object_parts_def)
    show "consumes xr (concat (map (method_events (ascii ''s2c'')) (od_s2c obj)))
        (object_loop xr (no_object_parts\<lparr>op_description := od_description obj, op_c2s := od_c2s obj\<rparr>))
        (object_loop xr ?parts)"
      using object_methods(2)[of "od_s2c obj" xr
          "no_object_parts\<lparr>op_description := od_description obj, op_c2s := od_c2s obj\<rparr>"] obj
      by (simp add: object_ok_def no_object_parts_def)
  qed (rule object_end)
  then show ?thesis
    by (rule consumes_map[where h = "\<lambda>ps. \<lparr>od_name = od_name obj, od_version = od_version obj, od_c2s = op_c2s ps,
        od_s2c = op_s2c ps, od_description = op_description ps\<rparr>"])
      (use obj in \<open>simp_all add: parse_object_def lift_res_def attr_required_def attr_number_show object_ok_def
        from_utf8_lossy_valid\<close>)
qed

text \<open>The values of an enum.\<close>

lemma enum_values:
  assumes "\<forall>v \<in> set vs. utf8_valid (nv_name v) \<and> opt_ok (nv_description v)"
  shows "consumes xr (concat (map (\<lambda>v. [XEmpty (ascii ''value'') (value_attrs v)]) vs) @ [XEnd tag])
    (enum_loop xr []) (\<lambda>r. Some (Ok vs, r))"
proof -
  have "consumes xr [XEmpty (ascii ''value'') (value_attrs v)] (enum_loop xr acc) (enum_loop xr (acc @ [v]))"
    if "utf8_valid (nv_name v)" "opt_ok (nv_description v)" for v acc
    using consumes_event[OF enum_loop.simps, of xr "XEmpty (ascii ''value'') (value_attrs v)" acc]
      parse_value_attrs[OF that] by (simp add: lift_res_def)
  then have "consumes xr (concat (map (\<lambda>v. [XEmpty (ascii ''value'') (value_attrs v)]) vs)) (enum_loop xr [])
      (enum_loop xr (fold (\<lambda>v acc. acc @ [v]) vs []))"
    using assms by (intro consumes_fold) blast
  moreover have "fold (\<lambda>v acc. acc @ [v]) vs acc = acc @ vs" for acc
    by (induction vs arbitrary: acc) simp_all
  moreover have "consumes xr [XEnd tag] (enum_loop xr vs) (\<lambda>r. Some (Ok vs, r))"
    using consumes_event[OF enum_loop.simps, of xr "XEnd tag" vs] by simp
  ultimately show ?thesis using consumes_append by fastforce
qed

section \<open>The protocol\<close>

lemma protocol_start:
  "consumes xr [XStart tag attrs] (protocol_loop xr p) (\<lambda>r. bind_eff (protocol_tag xr tag attrs p r) (protocol_loop xr))"
  using consumes_event[OF protocol_loop.simps, of xr "XStart tag attrs" p] by simp

text \<open>A start tag whose content \<open>es\<close> makes \<open>q\<close> of the protocol read so far.\<close>

lemma protocol_part:
  "consumes xr es (protocol_tag xr tag attrs p) (\<lambda>r. Some (Ok q, r)) \<Longrightarrow>
     consumes xr (XStart tag attrs # es) (protocol_loop xr p) (protocol_loop xr q)"
  by (rule consumes_Cons[OF protocol_start consumes_bind])

lemma protocol_head:
  "utf8_valid name \<Longrightarrow> consumes xr [XStart (ascii ''protocol'') [Some (ascii ''name'', name), Some (ascii ''version'', show_u32 v)]]
     (protocol_loop xr p) (protocol_loop xr (p\<lparr>pt_name := name, pt_version := v\<rparr>))"
  by (rule protocol_part) (simp add: consumes_def protocol_tag_def lift_res_def attr_required_def attr_number_show
      from_utf8_lossy_valid)

lemma protocol_copyright:
  assumes "body_ok c" and "pt_copyright p = None"
  shows "consumes xr (case c of Some text \<Rightarrow> [XStart (ascii ''copyright'') [], XText (Some text), XEnd (ascii ''copyright'')]
      | None \<Rightarrow> []) (protocol_loop xr p) (protocol_loop xr (p\<lparr>pt_copyright := c\<rparr>))"
proof (cases c)
  case None
  with assms(2) have "p\<lparr>pt_copyright := c\<rparr> = p" by simp
  with None show ?thesis by (simp add: consumes_Nil)
next
  case (Some b)
  have "consumes xr (body_events (Some b) @ [XEnd (ascii ''copyright'')])
      (protocol_tag xr (ascii ''copyright'') [] p) (\<lambda>r. Some (Ok (p\<lparr>pt_copyright := Some b\<rparr>), r))"
    by (rule consumes_map[OF read_text_consumes[where body = "Some b"],
          where h = "\<lambda>body. if blank body then p else p\<lparr>pt_copyright := Some body\<rparr>"])
      (use assms(1) Some in \<open>simp_all add: protocol_tag_def body_ok_def\<close>)
  from protocol_part[OF this] Some show ?thesis by (simp add: body_events_def)
qed

lemma protocol_objects:
  assumes "\<forall>obj \<in> set objs. object_ok obj"
  shows "consumes xr (concat (map object_events objs)) (protocol_loop xr p)
    (protocol_loop xr (p\<lparr>pt_objects := pt_objects p @ objs\<rparr>))"
proof -
  let ?add = "\<lambda>obj p. p\<lparr>pt_objects := pt_objects p @ [obj]\<rparr>"
  have "consumes xr (object_events obj) (protocol_loop xr p) (protocol_loop xr (?add obj p))" if "object_ok obj" for obj p
  proof -
    have "consumes xr (tl (object_events obj)) (protocol_tag xr (ascii ''object'') (object_attrs obj) p)
        (\<lambda>r. Some (Ok (?add obj p), r))"
      by (rule consumes_map[OF object_consumes[OF that], where h = "\<lambda>obj. ?add obj p"]) (simp_all add: protocol_tag_def)
    from protocol_part[OF this] show ?thesis by (simp add: object_events_def)
  qed
  then have "consumes xr (concat (map object_events objs)) (protocol_loop xr p) (protocol_loop xr (fold ?add objs p))"
    using assms by (intro consumes_fold) blast
  moreover have "fold ?add objs p = p\<lparr>pt_objects := pt_objects p @ objs\<rparr>"
    by (induction objs arbitrary: p) simp_all
  ultimately show ?thesis by simp
qed

lemma protocol_enums:
  assumes "\<forall>en \<in> set ens. enum_ok en"
  shows "consumes xr (concat (map enum_events ens)) (protocol_loop xr p)
    (protocol_loop xr (p\<lparr>pt_enums := pt_enums p @ ens\<rparr>))"
proof -
  let ?add = "\<lambda>en p. p\<lparr>pt_enums := pt_enums p @ [en]\<rparr>"
  have "consumes xr (enum_events en) (protocol_loop xr p) (protocol_loop xr (?add en p))" if "enum_ok en" for en p
  proof -
    have "consumes xr (tl (enum_events en)) (protocol_tag xr (ascii ''enum'') [Some (ascii ''name'', en_name en)] p)
        (\<lambda>r. Some (Ok (?add en p), r))"
      unfolding enum_events_def list.sel
      by (rule consumes_map[OF enum_values[where vs = "en_values en"],
            where h = "\<lambda>vs. ?add \<lparr>en_name = en_name en, en_values = vs\<rparr> p"])
        (use that in \<open>simp_all add: enum_ok_def protocol_tag_def lift_res_def attr_required_def from_utf8_lossy_valid\<close>)
    from protocol_part[OF this] show ?thesis by (simp add: enum_events_def)
  qed
  then have "consumes xr (concat (map enum_events ens)) (protocol_loop xr p) (protocol_loop xr (fold ?add ens p))"
    using assms by (intro consumes_fold) blast
  moreover have "fold ?add ens p = p\<lparr>pt_enums := pt_enums p @ ens\<rparr>"
    by (induction ens arbitrary: p) simp_all
  ultimately show ?thesis by simp
qed

lemma protocol_consumes:
  assumes p: "protocol_ok p"
  shows "consumes xr (protocol_events p) (protocol_loop xr no_protocol) (\<lambda>r. Some (Ok p, r))"
  unfolding protocol_events_def
proof (rule consumes_Cons[OF protocol_head], goal_cases)
  case 2
  let ?p1 = "no_protocol\<lparr>pt_name := pt_name p, pt_version := pt_version p\<rparr>"
  let ?p2 = "?p1\<lparr>pt_copyright := pt_copyright p\<rparr>"
  let ?p3 = "?p2\<lparr>pt_objects := pt_objects p\<rparr>"
  have "consumes xr (concat (map object_events (pt_objects p))) (protocol_loop xr ?p2) (protocol_loop xr ?p3)"
    using protocol_objects[of "pt_objects p" xr ?p2] p by (simp add: protocol_ok_def no_protocol_def)
  moreover have "consumes xr (concat (map enum_events (pt_enums p))) (protocol_loop xr ?p3) (protocol_loop xr p)"
    using protocol_enums[of "pt_enums p" xr ?p3] p by (cases p) (simp add: protocol_ok_def no_protocol_def)
  moreover have "consumes xr [XEnd (ascii ''protocol''), XEof] (protocol_loop xr p) (\<lambda>r. Some (Ok p, r))"
    using consumes_Cons[OF consumes_event[OF protocol_loop.simps, of xr "XEnd (ascii ''protocol'')" p]]
      consumes_event[OF protocol_loop.simps, of xr XEof p] by simp
  moreover have "body_ok (pt_copyright p)" "pt_copyright ?p1 = None"
    using p by (simp_all add: protocol_ok_def no_protocol_def)
  ultimately show ?case
    using protocol_copyright[of "pt_copyright p" ?p1 xr] by (intro consumes_append)
qed (use p in \<open>simp add: protocol_ok_def\<close>)

section \<open>A reader over a list of events\<close>

text \<open>The reader of the witnesses: its input is the list of the events left.\<close>

primrec skip_element :: "str \<Rightarrow> nat \<Rightarrow> xml_event list \<Rightarrow> xml_event list option" where
  "skip_element tag d [] = None"
| "skip_element tag d (e # es) =
     (if (\<exists>attrs. e = XStart tag attrs) then skip_element tag (Suc d) es
      else if e = XEnd tag then (case d of 0 \<Rightarrow> Some es | Suc d \<Rightarrow> skip_element tag d es)
      else skip_element tag d es)"

definition list_reader :: "xml_event list xml_reader" where
  "list_reader = \<lparr>xr_event = (\<lambda>es. case es of [] \<Rightarrow> None | e # es \<Rightarrow> Some (e, es)),
     xr_to_end = (\<lambda>tag es. skip_element tag 0 es)\<rparr>"

lemma list_reader_delivers [simp]: "delivers list_reader es es []"
  by (induction es) (simp_all add: list_reader_def)

definition sample_method :: method_decl where
  "sample_method = \<lparr>md_name = ascii ''paint'',
     md_args = [\<lparr>arg_name = ascii ''mode'', arg_type = TEnum, arg_interface = Some (ascii ''blend''), arg_summary = None\<rparr>],
     md_returns = Some (ascii ''brush''), md_destructor = True,
     md_description = Some \<lparr>ds_summary = Some (ascii ''paints''), ds_body = Some (ascii ''a body'')\<rparr>\<rparr>"

definition sample_enum :: enum_decl where
  "sample_enum = \<lparr>en_name = ascii ''blend'',
     en_values = [\<lparr>nv_name = ascii ''over'', nv_idx = 0, nv_description = None\<rparr>,
       \<lparr>nv_name = ascii ''under'', nv_idx = 1, nv_description = Some (ascii ''below'')\<rparr>]\<rparr>"

definition sample_protocol :: protocol where
  "sample_protocol = \<lparr>pt_name = ascii ''painter'', pt_version = 2,
     pt_objects = [\<lparr>od_name = ascii ''canvas'', od_version = 1, od_c2s = [sample_method], od_s2c = [],
       od_description = None\<rparr>],
     pt_enums = [sample_enum], pt_copyright = Some (ascii ''free'')\<rparr>"

lemmas sample_ok_defs = sample_protocol_def sample_method_def sample_enum_def protocol_ok_def object_ok_def method_ok_def
  enum_ok_def arg_ok_def description_ok_def body_ok_def opt_ok_def

lemma sample_protocol_ok: "protocol_ok sample_protocol"
  by (simp add: sample_ok_defs in_range_def)

lemma sample_protocol_read:
  "parse_protocol list_reader (protocol_events sample_protocol) = Some (Ok sample_protocol, [])"
  using protocol_consumes[OF sample_protocol_ok, of list_reader] list_reader_delivers
  unfolding consumes_def parse_protocol_def by blast

section \<open>Properties\<close>

text \<open>C15: A protocol is read back: a reader that delivers the events of a protocol in its usual form, whatever
  its objects, methods, arguments, enums and descriptions, makes \<open>parse_protocol\<close> return exactly this
  protocol, all of the input read.\<close>
theorem parse_protocol_roundtrip:
  assumes p: "protocol_ok p" and events: "delivers xr r (protocol_events p) r'"
  shows "parse_protocol xr r = Some (Ok p, r')"
  using protocol_consumes[OF p, of xr] events by (simp add: consumes_def parse_protocol_def)

theorem parse_protocol_roundtrip_witness:
  "parse_protocol list_reader (protocol_events sample_protocol) = Some (Ok sample_protocol, [])"
  by (rule parse_protocol_roundtrip[OF sample_protocol_ok list_reader_delivers])

text \<open>A value of an enum that is written as a full element ends the enum: the values after it are not
  read, and the rest of the enum is passed over, so the protocol has an enum with the first value only.\<close>
theorem full_value_ends_enum:
  assumes "utf8_valid (en_name en)" and "en_values en = v # vs"
    and "utf8_valid (nv_name v)" and "opt_ok (nv_description v)"
    and events: "delivers xr r ([XStart (ascii ''enum'') [Some (ascii ''name'', en_name en)]] @
      concat (map (\<lambda>v. [XStart (ascii ''value'') (value_attrs v), XEnd (ascii ''value'')]) (en_values en)) @
      [XEnd (ascii ''enum''), XEof]) r'"
  shows "parse_protocol xr r = Some (Ok (no_protocol\<lparr>pt_enums := [en\<lparr>en_values := [v]\<rparr>]\<rparr>), r')"
proof -
  let ?p = "no_protocol\<lparr>pt_enums := [en\<lparr>en_values := [v]\<rparr>]\<rparr>"
  let ?full = "\<lambda>v. [XStart (ascii ''value'') (value_attrs v), XEnd (ascii ''value'')]"
  have read: "consumes xr [XStart (ascii ''value'') (value_attrs v)] (enum_loop xr []) (enum_loop xr [v])"
    using consumes_event[OF enum_loop.simps, of xr "XStart (ascii ''value'') (value_attrs v)" "[]"]
      parse_value_attrs[OF assms(3,4)] by (simp add: lift_res_def)
  have "consumes xr [XEnd (ascii ''value'')] (enum_loop xr [v]) (\<lambda>r. Some (Ok [v], r))"
    using consumes_event[OF enum_loop.simps, of xr "XEnd (ascii ''value'')" "[v]"] by simp
  from consumes_Cons[OF read this]
  have "consumes xr (?full v)
      (protocol_tag xr (ascii ''enum'') [Some (ascii ''name'', en_name en)] no_protocol) (\<lambda>r. Some (Ok ?p, r))"
    by (rule consumes_map[where h = "\<lambda>vs. no_protocol\<lparr>pt_enums := [\<lparr>en_name = en_name en, en_values = vs\<rparr>]\<rparr>"])
      (use assms(1) in \<open>simp_all add: protocol_tag_def lift_res_def attr_required_def from_utf8_lossy_valid no_protocol_def\<close>)
  note first = protocol_part[OF this]
  have pass: "consumes xr [XEnd tag] (protocol_loop xr ?p) (protocol_loop xr ?p)" for tag
    using consumes_event[OF protocol_loop.simps, of xr "XEnd tag" ?p] by simp
  have "consumes xr [XStart (ascii ''value'') attrs] (protocol_loop xr ?p) (protocol_loop xr ?p)" for attrs
    by (rule protocol_part) (simp add: consumes_def protocol_tag_def)
  from consumes_Cons[OF this pass]
  have "consumes xr (concat (map ?full vs)) (protocol_loop xr ?p) (protocol_loop xr ?p)"
    using consumes_fold[of vs xr ?full "\<lambda>_. protocol_loop xr ?p" "\<lambda>_ _. ()" "()"] by simp
  moreover have "consumes xr [XEnd (ascii ''enum''), XEof] (protocol_loop xr ?p) (\<lambda>r. Some (Ok ?p, r))"
    using consumes_Cons[OF pass] consumes_event[OF protocol_loop.simps, of xr XEof ?p] by simp
  ultimately have "consumes xr ((XStart (ascii ''enum'') [Some (ascii ''name'', en_name en)] # ?full v) @
      concat (map ?full vs) @ [XEnd (ascii ''enum''), XEof]) (protocol_loop xr no_protocol) (\<lambda>r. Some (Ok ?p, r))"
    by (intro consumes_append[OF first] consumes_append)
  with events assms(2) show ?thesis by (simp add: consumes_def parse_protocol_def)
qed

theorem full_value_ends_enum_witness:
  "parse_protocol list_reader ([XStart (ascii ''enum'') [Some (ascii ''name'', ascii ''blend'')]] @
     concat (map (\<lambda>v. [XStart (ascii ''value'') (value_attrs v), XEnd (ascii ''value'')]) (en_values sample_enum)) @
     [XEnd (ascii ''enum''), XEof]) =
   Some (Ok (no_protocol\<lparr>pt_enums := [sample_enum\<lparr>en_values := [hd (en_values sample_enum)]\<rparr>]\<rparr>), [])"
  using full_value_ends_enum[of sample_enum "hd (en_values sample_enum)" "tl (en_values sample_enum)" list_reader _ "[]",
      OF _ _ _ _ list_reader_delivers]
  by (simp add: sample_enum_def opt_ok_def)

section \<open>What is parsed is well formed\<close>

text \<open>The generated code of an argument of an enum type needs the name of the enum.\<close>

definition arg_typed :: "arg \<Rightarrow> bool" where
  "arg_typed a \<longleftrightarrow> (arg_type a = TEnum \<longrightarrow> arg_interface a \<noteq> None)"

definition method_typed :: "method_decl \<Rightarrow> bool" where
  "method_typed m \<longleftrightarrow> (\<forall>a \<in> set (md_args m). arg_typed a)"

definition object_typed :: "object_decl \<Rightarrow> bool" where
  "object_typed obj \<longleftrightarrow> (\<forall>m \<in> set (od_c2s obj) \<union> set (od_s2c obj). method_typed m)"

definition gives :: "('a \<Rightarrow> bool) \<Rightarrow> (scan_error, 'a, 'r) eff \<Rightarrow> bool" where
  "gives P m \<longleftrightarrow> (\<forall>x r. m = Some (Ok x, r) \<longrightarrow> P x)"

lemma gives_bind: "(\<And>x r. m = Some (Ok x, r) \<Longrightarrow> gives P (f x r)) \<Longrightarrow> gives P (bind_eff m f)"
  by (auto simp: gives_def bind_eff_Some)

lemma gives_simps [simp]:
  "gives P (Some (Ok x, r)) \<longleftrightarrow> P x" "gives P (Some (Err e, r))" "gives P (Some (Panic, r))" "gives P None"
  by (auto simp: gives_def)

lemma gives_if: "(b \<Longrightarrow> gives P m) \<Longrightarrow> (\<not> b \<Longrightarrow> gives P m') \<Longrightarrow> gives P (if b then m else m')"
  by simp

lemma gives_raw: "(\<And>y. m = Some y \<Longrightarrow> gives P (Some y)) \<Longrightarrow> gives P m"
  by (cases m) simp_all

lemma gives_of: "m = Some y \<Longrightarrow> gives P m \<Longrightarrow> gives P (Some y)"
  by simp

lemma gives_top: "gives (\<lambda>_. True) m"
  by (simp add: gives_def)

lemma parse_arg_typed: "parse_arg attrs = Ok a \<Longrightarrow> arg_typed a"
  by (auto simp: parse_arg_def bind_res_eq_Ok Let_def arg_typed_def split: if_splits)

lemma method_loop_typed:
  assumes "\<forall>a \<in> set (mp_args ps). arg_typed a"
  shows "gives (\<lambda>ps. \<forall>a \<in> set (mp_args ps). arg_typed a) (method_loop xr ps r)"
proof -
  let ?P = "\<lambda>ps. \<forall>a \<in> set (mp_args ps). arg_typed a"
  have "?P ps \<longrightarrow> gives ?P (Some y)" if "method_loop xr ps r = Some y" for y
  proof (rule method_loop.raw_induct[where P = "\<lambda>xr ps r y. ?P ps \<longrightarrow> gives ?P (Some y)", OF _ that], goal_cases)
    case (1 loop xr ps r y)
    have IH: "gives ?P (loop xr ps r)" if "?P ps" for ps r
      by (rule gives_raw) (use 1(1) that in blast)
    show ?case
    proof
      assume ps: "?P ps"
      show "gives ?P (Some y)"
        by (rule gives_of[OF 1(2)], rule gives_bind, rename_tac e r', case_tac e; simp only: xml_event.case;
            (intro gives_if gives_bind IH)?)
          (use ps in \<open>auto simp: add_arg_def dest: parse_arg_typed simp del: ascii_Cons\<close>)
    qed
  qed
  note typed = this
  show ?thesis by (rule gives_raw) (use typed assms in blast)
qed

lemma parse_method_typed: "gives method_typed (parse_method xr attrs r)"
proof -
  have "\<forall>a \<in> set (mp_args ps). arg_typed a" if "method_loop xr no_parts r = Some (Ok ps, r')" for ps r r'
    using method_loop_typed[of no_parts xr r] that by (simp add: no_parts_def gives_def)
  then show ?thesis unfolding parse_method_def by (intro gives_bind) (auto simp: method_typed_def)
qed

definition parts_typed :: "object_parts \<Rightarrow> bool" where
  "parts_typed ps \<longleftrightarrow> (\<forall>m \<in> set (op_c2s ps) \<union> set (op_s2c ps). method_typed m)"

lemma object_loop_typed:
  assumes "parts_typed ps"
  shows "gives parts_typed (object_loop xr ps r)"
proof -
  have "parts_typed ps \<longrightarrow> gives parts_typed (Some y)" if "object_loop xr ps r = Some y" for y
  proof (rule object_loop.raw_induct[where P = "\<lambda>xr ps r y. parts_typed ps \<longrightarrow> gives parts_typed (Some y)", OF _ that],
      goal_cases)
    case (1 loop xr ps r y)
    have IH: "gives parts_typed (loop xr ps r)" if "parts_typed ps" for ps r
      by (rule gives_raw) (use 1(1) that in blast)
    have meth: "method_typed m" if "parse_method xr attrs r = Some (Ok m, r')" for attrs r m r'
      using parse_method_typed[of xr attrs r] that by (simp add: gives_def)
    show ?case
    proof
      assume ps: "parts_typed ps"
      show "gives parts_typed (Some y)"
        by (rule gives_of[OF 1(2)], rule gives_bind, rename_tac e r', case_tac e; simp only: xml_event.case;
            (intro gives_if gives_bind IH)?)
          (use ps in \<open>auto simp: parts_typed_def dest: meth simp del: ascii_Cons\<close>)
    qed
  qed
  note typed = this
  show ?thesis by (rule gives_raw) (use typed assms in blast)
qed

lemma parse_object_typed: "gives object_typed (parse_object xr attrs r)"
proof -
  have "parts_typed ps" if "object_loop xr no_object_parts r = Some (Ok ps, r')" for ps r r'
    using object_loop_typed[of no_object_parts xr r] that by (simp add: no_object_parts_def parts_typed_def gives_def)
  then show ?thesis
    unfolding parse_object_def by (intro gives_bind) (auto simp: object_typed_def parts_typed_def)
qed

lemma protocol_tag_typed:
  assumes "\<forall>obj \<in> set (pt_objects p). object_typed obj"
  shows "gives (\<lambda>p. \<forall>obj \<in> set (pt_objects p). object_typed obj) (protocol_tag xr tag attrs p r)"
proof -
  have "object_typed obj" if "parse_object xr attrs r = Some (Ok obj, r')" for obj r'
    using parse_object_typed[of xr attrs r] that by (simp add: gives_def)
  with assms show ?thesis
    unfolding protocol_tag_def by (intro gives_if gives_bind) (auto simp: gives_def)
qed

text \<open>C38: Whatever the input is, a protocol that \<open>parse_protocol\<close> returns is typed: each argument of type enum, in
  the methods of both directions of every object, names the enum, which the generated code of the argument needs.\<close>
theorem parsed_protocol_typed:
  assumes "parse_protocol xr r = Some (Ok p, r')" and "obj \<in> set (pt_objects p)"
  shows "object_typed obj"
proof -
  let ?P = "\<lambda>p. \<forall>obj \<in> set (pt_objects p). object_typed obj"
  have "?P p \<longrightarrow> gives ?P (Some y)" if "protocol_loop xr p r = Some y" for p y
  proof (rule protocol_loop.raw_induct[where P = "\<lambda>xr p r y. ?P p \<longrightarrow> gives ?P (Some y)", OF _ that], goal_cases)
    case (1 loop xr p r y)
    have IH: "gives ?P (loop xr p r)" if "?P p" for p r
      by (rule gives_raw) (use 1(1) that in blast)
    have tag: "?P q" if "protocol_tag xr tag attrs p r = Some (Ok q, r')" and "?P p" for tag attrs r q r'
      using protocol_tag_typed[of p xr tag attrs r] that by (simp add: gives_def)
    show ?case
    proof
      assume p: "?P p"
      show "gives ?P (Some y)"
        by (rule gives_of[OF 1(2)], rule gives_bind, rename_tac e r', case_tac e; simp only: xml_event.case;
            (intro gives_bind IH)?)
          (use p tag in auto)
    qed
  qed
  from this[of no_protocol "(Ok p, r')"] assms show ?thesis
    by (simp add: parse_protocol_def no_protocol_def gives_def)
qed

theorem parsed_protocol_typed_witness: "object_typed (hd (pt_objects sample_protocol))"
  using parsed_protocol_typed[OF sample_protocol_read] by (simp add: sample_protocol_def)

end
