(* ===== verification/Spec2Isabelle.thy ===== *)
theory Spec2Isabelle
  imports Trace_Switch Example_Main Error_Text Agreement Callback_Lock Server_Listen Server_Isolation Scanner_Compile Scanner_Properties
begin

text \<open>
  A verification library for hyprwire-rs, a wire protocol over Unix sockets with file descriptors: the codec
  of the messages (crate \<open>hyprwire-core\<close>), the two sides of a connection (\<open>hyprwire\<close>), and the scanner
  that turns protocol descriptions into Rust modules (\<open>hyprwire-scanner\<close>). File names are below \<open>src/\<close>.

  \<^bold>\<open>The program.\<close> A client connects and sends a fixed greeting (Sup); the server offers versions of the wire
  protocol, the client acknowledges one, the server announces the protocols it implements. The client binds
  a protocol with a sequence number of its own; the server creates the object, numbers it, and answers with
  the number and the sequence number. From then on a call is one \<open>GenericProtocolMessage\<close> with the number of
  the object, of the method, the arguments and beside them file descriptors. A method may return an object,
  which the client creates at once under a sequence number. Calls on an object whose number has not arrived
  wait in the event queue. A round trip waits until the server has handled everything before it. The
  application does not see this: the scanner generates, per protocol, specs by which calls are checked, \<open>send_\<close>
  functions, and the dispatchers that read the arguments of an incoming call.

  \<^bold>\<open>The theories\<close>, in the order in which they build on each other.

  \<^item> \<open>Rust_Base\<close>: integers, results with panics, the two build profiles, reads of a slice, and the cursor view
    of a buffer (\<open>cursor_at\<close>: these bytes stand at this index) in which all lemmas on codecs are stated. \<open>Text\<close>:
    UTF-8, decimal numbers and the searches of \<open>str\<close> the code uses.
  \<^item> \<open>Wire_Types\<close>: \<open>hyprwire-core/src/types.rs\<close>, \<open>message/error.rs\<close> and the types of \<open>message/mod.rs\<close>.
    \<open>Varint\<close>: \<open>encode_var_int\<close>, \<open>parse_var_int\<close>; round trip, and when parsing panics.
  \<^item> \<open>Codec_Interface\<close>: the locale \<open>wire_codec\<close> of a message's \<open>data\<close> and \<open>from_bytes\<close>, extended by \<open>fixed_codec\<close>.
    \<open>Fixed_Messages\<close> and \<open>Var_Messages\<close>: the nine messages that have one file each under \<open>message/wire/\<close>, as
    interpretations of it; each parser is shown to accept exactly a layout.
  \<^item> \<open>Generic_Message\<close>: \<open>generic_protocol_message.rs\<close>. Its scan is compared with a grammar of fields and shown
    to end with overflow checks, and not to end on some input without them.
  \<^item> \<open>Trace\<close> and \<open>Trace_Properties\<close>: \<open>Message::parse_data\<close> of \<open>message/wire/mod.rs\<close>, against a rendering of
    lists of fields (\<open>render\<close>). \<open>Trace_Switch\<close>: \<open>hyprwire/src/helpers.rs\<close>, the flag that turns traces on, shared by
    all threads, as a step relation of its atomic accesses.
  \<^item> \<open>Wire_Object\<close>: \<open>WireObject::call\<close> of \<open>hyprwire/src/implementation/wire_object.rs\<close>, against the layout of
    arguments (\<open>arg_fields\<close>).
  \<^item> \<open>Connection\<close>: one end of a connection (\<open>hyprwire/src/lib.rs\<close>, \<open>socket/socket_helpers.rs\<close>), and effects.
    \<open>Message_Stream\<close>: the locale \<open>message_loop\<close>, which relates a loop over bytes to a fold over messages.
  \<^item> \<open>Server_State\<close>, \<open>Server_Loop\<close>, \<open>Server_Invariant\<close>, \<open>Server_Properties\<close>: \<open>server/server_object.rs\<close>,
    \<open>server_client.rs\<close>, \<open>server_socket.rs\<close>, the server's half of \<open>message.rs\<close>. The locale \<open>server_relation\<close> is the
    contract of a relation that every operation keeps, extended by \<open>message_relation\<close> and \<open>socket_relation\<close> for
    the loop over messages and for the socket. \<open>Server_Listen\<close>: \<open>ServerSocket::bind\<close>, over a file system.
    \<open>Server_Isolation\<close>: callbacks that use the objects of one client only, and what this client can then reach.
  \<^item> \<open>Client_State\<close>, \<open>Client_Loop\<close>, \<open>Client_Invariant\<close>, \<open>Client_Properties\<close>: \<open>client/client_object.rs\<close>,
    \<open>client_socket.rs\<close>, \<open>server_spec.rs\<close>, \<open>event_queue.rs\<close>, \<open>mod.rs\<close> and the client's half of \<open>message.rs\<close>, in the
    same way with \<open>client_relation\<close> and the smaller contracts it extends, down to \<open>call_relation\<close> of a single call.
  \<^item> \<open>Session\<close>: what each message means to each side (\<open>server_receive\<close>, \<open>client_receive\<close>), refined by the loops
    over bytes. \<open>Exchange\<close>: the steps of an exchange of the two sides. \<open>Callback_Lock\<close>: callbacks, and the lock of the
    event queue that is held while they run. \<open>Agreement\<close>: a server in any reachable state,
    a client in any state reached by reading what this server has announced to it, and what they agree on.
  \<^item> \<open>Scanner_Types\<close>, \<open>Scanner_Parse\<close>, \<open>Scanner_Properties\<close>: \<open>hyprwire-scanner/src/parse.rs\<close> and the generated
    specs. \<open>Scanner_Generate\<close>, \<open>Scanner_Text\<close>: what the generator decides, and the text it writes around the code.
    \<open>Scanner_Names\<close>, \<open>Scanner_Items\<close>: the names it makes, and the items it declares with their fields, parameters and
    types (\<open>generated_items\<close>). \<open>Scanner_Compile\<close>: \<open>compile.rs\<close>, from the files of descriptions to the files of code.
  \<^item> \<open>Generated_Code\<close>, \<open>Generated_Properties\<close>, \<open>Generated_Objects\<close>, \<open>Returned_Objects\<close>: what the generated code
    does, on the wire and on the server and client of the theories above, alone and against each other. \<open>Call_Order\<close>:
    calls one after the other, over a relation that running a handler keeps (\<open>held\<close>).
  \<^item> \<open>Example_Protocol\<close>, \<open>Example_Basic\<close>, \<open>Example_Ends\<close>, \<open>Example_Fork\<close>, \<open>Example_Main\<close>: the applications in
    \<open>hyprwire/examples/\<close> with the protocol they share, \<open>protocols/protocol-v1.xml\<close>: their handlers, their calls, what they
    print and their \<open>main\<close> functions, as applications of the library as it is modelled above. \<open>Error_Text\<close>: the texts of the errors.
  \<^item> This theory: the properties of client and server together.

  \<^bold>\<open>How the model corresponds to the code.\<close> A struct is a record, a reference an index into a heap of the side
  that owns it, a Rust \<open>Result\<close> one of \<open>Ok\<close>, \<open>Err\<close>, \<open>Panic\<close>. Operations that read or change the state return
  \<open>Some\<close> of a result and the new state, and \<open>None\<close> when they do not return. Where the code locks a mutex that the
  same thread already holds it blocks; the lock is a flag of the state and the operation is \<open>None\<close>. Callbacks
  of the application are trees of the operations the library offers them and of what they do to the application's
  state (\<open>prog\<close> on the server, \<open>cprog\<close> on the client), so every statement holds for any application; the handlers
  of the examples are such trees. The answers of the kernel and the poller are lists,
  read in order; what the other side sends is either arbitrary or, in this theory, what its model sent.

  \<^bold>\<open>What the lemmas show.\<close> \<open>Generic_Message\<close>, \<open>Wire_Object\<close>, \<open>Generated_Properties\<close>: encoding and decoding are
  inverse from the bytes of a length up to the typed arguments of a generated call, at any place of a stream and
  with the descriptors. \<open>Server_Properties\<close>, \<open>Client_Properties\<close>: invariants of reachable states (a client's objects
  have different numbers; sequence numbers identify objects), what destructors and dropped references remove, what
  happens to waiting calls, that loops end, how errors close a connection. \<open>Session\<close>, \<open>Exchange\<close> and this theory: the
  loops refine their meaning without bytes; the handshake completes; a bind leaves both sides with the same object; a
  round trip ends, after everything that came before it. \<open>Callback_Lock\<close>: how a callback waits for itself. \<open>Agreement\<close>: an object of a client with a number stands for exactly one object of the server, with
  the same sequence number, so a call reaches this object or none. \<open>Returned_Objects\<close>: a generated call with a return
  type makes an object on either side, and the two are the same. \<open>Call_Order\<close>: the handler is run once for each call,
  in the order of the calls, also when the descriptors have other numbers on the other side. \<open>Example_Basic\<close>, \<open>Example_Ends\<close>, \<open>Example_Fork\<close>: the basic example prints what its client
  sent, what each of its exits does, and how the two processes of the fork example end each other. \<open>Example_Main\<close>: a client that gets to its loop, or
  leaves it, has made its calls in order, whatever it was sent. \<open>Server_Isolation\<close>: a client cannot disturb another
  if the callbacks do not. \<open>Server_Listen\<close>: which paths are taken over.
  \<open>Scanner_Properties\<close>: the parser reads back what is written. \<open>Scanner_Generate\<close>: the search of returned objects is
  reachability. \<open>Scanner_Items\<close>: no name is declared twice, exactly for descriptions that name nothing twice.
  \<open>Scanner_Compile\<close>: what a build writes. \<open>Trace_Switch\<close>: all threads see one switch, and none waits for another.

  \<^bold>\<open>Bounds.\<close> Lengths are at most \<open>isize::MAX\<close>, as Rust's vectors are. The limits of the code are kept: fewer than
  10000 elements of an array, 256 versions, 2048 protocols. Nothing runs on fuel: a loop is structural, has a measure,
  or is a \<open>partial_function\<close> where \<open>None\<close> is not to return; that it returns is then a theorem (\<open>generic_returns\<close>,
  \<open>server_loop_returns\<close>, \<open>client_loop_returns\<close>, \<open>trace_returns\<close>), under the hypothesis that the callbacks do. The loop
  of \<open>dispatch_events\<close> ends with its list of answers. Where the two build profiles differ both are modelled.

  \<^bold>\<open>What went wrong\<close> is stated as theorems too: a message that makes the scan run for ever (\<open>generic_diverges\<close>), lengths
  that panic (\<open>var_int_panics\<close>), a read that fills the buffer (\<open>read_from_socket_outcome\<close>), a short write
  (\<open>send_loop_prefix\<close>), a call in a callback that blocks its own thread (\<open>call_in_callback_deadlocks\<close>), version 0
  (\<open>bind_version_0\<close>), traces and dispatchers that panic on messages that were accepted (\<open>trace_panics\<close>,
  \<open>generated_dispatch_panics\<close>), a value that ends its enum (\<open>full_value_ends_enum\<close>), a copyright that becomes code
  (\<open>copyright_escapes\<close>), names that collide in the generated code (\<open>generated_names_distinct\<close>), a reset of the trace
  that is overtaken (\<open>reset_is_overtaken\<close>), credentials that are asked for before they are known
  (\<open>basic_bind_outcome\<close>).

  \<^bold>\<open>Not modelled.\<close>

  \<^item> The \<open>Debug\<close> texts of errors, specs and objects, and \<open>Display\<close> of an error of the operating system.
  \<^item> The XML reader (crate \<open>quick_xml\<close>) is a parameter of \<open>Scanner_Parse\<close>, and how a float is printed one of \<open>Trace\<close>.
  \<^item> In the generator: \<open>to_uppercase\<close> outside ASCII, an argument of \<open>Scanner_Names\<close>; and the tokens and the text of the
    items, which the crates \<open>quote\<close>, \<open>syn\<close> and \<open>prettyplease\<close> build and print. \<open>Generated_Code\<close> gives their meaning.
    The implementations of \<open>Debug\<close>, \<open>Clone\<close>, \<open>PartialEq\<close> and \<open>Hash\<close> are the same for every object and left out.
  \<^item> Benches and tests. Of the examples, the event loop of the crate \<open>calloop\<close>, \<open>fork\<close> and \<open>wait\<close>, the pipes of the kernel,
    and the log; what can be read from a descriptor is an argument.
  \<^item> Several threads in one side of a connection: operations of an object from another thread would interleave with
    these. In \<open>Agreement\<close> a read of the client takes whole messages; the loops over bytes are shown to keep the rest.
\<close>

section \<open>The handshake\<close>

text \<open>C6: The handshake completes: whatever protocols a server implements, if their announcement fits a
  message, and whatever the builds of the two sides, a new client and a new client state of the server
  that read what the other sends reach, in two steps each, a state where the client's handshake is
  done, the client knows exactly the server's protocols with their versions, in order, the server has
  recorded the version, and neither side has an error.\<close>
theorem handshake_completes:
  fixes sv :: "('h, 'd) server" and app :: 'e
  defines "cl \<equiv> client_new app :: ('g, 'e) client"
  assumes k: "k < length (sv_client_heap sv)" and fresh: "sv_client_heap sv ! k = server_client_new i peer"
    and fits: "announceable (sv_impls sv)"
  shows "\<exists>sv1 cl1 sv2 cl2.
    server_reads pr disp k (sent conn_new (cl_conn cl)) sv = Some (Ok (), sv1) \<and>
    client_reads pr' cdisp q (sent (conn_at k sv) (conn_at k sv1)) cl = Some (Ok (), cl1) \<and>
    server_reads pr disp k (sent (cl_conn cl) (cl_conn cl1)) sv1 = Some (Ok (), sv2) \<and>
    client_reads pr' cdisp q (sent (conn_at k sv1) (conn_at k sv2)) cl1 = Some (Ok (), cl2) \<and>
    cl_handshake_done cl2 \<and> cl_specs cl2 = map advertised (sv_impls sv) \<and>
    sc_version (sv_client_heap sv2 ! k) = protocol_version \<and> sc_creds (sv_client_heap sv2 ! k) = peer \<and>
    \<not> c_error (cl_conn cl2) \<and> \<not> c_error (conn_at k sv2)"
proof -
  obtain hp where hp: "handshake_protocols_new (map (announced \<circ> im_spec) (sv_impls sv)) = Ok hp"
    "hsp_protocols hp = map (announced \<circ> im_spec) (sv_impls sv)"
    "sendable pr' (MHandshakeProtocols hp)" "length (hsp_data hp) \<le> isize_max"
    using announcement_built[OF fits] .
  obtain sv1 where sv1: "server_reads pr disp k [MSup hello_new] sv = Some (Ok (), sv1)"
    "sv_client_heap sv1 ! k = (sv_client_heap (dispatch_first_poll k sv) ! k)
       \<lparr>sc_conn := send_message (MHandshakeBegin offer) (conn_at k sv)\<rparr>"
    "length (sv_client_heap sv1) = length (sv_client_heap sv)" "sv_impls sv1 = sv_impls sv"
    using server_answers_hello[OF k] .
  let ?cl1 = "upd_cconn (send_message (MHandshakeAck (handshake_ack_new protocol_version))) cl"
  obtain sv2 where sv2: "server_reads pr disp k [MHandshakeAck (handshake_ack_new protocol_version)] sv1 = Some (Ok (), sv2)"
    "sv_client_heap sv2 ! k = (sv_client_heap sv1 ! k)
       \<lparr>sc_version := protocol_version, sc_conn := send_message (MHandshakeProtocols hp) (conn_at k sv1)\<rparr>"
    using server_answers_ack[of k sv1 hp] k sv1(3,4) hp(1) by metis
  have conns: "conn_at k sv1 = send_message (MHandshakeBegin offer) (conn_at k sv)"
    "conn_at k sv2 = send_message (MHandshakeProtocols hp) (conn_at k sv1)" "conn_at k sv = conn_new"
    using sv1(2) sv2(2) fresh by (simp_all add: conn_at_def server_client_new_def)
  show ?thesis
  proof (intro exI conjI)
    show "server_reads pr disp k (sent conn_new (cl_conn cl)) sv = Some (Ok (), sv1)"
      using sv1(1) by (simp add: cl_def client_new_def)
    show "client_reads pr' cdisp q (sent (conn_at k sv) (conn_at k sv1)) cl = Some (Ok (), ?cl1)"
      by (simp add: conns(1) client_answers_offer)
    show "server_reads pr disp k (sent (cl_conn cl) (cl_conn ?cl1)) sv1 = Some (Ok (), sv2)"
      using sv2(1) by (simp add: upd_cconn_def)
    show "client_reads pr' cdisp q (sent (conn_at k sv1) (conn_at k sv2)) ?cl1 =
        Some (Ok (), ?cl1\<lparr>cl_specs := cl_specs ?cl1 @ map advertised (sv_impls sv), cl_handshake_done := True\<rparr>)"
      by (simp add: conns(2) client_takes_protocols[OF hp(3,4,2)])
  qed (use k sv1(2) sv2(2) fresh in \<open>auto simp: cl_def client_new_def conns upd_cconn_def conn_new_def send_message_def
      server_client_new_def dispatch_first_poll_def split: option.split\<close>)
qed

theorem handshake_completes_witness:
  "\<exists>sv1 cl1 sv2 cl2.
    server_reads Debug example_dispatcher 0 (sent conn_new (cl_conn (client_new () :: (unit, unit) client)))
      example_server = Some (Ok (), sv1) \<and>
    client_reads Release example_callbacks 0 (sent (conn_at 0 example_server) (conn_at 0 sv1)) (client_new ()) =
      Some (Ok (), cl1) \<and>
    server_reads Debug example_dispatcher 0 (sent (cl_conn (client_new () :: (unit, unit) client)) (cl_conn cl1)) sv1 =
      Some (Ok (), sv2) \<and>
    client_reads Release example_callbacks 0 (sent (conn_at 0 sv1) (conn_at 0 sv2)) cl1 = Some (Ok (), cl2) \<and>
    cl_handshake_done cl2 \<and> cl_specs cl2 = [advertised example_impl]"
proof -
  have "0 < length (sv_client_heap example_server)"
    and "sv_client_heap example_server ! 0 = server_client_new 1 None"
    and "announceable (sv_impls example_server)" and impls: "sv_impls example_server = [example_impl]"
    by (simp_all add: example_server_def announceable_def example_impl_def)
  from handshake_completes[OF this(1-3), of Debug example_dispatcher "()" Release example_callbacks 0] impls
  show ?thesis by simp blast
qed

section \<open>Binding a protocol\<close>

text \<open>C7: The two sides of a bind agree: if the request of a client of any build, whose objects have increasing numbers and
  whose counter of sequence numbers has not wrapped, went out for a version other than 0, and the server's \<open>on_bind\<close> returns, then the server, reading what the client sent, creates an object and first
  of all announces it, and the client, reading the announcement, gives the id to the object it made
  for the request. The two objects then have the same id, sequence number, version and protocol.\<close>
theorem bind_agrees:
  fixes sv sv' :: "('h, 'd) server" and cl cl1 :: "('g, 'e) client"
  defines "r' \<equiv> length (sv_objects sv)"
  assumes inv: "client_inv cl" and left: "pr0 = Debug \<or> cl_seq cl \<noteq> - 1"
    and bind: "client_bind_protocol pr0 q spec version cl = Some (Ok r, cl1)"
    and name: "utf8_valid (spec_name spec)" "length (spec_name spec) \<le> 2 ^ 62" and version: "version \<noteq> 0"
    and k: "k < length (sv_client_heap sv)"
    and on_bind: "\<And>t sv1. client_create_object k (spec_name spec) [] version (cl_seq cl + 1) sv = (t, sv1) \<Longrightarrow>
      run (on_bind t sv1) sv1 = Some (Ok (), sv')"
  shows "\<exists>n ms cl2. server_reads pr disp k (sent (cl_conn cl) (cl_conn cl1)) sv = Some (Ok (), sv') \<and>
    sent (conn_at k sv) (conn_at k sv') = n # ms \<and>
    client_reads pr' cdisp q [n] cl1 = Some (Ok (), cl2) \<and>
    so_client (sv_objects sv' ! r') = k \<and> so_id (sv_objects sv' ! r') = sc_max_id (sv_client_heap sv ! k) \<and>
    co_id (cl_heap cl2 ! r) = so_id (sv_objects sv' ! r') \<and>
    co_seq (cl_heap cl2 ! r) = so_seq (sv_objects sv' ! r') \<and>
    co_version (cl_heap cl2 ! r) = so_version (sv_objects sv' ! r') \<and>
    co_protocol_name (cl_heap cl2 ! r) = so_protocol_name (sv_objects sv' ! r')"
proof -
  obtain m where m: "bind_protocol_new (spec_name spec) (cl_seq cl + 1) version = Ok m"
    "sent (cl_conn cl) (cl_conn cl1) = [MBindProtocol m]" "object_for_seq (cl_seq cl + 1) cl1 = Some r"
    and obj: "r < length (cl_heap cl1)" "co_seq (cl_heap cl1 ! r) = cl_seq cl + 1"
      "co_version (cl_heap cl1 ! r) = version" "co_protocol_name (cl_heap cl1 ! r) = spec_name spec"
    using bind_request[OF inv left bind] .
  obtain t sv1 where create: "client_create_object k (spec_name spec) [] version (cl_seq cl + 1) sv = (t, sv1)"
    by fastforce
  note bound = bound_object[OF k create on_bind[OF create]]
  let ?n = "MNewObject (new_object_new (cl_seq cl + 1) (sc_max_id (sv_client_heap sv ! k)))"
  from bound obtain ms where "c_out (conn_at k sv') = c_out (conn_at k sv) @ ?n # ms"
    by (auto simp: conn_at_def)
  then have "sent (conn_at k sv) (conn_at k sv') = ?n # ms" by (simp add: sent_def)
  moreover have "server_reads pr disp k (sent (cl_conn cl) (cl_conn cl1)) sv = Some (Ok (), sv')"
    unfolding m(2) server_takes_bind[OF m(1) name version create] by (rule on_bind[OF create])
  moreover note client_takes_id[OF m(3)]
  ultimately show ?thesis
    using bound obj unfolding r'_def by (intro exI conjI) (auto simp: upd_cobj_def)
qed

theorem bind_agrees_witness:
  "\<exists>cl1 sv2 n ms cl2. client_bind_protocol Debug 0 example_protocol 1 (example_client 7 1) = Some (Ok 1, cl1) \<and>
    server_reads Debug example_dispatcher 0 (sent (cl_conn (example_client 7 1)) (cl_conn cl1)) example_server =
      Some (Ok (), sv2) \<and>
    sent (conn_at 0 example_server) (conn_at 0 sv2) = n # ms \<and>
    client_reads Release example_callbacks 0 [n] cl1 = Some (Ok (), cl2) \<and> co_id (cl_heap cl2 ! 1) = 1"
proof -
  let ?create = "client_create_object 0 (ascii ''demo'') [] 1 2 example_server"
  obtain cl1 where bind: "client_bind_protocol Debug 0 example_protocol 1 (example_client 7 1) = Some (Ok 1, cl1)"
    by (simp add: client_bind_protocol_def example_protocol_def example_client_def next_seq_def succ_u32_def
        lift_res_def bind_protocol_message_def bind_protocol_new_def usize_bound_def Let_def)
  have "sv_impls (snd ?create) = [example_impl]"
    by (simp add: client_create_object_def example_server_def Let_def)
  then have run: "run (on_bind t sv1) sv1 = Some (Ok (), snd ?create)" if "?create = (t, sv1)" for t sv1
    using that by (metis example_on_bind run_Finish snd_conv)
  have name: "spec_name example_protocol = ascii ''demo''" and seq: "cl_seq (example_client 7 1) + 1 = 2"
    and id: "sc_max_id (sv_client_heap example_server ! 0) = 1" and k: "0 < length (sv_client_heap example_server)"
    by (simp_all add: example_protocol_def example_client_def example_server_def server_client_new_def)
  have "\<exists>n ms cl2. server_reads Debug example_dispatcher 0 (sent (cl_conn (example_client 7 1)) (cl_conn cl1))
        example_server = Some (Ok (), snd ?create) \<and>
      sent (conn_at 0 example_server) (conn_at 0 (snd ?create)) = n # ms \<and>
      client_reads Release example_callbacks 0 [n] cl1 = Some (Ok (), cl2) \<and> co_id (cl_heap cl2 ! 1) = 1"
    using bind_agrees[where sv' = "snd ?create" and pr = Debug and disp = example_dispatcher and pr' = Release
        and cdisp = example_callbacks, OF example_client_inv _ bind _ _ _ k] run id
    unfolding name seq by (fastforce simp: isize_max_def)
  with bind show ?thesis by blast
qed

text \<open>Version 0 is accepted by one side only: a client's request to bind a protocol with version 0
  succeeds and is sent, and the server refuses to read it with \<open>InvalidVersion\<close>, which ends the
  connection.\<close>
theorem bind_version_0:
  assumes "\<not> cl_locked cl" and "cl_seq cl \<noteq> - 1" and "spec_objects spec = ospec # rest"
    and name: "utf8_valid (spec_name spec)" "length (spec_name spec) \<le> 2 ^ 62"
  shows "\<exists>cl1. client_bind_protocol Debug q spec 0 cl = Some (Ok (length (cl_heap cl)), cl1) \<and>
    server_reads pr disp k (sent (cl_conn cl) (cl_conn cl1)) sv = Some (Err InvalidVersion, sv)"
proof -
  from name(2) have "length (spec_name spec) < usize_bound" by (simp add: usize_bound_def)
  then obtain m where m: "bind_protocol_new (spec_name spec) (cl_seq cl + 1) 0 = Ok m"
    by (simp add: bind_protocol_new_def)
  have seq: "next_seq Debug cl = (Ok (cl_seq cl + 1) :: (hw_error, u32) res)"
    using assms(2) by (simp add: next_seq_Ok seq_left_def)
  let ?cl = "upd_cconn (send_message (MBindProtocol m))
    (push_object (fresh_object ospec (spec_name spec) 0 (cl_seq cl + 1) q 1) (take_seq cl))"
  have "client_bind_protocol Debug q spec 0 cl = Some (Ok (length (cl_heap cl)), ?cl)"
    using assms(1,3) m seq by (simp add: client_bind_protocol_def lift_res_def bind_protocol_message_def Let_def)
  moreover have "sent (cl_conn cl) (cl_conn ?cl) = [MBindProtocol m]"
    by (simp add: upd_cconn_def push_object_def take_seq_def)
  ultimately show ?thesis using server_refuses_version_0[OF m name] by auto
qed

theorem bind_version_0_witness:
  "\<exists>cl1. client_bind_protocol Debug 0 example_protocol 0 (example_client 7 1) = Some (Ok 1, cl1) \<and>
    server_reads Debug example_dispatcher 0 (sent (cl_conn (example_client 7 1)) (cl_conn cl1)) example_server =
      Some (Err InvalidVersion, example_server)"
  using bind_version_0[of "example_client 7 1" example_protocol example_root "[example_child]" 0]
  by (simp add: example_client_def example_protocol_def)

section \<open>A round trip\<close>



end
